(* ===== verification/Rust_Text.thy ===== *)
theory Rust_Text
  imports Docparse_Prelude "HOL-Library.List_Lexorder"
begin

text \<open>
  Rust strings. A \<open>char\<close> is a Unicode scalar value, here an integer; a \<open>String\<close> or
  \<open>&str\<close> is the list of its characters. The code counts both characters
  (\<open>chars().count()\<close>, the length of the list) and UTF-8 bytes (\<open>len()\<close>, \<open>get(a..b)\<close>), so the
  byte width of a character is written out and slicing is partial: it is \<open>None\<close> off a
  character boundary. The order of \<open>str\<close> is that of its bytes, which for UTF-8 is the
  lexicographic order of the scalars, the order of \<^theory_text>\<open>List_Lexorder\<close>.
\<close>

type_synonym uchar = int
type_synonym rstr = "uchar list"

definition lit :: "string \<Rightarrow> rstr" where
  "lit s = map of_char s"

definition utf8_len :: "uchar \<Rightarrow> nat" where
  "utf8_len c = (if c < 128 then 1 else if c < 2048 then 2 else if c < 65536 then 3 else 4)"

fun str_len :: "rstr \<Rightarrow> nat" where
  "str_len [] = 0"
| "str_len (c # s) = utf8_len c + str_len s"

text \<open>\<open>split_at_checked\<close>: the prefix of \<open>n\<close> bytes and the rest, on a character boundary.\<close>

fun str_split :: "rstr \<Rightarrow> nat \<Rightarrow> (rstr \<times> rstr) option" where
  "str_split s 0 = Some ([], s)"
| "str_split [] (Suc n) = None"
| "str_split (c # s) (Suc n) =
     (if Suc n < utf8_len c then None
      else map_option (\<lambda>(a, b). (c # a, b)) (str_split s (Suc n - utf8_len c)))"

definition get_to :: "rstr \<Rightarrow> nat \<Rightarrow> rstr option" where
  "get_to s b = map_option fst (str_split s b)"

definition get_from :: "rstr \<Rightarrow> nat \<Rightarrow> rstr option" where
  "get_from s a = map_option snd (str_split s a)"

definition get_range :: "rstr \<Rightarrow> nat \<Rightarrow> nat \<Rightarrow> rstr option" where
  "get_range s a b =
     (if a \<le> b then (case str_split s a of None \<Rightarrow> None | Some (_, r) \<Rightarrow> get_to r (b - a)) else None)"

text \<open>\<open>char::is_whitespace\<close>: the Unicode \<open>White_Space\<close> property.\<close>

definition is_whitespace :: "uchar \<Rightarrow> bool" where
  "is_whitespace c \<longleftrightarrow>
     9 \<le> c \<and> c \<le> 13 \<or> c = 32 \<or> c = 133 \<or> c = 160 \<or> c = 5760 \<or> 8192 \<le> c \<and> c \<le> 8202 \<or>
     c = 8232 \<or> c = 8233 \<or> c = 8239 \<or> c = 8287 \<or> c = 12288"

definition trim_start :: "rstr \<Rightarrow> rstr" where
  "trim_start s = dropWhile is_whitespace s"

definition trim_end :: "rstr \<Rightarrow> rstr" where
  "trim_end s = rev (dropWhile is_whitespace (rev s))"

definition trim :: "rstr \<Rightarrow> rstr" where
  "trim s = trim_end (trim_start s)"

definition is_ascii_digit :: "uchar \<Rightarrow> bool" where
  "is_ascii_digit c \<longleftrightarrow> 48 \<le> c \<and> c \<le> 57"

text \<open>Decimal rendering of an unsigned integer, as \<open>format!\<close> writes it.\<close>

fun show_nat :: "nat \<Rightarrow> rstr" where
  "show_nat n = (if n < 10 then [48 + int n] else show_nat (n div 10) @ [48 + int (n mod 10)])"

declare show_nat.simps [simp del]

text \<open>\<open>str::parse\<close> to an unsigned integer below a limit: an optional plus sign, then at least one digit.\<close>

fun digits_value :: "nat \<Rightarrow> rstr \<Rightarrow> nat option" where
  "digits_value acc [] = Some acc"
| "digits_value acc (c # s) =
     (if is_ascii_digit c then digits_value (10 * acc + nat (c - 48)) s else None)"

definition parse_unsigned :: "int \<Rightarrow> rstr \<Rightarrow> nat option" where
  "parse_unsigned limit s =
     (let t = (case s of [] \<Rightarrow> [] | c # r \<Rightarrow> if c = 43 then r else s)
      in if t = [] then None
         else (case digits_value 0 t of None \<Rightarrow> None
               | Some n \<Rightarrow> if int n < limit then Some n else None))"

definition u32_limit :: int where
  "u32_limit = 4294967296"

text \<open>The part before the first \<open>:\<close>, which is what \<open>split(':').next()\<close> yields.\<close>

definition before_colon :: "rstr \<Rightarrow> rstr" where
  "before_colon s = takeWhile (\<lambda>c. c \<noteq> 58) s"

definition strip_prefix :: "rstr \<Rightarrow> rstr \<Rightarrow> rstr option" where
  "strip_prefix p s = (if take (length p) s = p then Some (drop (length p) s) else None)"

text \<open>\<open>str::split_once\<close> with a string separator: around its first occurrence.\<close>

fun split_once :: "rstr \<Rightarrow> rstr \<Rightarrow> (rstr \<times> rstr) option" where
  "split_once sep [] = (if sep = [] then Some ([], []) else None)"
| "split_once sep (c # s) =
     (if take (length sep) (c # s) = sep then Some ([], drop (length sep) (c # s))
      else map_option (\<lambda>(a, b). (c # a, b)) (split_once sep s))"

definition starts_with :: "rstr \<Rightarrow> rstr \<Rightarrow> bool" where
  "starts_with s p \<longleftrightarrow> take (length p) s = p"

section \<open>Lemmas\<close>

lemma utf8_len_pos [simp]: "0 < utf8_len c"
  by (simp add: utf8_len_def)

lemma utf8_len_ge1 [simp]: "Suc 0 \<le> utf8_len c"
  by (simp add: utf8_len_def)

lemma str_len_append [simp]: "str_len (s @ t) = str_len s + str_len t"
  by (induction s) simp_all

lemma str_len_eq_0 [simp]: "str_len s = 0 \<longleftrightarrow> s = []"
  by (cases s) (simp_all add: utf8_len_def)

lemma length_le_str_len: "length s \<le> str_len s"
proof (induction s)
  case (Cons c s)
  moreover have "Suc 0 \<le> utf8_len c" by simp
  ultimately show ?case by (simp only: list.size str_len.simps)
qed simp

lemma str_split_0 [simp]: "str_split s 0 = Some ([], s)"
  by (cases s) simp_all

lemma str_split_Cons:
  "0 < n \<Longrightarrow> str_split (c # s) n = (if n < utf8_len c then None
     else map_option (\<lambda>(a, b). (c # a, b)) (str_split s (n - utf8_len c)))"
  by (cases n) simp_all

lemma str_split_Some:
  "str_split s n = Some (a, b) \<longleftrightarrow> s = a @ b \<and> str_len a = n"
proof (induction s n arbitrary: a b rule: str_split.induct)
  case (3 c s n)
  then show ?case
  proof (cases "Suc n < utf8_len c")
    case True
    then show ?thesis by (cases a) auto
  next
    case False
    then show ?thesis using 3 by (cases a) auto
  qed
qed auto

lemma get_to_Some: "get_to s n = Some a \<longleftrightarrow> (\<exists>b. s = a @ b \<and> str_len a = n)"
  by (auto simp: get_to_def str_split_Some)

lemma get_from_Some: "get_from s n = Some b \<longleftrightarrow> (\<exists>a. s = a @ b \<and> str_len a = n)"
  by (auto simp: get_from_def str_split_Some)

lemma get_range_Some:
  "get_range s m n = Some t \<longleftrightarrow> (\<exists>a b. s = a @ t @ b \<and> str_len a = m \<and> str_len a + str_len t = n)"
proof
  assume "get_range s m n = Some t"
  then obtain a r where "m \<le> n" and "str_split s m = Some (a, r)" and "get_to r (n - m) = Some t"
    by (auto simp: get_range_def split: option.splits if_splits)
  then show "\<exists>a b. s = a @ t @ b \<and> str_len a = m \<and> str_len a + str_len t = n"
    by (fastforce simp: str_split_Some get_to_Some)
next
  assume "\<exists>a b. s = a @ t @ b \<and> str_len a = m \<and> str_len a + str_len t = n"
  then obtain a b where s: "s = a @ t @ b" and m: "str_len a = m" and n: "m + str_len t = n" by auto
  from s m have "str_split s m = Some (a, t @ b)" by (simp add: str_split_Some)
  moreover have "get_to (t @ b) (n - m) = Some t" using n by (auto simp: get_to_Some)
  ultimately show "get_range s m n = Some t" using n by (simp add: get_range_def)
qed

lemma digits_value_append:
  "digits_value acc (s @ t) = (case digits_value acc s of None \<Rightarrow> None | Some n \<Rightarrow> digits_value n t)"
  by (induction acc s rule: digits_value.induct) auto

lemma digits_value_show_nat: "digits_value 0 (show_nat n) = Some n"
proof (induction n rule: less_induct)
  case (less n)
  show ?case
  proof (cases "n < 10")
    case True
    then show ?thesis by (simp add: show_nat.simps [of n] is_ascii_digit_def)
  next
    case False
    have d: "n mod 10 \<le> 9" by simp
    from False less.IH [of "n div 10"] have "digits_value 0 (show_nat (n div 10)) = Some (n div 10)" by simp
    with False d show ?thesis
      by (simp add: show_nat.simps [of n] digits_value_append is_ascii_digit_def)
  qed
qed

lemma show_nat_digits: "\<forall>c\<in>set (show_nat n). is_ascii_digit c"
proof (induction n rule: less_induct)
  case (less n)
  have "n mod 10 \<le> 9" by simp
  moreover have "\<not> n < 10 \<Longrightarrow> \<forall>c\<in>set (show_nat (n div 10)). is_ascii_digit c"
    using less [of "n div 10"] by simp
  ultimately show ?case
    by (subst show_nat.simps) (simp add: is_ascii_digit_def)
qed

lemma show_nat_nonempty [simp]: "show_nat n \<noteq> []"
  by (subst show_nat.simps) simp

lemma parse_show_nat: "int n < limit \<Longrightarrow> parse_unsigned limit (show_nat n) = Some n"
proof -
  assume "int n < limit"
  moreover obtain c r where cr: "show_nat n = c # r" by (cases "show_nat n") auto
  moreover have "c \<noteq> 43" using show_nat_digits [of n] cr by (auto simp: is_ascii_digit_def)
  moreover have "digits_value 0 (c # r) = Some n" using digits_value_show_nat [of n] cr by simp
  ultimately show ?thesis by (simp add: parse_unsigned_def del: digits_value.simps)
qed

end
