(* ===== verification/Parse_Jobs.thy ===== *)
theory Parse_Jobs
  imports Rust_Text "HOL-Library.Product_Lexorder"
begin

text \<open>
  The durable job queue: \<open>crates/database/src/query/parse_job.rs\<close> over the entity of
  \<open>crates/database/src/entities/parse_jobs.rs\<close>, and the history page of
  \<open>crates/server/src/routers/jobs/list.rs\<close>.

  The table is the list of its rows in physical order. Each SeaORM statement of the code is
  one row-wise operation: \<open>update_where P f\<close> is \<open>UPDATE .. SET f WHERE P\<close>, a query is a
  filter, a sort and a \<open>take\<close>. \<open>clock_timestamp()\<close> is an argument of every operation that
  reads it (microseconds), one reading per statement; \<open>Uuid::new_v4()\<close> and the rows that
  concurrent transactions hold locked (which \<open>SKIP LOCKED\<close> passes over) are arguments too.
  Every operation is one committed transaction. Metrics the code emits are recorded, in
  order, in \<open>metrics\<close>.
\<close>

section \<open>Rows\<close>

datatype job_status = Queued | Running | Succeeded | Failed

definition is_terminal :: "job_status \<Rightarrow> bool" where
  "is_terminal s \<longleftrightarrow> s = Succeeded \<or> s = Failed"

type_synonym uuid = nat
type_synonym timestamp = int
type_synonym json = rstr

record job =
  id_of :: uuid
  input_hash :: rstr
  filename :: "rstr option"
  size_bytes :: "int option"
  status :: job_status
  progress :: "json option"
  version :: int
  attempts :: int
  duration_ms :: "int option"
  deleted_at :: "timestamp option"
  lease_token :: "uuid option"
  lease_until :: "timestamp option"
  result_path :: "rstr option"
  job_error :: "rstr option"
  created_at :: timestamp
  updated_at :: timestamp
  started_at :: "timestamp option"
  finished_at :: "timestamp option"
  attempt_started_at :: "timestamp option"
  queued_at :: "timestamp option"

record lease =
  lease_job :: job
  token :: uuid

datatype database_error = IdempotencyConflict | InvalidInput | RecordNotFound

datatype metric =
    JobSubmitted
  | QueueWaitMs int
  | AttemptStarted string
  | AttemptFinished string
  | AttemptMs string nat
  | JobCompleted string
  | EndToEndMs string int

record db =
  rows :: "job list"
  metrics :: "metric list"

section \<open>Statements\<close>

definition update_where :: "('r \<Rightarrow> bool) \<Rightarrow> ('r \<Rightarrow> 'r) \<Rightarrow> 'r list \<Rightarrow> 'r list" where
  "update_where P f rs = map (\<lambda>r. if P r then f r else r) rs"

definition coalesce :: "'a option \<Rightarrow> 'a \<Rightarrow> 'a" where
  "coalesce m d = (case m of None \<Rightarrow> d | Some x \<Rightarrow> x)"

definition find_row :: "uuid \<Rightarrow> job list \<Rightarrow> job option" where
  "find_row i rs = find (\<lambda>j. id_of j = i) rs"

definition expires_after :: "timestamp \<Rightarrow> job \<Rightarrow> bool" where
  "expires_after now j = (case lease_until j of None \<Rightarrow> False | Some t \<Rightarrow> now < t)"

definition expired_by :: "timestamp \<Rightarrow> job \<Rightarrow> bool" where
  "expired_by now j = (case lease_until j of None \<Rightarrow> False | Some t \<Rightarrow> t \<le> now)"

definition lease_condition :: "lease \<Rightarrow> timestamp \<Rightarrow> job \<Rightarrow> bool" where
  "lease_condition l now j \<longleftrightarrow>
     id_of j = id_of (lease_job l) \<and> status j = Running \<and>
     lease_token j = Some (token l) \<and> expires_after now j"

definition deadline :: "int \<Rightarrow> timestamp \<Rightarrow> timestamp" where
  "deadline seconds now = now + seconds * 1000000"

definition elapsed_ms :: "timestamp \<Rightarrow> timestamp \<Rightarrow> int" where
  "elapsed_ms from til = max ((til - from) div 1000) 0"

definition record_terminal :: "string \<Rightarrow> job \<Rightarrow> metric list" where
  "record_terminal outcome j =
     JobCompleted outcome #
     (case finished_at j of None \<Rightarrow> []
      | Some f \<Rightarrow> [EndToEndMs outcome (elapsed_ms (created_at j) f)])"

section \<open>Submission and lookup\<close>

definition hash_ok :: "rstr \<Rightarrow> bool" where
  "hash_ok h \<longleftrightarrow> str_len h = 64 \<and> (\<forall>c\<in>set h. is_ascii_digit c \<or> 97 \<le> c \<and> c \<le> 102)"

definition new_job :: "timestamp \<Rightarrow> uuid \<Rightarrow> rstr \<Rightarrow> rstr option \<Rightarrow> int option \<Rightarrow> job" where
  "new_job now i h fname sz =
     \<lparr>id_of = i, input_hash = h, filename = fname, size_bytes = sz, status = Queued,
      progress = None, version = 1, attempts = 0, duration_ms = None, deleted_at = None,
      lease_token = None, lease_until = None, result_path = None, job_error = None,
      created_at = now, updated_at = now, started_at = None, finished_at = None,
      attempt_started_at = None, queued_at = None\<rparr>"

definition submit ::
  "timestamp \<Rightarrow> uuid \<Rightarrow> rstr \<Rightarrow> rstr option \<Rightarrow> int option \<Rightarrow> db \<Rightarrow> (database_error + job) \<times> db" where
  "submit now i h fname sz s =
     (if (case fname of None \<Rightarrow> False | Some n \<Rightarrow> n = [] \<or> 255 < length n) \<or>
         (case sz of None \<Rightarrow> False | Some n \<Rightarrow> n \<le> 0) \<or> \<not> hash_ok h
      then (Inl InvalidInput, s)
      else
        let inserted = (find_row i (rows s) = None);
            s1 = (if inserted then s\<lparr>rows := rows s @ [new_job now i h fname sz]\<rparr> else s)
        in case find_row i (rows s1) of
             None \<Rightarrow> (Inl RecordNotFound, s1)
           | Some j \<Rightarrow>
               if input_hash j \<noteq> h \<or> deleted_at j \<noteq> None then (Inl IdempotencyConflict, s1)
               else (Inr j, if inserted then s1\<lparr>metrics := metrics s1 @ [JobSubmitted]\<rparr> else s1))"

definition find_by_id :: "uuid \<Rightarrow> db \<Rightarrow> job option" where
  "find_by_id i s = find (\<lambda>j. id_of j = i \<and> deleted_at j = None) (rows s)"

section \<open>History pages\<close>

text \<open>\<open>LIKE\<close> with \<open>ESCAPE '\\'\<close>: 37 is \<open>%\<close>, 95 is \<open>_\<close>, 92 the escape character.\<close>

fun sql_like :: "rstr \<Rightarrow> rstr \<Rightarrow> bool" where
  "sql_like [] s = (s = [])"
| "sql_like (p # ps) s =
     (if p = 37 then sql_like ps s \<or> (case s of [] \<Rightarrow> False | _ # t \<Rightarrow> sql_like (p # ps) t)
      else if p = 95 then (case s of [] \<Rightarrow> False | _ # t \<Rightarrow> sql_like ps t)
      else if p = 92 then (case ps of [] \<Rightarrow> False
        | q # qs \<Rightarrow> (case s of [] \<Rightarrow> False | c # t \<Rightarrow> c = q \<and> sql_like qs t))
      else (case s of [] \<Rightarrow> False | c # t \<Rightarrow> c = p \<and> sql_like ps t))"

definition replace_char :: "uchar \<Rightarrow> rstr \<Rightarrow> rstr \<Rightarrow> rstr" where
  "replace_char c r s = concat (map (\<lambda>x. if x = c then r else [x]) s)"

definition escape_like :: "rstr \<Rightarrow> rstr" where
  "escape_like s = replace_char 95 [92, 95] (replace_char 37 [92, 37] (replace_char 92 [92, 92] s))"

definition search_pattern :: "(rstr \<Rightarrow> rstr) \<Rightarrow> rstr \<Rightarrow> rstr" where
  "search_pattern to_lowercase s = [37] @ to_lowercase (escape_like s) @ [37]"

definition job_key :: "job \<Rightarrow> timestamp \<times> uuid" where
  "job_key j = (created_at j, id_of j)"

definition matches ::
  "(rstr \<Rightarrow> rstr) \<Rightarrow> (rstr \<Rightarrow> rstr) \<Rightarrow> job_status option \<Rightarrow> rstr option \<Rightarrow> job \<Rightarrow> bool" where
  "matches sql_lower to_lowercase st search j \<longleftrightarrow>
     deleted_at j = None \<and>
     (case st of None \<Rightarrow> True | Some x \<Rightarrow> status j = x) \<and>
     (case search of None \<Rightarrow> True
      | Some t \<Rightarrow> t = [] \<or> (case filename j of None \<Rightarrow> False
          | Some n \<Rightarrow> sql_like (search_pattern to_lowercase t) (sql_lower n)))"

definition list_jobs ::
  "(rstr \<Rightarrow> rstr) \<Rightarrow> (rstr \<Rightarrow> rstr) \<Rightarrow> db \<Rightarrow> uuid option \<Rightarrow> nat \<Rightarrow> job_status option \<Rightarrow> rstr option
     \<Rightarrow> database_error + job list" where
  "list_jobs sql_lower to_lowercase s cursor limit st search =
     (if \<not> (1 \<le> limit \<and> limit \<le> 100) \<or> (case search of None \<Rightarrow> False | Some t \<Rightarrow> 200 < length t)
      then Inl InvalidInput
      else rbind
        (case cursor of None \<Rightarrow> Inr (\<lambda>_. True)
         | Some i \<Rightarrow> rbind (ok_or InvalidInput (find_row i (rows s)))
             (\<lambda>anchor. Inr (\<lambda>j. created_at j < created_at anchor \<or>
                created_at j = created_at anchor \<and> id_of j < id_of anchor)))
        (\<lambda>before. Inr (take (limit + 1)
           (rev (sort_key job_key
             (filter (\<lambda>j. matches sql_lower to_lowercase st search j \<and> before j) (rows s)))))))"

text \<open>The HTTP handler fetches one row more than it shows and keeps the last shown row as cursor.\<close>

definition list_handler ::
  "(rstr \<Rightarrow> rstr) \<Rightarrow> (rstr \<Rightarrow> rstr) \<Rightarrow> db \<Rightarrow> uuid option \<Rightarrow> nat option \<Rightarrow> job_status option \<Rightarrow> rstr option
     \<Rightarrow> database_error + (job list \<times> uuid option)" where
  "list_handler sql_lower to_lowercase s cursor limit st search =
     (let limit = coalesce limit 20
      in if \<not> (1 \<le> limit \<and> limit \<le> 100) \<or> (case search of None \<Rightarrow> False | Some t \<Rightarrow> 200 < length t)
         then Inl InvalidInput
         else rbind (list_jobs sql_lower to_lowercase s cursor limit st search)
           (\<lambda>rs. if limit < length rs
                 then let kept = butlast rs
                      in Inr (kept, case kept of [] \<Rightarrow> None | _ \<Rightarrow> Some (id_of (last kept)))
                 else Inr (rs, None)))"

section \<open>Deletion and cleanup\<close>

definition mark_deleted :: "timestamp \<Rightarrow> uuid \<Rightarrow> db \<Rightarrow> job option \<times> db" where
  "mark_deleted now i s =
     (let P = (\<lambda>j. id_of j = i \<and> is_terminal (status j));
          f = (\<lambda>j. j\<lparr>deleted_at := Some (coalesce (deleted_at j) now)\<rparr>)
      in (map_option f (find P (rows s)), s\<lparr>rows := update_where P f (rows s)\<rparr>))"

definition pending_cleanup :: "db \<Rightarrow> uuid option \<Rightarrow> job list" where
  "pending_cleanup s after =
     take 64 (sort_key id_of
       (filter (\<lambda>j. deleted_at j \<noteq> None \<and> result_path j \<noteq> None \<and>
                   (case after of None \<Rightarrow> True | Some a \<Rightarrow> a < id_of j)) (rows s)))"

definition finish_cleanup :: "uuid \<Rightarrow> rstr \<Rightarrow> db \<Rightarrow> db" where
  "finish_cleanup i name s =
     s\<lparr>rows := update_where (\<lambda>j. id_of j = i \<and> deleted_at j \<noteq> None \<and> result_path j = Some name)
        (\<lambda>j. j\<lparr>result_path := None\<rparr>) (rows s)\<rparr>"

section \<open>Claiming\<close>

definition available :: "timestamp \<Rightarrow> job \<Rightarrow> bool" where
  "available now j \<longleftrightarrow> status j = Queued \<or> status j = Running \<and> expired_by now j"

definition oldest :: "timestamp option list \<Rightarrow> timestamp option" where
  "oldest ts = (case List.map_filter (\<lambda>x. x) ts of [] \<Rightarrow> None | x # xs \<Rightarrow> Some (fold min xs x))"

definition backlog_entry ::
  "db \<Rightarrow> string \<Rightarrow> (job \<Rightarrow> bool) \<Rightarrow> (job \<Rightarrow> timestamp option) \<Rightarrow> string \<times> nat \<times> timestamp option" where
  "backlog_entry s state P origin =
     (let hits = filter (\<lambda>j. deleted_at j = None \<and> P j) (rows s)
      in (state, length hits, oldest (map origin hits)))"

definition backlog :: "timestamp \<Rightarrow> db \<Rightarrow> (string \<times> nat \<times> timestamp option) list" where
  "backlog now s =
     [backlog_entry s ''queued'' (\<lambda>j. status j = Queued)
        (\<lambda>j. Some (coalesce (queued_at j) (created_at j))),
      backlog_entry s ''running'' (\<lambda>j. status j = Running \<and> expires_after now j) attempt_started_at,
      backlog_entry s ''recovery'' (\<lambda>j. status j = Running \<and> expired_by now j) lease_until]"

definition exhaust :: "timestamp \<Rightarrow> job \<Rightarrow> job" where
  "exhaust now j =
     j\<lparr>status := Failed, finished_at := Some now, lease_token := None, lease_until := None,
       job_error := Some (coalesce (job_error j) (lit ''worker lease expired; retry limit reached'')),
       version := version j + 1, updated_at := now\<rparr>"

definition expired_ids :: "timestamp \<Rightarrow> (uuid \<Rightarrow> bool) \<Rightarrow> int \<Rightarrow> job list \<Rightarrow> uuid list" where
  "expired_ids now locked max_attempts rs =
     map id_of (take 64 (sort_key created_at
       (filter (\<lambda>j. available now j \<and> max_attempts \<le> attempts j \<and> \<not> locked (id_of j)) rs)))"

definition next_claim :: "timestamp \<Rightarrow> (uuid \<Rightarrow> bool) \<Rightarrow> int \<Rightarrow> job list \<Rightarrow> job option" where
  "next_claim now locked max_attempts rs =
     (case sort_key job_key
        (filter (\<lambda>j. available now j \<and> attempts j < max_attempts \<and> \<not> locked (id_of j)) rs) of
        [] \<Rightarrow> None | j # _ \<Rightarrow> Some j)"

definition attempt_kind :: "job \<Rightarrow> string" where
  "attempt_kind j =
     (if status j = Running then ''recovery'' else if attempts j = 0 then ''initial'' else ''retry'')"

definition queue_origin :: "job \<Rightarrow> timestamp option" where
  "queue_origin j =
     (if status j = Running then lease_until j
      else case queued_at j of None \<Rightarrow> Some (created_at j) | Some t \<Rightarrow> Some t)"

definition start_attempt :: "timestamp \<Rightarrow> int \<Rightarrow> uuid \<Rightarrow> job \<Rightarrow> job" where
  "start_attempt now seconds tok j =
     j\<lparr>status := Running, started_at := Some (coalesce (started_at j) now),
       attempt_started_at := Some now, attempts := attempts j + 1, version := version j + 1,
       lease_token := Some tok, lease_until := Some (deadline seconds now), progress := None,
       duration_ms := None, job_error := None, updated_at := now\<rparr>"

text \<open>What one call of \<open>claim\<close> reads from outside: a clock per statement, the rows locked
  by other transactions when each \<open>SKIP LOCKED\<close> query runs, and the fresh token.\<close>

record claim_env =
  reap_time :: timestamp
  reap_locked :: "uuid \<Rightarrow> bool"
  pick_time :: timestamp
  pick_locked :: "uuid \<Rightarrow> bool"
  start_time :: timestamp
  new_token :: uuid

definition reap :: "claim_env \<Rightarrow> int \<Rightarrow> job list \<Rightarrow> job list" where
  "reap env max_attempts rs =
     (let ids = expired_ids (reap_time env) (reap_locked env) max_attempts rs
      in update_where (\<lambda>j. id_of j \<in> set ids) (exhaust (reap_time env)) rs)"

definition reaped :: "claim_env \<Rightarrow> int \<Rightarrow> job list \<Rightarrow> job list" where
  "reaped env max_attempts rs =
     (let ids = expired_ids (reap_time env) (reap_locked env) max_attempts rs
      in filter (\<lambda>j. id_of j \<in> set ids) (reap env max_attempts rs))"

definition claim :: "claim_env \<Rightarrow> int \<Rightarrow> int \<Rightarrow> db \<Rightarrow> (database_error + lease option) \<times> db" where
  "claim env seconds max_attempts s =
     (if \<not> (1 \<le> seconds \<and> seconds \<le> 86400) \<or> \<not> (1 \<le> max_attempts \<and> max_attempts \<le> 100)
      then (Inl InvalidInput, s)
      else
        let rs = reap env max_attempts (rows s);
            completed = concat (map (record_terminal ''failed'') (reaped env max_attempts (rows s)))
        in case next_claim (pick_time env) (pick_locked env) max_attempts rs of
             None \<Rightarrow> (Inr None, s\<lparr>rows := rs, metrics := metrics s @ completed\<rparr>)
           | Some j \<Rightarrow>
               let f = start_attempt (start_time env) seconds (new_token env);
                   rs' = update_where (\<lambda>r. id_of r = id_of j) f rs
               in case find_row (id_of j) rs' of
                    None \<Rightarrow> (Inl RecordNotFound, s)
                  | Some j' \<Rightarrow>
                      (Inr (Some \<lparr>lease_job = j', token = new_token env\<rparr>),
                       s\<lparr>rows := rs', metrics := metrics s @ completed @
                         (case (queue_origin j, attempt_started_at j') of
                            (Some origin, Some start) \<Rightarrow> [QueueWaitMs (elapsed_ms origin start)]
                          | _ \<Rightarrow> []) @ [AttemptStarted (attempt_kind j)]\<rparr>))"

section \<open>Fenced updates\<close>

definition heartbeat ::
  "timestamp \<Rightarrow> lease \<Rightarrow> int \<Rightarrow> json option \<Rightarrow> db \<Rightarrow> (database_error + bool) \<times> db" where
  "heartbeat now l seconds prog s =
     (if \<not> (1 \<le> seconds \<and> seconds \<le> 86400) then (Inl InvalidInput, s)
      else
        let f = (\<lambda>j. let j1 = j\<lparr>lease_until := Some (deadline seconds now), updated_at := now\<rparr>
                     in case prog of None \<Rightarrow> j1
                        | Some p \<Rightarrow> j1\<lparr>progress := Some p, version := version j + 1\<rparr>)
        in (Inr (length (filter (lease_condition l now) (rows s)) = 1),
            s\<lparr>rows := update_where (lease_condition l now) f (rows s)\<rparr>))"

text \<open>The outcome of an attempt: \<open>Inr\<close> the result file, \<open>Inl\<close> the error message.\<close>

definition finish_row :: "timestamp \<Rightarrow> rstr + rstr \<Rightarrow> json option \<Rightarrow> nat \<Rightarrow> job \<Rightarrow> job" where
  "finish_row now outcome prog ms j =
     (let success = (case outcome of Inr _ \<Rightarrow> True | Inl _ \<Rightarrow> False)
      in j\<lparr>finished_at := (if success then Some now else None),
           queued_at := (if success then queued_at j else Some now),
           status := (case outcome of Inr _ \<Rightarrow> Succeeded | Inl _ \<Rightarrow> Queued),
           progress := (case prog of None \<Rightarrow> progress j | Some p \<Rightarrow> Some p),
           result_path := (case outcome of Inr path \<Rightarrow> Some path | Inl _ \<Rightarrow> None),
           duration_ms := Some (int ms),
           job_error := (case outcome of Inr _ \<Rightarrow> None | Inl message \<Rightarrow> Some message),
           lease_token := None, lease_until := None, version := version j + 1, updated_at := now\<rparr>)"

definition finish ::
  "timestamp \<Rightarrow> lease \<Rightarrow> rstr + rstr \<Rightarrow> json option \<Rightarrow> nat \<Rightarrow> db \<Rightarrow> (database_error + bool) \<times> db" where
  "finish now l outcome prog ms s =
     (if 9223372036854775807 < int ms then (Inl InvalidInput, s)
      else
        let f = finish_row now outcome prog ms;
            hits = map f (filter (lease_condition l now) (rows s));
            label = (case outcome of Inr _ \<Rightarrow> ''success'' | Inl _ \<Rightarrow> ''error'')
        in (Inr (hits \<noteq> []),
            s\<lparr>rows := update_where (lease_condition l now) f (rows s),
              metrics := metrics s @
                (case hits of [] \<Rightarrow> []
                 | j # _ \<Rightarrow> [AttemptFinished label, AttemptMs label ms] @
                     (case outcome of Inr _ \<Rightarrow> record_terminal ''succeeded'' j | Inl _ \<Rightarrow> []))\<rparr>))"

end
