(* ===== verification/Job_Lifecycle.thy ===== *)
theory Job_Lifecycle
  imports Parse_Jobs
begin

text \<open>
  The cluster: one job table and every lease a worker was ever handed. Any holder of a
  lease, however old, may renew or finish at any time, so the step relation lets every
  lease ever issued act. The invariant ties rows, leases and metrics together; the
  properties about fencing, retries and completion metrics follow from it.
\<close>

section \<open>Row-wise updates\<close>

lemma set_update_where: "set (update_where P f rs) = {if P r then f r else r | r. r \<in> set rs}"
  by (auto simp: update_where_def)

lemma in_update_whereE:
  assumes "r' \<in> set (update_where P f rs)"
  obtains r where "r \<in> set rs" and "r' = (if P r then f r else r)"
  using assms by (auto simp: update_where_def)

lemma update_where_ids:
  assumes "\<And>r. g (f r) = g r"
  shows "map g (update_where P f rs) = map g rs"
  using assms by (simp add: update_where_def)

lemma update_where_none: "(\<And>r. r \<in> set rs \<Longrightarrow> \<not> P r) \<Longrightarrow> update_where P f rs = rs"
  by (induction rs) (simp_all add: update_where_def)

lemma count_update_same:
  assumes "\<And>r. r \<in> set rs \<Longrightarrow> P r \<Longrightarrow> T (f r) = T r"
  shows "length (filter T (update_where P f rs)) = length (filter T rs)"
  using assms by (induction rs) (auto simp: update_where_def)

lemma count_update_into:
  assumes "\<And>r. r \<in> set rs \<Longrightarrow> P r \<Longrightarrow> \<not> T r \<and> T (f r)"
  shows "length (filter T (update_where P f rs)) = length (filter T rs) + length (filter P rs)"
  using assms by (induction rs) (auto simp: update_where_def)

lemma filter_unique_id:
  assumes "distinct (map g rs)" and "\<And>r. P r \<Longrightarrow> g r = i"
  shows "length (filter P rs) \<le> 1"
  using assms
proof (induction rs)
  case (Cons a rs)
  show ?case
  proof (cases "P a")
    case True
    with Cons.prems have "filter P rs = []" by (fastforce simp: filter_empty_conv)
    with True show ?thesis by simp
  qed (use Cons in auto)
qed simp

lemma find_row_Some: "find_row i rs = Some j \<Longrightarrow> j \<in> set rs \<and> id_of j = i"
  by (auto simp: find_row_def find_Some_iff)

lemma find_row_None: "find_row i rs = None \<longleftrightarrow> i \<notin> id_of ` set rs"
  by (auto simp: find_row_def find_None_iff)

lemma find_row_snoc:
  "find_row i rs = None \<Longrightarrow> find_row i (rs @ [j]) = (if id_of j = i then Some j else None)"
  by (induction rs) (auto simp: find_row_def split: if_splits)

lemma find_row_in:
  "distinct (map id_of rs) \<Longrightarrow> j \<in> set rs \<Longrightarrow> find_row (id_of j) rs = Some j"
proof (induction rs)
  case (Cons a rs)
  then show ?case by (auto simp: find_row_def)
qed simp

lemma next_claim_Some:
  assumes "next_claim now lk m rs = Some j"
  shows "j \<in> set rs" "available now j" "attempts j < m" "\<not> lk (id_of j)"
    and "\<And>k. k \<in> set rs \<Longrightarrow> available now k \<Longrightarrow> attempts k < m \<Longrightarrow> \<not> lk (id_of k) \<Longrightarrow> job_key j \<le> job_key k"
proof -
  let ?P = "\<lambda>j. available now j \<and> attempts j < m \<and> \<not> lk (id_of j)"
  from assms obtain js where js: "sort_key job_key (filter ?P rs) = j # js"
    by (auto simp: next_claim_def split: list.splits)
  have members: "set (j # js) = {k \<in> set rs. ?P k}"
    unfolding js [symmetric] by (simp del: list.set)
  have order: "sorted (map job_key (j # js))"
    unfolding js [symmetric] by (rule sorted_sort_key)
  have "j \<in> {k \<in> set rs. ?P k}" unfolding members [symmetric] by simp
  then show "j \<in> set rs" "available now j" "attempts j < m" "\<not> lk (id_of j)" by auto
  fix k assume "k \<in> set rs" "available now k" "attempts k < m" "\<not> lk (id_of k)"
  then have "k \<in> set (j # js)" unfolding members by simp
  with order show "job_key j \<le> job_key k" by auto
qed

lemma next_claim_None:
  "next_claim now lk m rs = None \<longleftrightarrow>
     (\<forall>j\<in>set rs. available now j \<longrightarrow> attempts j < m \<longrightarrow> lk (id_of j))"
proof -
  let ?P = "\<lambda>j. available now j \<and> attempts j < m \<and> \<not> lk (id_of j)"
  have "next_claim now lk m rs = None \<longleftrightarrow> set (sort_key job_key (filter ?P rs)) = {}"
    by (simp add: next_claim_def del: set_sort split: list.split)
  also have "\<dots> \<longleftrightarrow> {j \<in> set rs. ?P j} = {}" by simp
  finally show ?thesis by blast
qed

lemma exhaust_simps [simp]:
  "id_of (exhaust now j) = id_of j" "status (exhaust now j) = Failed"
  "lease_token (exhaust now j) = None" "lease_until (exhaust now j) = None"
  "attempts (exhaust now j) = attempts j" "finished_at (exhaust now j) = Some now"
  "deleted_at (exhaust now j) = deleted_at j" "result_path (exhaust now j) = result_path j"
  "input_hash (exhaust now j) = input_hash j"
  by (simp_all add: exhaust_def)

lemma start_attempt_simps [simp]:
  "id_of (start_attempt now sec tok j) = id_of j" "status (start_attempt now sec tok j) = Running"
  "lease_token (start_attempt now sec tok j) = Some tok"
  "lease_until (start_attempt now sec tok j) = Some (deadline sec now)"
  "attempts (start_attempt now sec tok j) = attempts j + 1"
  "finished_at (start_attempt now sec tok j) = finished_at j"
  "deleted_at (start_attempt now sec tok j) = deleted_at j"
  "result_path (start_attempt now sec tok j) = result_path j"
  "input_hash (start_attempt now sec tok j) = input_hash j"
  "attempt_started_at (start_attempt now sec tok j) = Some now"
  by (simp_all add: start_attempt_def)

lemma finish_row_simps [simp]:
  "id_of (finish_row now out prog ms j) = id_of j"
  "status (finish_row now out prog ms j) = (case out of Inr _ \<Rightarrow> Succeeded | Inl _ \<Rightarrow> Queued)"
  "lease_token (finish_row now out prog ms j) = None" "lease_until (finish_row now out prog ms j) = None"
  "attempts (finish_row now out prog ms j) = attempts j"
  "finished_at (finish_row now out prog ms j) = (case out of Inr _ \<Rightarrow> Some now | Inl _ \<Rightarrow> None)"
  "deleted_at (finish_row now out prog ms j) = deleted_at j"
  "result_path (finish_row now out prog ms j) = (case out of Inr p \<Rightarrow> Some p | Inl _ \<Rightarrow> None)"
  "input_hash (finish_row now out prog ms j) = input_hash j"
  by (simp_all add: finish_row_def Let_def split: sum.split)

lemma reap_ids [simp]: "map id_of (reap env m rs) = map id_of rs"
  by (simp add: reap_def Let_def update_where_ids)

section \<open>The cluster\<close>

record cluster =
  store :: db
  leases :: "lease list"

definition empty_cluster :: cluster where
  "empty_cluster = \<lparr>store = \<lparr>rows = [], metrics = []\<rparr>, leases = []\<rparr>"

inductive cluster_step :: "int \<Rightarrow> cluster \<Rightarrow> cluster \<Rightarrow> bool" for m :: int where
  step_submit: "cluster_step m c (c\<lparr>store := snd (submit now i h fname sz (store c))\<rparr>)"
| step_delete: "cluster_step m c (c\<lparr>store := snd (mark_deleted now i (store c))\<rparr>)"
| step_cleanup: "cluster_step m c (c\<lparr>store := finish_cleanup i name (store c)\<rparr>)"
| step_claim: "claim env seconds m (store c) = (Inr (Some l), d) \<Longrightarrow>
     new_token env \<notin> token ` set (leases c) \<Longrightarrow>
     cluster_step m c \<lparr>store = d, leases = l # leases c\<rparr>"
| step_idle: "claim env seconds m (store c) = (Inr None, d) \<Longrightarrow> cluster_step m c (c\<lparr>store := d\<rparr>)"
| step_renew: "l \<in> set (leases c) \<Longrightarrow>
     cluster_step m c (c\<lparr>store := snd (heartbeat now l seconds prog (store c))\<rparr>)"
| step_finish: "l \<in> set (leases c) \<Longrightarrow>
     cluster_step m c (c\<lparr>store := snd (finish now l out prog ms (store c))\<rparr>)"

text \<open>Columns that only make sense together.\<close>

definition row_ok :: "job \<Rightarrow> bool" where
  "row_ok j \<longleftrightarrow>
     (status j = Running \<longleftrightarrow> lease_token j \<noteq> None) \<and>
     (lease_token j = None \<longleftrightarrow> lease_until j = None) \<and>
     (finished_at j \<noteq> None \<longleftrightarrow> is_terminal (status j)) \<and>
     (deleted_at j \<noteq> None \<longrightarrow> is_terminal (status j)) \<and>
     (status j = Succeeded \<longrightarrow> result_path j \<noteq> None \<or> deleted_at j \<noteq> None) \<and>
     (result_path j \<noteq> None \<longrightarrow> status j = Succeeded) \<and>
     hash_ok (input_hash j)"

definition handed_out :: "uuid \<Rightarrow> lease list \<Rightarrow> nat" where
  "handed_out i ls = length (filter (\<lambda>l. id_of (lease_job l) = i) ls)"

fun is_completion :: "metric \<Rightarrow> bool" where
  "is_completion (JobCompleted _) = True"
| "is_completion _ = False"

definition completions :: "metric list \<Rightarrow> nat" where
  "completions ms = length (filter is_completion ms)"

definition finished_rows :: "job list \<Rightarrow> nat" where
  "finished_rows rs = length (filter (\<lambda>j. is_terminal (status j)) rs)"

definition rows_inv :: "int \<Rightarrow> db \<Rightarrow> bool" where
  "rows_inv m s \<longleftrightarrow>
     distinct (map id_of (rows s)) \<and>
     (\<forall>j\<in>set (rows s). row_ok j \<and> attempts j \<le> m) \<and>
     completions (metrics s) = finished_rows (rows s)"

definition leases_inv :: "job list \<Rightarrow> lease list \<Rightarrow> bool" where
  "leases_inv rs ls \<longleftrightarrow>
     distinct (map token ls) \<and>
     (\<forall>l\<in>set ls. id_of (lease_job l) \<in> id_of ` set rs) \<and>
     (\<forall>j\<in>set rs. attempts j = int (handed_out (id_of j) ls)) \<and>
     (\<forall>j\<in>set rs. \<forall>k. lease_token j = Some k \<longrightarrow>
        (\<exists>l\<in>set ls. token l = k \<and> id_of (lease_job l) = id_of j))"

definition cluster_inv :: "int \<Rightarrow> cluster \<Rightarrow> bool" where
  "cluster_inv m c \<longleftrightarrow> 0 \<le> m \<and> rows_inv m (store c) \<and> leases_inv (rows (store c)) (leases c)"

lemma completions_simps [simp]:
  "completions [] = 0"
  "completions (xs @ ys) = completions xs + completions ys"
  "completions (x # xs) = (if is_completion x then 1 else 0) + completions xs"
  by (simp_all add: completions_def)

lemma completions_record_terminal [simp]: "completions (record_terminal out j) = 1"
  by (simp add: record_terminal_def split: option.split)

lemma completions_concat [simp]:
  "completions (concat (map (record_terminal out) js)) = length js"
  by (induction js) simp_all

text \<open>
  A row-wise update keeps the invariant when it keeps the identity, the row conditions and
  the attempt count, and takes tokens only away. Each operation but \<open>submit\<close> and
  \<open>claim\<close> is such an update.
\<close>

lemma rows_inv_update:
  assumes "rows_inv m s"
    and "\<And>j. id_of (f j) = id_of j"
    and "\<And>j. j \<in> set (rows s) \<Longrightarrow> P j \<Longrightarrow> row_ok j \<Longrightarrow> attempts j \<le> m \<Longrightarrow> row_ok (f j) \<and> attempts (f j) \<le> m"
    and "completions ms = finished_rows (update_where P f (rows s))"
  shows "rows_inv m \<lparr>rows = update_where P f (rows s), metrics = ms\<rparr>"
  using assms by (auto simp: rows_inv_def update_where_ids set_update_where)

lemma leases_inv_update:
  assumes "leases_inv rs ls"
    and "\<And>j. id_of (f j) = id_of j"
    and "\<And>j. j \<in> set rs \<Longrightarrow> P j \<Longrightarrow> attempts (f j) = attempts j \<and> lease_token (f j) \<in> {None, lease_token j}"
  shows "leases_inv (update_where P f rs) ls"
proof -
  have ids: "id_of ` set (update_where P f rs) = id_of ` set rs"
    using assms(2) update_where_ids [of id_of f P rs] by (metis set_map)
  have rows: "attempts r = int (handed_out (id_of r) ls) \<and>
      (\<forall>k. lease_token r = Some k \<longrightarrow> (\<exists>l\<in>set ls. token l = k \<and> id_of (lease_job l) = id_of r))"
    if "r \<in> set (update_where P f rs)" for r
  proof -
    from that obtain j where j: "j \<in> set rs" and r: "r = (if P j then f j else j)"
      by (auto simp: update_where_def)
    show ?thesis
    proof (cases "P j")
      case True
      with r assms(3) [OF j True] have "attempts r = attempts j" and tok: "lease_token r \<in> {None, lease_token j}"
        and "id_of r = id_of j" by (auto simp: assms(2))
      with assms(1) j show ?thesis by (auto simp: leases_inv_def)
    next
      case False
      with r j assms(1) show ?thesis by (auto simp: leases_inv_def)
    qed
  qed
  show ?thesis using assms(1) ids rows unfolding leases_inv_def by blast
qed

section \<open>Every operation keeps the invariant\<close>

lemma rows_invD:
  assumes "rows_inv m s"
  shows "distinct (map id_of (rows s))" and "\<And>j. j \<in> set (rows s) \<Longrightarrow> row_ok j"
    and "\<And>j. j \<in> set (rows s) \<Longrightarrow> attempts j \<le> m"
    and "completions (metrics s) = finished_rows (rows s)"
  using assms by (auto simp: rows_inv_def)

lemma finished_rows_update_same:
  assumes "\<And>r. r \<in> set rs \<Longrightarrow> P r \<Longrightarrow> is_terminal (status (f r)) = is_terminal (status r)"
  shows "finished_rows (update_where P f rs) = finished_rows rs"
  unfolding finished_rows_def using assms by (rule count_update_same)

lemma finished_rows_update_into:
  assumes "\<And>r. r \<in> set rs \<Longrightarrow> P r \<Longrightarrow> \<not> is_terminal (status r) \<and> is_terminal (status (f r))"
  shows "finished_rows (update_where P f rs) = finished_rows rs + length (filter P rs)"
  unfolding finished_rows_def using assms by (rule count_update_into)

lemmas terminal_simps = is_terminal_def

lemma db_eta: "\<lparr>rows = rows s, metrics = metrics s\<rparr> = s"
  by simp

lemma submit_cases:
  obtains (unchanged) "snd (submit now i h fname sz s) = s"
  | (inserted) "find_row i (rows s) = None" "hash_ok h"
      "rows (snd (submit now i h fname sz s)) = rows s @ [new_job now i h fname sz]"
      "completions (metrics (snd (submit now i h fname sz s))) = completions (metrics s)"
proof -
  let ?bad = "(case fname of None \<Rightarrow> False | Some n \<Rightarrow> n = [] \<or> 255 < length n) \<or>
    (case sz of None \<Rightarrow> False | Some n \<Rightarrow> n \<le> 0) \<or> \<not> hash_ok h"
  show thesis
  proof (cases "?bad \<or> find_row i (rows s) \<noteq> None")
    case True
    then have "snd (submit now i h fname sz s) = s"
      unfolding submit_def Let_def by (auto split: option.split)
    then show thesis by (rule unchanged)
  next
    case False
    then have ok: "\<not> ?bad" and fresh: "find_row i (rows s) = None" by blast+
    from ok have "hash_ok h" by blast
    moreover have "find_row i (rows s @ [new_job now i h fname sz]) = Some (new_job now i h fname sz)"
      using fresh by (simp add: find_row_snoc new_job_def)
    then have "snd (submit now i h fname sz s) =
        \<lparr>rows = rows s @ [new_job now i h fname sz], metrics = metrics s @ [JobSubmitted]\<rparr>"
      using ok fresh unfolding submit_def Let_def by (simp add: new_job_def)
    ultimately show thesis using fresh by (intro inserted) simp_all
  qed
qed

lemma rows_inv_submit:
  assumes "rows_inv m s" and "0 \<le> m"
  shows "rows_inv m (snd (submit now i h fname sz s))"
proof (cases rule: submit_cases [of now i h fname sz s])
  case unchanged
  with assms show ?thesis by simp
next
  case inserted
  then have "i \<notin> id_of ` set (rows s)" by (simp add: find_row_None)
  with inserted assms show ?thesis
    by (auto simp: rows_inv_def new_job_def row_ok_def terminal_simps finished_rows_def)
qed

lemma leases_inv_submit:
  assumes "leases_inv (rows s) ls"
  shows "leases_inv (rows (snd (submit now i h fname sz s))) ls"
proof (cases rule: submit_cases [of now i h fname sz s])
  case unchanged
  with assms show ?thesis by simp
next
  case inserted
  then have fresh: "i \<notin> id_of ` set (rows s)" by (simp add: find_row_None)
  with assms have "handed_out i ls = 0"
    by (auto simp: leases_inv_def handed_out_def filter_empty_conv)
  with inserted assms show ?thesis
    by (auto simp: leases_inv_def new_job_def)
qed

lemma mark_deleted_snd:
  "snd (mark_deleted now i s) = \<lparr>rows = update_where (\<lambda>j. id_of j = i \<and> is_terminal (status j))
      (\<lambda>j. j\<lparr>deleted_at := Some (coalesce (deleted_at j) now)\<rparr>) (rows s), metrics = metrics s\<rparr>"
  by (simp add: mark_deleted_def Let_def)

lemma rows_inv_mark_deleted:
  assumes "rows_inv m s" shows "rows_inv m (snd (mark_deleted now i s))"
  unfolding mark_deleted_snd
  by (rule rows_inv_update [OF assms])
    (auto simp: row_ok_def rows_invD(4) [OF assms] intro!: finished_rows_update_same [symmetric])

lemma leases_inv_mark_deleted:
  "leases_inv (rows s) ls \<Longrightarrow> leases_inv (rows (snd (mark_deleted now i s))) ls"
  unfolding mark_deleted_snd by (auto intro!: leases_inv_update)

lemma finish_cleanup_db:
  "finish_cleanup i name s = \<lparr>rows = update_where (\<lambda>j. id_of j = i \<and> deleted_at j \<noteq> None \<and> result_path j = Some name)
      (\<lambda>j. j\<lparr>result_path := None\<rparr>) (rows s), metrics = metrics s\<rparr>"
  by (simp add: finish_cleanup_def)

lemma rows_inv_finish_cleanup:
  assumes "rows_inv m s" shows "rows_inv m (finish_cleanup i name s)"
  unfolding finish_cleanup_db
  by (rule rows_inv_update [OF assms])
    (auto simp: row_ok_def rows_invD(4) [OF assms] intro!: finished_rows_update_same [symmetric])

lemma leases_inv_finish_cleanup:
  "leases_inv (rows s) ls \<Longrightarrow> leases_inv (rows (finish_cleanup i name s)) ls"
  unfolding finish_cleanup_db by (auto intro!: leases_inv_update)

definition renew_row :: "timestamp \<Rightarrow> int \<Rightarrow> json option \<Rightarrow> job \<Rightarrow> job" where
  "renew_row now seconds prog j =
     (let j1 = j\<lparr>lease_until := Some (deadline seconds now), updated_at := now\<rparr>
      in case prog of None \<Rightarrow> j1 | Some p \<Rightarrow> j1\<lparr>progress := Some p, version := version j + 1\<rparr>)"

lemma renew_row_simps [simp]:
  "id_of (renew_row now seconds prog j) = id_of j" "status (renew_row now seconds prog j) = status j"
  "lease_token (renew_row now seconds prog j) = lease_token j"
  "lease_until (renew_row now seconds prog j) = Some (deadline seconds now)"
  "attempts (renew_row now seconds prog j) = attempts j"
  "finished_at (renew_row now seconds prog j) = finished_at j"
  "deleted_at (renew_row now seconds prog j) = deleted_at j"
  "result_path (renew_row now seconds prog j) = result_path j"
  "input_hash (renew_row now seconds prog j) = input_hash j"
  by (simp_all add: renew_row_def Let_def split: option.split)

lemma heartbeat_cases:
  "snd (heartbeat now l seconds prog s) \<in>
     {s, \<lparr>rows = update_where (lease_condition l now) (renew_row now seconds prog) (rows s), metrics = metrics s\<rparr>}"
  by (simp add: heartbeat_def renew_row_def [abs_def] Let_def)

lemma rows_inv_heartbeat:
  assumes "rows_inv m s" shows "rows_inv m (snd (heartbeat now l seconds prog s))"
proof -
  have "rows_inv m \<lparr>rows = update_where (lease_condition l now) (renew_row now seconds prog) (rows s), metrics = metrics s\<rparr>"
    by (rule rows_inv_update [OF assms])
      (auto simp: row_ok_def lease_condition_def rows_invD(4) [OF assms] intro!: finished_rows_update_same [symmetric])
  with assms heartbeat_cases [of now l seconds prog s] show ?thesis by auto
qed

lemma leases_inv_heartbeat:
  assumes "leases_inv (rows s) ls" shows "leases_inv (rows (snd (heartbeat now l seconds prog s))) ls"
proof -
  have "leases_inv (update_where (lease_condition l now) (renew_row now seconds prog) (rows s)) ls"
    using assms by (auto intro!: leases_inv_update)
  with assms heartbeat_cases [of now l seconds prog s] show ?thesis by auto
qed

lemma holders_at_most_one:
  "distinct (map id_of rs) \<Longrightarrow> length (filter (lease_condition l now) rs) \<le> 1"
  by (rule filter_unique_id [where g = id_of]) (auto simp: lease_condition_def)

definition finish_metrics :: "rstr + rstr \<Rightarrow> nat \<Rightarrow> job list \<Rightarrow> metric list" where
  "finish_metrics out ms hits =
     (case hits of [] \<Rightarrow> []
      | j # _ \<Rightarrow>
          [AttemptFinished (case out of Inr _ \<Rightarrow> ''success'' | Inl _ \<Rightarrow> ''error''),
           AttemptMs (case out of Inr _ \<Rightarrow> ''success'' | Inl _ \<Rightarrow> ''error'') ms] @
          (case out of Inr _ \<Rightarrow> record_terminal ''succeeded'' j | Inl _ \<Rightarrow> []))"

lemma finish_cases:
  "snd (finish now l out prog ms s) \<in>
     {s, \<lparr>rows = update_where (lease_condition l now) (finish_row now out prog ms) (rows s),
          metrics = metrics s @ finish_metrics out ms
            (map (finish_row now out prog ms) (filter (lease_condition l now) (rows s)))\<rparr>}"
  by (simp add: finish_def finish_metrics_def Let_def)

lemma rows_inv_finish:
  assumes "rows_inv m s" shows "rows_inv m (snd (finish now l out prog ms s))"
proof -
  let ?P = "lease_condition l now" and ?f = "finish_row now out prog ms"
  let ?ms = "finish_metrics out ms (map ?f (filter ?P (rows s)))"
  have one: "length (filter ?P (rows s)) \<le> 1" by (rule holders_at_most_one [OF rows_invD(1) [OF assms]])
  have "completions (metrics s) + completions ?ms = finished_rows (update_where ?P ?f (rows s))"
  proof (cases out)
    case (Inl e)
    have "finished_rows (update_where ?P ?f (rows s)) = finished_rows (rows s)"
      by (rule finished_rows_update_same) (simp add: Inl lease_condition_def terminal_simps)
    with Inl assms show ?thesis by (simp add: rows_invD(4) finish_metrics_def split: list.split)
  next
    case (Inr p)
    have "finished_rows (update_where ?P ?f (rows s)) = finished_rows (rows s) + length (filter ?P (rows s))"
      by (rule finished_rows_update_into) (simp add: Inr lease_condition_def terminal_simps)
    with Inr assms one show ?thesis
      by (cases "filter ?P (rows s)") (simp_all add: rows_invD(4) finish_metrics_def)
  qed
  then have "rows_inv m \<lparr>rows = update_where ?P ?f (rows s), metrics = metrics s @ ?ms\<rparr>"
    by (intro rows_inv_update [OF assms])
      (auto simp: row_ok_def lease_condition_def terminal_simps split: sum.split)
  with assms finish_cases [of now l out prog ms s] show ?thesis by auto
qed

lemma leases_inv_finish:
  assumes "leases_inv (rows s) ls" shows "leases_inv (rows (snd (finish now l out prog ms s))) ls"
proof -
  have "leases_inv (update_where (lease_condition l now) (finish_row now out prog ms) (rows s)) ls"
    using assms by (auto intro!: leases_inv_update)
  with assms finish_cases [of now l out prog ms s] show ?thesis by auto
qed

section \<open>Claiming keeps the invariant\<close>

abbreviation reap_row :: "claim_env \<Rightarrow> int \<Rightarrow> job list \<Rightarrow> job \<Rightarrow> bool" where
  "reap_row env m rs \<equiv> (\<lambda>j. id_of j \<in> set (expired_ids (reap_time env) (reap_locked env) m rs))"

lemma available_not_terminal: "available now j \<Longrightarrow> \<not> is_terminal (status j)"
  by (auto simp: available_def terminal_simps)

lemma reap_row_unfinished:
  assumes "distinct (map id_of rs)" and "r \<in> set rs" and "reap_row env m rs r"
  shows "\<not> is_terminal (status r)" and "m \<le> attempts r"
proof -
  from assms(3) obtain k where "k \<in> set rs" "available (reap_time env) k" "m \<le> attempts k" "id_of k = id_of r"
    by (auto simp: expired_ids_def dest!: in_set_takeD)
  with assms(1,2) have "k = r" by (meson distinct_map_same)
  with \<open>available (reap_time env) k\<close> \<open>m \<le> attempts k\<close>
  show "\<not> is_terminal (status r)" and "m \<le> attempts r" by (auto dest: available_not_terminal)
qed

lemma rows_inv_reap:
  assumes "rows_inv m s"
  shows "rows_inv m \<lparr>rows = reap env m (rows s),
    metrics = metrics s @ concat (map (record_terminal ''failed'') (reaped env m (rows s)))\<rparr>"
proof -
  let ?P = "reap_row env m (rows s)" and ?f = "exhaust (reap_time env)"
  note d = rows_invD(1) [OF assms]
  have reap: "reap env m (rows s) = update_where ?P ?f (rows s)"
    by (simp add: reap_def Let_def)
  have "length (reaped env m (rows s)) = length (filter ?P (update_where ?P ?f (rows s)))"
    by (simp add: reaped_def reap_def Let_def)
  also have "\<dots> = length (filter ?P (rows s))" by (rule count_update_same) simp
  finally have count: "length (reaped env m (rows s)) = length (filter ?P (rows s))" .
  have fin: "finished_rows (update_where ?P ?f (rows s)) = finished_rows (rows s) + length (filter ?P (rows s))"
    by (rule finished_rows_update_into) (use reap_row_unfinished [OF d] in \<open>auto simp: terminal_simps\<close>)
  show ?thesis unfolding reap
  proof (rule rows_inv_update [OF assms])
    fix j assume "j \<in> set (rows s)" "?P j" "row_ok j" "attempts j \<le> m"
    with reap_row_unfinished [OF d] show "row_ok (?f j) \<and> attempts (?f j) \<le> m"
      by (auto simp: row_ok_def terminal_simps)
  qed (simp_all add: fin count rows_invD(4) [OF assms])
qed

lemma leases_inv_reap: "leases_inv rs ls \<Longrightarrow> leases_inv (reap env m rs) ls"
  by (auto simp: reap_def Let_def intro!: leases_inv_update)

lemma start_rows_inv:
  assumes "rows_inv m s" and j: "j \<in> set (rows s)" "available now j" "attempts j < m"
    and "completions ms = 0"
  shows "rows_inv m \<lparr>rows = update_where (\<lambda>r. id_of r = id_of j) (start_attempt t sec tok) (rows s),
    metrics = metrics s @ ms\<rparr>"
proof (rule rows_inv_update [OF assms(1)])
  note same = distinct_map_same [OF rows_invD(1) [OF assms(1)] _ j(1)]
  fix r assume "r \<in> set (rows s)" "id_of r = id_of j" "row_ok r"
  with same have "r = j" and "row_ok j" by auto
  with j show "row_ok (start_attempt t sec tok r) \<and> attempts (start_attempt t sec tok r) \<le> m"
    by (auto simp: row_ok_def terminal_simps available_def)
next
  have "finished_rows (update_where (\<lambda>r. id_of r = id_of j) (start_attempt t sec tok) (rows s)) = finished_rows (rows s)"
  proof (rule finished_rows_update_same)
    fix r assume "r \<in> set (rows s)" "id_of r = id_of j"
    then have "r = j" by (rule distinct_map_same [OF rows_invD(1) [OF assms(1)] _ j(1)])
    with j(2) show "is_terminal (status (start_attempt t sec tok r)) = is_terminal (status r)"
      by (auto dest: available_not_terminal simp: terminal_simps)
  qed
  then show "completions (metrics s @ ms) =
      finished_rows (update_where (\<lambda>r. id_of r = id_of j) (start_attempt t sec tok) (rows s))"
    using assms by (simp add: rows_invD(4))
qed simp

lemma start_leases_inv:
  assumes inv: "leases_inv rs ls" and d: "distinct (map id_of rs)" and j: "j \<in> set rs"
    and l: "id_of (lease_job l) = id_of j" "token l = tok" "tok \<notin> token ` set ls"
  shows "leases_inv (update_where (\<lambda>r. id_of r = id_of j) (start_attempt t sec tok) rs) (l # ls)"
proof -
  let ?f = "start_attempt t sec tok"
  let ?rs = "update_where (\<lambda>r. id_of r = id_of j) ?f rs"
  have ids: "id_of ` set ?rs = id_of ` set rs"
    using update_where_ids [of id_of ?f _ rs] by (metis set_map start_attempt_simps(1))
  have "attempts r = int (handed_out (id_of r) (l # ls)) \<and>
      (\<forall>k. lease_token r = Some k \<longrightarrow> (\<exists>l'\<in>set (l # ls). token l' = k \<and> id_of (lease_job l') = id_of r))"
    if "r \<in> set ?rs" for r
  proof (rule in_update_whereE [OF that])
    fix q assume q: "q \<in> set rs" and r: "r = (if id_of q = id_of j then ?f q else q)"
    show ?thesis
    proof (cases "id_of q = id_of j")
      case True
      then have "q = j" by (rule distinct_map_same [OF d q j])
      with r inv j l show ?thesis by (auto simp: leases_inv_def handed_out_def)
    next
      case False
      with r inv q l show ?thesis by (auto simp: leases_inv_def handed_out_def)
    qed
  qed
  with inv ids j l show ?thesis unfolding leases_inv_def by (auto simp del: Ball_def)
qed

text \<open>What a successful claim did, in two steps: the reaping and the start of one attempt.\<close>

lemma claim_SomeE:
  assumes "claim env sec m s = (Inr (Some l), d)"
  obtains j ms where "next_claim (pick_time env) (pick_locked env) m (reap env m (rows s)) = Some j"
    and "rows d = update_where (\<lambda>r. id_of r = id_of j) (start_attempt (start_time env) sec (new_token env)) (reap env m (rows s))"
    and "metrics d = metrics s @ concat (map (record_terminal ''failed'') (reaped env m (rows s))) @ ms"
    and "completions ms = 0" and "token l = new_token env" and "id_of (lease_job l) = id_of j"
    and "lease_job l \<in> set (rows d)" and "1 \<le> sec" and "sec \<le> 86400" and "1 \<le> m" and "m \<le> 100"
proof -
  from assms have args: "1 \<le> sec" "sec \<le> 86400" "1 \<le> m" "m \<le> 100"
    by (auto simp: claim_def split: if_splits)
  with assms obtain j where j: "next_claim (pick_time env) (pick_locked env) m (reap env m (rows s)) = Some j"
    by (auto simp: claim_def Let_def split: option.splits)
  let ?f = "start_attempt (start_time env) sec (new_token env)"
  let ?rs = "update_where (\<lambda>r. id_of r = id_of j) ?f (reap env m (rows s))"
  from assms args j obtain j' where j': "find_row (id_of j) ?rs = Some j'"
    by (auto simp: claim_def Let_def split: option.splits)
  let ?ms = "(case (queue_origin j, attempt_started_at j') of
      (Some origin, Some start) \<Rightarrow> [QueueWaitMs (elapsed_ms origin start)] | _ \<Rightarrow> []) @ [AttemptStarted (attempt_kind j)]"
  have "completions ?ms = 0" by (simp split: option.split)
  moreover from assms args j j' have "l = \<lparr>lease_job = j', token = new_token env\<rparr>"
    and "d = s\<lparr>rows := ?rs, metrics := metrics s @ concat (map (record_terminal ''failed'') (reaped env m (rows s))) @ ?ms\<rparr>"
    by (auto simp: claim_def Let_def)
  ultimately show thesis using j find_row_Some [OF j'] args by (intro that [of j ?ms]) simp_all
qed

lemma claim_None:
  assumes "claim env sec m s = (Inr None, d)"
  shows "d = \<lparr>rows = reap env m (rows s),
    metrics = metrics s @ concat (map (record_terminal ''failed'') (reaped env m (rows s)))\<rparr>"
    and "next_claim (pick_time env) (pick_locked env) m (reap env m (rows s)) = None"
  using assms by (auto simp: claim_def Let_def split: if_splits option.splits)

lemma claim_inv:
  assumes "claim env sec m (store c) = (Inr (Some l), d)" and "cluster_inv m c"
    and "new_token env \<notin> token ` set (leases c)"
  shows "cluster_inv m \<lparr>store = d, leases = l # leases c\<rparr>"
proof -
  obtain j ms where c: "next_claim (pick_time env) (pick_locked env) m (reap env m (rows (store c))) = Some j"
    "rows d = update_where (\<lambda>r. id_of r = id_of j) (start_attempt (start_time env) sec (new_token env)) (reap env m (rows (store c)))"
    "metrics d = metrics (store c) @ concat (map (record_terminal ''failed'') (reaped env m (rows (store c)))) @ ms"
    "completions ms = 0" "token l = new_token env" "id_of (lease_job l) = id_of j"
    by (rule claim_SomeE [OF assms(1)])
  let ?s = "\<lparr>rows = reap env m (rows (store c)),
    metrics = metrics (store c) @ concat (map (record_terminal ''failed'') (reaped env m (rows (store c))))\<rparr>"
  from assms(2) have inv: "0 \<le> m" "rows_inv m (store c)" "leases_inv (rows (store c)) (leases c)"
    by (simp_all add: cluster_inv_def)
  note s = rows_inv_reap [OF inv(2), of env] and j = next_claim_Some [OF c(1)]
  have "d = \<lparr>rows = rows d, metrics = metrics d\<rparr>" by simp
  also have "rows_inv m \<dots>"
    using start_rows_inv [OF s, of j "pick_time env" ms "start_time env" sec "new_token env"] c(2-4) j by simp
  finally have "rows_inv m d" .
  moreover have "leases_inv (rows d) (l # leases c)"
    unfolding c(2)
    by (rule start_leases_inv)
      (use c j assms(3) leases_inv_reap [OF inv(3)] rows_invD(1) [OF inv(2)] in simp_all)
  ultimately show ?thesis using inv(1) by (simp add: cluster_inv_def)
qed

lemma cluster_step_inv:
  assumes "cluster_inv m c" and "cluster_step m c c'"
  shows "cluster_inv m c'"
  using assms(2,1)
proof cases
  case (step_claim env seconds l d)
  show ?thesis unfolding step_claim(1) by (rule claim_inv [OF step_claim(2) assms(1) step_claim(3)])
next
  case (step_idle env seconds d)
  show ?thesis unfolding step_idle(1) claim_None(1) [OF step_idle(2)]
    using assms(1) by (simp add: cluster_inv_def leases_inv_reap rows_inv_reap)
next
  case (step_submit now i h fname sz)
  with assms show ?thesis by (simp add: cluster_inv_def rows_inv_submit leases_inv_submit)
next
  case (step_delete now i)
  with assms show ?thesis by (simp add: cluster_inv_def rows_inv_mark_deleted leases_inv_mark_deleted)
next
  case (step_cleanup i name)
  with assms show ?thesis by (simp add: cluster_inv_def rows_inv_finish_cleanup leases_inv_finish_cleanup)
next
  case (step_renew l now seconds prog)
  with assms show ?thesis by (simp add: cluster_inv_def rows_inv_heartbeat leases_inv_heartbeat)
next
  case (step_finish l now out prog ms)
  with assms show ?thesis by (simp add: cluster_inv_def rows_inv_finish leases_inv_finish)
qed

lemma empty_cluster_inv: "0 \<le> m \<Longrightarrow> cluster_inv m empty_cluster"
  by (simp add: cluster_inv_def empty_cluster_def rows_inv_def leases_inv_def finished_rows_def)

interpretation lifecycle: invariant_system "\<lambda>c. c = empty_cluster \<and> 0 \<le> m" "cluster_step m" "cluster_inv m"
  for m :: int
  by unfold_locales (auto intro: empty_cluster_inv cluster_step_inv)

definition reachable :: "int \<Rightarrow> cluster \<Rightarrow> bool" where
  "reachable m c \<longleftrightarrow> 0 \<le> m \<and> (cluster_step m)\<^sup>*\<^sup>* empty_cluster c"

lemma cluster_reachable_inv: "reachable m c \<Longrightarrow> cluster_inv m c"
  unfolding reachable_def by (rule lifecycle.reachable_inv [of empty_cluster]) auto

lemma reachable_step: "reachable m c \<Longrightarrow> cluster_step m c c' \<Longrightarrow> reachable m c'"
  by (auto simp: reachable_def)

lemma reachable_start: "0 \<le> m \<Longrightarrow> reachable m empty_cluster"
  by (simp add: reachable_def)

section \<open>What a step does to one row\<close>

lemma update_where_mem: "j \<in> set rs \<Longrightarrow> (if P j then f j else j) \<in> set (update_where P f rs)"
  by (auto simp: update_where_def)

definition row_tokens :: "job list \<Rightarrow> uuid set" where
  "row_tokens rs = {k. \<exists>j\<in>set rs. lease_token j = Some k}"

lemma update_tokens:
  assumes "\<And>j. j \<in> set rs \<Longrightarrow> P j \<Longrightarrow> lease_token (f j) \<in> {None, lease_token j}"
  shows "row_tokens (update_where P f rs) \<subseteq> row_tokens rs"
proof
  fix k assume "k \<in> row_tokens (update_where P f rs)"
  then obtain j' where j': "j' \<in> set (update_where P f rs)" "lease_token j' = Some k"
    by (auto simp: row_tokens_def)
  from j'(1) obtain j where j: "j \<in> set rs" "j' = (if P j then f j else j)"
    by (rule in_update_whereE)
  with j'(2) assms [OF j(1)] have "lease_token j = Some k" by (cases "P j") auto
  with j(1) show "k \<in> row_tokens rs" by (auto simp: row_tokens_def)
qed

lemma reap_tokens: "row_tokens (reap env m rs) \<subseteq> row_tokens rs"
  unfolding reap_def Let_def by (rule update_tokens) simp

lemma start_tokens:
  "row_tokens (update_where P (start_attempt now sec tok) rs) \<subseteq> insert tok (row_tokens rs)"
  by (auto simp: row_tokens_def update_where_def split: if_splits)

lemma step_tokens:
  assumes "cluster_step m c c'"
  shows "row_tokens (rows (store c')) \<subseteq> row_tokens (rows (store c)) \<union> - (token ` set (leases c))"
  using assms
proof cases
  case (step_submit now i h fname sz)
  then show ?thesis
    by (cases rule: submit_cases [of now i h fname sz "store c"]) (auto simp: row_tokens_def new_job_def)
next
  case (step_claim env seconds l d)
  obtain j :: job where rows: "rows d = update_where (\<lambda>r. id_of r = id_of j)
      (start_attempt (start_time env) seconds (new_token env)) (reap env m (rows (store c)))"
    by (rule claim_SomeE [OF step_claim(2)])
  have "row_tokens (rows d) \<subseteq> insert (new_token env) (row_tokens (rows (store c)))"
    unfolding rows using start_tokens reap_tokens by blast
  also have "\<dots> \<subseteq> row_tokens (rows (store c)) \<union> - (token ` set (leases c))"
    using step_claim(3) by simp
  finally show ?thesis by (simp add: step_claim(1))
next
  case (step_idle env seconds d)
  with reap_tokens show ?thesis unfolding step_idle(1) claim_None(1) [OF step_idle(2)] by force
next
  case (step_delete now i)
  have "row_tokens (rows (store c')) \<subseteq> row_tokens (rows (store c))"
    unfolding step_delete mark_deleted_snd by (auto dest: subsetD [OF update_tokens, rotated])
  then show ?thesis by blast
next
  case (step_cleanup i name)
  have "row_tokens (rows (store c')) \<subseteq> row_tokens (rows (store c))"
    unfolding step_cleanup finish_cleanup_db by (auto dest: subsetD [OF update_tokens, rotated])
  then show ?thesis by blast
next
  case (step_renew l now seconds prog)
  have "row_tokens (update_where (lease_condition l now) (renew_row now seconds prog) (rows (store c)))
      \<subseteq> row_tokens (rows (store c))" by (rule update_tokens) simp
  with step_renew(1) heartbeat_cases [of now l seconds prog "store c"] show ?thesis by auto
next
  case (step_finish l now out prog ms)
  have "row_tokens (update_where (lease_condition l now) (finish_row now out prog ms) (rows (store c)))
      \<subseteq> row_tokens (rows (store c))" by (rule update_tokens) simp
  with step_finish(1) finish_cases [of now l out prog ms "store c"] show ?thesis by auto
qed

definition same_end :: "job \<Rightarrow> job \<Rightarrow> bool" where
  "same_end j j' \<longleftrightarrow> id_of j' = id_of j \<and> status j' = status j \<and> finished_at j' = finished_at j \<and>
     attempts j' = attempts j \<and> input_hash j' = input_hash j \<and>
     (deleted_at j \<noteq> None \<longrightarrow> deleted_at j' = deleted_at j)"

lemma same_end_refl [simp]: "same_end j j"
  by (simp add: same_end_def)

lemma either_state:
  assumes "x \<in> {a, \<lparr>rows = rs, metrics = ms\<rparr>}" and "\<exists>j\<in>set (rows a). Q j" and "\<exists>j\<in>set rs. Q j"
  shows "\<exists>j\<in>set (rows x). Q j"
  using assms by auto

lemma update_keeps_end:
  assumes "j \<in> set rs" and "P j \<Longrightarrow> same_end j (f j)"
  shows "\<exists>j'\<in>set (update_where P f rs). same_end j j'"
  using update_where_mem [OF assms(1), of P f] assms(2)
  by (cases "P j") (auto intro: bexI [of _ j] bexI [of _ "f j"])

lemma step_keeps_end:
  assumes inv: "cluster_inv m c" and step: "cluster_step m c c'"
    and j: "j \<in> set (rows (store c))" "is_terminal (status j)"
  shows "\<exists>j'\<in>set (rows (store c')). same_end j j'"
proof -
  have d: "distinct (map id_of (rows (store c)))" using inv by (simp add: cluster_inv_def rows_inv_def)
  have reap: "j \<in> set (reap env m (rows (store c)))" for env
  proof -
    have "\<not> reap_row env m (rows (store c)) j"
      using reap_row_unfinished(1) [OF d j(1), of env m] j(2) by blast
    then show ?thesis
      using update_where_mem [OF j(1), of "reap_row env m (rows (store c))" "exhaust (reap_time env)"]
      by (simp add: reap_def Let_def)
  qed
  show ?thesis using step
  proof cases
    case (step_submit now i h fname sz)
    with j show ?thesis
      by (cases rule: submit_cases [of now i h fname sz "store c"]) (auto intro!: bexI [of _ j])
  next
    case (step_claim env seconds l d')
    obtain k where k: "next_claim (pick_time env) (pick_locked env) m (reap env m (rows (store c))) = Some k"
      and rows: "rows d' = update_where (\<lambda>r. id_of r = id_of k)
        (start_attempt (start_time env) seconds (new_token env)) (reap env m (rows (store c)))"
      by (rule claim_SomeE [OF step_claim(2)])
    note k = next_claim_Some [OF k]
    have "id_of j \<noteq> id_of k"
    proof
      assume "id_of j = id_of k"
      moreover have "distinct (map id_of (reap env m (rows (store c))))" using d by simp
      ultimately have "j = k" using reap k(1) by (metis distinct_map_same)
      with k(2) j(2) show False by (simp add: available_not_terminal)
    qed
    then have "\<exists>j'\<in>set (rows d'). same_end j j'"
      unfolding rows by (intro update_keeps_end reap) simp
    with step_claim show ?thesis by simp
  next
    case (step_idle env seconds d')
    with reap [of env] claim_None(1) [OF step_idle(2)] show ?thesis by (auto intro!: bexI [of _ j])
  next
    case (step_delete now i)
    show ?thesis unfolding step_delete mark_deleted_snd
      by (simp, intro update_keeps_end) (use j in \<open>auto simp: same_end_def coalesce_def\<close>)
  next
    case (step_cleanup i name)
    show ?thesis unfolding step_cleanup finish_cleanup_db
      by (simp, intro update_keeps_end) (use j in \<open>auto simp: same_end_def\<close>)
  next
    case (step_renew l now seconds prog)
    have "\<exists>j'\<in>set (update_where (lease_condition l now) (renew_row now seconds prog) (rows (store c))). same_end j j'"
      using j by (intro update_keeps_end) (auto simp: lease_condition_def terminal_simps)
    then have "\<exists>j'\<in>set (rows (snd (heartbeat now l seconds prog (store c)))). same_end j j'"
      by (intro either_state [OF heartbeat_cases]) (use j in \<open>auto intro!: bexI [of _ j]\<close>)
    then show ?thesis unfolding step_renew(1) by simp
  next
    case (step_finish l now out prog ms)
    have "\<exists>j'\<in>set (update_where (lease_condition l now) (finish_row now out prog ms) (rows (store c))). same_end j j'"
      using j by (intro update_keeps_end) (auto simp: lease_condition_def terminal_simps)
    then have "\<exists>j'\<in>set (rows (snd (finish now l out prog ms (store c)))). same_end j j'"
      by (intro either_state [OF finish_cases]) (use j in \<open>auto intro!: bexI [of _ j]\<close>)
    then show ?thesis unfolding step_finish(1) by simp
  qed
qed

lemma unheld_lease:
  assumes "\<forall>j\<in>set (rows s). lease_token j \<noteq> Some (token l)"
  shows "heartbeat now l seconds prog s \<in> {(Inr False, s), (Inl InvalidInput, s)}"
    and "finish now l out prog ms s \<in> {(Inr False, s), (Inl InvalidInput, s)}"
proof -
  have none: "\<And>j. j \<in> set (rows s) \<Longrightarrow> \<not> lease_condition l now j"
    using assms by (auto simp: lease_condition_def)
  then have "filter (lease_condition l now) (rows s) = []" by (simp add: filter_empty_conv)
  moreover have "update_where (lease_condition l now) f (rows s) = rows s" for f
    by (rule update_where_none) (rule none)
  ultimately show "heartbeat now l seconds prog s \<in> {(Inr False, s), (Inl InvalidInput, s)}"
    and "finish now l out prog ms s \<in> {(Inr False, s), (Inl InvalidInput, s)}"
    by (simp_all add: heartbeat_def finish_def Let_def)
qed

end
