(* ===== verification/Job_Properties.thy ===== *)
theory Job_Properties
  imports Job_Lifecycle
begin

text \<open>
  The properties of the durable job queue, with concrete runs that show their hypotheses
  can hold: a cluster whose single job is submitted, claimed and finished, and one whose
  lease expires and is taken over.
\<close>

section \<open>A concrete run\<close>

definition demo_hash :: rstr where
  "demo_hash = replicate 64 48"

definition demo_env :: "timestamp \<Rightarrow> uuid \<Rightarrow> claim_env" where
  "demo_env now tok = \<lparr>reap_time = now, reap_locked = (\<lambda>_. False), pick_time = now,
     pick_locked = (\<lambda>_. False), start_time = now, new_token = tok\<rparr>"

definition demo_new :: job where
  "demo_new = new_job 0 7 demo_hash None None"

definition demo_running :: job where
  "demo_running = start_attempt 10 60 100 demo_new"

definition demo_retaken :: job where
  "demo_retaken = start_attempt 90000000 60 101 demo_running"

definition demo_lease :: lease where
  "demo_lease = \<lparr>lease_job = demo_running, token = 100\<rparr>"

definition demo_lease2 :: lease where
  "demo_lease2 = \<lparr>lease_job = demo_retaken, token = 101\<rparr>"

definition demo_submitted :: cluster where
  "demo_submitted = \<lparr>store = \<lparr>rows = [demo_new], metrics = [JobSubmitted]\<rparr>, leases = []\<rparr>"

definition demo_claimed :: cluster where
  "demo_claimed = \<lparr>store = \<lparr>rows = [demo_running],
     metrics = [JobSubmitted, QueueWaitMs 0, AttemptStarted ''initial'']\<rparr>, leases = [demo_lease]\<rparr>"

lemmas demo_defs = demo_new_def demo_running_def demo_retaken_def demo_lease_def demo_lease2_def
  demo_submitted_def demo_claimed_def demo_env_def

lemma demo_submit:
  "submit 0 7 demo_hash None None (store empty_cluster) = (Inr demo_new, store demo_submitted)"
  by code_simp

lemma demo_claim:
  "claim (demo_env 10 100) 60 3 (store demo_submitted) = (Inr (Some demo_lease), store demo_claimed)"
  by code_simp

lemma demo_reachable_submitted: "reachable 3 demo_submitted"
proof -
  have "cluster_step 3 empty_cluster (empty_cluster\<lparr>store := snd (submit 0 7 demo_hash None None (store empty_cluster))\<rparr>)"
    by (rule step_submit)
  also have "empty_cluster\<lparr>store := snd (submit 0 7 demo_hash None None (store empty_cluster))\<rparr> = demo_submitted"
    unfolding demo_submit by (simp add: empty_cluster_def demo_submitted_def)
  finally have "cluster_step 3 empty_cluster demo_submitted" .
  from reachable_step [OF reachable_start this] show ?thesis by simp
qed

lemma demo_reachable_claimed: "reachable 3 demo_claimed"
proof -
  have "cluster_step 3 demo_submitted \<lparr>store = store demo_claimed, leases = demo_lease # leases demo_submitted\<rparr>"
    by (rule step_claim [OF demo_claim]) (simp add: demo_submitted_def)
  then show ?thesis using reachable_step [OF demo_reachable_submitted]
    by (simp add: demo_submitted_def demo_claimed_def)
qed

section \<open>Rows and leases\<close>

text \<open>
  C23: In every state the cluster can reach, each row's columns agree: a lease token and a
  deadline exactly while running, a finish time exactly when terminal, a result only on a
  succeeded job, deletion only of a terminal one, a well-formed input hash, and between 0
  and the configured maximum of attempts.
\<close>

theorem reachable_rows_consistent:
  assumes "reachable m c" and "j \<in> set (rows (store c))"
  shows "row_ok j \<and> 0 \<le> attempts j \<and> attempts j \<le> m"
  using cluster_reachable_inv [OF assms(1)] assms(2)
  by (auto simp: cluster_inv_def rows_inv_def leases_inv_def)

theorem reachable_rows_consistent_witness:
  "row_ok demo_running \<and> 0 \<le> attempts demo_running \<and> attempts demo_running \<le> 3"
  by (rule reachable_rows_consistent [OF demo_reachable_claimed]) (simp add: demo_claimed_def)

text \<open>
  C8: Fencing. Once no row carries a lease's token (it was finished, reaped, or the job was
  claimed again), then after any further steps of the cluster, a heartbeat or a completion
  with that lease reports that it was lost and leaves the table and the metrics exactly as
  they were.
\<close>

theorem lost_lease_stays_lost:
  assumes "reachable m c" and "l \<in> set (leases c)"
    and "\<forall>j\<in>set (rows (store c)). lease_token j \<noteq> Some (token l)"
    and "(cluster_step m)\<^sup>*\<^sup>* c c'"
  shows "heartbeat now l seconds prog (store c') \<in> {(Inr False, store c'), (Inl InvalidInput, store c')} \<and>
    finish now l out prog ms (store c') \<in> {(Inr False, store c'), (Inl InvalidInput, store c')}"
proof -
  let ?P = "\<lambda>c. l \<in> set (leases c) \<and> token l \<notin> row_tokens (rows (store c))"
  have "?P c'"
  proof (rule lifecycle.stable [OF assms(4) cluster_reachable_inv [OF assms(1)]])
    show "?P c" using assms(2,3) by (auto simp: row_tokens_def)
  next
    fix s t assume step: "cluster_step m s t" and P: "?P s"
    from step have "set (leases s) \<subseteq> set (leases t)" by cases auto
    moreover have "token l \<notin> row_tokens (rows (store t))" using step_tokens [OF step] P by blast
    ultimately show "?P t" using P by blast
  qed
  then have "\<forall>j\<in>set (rows (store c')). lease_token j \<noteq> Some (token l)" by (auto simp: row_tokens_def)
  then show ?thesis by (intro conjI unheld_lease)
qed

definition demo_retaken_cluster :: cluster where
  "demo_retaken_cluster = \<lparr>store = snd (claim (demo_env 90000000 101) 60 3 (store demo_claimed)),
     leases = [demo_lease2, demo_lease]\<rparr>"

lemma demo_retake:
  "claim (demo_env 90000000 101) 60 3 (store demo_claimed) = (Inr (Some demo_lease2), store demo_retaken_cluster)"
  by code_simp

lemma demo_reachable_retaken: "reachable 3 demo_retaken_cluster"
proof -
  have "cluster_step 3 demo_claimed \<lparr>store = store demo_retaken_cluster, leases = demo_lease2 # leases demo_claimed\<rparr>"
    by (rule step_claim [OF demo_retake]) (simp add: demo_claimed_def demo_lease_def demo_env_def)
  from reachable_step [OF demo_reachable_claimed this] show ?thesis
    by (simp add: demo_retaken_cluster_def demo_claimed_def)
qed

lemma demo_retaken_rows: "rows (store demo_retaken_cluster) = [demo_retaken]"
  by code_simp

theorem lost_lease_stays_lost_witness:
  "finish 90000001 demo_lease (Inr (lit ''old.json'')) None 5 (store demo_retaken_cluster)
     \<in> {(Inr False, store demo_retaken_cluster), (Inl InvalidInput, store demo_retaken_cluster)}"
proof -
  have "\<forall>j\<in>set (rows (store demo_retaken_cluster)). lease_token j \<noteq> Some (token demo_lease)"
    by (simp add: demo_retaken_rows demo_retaken_def demo_lease_def)
  moreover have "demo_lease \<in> set (leases demo_retaken_cluster)" by (simp add: demo_retaken_cluster_def)
  ultimately show ?thesis
    using lost_lease_stays_lost [OF demo_reachable_retaken, of demo_lease demo_retaken_cluster] by blast
qed

text \<open>
  C9: At most one completion. When a worker's \<open>finish\<close> is accepted, every other lease ever
  handed out for that job (and this one a second time) can no longer renew or finish it:
  the job is completed by one worker only.
\<close>

theorem accepted_finish_is_exclusive:
  assumes "reachable m c" and "l \<in> set (leases c)" and "l' \<in> set (leases c)"
    and "id_of (lease_job l') = id_of (lease_job l)"
    and "finish now l out prog ms (store c) = (Inr True, s)"
  shows "heartbeat now' l' seconds prog' s \<in> {(Inr False, s), (Inl InvalidInput, s)} \<and>
    finish now' l' out' prog' ms' s \<in> {(Inr False, s), (Inl InvalidInput, s)}"
proof -
  let ?P = "lease_condition l now" and ?f = "finish_row now out prog ms"
  from assms(5) have hits: "filter ?P (rows (store c)) \<noteq> []"
    and rows: "rows s = update_where ?P ?f (rows (store c))"
    by (auto simp: finish_def Let_def split: if_splits)
  then obtain h where h: "h \<in> set (rows (store c))" "?P h" by (auto simp: filter_empty_conv)
  from cluster_reachable_inv [OF assms(1)] have inv: "rows_inv m (store c)" "leases_inv (rows (store c)) (leases c)"
    by (simp_all add: cluster_inv_def)
  have "lease_token r \<noteq> Some (token l')" if r: "r \<in> set (rows s)" for r
  proof
    assume tok: "lease_token r = Some (token l')"
    from r rows obtain q where q: "q \<in> set (rows (store c))" "r = (if ?P q then ?f q else q)"
      by (metis in_update_whereE)
    with tok have "\<not> ?P q" and "lease_token q = Some (token l')" by (auto split: if_splits)
    with inv q obtain k where "k \<in> set (leases c)" "token k = token l'" "id_of (lease_job k) = id_of q"
      by (metis (no_types, lifting) leases_inv_def)
    moreover from this inv assms(3) have "k = l'" by (auto simp: leases_inv_def dest: distinct_map_same)
    ultimately have "id_of q = id_of h" using h(2) assms(4) by (simp add: lease_condition_def)
    with rows_invD(1) [OF inv(1)] q(1) h(1) have "q = h" by (metis distinct_map_same)
    with \<open>\<not> ?P q\<close> h(2) show False by simp
  qed
  then have "\<forall>r\<in>set (rows s). lease_token r \<noteq> Some (token l')" by blast
  then show ?thesis by (intro conjI unheld_lease)
qed

theorem accepted_finish_is_exclusive_witness:
  "finish 20 demo_lease (Inr (lit ''again.json'')) None 6
      (snd (finish 15 demo_lease (Inr (lit ''7.json'')) None 5 (store demo_claimed)))
    \<in> {(Inr False, snd (finish 15 demo_lease (Inr (lit ''7.json'')) None 5 (store demo_claimed))),
       (Inl InvalidInput, snd (finish 15 demo_lease (Inr (lit ''7.json'')) None 5 (store demo_claimed)))}"
proof -
  have "fst (finish 15 demo_lease (Inr (lit ''7.json'')) None 5 (store demo_claimed)) = Inr True"
    by code_simp
  then have "finish 15 demo_lease (Inr (lit ''7.json'')) None 5 (store demo_claimed) =
      (Inr True, snd (finish 15 demo_lease (Inr (lit ''7.json'')) None 5 (store demo_claimed)))"
    by (metis prod.collapse)
  from accepted_finish_is_exclusive [OF demo_reachable_claimed _ _ _ this, of demo_lease]
  show ?thesis by (simp add: demo_claimed_def)
qed

text \<open>
  C40: A finished job stays finished: once a job is succeeded or failed, every later state of
  the cluster has a row for it with the same status, finish time, attempt count and input, and
  with the same deletion time once it has one.
\<close>

theorem finished_jobs_stay_finished:
  assumes "reachable m c" and "(cluster_step m)\<^sup>*\<^sup>* c c'"
    and "j \<in> set (rows (store c))" and "is_terminal (status j)"
  shows "\<exists>j'\<in>set (rows (store c')). same_end j j'"
proof (rule lifecycle.stable [OF assms(2) cluster_reachable_inv [OF assms(1)]])
  show "\<exists>j'\<in>set (rows (store c)). same_end j j'" using assms(3) by (auto intro: bexI [of _ j])
next
  fix s t assume "cluster_inv m s" "cluster_step m s t" "\<exists>j'\<in>set (rows (store s)). same_end j j'"
  then obtain k where k: "k \<in> set (rows (store s))" "same_end j k" by blast
  with assms(4) have "is_terminal (status k)" by (simp add: same_end_def)
  from step_keeps_end [OF \<open>cluster_inv m s\<close> \<open>cluster_step m s t\<close> k(1) this]
  show "\<exists>j'\<in>set (rows (store t)). same_end j j'" using k(2) by (auto simp: same_end_def)
qed

definition demo_done :: cluster where
  "demo_done = demo_claimed\<lparr>store := snd (finish 15 demo_lease (Inr (lit ''7.json'')) None 5 (store demo_claimed))\<rparr>"

definition demo_done_row :: job where
  "demo_done_row = finish_row 15 (Inr (lit ''7.json'')) None 5 demo_running"

lemma demo_done_rows: "rows (store demo_done) = [demo_done_row]"
  by code_simp

lemma demo_reachable_done: "reachable 3 demo_done"
  unfolding demo_done_def
  by (rule reachable_step [OF demo_reachable_claimed step_finish]) (simp add: demo_claimed_def)

theorem finished_jobs_stay_finished_witness:
  "\<exists>j'\<in>set (rows (store (demo_done\<lparr>store := snd (mark_deleted 30 7 (store demo_done))\<rparr>))). same_end demo_done_row j'"
proof -
  have "cluster_step 3 demo_done (demo_done\<lparr>store := snd (mark_deleted 30 7 (store demo_done))\<rparr>)"
    by (rule step_delete)
  from finished_jobs_stay_finished [OF demo_reachable_done r_into_rtranclp [where r = "cluster_step 3", OF this], of demo_done_row]
  show ?thesis by (simp add: demo_done_rows demo_done_row_def is_terminal_def)
qed

text \<open>
  The completion counter is exact: in every reachable state the number of completion
  events ever recorded equals the number of jobs that are succeeded or failed, so each job
  is counted once, when its terminal transition commits, and retries are never counted.
\<close>

lemma completions_counted_once:
  assumes "reachable m c"
  shows "completions (metrics (store c)) = finished_rows (rows (store c))"
  using cluster_reachable_inv [OF assms] by (simp add: cluster_inv_def rows_inv_def)

lemma completions_counted_once_example:
  "completions (metrics (store demo_done)) = finished_rows (rows (store demo_done)) \<and>
   finished_rows (rows (store demo_done)) = 1"
  using completions_counted_once [OF demo_reachable_done] by (simp add: demo_done_rows finished_rows_def demo_done_row_def is_terminal_def)

text \<open>
  C22: Retries are bounded: whatever workers crash, stall or finish late, at most
  \<open>max_attempts\<close> leases are ever handed out for one job.
\<close>

theorem attempts_bounded:
  assumes "reachable m c"
  shows "int (handed_out i (leases c)) \<le> m"
proof (cases "i \<in> id_of ` set (rows (store c))")
  case True
  then obtain j where j: "j \<in> set (rows (store c))" "id_of j = i" by blast
  from cluster_reachable_inv [OF assms] j show ?thesis
    by (auto simp: cluster_inv_def rows_inv_def leases_inv_def)
next
  case False
  with cluster_reachable_inv [OF assms] have "handed_out i (leases c) = 0"
    by (auto simp: cluster_inv_def leases_inv_def handed_out_def filter_empty_conv)
  with cluster_reachable_inv [OF assms] show ?thesis by (simp add: cluster_inv_def)
qed

theorem attempts_bounded_witness: "int (handed_out 7 (leases demo_retaken_cluster)) \<le> 3"
  by (rule attempts_bounded [OF demo_reachable_retaken])

section \<open>Submission and deletion\<close>

text \<open>
  Submission is idempotent. After an accepted submission the job is visible under its
  key, resubmitting the same key and input at any time returns the same row and changes
  neither table nor metrics, and the same key with another input is refused without effect.
\<close>

lemma submit_idempotent:
  assumes "submit now i h fname sz s = (Inr j, s')"
  shows "id_of j = i \<and> input_hash j = h \<and> find_by_id i s' \<noteq> None \<and>
    submit now' i h fname sz s' = (Inr j, s') \<and>
    (hash_ok h' \<and> h' \<noteq> h \<longrightarrow> submit now' i h' fname sz s' = (Inl IdempotencyConflict, s'))"
proof -
  let ?bad = "\<lambda>h. (case fname of None \<Rightarrow> False | Some n \<Rightarrow> n = [] \<or> 255 < length n) \<or>
    (case sz of None \<Rightarrow> False | Some n \<Rightarrow> n \<le> 0) \<or> \<not> hash_ok h"
  from assms have ok: "\<not> ?bad h" by (auto simp: submit_def split: if_splits)
  have found: "find_row i (rows s') = Some j \<and> input_hash j = h \<and> deleted_at j = None"
    using assms ok unfolding submit_def Let_def
    by (auto split: if_splits option.splits simp: find_row_snoc new_job_def)
  then have j: "j \<in> set (rows s')" "id_of j = i" by (auto dest: find_row_Some)
  have "find_by_id i s' \<noteq> None"
    using j found by (auto simp: find_by_id_def find_None_iff)
  moreover have "submit now' i h fname sz s' = (Inr j, s')"
    using ok found unfolding submit_def Let_def by (simp only: if_False) simp
  moreover have "submit now' i h' fname sz s' = (Inl IdempotencyConflict, s')" if "hash_ok h'" "h' \<noteq> h"
  proof -
    from ok that(1) have "\<not> ?bad h'" by blast
    with found that(2) show ?thesis unfolding submit_def Let_def by (simp only: if_False) simp
  qed
  ultimately show ?thesis using j found by blast
qed

lemma submit_idempotent_example:
  "submit 99 7 demo_hash None None (store demo_submitted) = (Inr demo_new, store demo_submitted) \<and>
   submit 99 7 (replicate 64 57) None None (store demo_submitted) = (Inl IdempotencyConflict, store demo_submitted)"
proof -
  have "hash_ok (replicate 64 57) \<and> (replicate 64 57 :: rstr) \<noteq> demo_hash" by code_simp
  with submit_idempotent [OF demo_submit, of 99 "replicate 64 57"] show ?thesis by blast
qed

text \<open>
  Deletion is a tombstone. Once a job is deleted, in every later state of the cluster
  lookups by its key find nothing, and a submission under its key is refused and changes
  nothing: cleanup, claims, late heartbeats and late completions never bring it back.
\<close>

lemma deleted_jobs_stay_deleted:
  assumes "reachable m c" and "(cluster_step m)\<^sup>*\<^sup>* c c'"
    and "j \<in> set (rows (store c))" and "deleted_at j \<noteq> None"
  shows "find_by_id (id_of j) (store c') = None \<and>
    submit now (id_of j) h fname sz (store c') \<in>
      {(Inl IdempotencyConflict, store c'), (Inl InvalidInput, store c')}"
proof -
  have row: "\<exists>j'\<in>set (rows (store c')). same_end j j'"
  proof (rule lifecycle.stable [OF assms(2) cluster_reachable_inv [OF assms(1)]])
    show "\<exists>j'\<in>set (rows (store c)). same_end j j'" using assms(3) by (auto intro: bexI [of _ j])
  next
    fix s t assume inv: "cluster_inv m s" and "cluster_step m s t"
      and "\<exists>j'\<in>set (rows (store s)). same_end j j'"
    then obtain k where k: "k \<in> set (rows (store s))" "same_end j k" by blast
    with assms(4) have "deleted_at k \<noteq> None" by (simp add: same_end_def)
    with inv k have "is_terminal (status k)" by (auto simp: cluster_inv_def rows_inv_def row_ok_def)
    from step_keeps_end [OF inv \<open>cluster_step m s t\<close> k(1) this]
    show "\<exists>j'\<in>set (rows (store t)). same_end j j'" using k(2) assms(4) by (auto simp: same_end_def)
  qed
  then obtain k :: job where k: "k \<in> set (rows (store c'))" "id_of k = id_of j" "deleted_at k \<noteq> None"
    using assms(4) by (auto simp: same_end_def)
  have "reachable m c'" using assms(1,2) by (auto simp: reachable_def)
  then have d: "distinct (map id_of (rows (store c')))"
    by (auto dest: cluster_reachable_inv simp: cluster_inv_def rows_inv_def)
  have only: "k' = k" if "k' \<in> set (rows (store c'))" "id_of k' = id_of j" for k'
    using distinct_map_same [OF d that(1) k(1)] that(2) k(2) by simp
  have "find_by_id (id_of j) (store c') = None"
    using only k(3) by (auto simp: find_by_id_def find_None_iff)
  moreover have "find_row (id_of j) (rows (store c')) = Some k" using find_row_in [OF d k(1)] k(2) by simp
  then have "submit now (id_of j) h fname sz (store c') \<in>
      {(Inl IdempotencyConflict, store c'), (Inl InvalidInput, store c')}"
    using k(3) by (simp add: submit_def Let_def)
  ultimately show ?thesis ..
qed

definition demo_deleted :: cluster where
  "demo_deleted = demo_done\<lparr>store := snd (mark_deleted 30 7 (store demo_done))\<rparr>"

lemma deleted_jobs_stay_deleted_example:
  "find_by_id 7 (store demo_deleted) = None \<and>
   submit 40 7 demo_hash None None (store demo_deleted) \<in>
      {(Inl IdempotencyConflict, store demo_deleted), (Inl InvalidInput, store demo_deleted)}"
proof -
  let ?j = "demo_done_row\<lparr>deleted_at := Some 30\<rparr>"
  have "reachable 3 demo_deleted"
    unfolding demo_deleted_def by (rule reachable_step [OF demo_reachable_done step_delete])
  moreover have "rows (store demo_deleted) = [?j]" by code_simp
  moreover have "id_of ?j = 7"
    by (simp add: demo_done_row_def demo_running_def demo_new_def new_job_def)
  ultimately show ?thesis
    using deleted_jobs_stay_deleted [of 3 demo_deleted demo_deleted ?j 40 demo_hash None None] by simp
qed

end
