(* ===== verification/Job_Queries.thy ===== *)
theory Job_Queries
  imports Job_Properties "HOL-Library.Multiset"
begin

text \<open>
  What the read side of the job queue promises: history pages cover the table exactly once
  in order, the file-name search is a literal substring search although it goes through SQL
  \<open>LIKE\<close>, the backlog gauges count every unfinished job once, and \<open>claim\<close> is first in, first
  out among the rows it may take.
\<close>

section \<open>History pages\<close>

text \<open>A client that follows \<open>next_cursor\<close> until there is none, with a bound on its requests.\<close>

fun walk_pages ::
  "(rstr \<Rightarrow> rstr) \<Rightarrow> (rstr \<Rightarrow> rstr) \<Rightarrow> db \<Rightarrow> nat \<Rightarrow> job_status option \<Rightarrow> rstr option \<Rightarrow> nat \<Rightarrow> uuid option
     \<Rightarrow> (database_error + job list) option" where
  "walk_pages sl lw s limit st search 0 cur = None"
| "walk_pages sl lw s limit st search (Suc fuel) cur =
     (case list_handler sl lw s cur (Some limit) st search of
        Inl e \<Rightarrow> Some (Inl e)
      | Inr (page, None) \<Rightarrow> Some (Inr page)
      | Inr (page, Some c) \<Rightarrow>
          (case walk_pages sl lw s limit st search fuel (Some c) of
             Some (Inr rest) \<Rightarrow> Some (Inr (page @ rest)) | r \<Rightarrow> r))"

text \<open>The history a client should see: the matching rows, newest first.\<close>

definition history ::
  "(rstr \<Rightarrow> rstr) \<Rightarrow> (rstr \<Rightarrow> rstr) \<Rightarrow> db \<Rightarrow> job_status option \<Rightarrow> rstr option \<Rightarrow> job list" where
  "history sl lw s st search = rev (sort_key job_key (filter (matches sl lw st search) (rows s)))"

lemma descending_filter_drop:
  assumes "sorted (rev (map k xs))" and "distinct (map k xs)" and "p < length xs"
  shows "filter (\<lambda>j. k j < (k (xs ! p) :: 'k :: linorder)) xs = drop (Suc p) xs"
proof -
  have ord: "k (xs ! b) < k (xs ! a)" if "a < b" "b < length xs" for a b
  proof -
    have "sorted_wrt (\<ge>) (map k xs)" using assms(1) by (simp add: sorted_wrt_rev)
    with that have "k (xs ! b) \<le> k (xs ! a)" by (simp add: sorted_wrt_iff_nth_less)
    moreover have "k (xs ! b) \<noteq> k (xs ! a)" using assms(2) that by (simp add: distinct_conv_nth)
    ultimately show ?thesis by simp
  qed
  let ?P = "\<lambda>j. k j < k (xs ! p)"
  have "filter ?P (take (Suc p) xs) = []"
  proof (simp add: filter_empty_conv, intro ballI)
    fix x assume "x \<in> set (take (Suc p) xs)"
    then obtain a where "a \<le> p" "x = xs ! a" using assms(3) by (auto simp: in_set_conv_nth less_Suc_eq_le)
    then show "\<not> k x < k (xs ! p)" using ord [of a p] assms(3) by (cases "a = p") auto
  qed
  moreover have "filter ?P (drop (Suc p) xs) = drop (Suc p) xs"
  proof (simp add: filter_id_conv, intro ballI)
    fix x assume "x \<in> set (drop (Suc p) xs)"
    then obtain b where "b < length xs - Suc p" "x = xs ! (Suc p + b)"
      by (auto simp: in_set_conv_nth nth_drop)
    then show "k x < k (xs ! p)" using ord [of p "Suc p + b"] by simp
  qed
  ultimately show ?thesis by (metis append_take_drop_id filter_append append_Nil)
qed

lemma job_key_less:
  "(created_at j < created_at a \<or> created_at j = created_at a \<and> id_of j < id_of a) = (job_key j < job_key a)"
  by (auto simp: job_key_def less_prod_def')

lemma distinct_job_key: "distinct (map id_of rs) \<Longrightarrow> distinct (map job_key rs)"
  by (auto simp: job_key_def distinct_map inj_on_def)

lemma history_order:
  assumes "distinct (map id_of (rows s))"
  shows "sorted (rev (map job_key (history sl lw s st search)))"
    and "distinct (map job_key (history sl lw s st search))"
proof -
  show "sorted (rev (map job_key (history sl lw s st search)))"
    by (simp add: history_def rev_map)
  have "distinct (map job_key (filter (matches sl lw st search) (rows s)))"
    by (intro distinct_map_filter distinct_job_key assms)
  then show "distinct (map job_key (history sl lw s st search))"
    by (simp add: history_def rev_map [symmetric] distinct_map)
qed

lemma rev_filter_commute: "filter P (rev xs) = rev (filter P xs)"
  by (simp add: rev_filter)

lemma list_jobs_page:
  assumes d: "distinct (map id_of (rows s))" and ok: "1 \<le> limit" "limit \<le> 100"
    and short: "\<And>t. search = Some t \<Longrightarrow> length t \<le> 200"
  shows "list_jobs sl lw s None limit st search = Inr (take (limit + 1) (history sl lw s st search))"
    and "p < length (history sl lw s st search) \<Longrightarrow>
      list_jobs sl lw s (Some (id_of (history sl lw s st search ! p))) limit st search =
        Inr (take (limit + 1) (drop (Suc p) (history sl lw s st search)))"
proof -
  let ?h = "history sl lw s st search"
  from ok short have g: "\<not> (\<not> (1 \<le> limit \<and> limit \<le> 100) \<or> (case search of None \<Rightarrow> False | Some t \<Rightarrow> 200 < length t))"
    by (auto split: option.split dest: leD)
  show "list_jobs sl lw s None limit st search = Inr (take (limit + 1) ?h)"
    unfolding list_jobs_def if_not_P [OF g] by (simp add: history_def)
  assume p: "p < length ?h"
  then have "?h ! p \<in> set ?h" by simp
  then have mem: "?h ! p \<in> set (rows s)" by (auto simp: history_def simp del: nth_mem)
  have "rev (sort_key job_key (filter (\<lambda>j. matches sl lw st search j \<and> job_key j < job_key (?h ! p)) (rows s)))
      = filter (\<lambda>j. job_key j < job_key (?h ! p)) ?h"
    by (simp add: history_def rev_filter_commute filter_sort conj_commute)
  also have "\<dots> = drop (Suc p) ?h"
    by (rule descending_filter_drop [OF history_order [OF d] p])
  finally show "list_jobs sl lw s (Some (id_of (?h ! p))) limit st search = Inr (take (limit + 1) (drop (Suc p) ?h))"
    unfolding list_jobs_def if_not_P [OF g] by (simp add: find_row_in [OF d mem] job_key_less)
qed

lemma handler_page:
  assumes "1 \<le> limit" "limit \<le> 100" "\<And>t. search = Some t \<Longrightarrow> length t \<le> 200"
    and "list_jobs sl lw s cur limit st search = Inr (take (limit + 1) rest)"
  shows "list_handler sl lw s cur (Some limit) st search =
    (if limit < length rest then Inr (take limit rest, Some (id_of (rest ! (limit - 1)))) else Inr (rest, None))"
proof -
  from assms(1-3) have g: "\<not> (\<not> (1 \<le> limit \<and> limit \<le> 100) \<or> (case search of None \<Rightarrow> False | Some t \<Rightarrow> 200 < length t))"
    by (auto split: option.split dest: leD)
  show ?thesis
  proof (cases "limit < length rest")
    case True
    then have "butlast (take (limit + 1) rest) = take limit rest"
      by (simp add: butlast_take)
    moreover have "take limit rest \<noteq> []" using True assms(1) by auto
    moreover have "last (take limit rest) = rest ! (limit - 1)"
      using True assms(1) \<open>take limit rest \<noteq> []\<close> by (simp add: last_conv_nth)
    moreover obtain y ys where "take limit rest = y # ys"
      using \<open>take limit rest \<noteq> []\<close> by (cases "take limit rest") auto
    ultimately show ?thesis
      unfolding list_handler_def Let_def coalesce_def option.case if_not_P [OF g] assms(4) rbind_simps
      using True by (auto simp del: last.simps)
  next
    case False
    then show ?thesis
      unfolding list_handler_def Let_def coalesce_def option.case if_not_P [OF g] assms(4) rbind_simps by simp
  qed
qed

lemma walk_rest:
  assumes d: "distinct (map id_of (rows s))" and ok: "1 \<le> limit" "limit \<le> 100"
    and short: "\<And>t. search = Some t \<Longrightarrow> length t \<le> 200"
    and "list_jobs sl lw s cur limit st search = Inr (take (limit + 1) (drop n (history sl lw s st search)))"
    and "length (history sl lw s st search) - n < fuel"
  shows "walk_pages sl lw s limit st search fuel cur = Some (Inr (drop n (history sl lw s st search)))"
  using assms(5,6)
proof (induction fuel arbitrary: cur n)
  case (Suc fuel)
  let ?h = "history sl lw s st search" and ?rest = "drop n (history sl lw s st search)"
  note page = handler_page [OF ok short Suc.prems(1)]
  show ?case
  proof (cases "limit < length ?rest")
    case False
    with page show ?thesis by simp
  next
    case True
    let ?p = "n + (limit - 1)"
    from True ok have p: "?p < length ?h" and at: "?rest ! (limit - 1) = ?h ! ?p" and next_n: "Suc ?p = n + limit" by auto
    have "walk_pages sl lw s limit st search fuel (Some (id_of (?h ! ?p))) = Some (Inr (drop (Suc ?p) ?h))"
      by (rule Suc.IH [OF list_jobs_page(2) [OF d ok short p]]) (use True ok Suc.prems(2) in auto)
    then show ?thesis using page True at next_n
      by (simp add: add.commute [of n limit] take_drop [symmetric] drop_drop [symmetric] del: drop_drop)
  qed
qed simp

text \<open>
  C25: Paging is complete. On an unchanging table with distinct keys, a client that follows the
  cursors gets, in at most one request more than there are matching rows, exactly the
  matching undeleted rows, each once, newest first with ties broken by id.
\<close>

theorem paging_is_complete:
  assumes "distinct (map id_of (rows s))" and "1 \<le> limit" and "limit \<le> 100"
    and "search = None \<or> (\<exists>t. search = Some t \<and> length t \<le> 200)"
    and "length (history sl lw s st search) < fuel"
  shows "walk_pages sl lw s limit st search fuel None = Some (Inr (history sl lw s st search)) \<and>
    mset (history sl lw s st search) = mset (filter (matches sl lw st search) (rows s)) \<and>
    sorted (rev (map job_key (history sl lw s st search)))"
proof -
  from assms(4) have short: "\<And>t. search = Some t \<Longrightarrow> length t \<le> 200" by auto
  have "walk_pages sl lw s limit st search fuel None = Some (Inr (drop 0 (history sl lw s st search)))"
    by (rule walk_rest [OF assms(1-3) short]) (simp_all add: list_jobs_page(1) [OF assms(1-3) short] assms(5))
  then show ?thesis using history_order [OF assms(1)] by (simp add: history_def)
qed

definition page_db :: db where
  "page_db = \<lparr>rows = [new_job 5 1 [] None None, new_job 9 2 [] None None, new_job 5 3 [] None None], metrics = []\<rparr>"

theorem paging_is_complete_witness:
  "walk_pages id id page_db 2 None None 4 None =
     Some (Inr [new_job 9 2 [] None None, new_job 5 3 [] None None, new_job 5 1 [] None None])"
proof -
  have h: "history id id page_db None None =
      [new_job 9 2 [] None None, new_job 5 3 [] None None, new_job 5 1 [] None None]"
    by code_simp
  have "distinct (map id_of (rows page_db))" by code_simp
  then show ?thesis using paging_is_complete [of page_db 2 None id id None 4] by (simp add: h)
qed

section \<open>Search\<close>

lemma escape_like_Nil [simp]: "escape_like [] = []"
  by (simp add: escape_like_def replace_char_def)

lemma escape_like_Cons:
  "escape_like (c # s) = (if c = 37 \<or> c = 95 \<or> c = 92 then [92, c] else [c]) @ escape_like s"
  by (simp add: escape_like_def replace_char_def)

lemma sql_like_percent: "sql_like (37 # p) s \<longleftrightarrow> (\<exists>a b. s = a @ b \<and> sql_like p b)"
proof (induction s)
  case (Cons c s)
  have "(\<exists>a b. c # s = a @ b \<and> sql_like p b) \<longleftrightarrow>
      sql_like p (c # s) \<or> (\<exists>a b. s = a @ b \<and> sql_like p b)"
    by (metis append_Cons append_Nil append_eq_Cons_conv)
  with Cons show ?case by simp
qed simp

lemma sql_like_literal: "sql_like (escape_like u @ p) s \<longleftrightarrow> (\<exists>r. s = u @ r \<and> sql_like p r)"
proof (induction u arbitrary: s)
  case (Cons c u)
  show ?case
  proof (cases s)
    case (Cons d t)
    with Cons.IH [of t] show ?thesis by (auto simp: escape_like_Cons)
  qed (simp add: escape_like_Cons)
qed simp

text \<open>
  File-name search is literal. The pattern built from the client's text matches a
  stored name exactly when the lower-cased text occurs in it: percent signs, underscores
  and backslashes typed by the client are matched as themselves. The hypothesis is that
  lower-casing leaves the escapes alone, as Unicode lower-casing does.
\<close>

lemma search_is_literal:
  assumes "lower (escape_like t) = escape_like (lower t)"
  shows "sql_like (search_pattern lower t) name \<longleftrightarrow> (\<exists>a b. name = a @ lower t @ b)"
proof -
  have "sql_like [37] b" for b
    by (simp add: sql_like_percent del: sql_like.simps) (simp add: exI [of _ b])
  then show ?thesis
    by (simp add: search_pattern_def assms sql_like_percent sql_like_literal del: sql_like.simps) blast
qed

definition ascii_lower :: "rstr \<Rightarrow> rstr" where
  "ascii_lower s = map (\<lambda>c. if 65 \<le> c \<and> c \<le> 90 then c + 32 else c) s"

lemma search_is_literal_example:
  "sql_like (search_pattern ascii_lower (lit ''50%_A'')) (lit ''about 50%_a.pdf'') \<and>
   \<not> sql_like (search_pattern ascii_lower (lit ''50%'')) (lit ''500 percent'')"
proof -
  have comm: "ascii_lower (escape_like (lit ''50%_A'')) = escape_like (ascii_lower (lit ''50%_A''))"
    and comm2: "ascii_lower (escape_like (lit ''50%'')) = escape_like (ascii_lower (lit ''50%''))"
    by code_simp+
  have "lit ''about 50%_a.pdf'' = lit ''about '' @ ascii_lower (lit ''50%_A'') @ lit ''.pdf''"
    by code_simp
  moreover have "37 \<in> set (ascii_lower (lit ''50%''))" and "37 \<notin> set (lit ''500 percent'')"
    by code_simp+
  ultimately show ?thesis
    by (auto simp: search_is_literal [OF comm] search_is_literal [OF comm2] simp del: append_assoc)
qed

section \<open>Backlog gauges\<close>

lemma length_filter_split3:
  assumes "\<And>x. x \<in> set xs \<Longrightarrow> R x \<longleftrightarrow> A x \<or> B x \<or> C x"
    and "\<And>x. \<not> (A x \<and> B x)" "\<And>x. \<not> (A x \<and> C x)" "\<And>x. \<not> (B x \<and> C x)"
  shows "length (filter A xs) + length (filter B xs) + length (filter C xs) = length (filter R xs)"
  using assms(1) by (induction xs) (use assms(2-4) in auto)

text \<open>
  The backlog gauges partition the unfinished work: at any clock reading the queued,
  running and recovery counts add up to the number of undeleted jobs that are not terminal,
  in every state the cluster can reach.
\<close>

lemma backlog_partitions_unfinished:
  assumes "reachable m c"
  shows "sum_list (map (\<lambda>(_, n, _). n) (backlog now (store c))) =
    length (filter (\<lambda>j. deleted_at j = None \<and> \<not> is_terminal (status j)) (rows (store c)))"
proof -
  have ok: "row_ok j" if "j \<in> set (rows (store c))" for j
    using cluster_reachable_inv [OF assms] that by (auto simp: cluster_inv_def rows_inv_def)
  have lease: "status j = Running \<Longrightarrow> expires_after now j \<or> expired_by now j"
    if "j \<in> set (rows (store c))" for j
    using ok [OF that] by (auto simp: row_ok_def expires_after_def expired_by_def split: option.splits)
  have excl: "\<not> (expires_after now j \<and> expired_by now j)" for j
    by (auto simp: expires_after_def expired_by_def split: option.splits)
  have unfinished: "\<not> is_terminal x \<longleftrightarrow> x = Queued \<or> x = Running" for x
    by (cases x) (simp_all add: is_terminal_def)
  have "length (filter (\<lambda>j. deleted_at j = None \<and> status j = Queued) (rows (store c))) +
      length (filter (\<lambda>j. deleted_at j = None \<and> status j = Running \<and> expires_after now j) (rows (store c))) +
      length (filter (\<lambda>j. deleted_at j = None \<and> status j = Running \<and> expired_by now j) (rows (store c))) =
    length (filter (\<lambda>j. deleted_at j = None \<and> \<not> is_terminal (status j)) (rows (store c)))"
    by (rule length_filter_split3) (use lease excl in \<open>auto simp: unfinished\<close>)
  then show ?thesis by (simp add: backlog_def backlog_entry_def Let_def)
qed

lemma backlog_partitions_demo:
  "sum_list (map (\<lambda>(_, n, _). n) (backlog 20 (store demo_claimed))) = 1"
proof -
  have "length (filter (\<lambda>j. deleted_at j = None \<and> \<not> is_terminal (status j)) (rows (store demo_claimed))) = 1"
    by code_simp
  then show ?thesis using backlog_partitions_unfinished [OF demo_reachable_claimed, of 20] by simp
qed

section \<open>Claiming\<close>

text \<open>
  C24: A claim is first in, first out. When it hands out a lease, the leased job was a queued
  one or one whose lease had expired, had attempts left, was not locked, and no other such
  job was submitted earlier (ties by id); exactly that row starts a new attempt and the
  others only change by the reaping of exhausted jobs. When it hands out nothing, every
  available job with attempts left was locked by another transaction.
\<close>

theorem claim_is_fifo:
  assumes "claim env seconds m s = (Inr r, s')" and "distinct (map id_of (rows s))"
  shows "case r of
      None \<Rightarrow> rows s' = reap env m (rows s) \<and> (\<forall>k\<in>set (reap env m (rows s)).
        available (pick_time env) k \<and> attempts k < m \<longrightarrow> pick_locked env (id_of k))
    | Some l \<Rightarrow> \<exists>j\<in>set (reap env m (rows s)).
        available (pick_time env) j \<and> attempts j < m \<and> \<not> pick_locked env (id_of j) \<and>
        (\<forall>k\<in>set (reap env m (rows s)). available (pick_time env) k \<and> attempts k < m \<and>
           \<not> pick_locked env (id_of k) \<longrightarrow> job_key j \<le> job_key k) \<and>
        lease_job l = start_attempt (start_time env) seconds (new_token env) j \<and>
        token l = new_token env \<and>
        rows s' = update_where (\<lambda>k. id_of k = id_of j)
          (start_attempt (start_time env) seconds (new_token env)) (reap env m (rows s))"
proof (cases r)
  case None
  with assms(1) have "claim env seconds m s = (Inr None, s')" by simp
  from claim_None [OF this] None show ?thesis by (simp add: next_claim_None)
next
  case (Some l)
  with assms(1) have c: "claim env seconds m s = (Inr (Some l), s')" by simp
  obtain j :: job where next_j: "next_claim (pick_time env) (pick_locked env) m (reap env m (rows s)) = Some j"
      and rows: "rows s' = update_where (\<lambda>r. id_of r = id_of j)
        (start_attempt (start_time env) seconds (new_token env)) (reap env m (rows s))"
      and tok: "token l = new_token env" and found: "find_row (id_of j) (rows s') = Some (lease_job l)"
    using c by (auto simp: claim_def Let_def split: if_splits option.splits)
  note picked = next_claim_Some [OF next_j]
  let ?f = "start_attempt (start_time env) seconds (new_token env)"
  have "distinct (map id_of (rows s'))" unfolding rows using assms(2) by (simp add: update_where_ids)
  moreover have "?f j \<in> set (rows s')" unfolding rows set_update_where using picked(1) by force
  ultimately have "find_row (id_of (?f j)) (rows s') = Some (?f j)" by (rule find_row_in)
  with found have "lease_job l = ?f j" by simp
  with picked rows tok Some show ?thesis by (auto intro!: bexI [of _ j])
qed

definition fifo_env :: claim_env where
  "fifo_env = \<lparr>reap_time = 20, reap_locked = (\<lambda>_. False), pick_time = 20,
     pick_locked = (\<lambda>i. i = 1), start_time = 20, new_token = 77\<rparr>"

theorem claim_is_fifo_witness:
  "\<exists>j\<in>set (reap fifo_env 3 (rows page_db)). id_of j = 3 \<and>
     (\<forall>k\<in>set (reap fifo_env 3 (rows page_db)). id_of k \<noteq> 1 \<longrightarrow> job_key j \<le> job_key k)"
proof -
  define r where "r = fst (claim fifo_env 60 3 page_db)"
  have l: "r = Inr (Some \<lparr>lease_job = start_attempt 20 60 77 (new_job 5 3 [] None None), token = 77\<rparr>)"
    unfolding r_def by code_simp
  then have c: "claim fifo_env 60 3 page_db =
      (Inr (Some \<lparr>lease_job = start_attempt 20 60 77 (new_job 5 3 [] None None), token = 77\<rparr>),
       snd (claim fifo_env 60 3 page_db))"
    unfolding r_def by (metis prod.collapse)
  have d: "distinct (map id_of (rows page_db))" by code_simp
  have rs: "\<forall>k\<in>set (reap fifo_env 3 (rows page_db)). available 20 k \<and> attempts k < 3" by code_simp
  from claim_is_fifo [OF c d] obtain j :: job where j: "j \<in> set (reap fifo_env 3 (rows page_db))"
      and min: "\<forall>k\<in>set (reap fifo_env 3 (rows page_db)). available 20 k \<and> attempts k < 3 \<and>
         k \<noteq> j \<and> id_of k \<noteq> 1 \<longrightarrow> job_key j \<le> job_key k"
      and eq: "start_attempt 20 60 77 (new_job 5 3 [] None None) = start_attempt 20 60 77 j"
    by (auto simp: fifo_env_def)
  from arg_cong [OF eq, of id_of] have "id_of j = 3" by (simp add: new_job_def)
  with j min rs show ?thesis by (intro bexI [of _ j]) auto
qed

end
