(* ===== verification/F64.thy ===== *)
theory F64
  imports Complex_Main Docparse_Prelude "HOL-Library.Product_Lexorder"
begin

text \<open>
  IEEE 754 binary64, Rust's \<open>f64\<close>. A finite value is its exact rational, and negative zero
  is apart, so that \<open>total_cmp\<close> can tell the zeros apart while \<open>==\<close> and \<open><\<close> do not. There
  is one quiet NaN (its sign and payload, which Rust leaves unspecified, are not modelled).
  Arithmetic is exact arithmetic followed by rounding to nearest, ties to even, with
  gradual underflow and overflow to infinity. A literal of the source is \<open>rnd\<close> of its
  decimal value. The class order on \<open>f64\<close> is \<open>total_cmp\<close>; the partial comparisons of
  the language are \<open>feq\<close>, \<open>flt\<close> and \<open>fle\<close>.
\<close>

datatype f64 = Nan | Inf bool | NegZero | Fin rat

section \<open>Rounding\<close>

function bit_length :: "int \<Rightarrow> int" where
  "bit_length n = (if n \<le> 0 then 0 else 1 + bit_length (n div 2))"
  by auto
termination by (relation "measure nat") auto

declare bit_length.simps [simp del]

text \<open>\<open>n / d\<close> to the nearest integer, ties to even.\<close>

definition div_half_even :: "int \<Rightarrow> int \<Rightarrow> int" where
  "div_half_even n d =
     (let f = n div d; r = 2 * (n mod d)
      in if r < d then f else if d < r then f + 1 else if even f then f else f + 1)"

text \<open>The exponent of \<open>n / d\<close>, both positive: the \<open>e\<close> with \<open>2 ^ e \<le> n / d < 2 ^ (e + 1)\<close>.\<close>

definition exponent :: "int \<Rightarrow> int \<Rightarrow> int" where
  "exponent n d =
     (let k = bit_length n - bit_length d
      in if (if 0 \<le> k then d * 2 ^ nat k \<le> n else d \<le> n * 2 ^ nat (- k)) then k else k - 1)"

text \<open>The significand in units of \<open>2 ^ q\<close>, and the value it stands for.\<close>

definition significand :: "int \<Rightarrow> int \<Rightarrow> int \<Rightarrow> int" where
  "significand n d q =
     (if 0 \<le> q then div_half_even n (d * 2 ^ nat q) else div_half_even (n * 2 ^ nat (- q)) d)"

definition scaled :: "int \<Rightarrow> int \<Rightarrow> rat" where
  "scaled m q = (if 0 \<le> q then of_int (m * 2 ^ nat q) else Fract m (2 ^ nat (- q)))"

text \<open>The rounded value of \<open>n / d\<close>, both positive, or \<open>None\<close> when it overflows.\<close>

definition rnd_abs :: "int \<Rightarrow> int \<Rightarrow> rat option" where
  "rnd_abs n d =
     (let q = max (exponent n d - 52) (- 1074); m = significand n d q
      in if 1024 < bit_length m + q then None else Some (scaled m q))"

definition rnd :: "rat \<Rightarrow> f64" where
  "rnd x =
     (if x = 0 then Fin 0
      else case quotient_of \<bar>x\<bar> of (n, d) \<Rightarrow>
        (case rnd_abs n d of None \<Rightarrow> Inf (x < 0)
         | Some y \<Rightarrow> if y = 0 then (if x < 0 then NegZero else Fin 0)
                     else Fin (if x < 0 then - y else y)))"

lemma bit_length_bounds:
  "0 < n \<Longrightarrow> 0 < bit_length n \<and> 2 ^ nat (bit_length n - 1) \<le> n \<and> n < 2 ^ nat (bit_length n)"
proof (induction n rule: bit_length.induct)
  case (1 n)
  show ?case
  proof (cases "n = 1")
    case True
    then show ?thesis by (simp add: bit_length.simps)
  next
    case False
    with 1 have h: "0 < n div 2" and n: "\<not> n \<le> 0" by auto
    have eq: "bit_length n = 1 + bit_length (n div 2)" using n by (subst bit_length.simps) simp
    from "1.IH" [OF n h] obtain b where b: "bit_length (n div 2) = int (Suc b)" "2 ^ b \<le> n div 2" "n div 2 < 2 ^ Suc b"
      by (cases "nat (bit_length (n div 2))") (auto simp: nat_eq_iff)
    have "2 * 2 ^ b \<le> n" using b(2) by linarith
    moreover have "n < 2 * 2 ^ Suc b" using b(3) by linarith
    ultimately show ?thesis using b(1) by (simp add: eq nat_add_distrib)
  qed
qed

lemma bit_length_le:
  assumes "0 < n" "n < 2 ^ b"
  shows "bit_length n \<le> int b"
proof (rule ccontr)
  assume "\<not> ?thesis"
  then have "b \<le> nat (bit_length n - 1)" by simp
  then have "(2::int) ^ b \<le> 2 ^ nat (bit_length n - 1)" by (rule power_increasing) simp
  with bit_length_bounds [OF assms(1)] assms(2) show False by linarith
qed

lemma div_half_even_1: "div_half_even n 1 = n"
  by (simp add: div_half_even_def Let_def)

text \<open>Integers below \<open>2 ^ 53\<close> in size are represented exactly.\<close>

lemma rnd_abs_int:
  assumes "0 < n" "n < 2 ^ 53"
  shows "rnd_abs n 1 = Some (of_int n)"
proof -
  note b = bit_length_bounds [OF assms(1)] bit_length_le [OF assms]
  have e: "exponent n 1 = bit_length n - 1" using b by (simp add: exponent_def bit_length.simps [of 1] bit_length.simps [of 0])
  define q where "q = bit_length n - 1 - 52"
  have q: "q \<le> 0" "max q (- 1074) = q" using b by (auto simp: q_def)
  have m: "significand n 1 q = n * 2 ^ nat (- q)"
    using q by (simp add: significand_def div_half_even_1)
  have "n * 2 ^ nat (- q) < 2 ^ nat (bit_length n) * 2 ^ nat (- q)" using b by simp
  also have "\<dots> = 2 ^ (nat (bit_length n) + nat (- q))" by (simp add: power_add)
  also have "nat (bit_length n) + nat (- q) = 53" using b q unfolding q_def by linarith
  finally have "bit_length (n * 2 ^ nat (- q)) \<le> 53"
    using bit_length_le [of "n * 2 ^ nat (- q)" 53] assms(1) by simp
  moreover have "scaled (n * 2 ^ nat (- q)) q = of_int n"
    using q by (simp add: scaled_def Fract_of_int_quotient)
  ultimately show ?thesis using q(1) by (simp add: rnd_abs_def Let_def e q_def [symmetric] q(2) m)
qed

lemma rnd_int:
  assumes "\<bar>n\<bar> < 2 ^ 53"
  shows "rnd (of_int n) = Fin (of_int n)"
proof (cases "n = 0")
  case True
  then show ?thesis by (simp add: rnd_def)
next
  case False
  have "quotient_of \<bar>rat_of_int n\<bar> = (\<bar>n\<bar>, 1)"
    using quotient_of_int [of "\<bar>n\<bar>"] by (simp add: Rat.of_int_def)
  moreover have "rnd_abs \<bar>n\<bar> 1 = Some (of_int \<bar>n\<bar>)" using rnd_abs_int [of "\<bar>n\<bar>"] False assms by simp
  ultimately show ?thesis using False by (simp add: rnd_def)
qed

lemma rnd_code [code]:
  "rnd x = (if x = 0 then Fin 0
    else case quotient_of x of (n, d) \<Rightarrow>
      if d = 1 \<and> \<bar>n\<bar> < 9007199254740992 then Fin x
      else (case rnd_abs \<bar>n\<bar> d of None \<Rightarrow> Inf (n < 0)
         | Some y \<Rightarrow> if y = 0 then (if n < 0 then NegZero else Fin 0)
                     else Fin (if n < 0 then - y else y)))"
proof (cases "quotient_of x")
  case (Pair n d)
  then have x: "x = of_int n / of_int d" "0 < d" by (auto intro: quotient_of_div quotient_of_denom_pos)
  have abs: "quotient_of \<bar>x\<bar> = (\<bar>n\<bar>, d)"
    using Pair x(2) by (simp add: rat_abs_code)
  have neg: "x < 0 \<longleftrightarrow> n < 0" using x by (simp add: divide_less_0_iff)
  show ?thesis
  proof (cases "d = 1 \<and> \<bar>n\<bar> < 9007199254740992")
    case True
    with x(1) rnd_int [of n] have "rnd x = Fin x" by simp
    with True show ?thesis by (simp only: Pair prod.case if_True) (simp add: rnd_def)
  next
    case False
    then show ?thesis unfolding rnd_def abs neg Pair prod.case by (simp only: if_False)
  qed
qed

section \<open>Operations\<close>

fun fval :: "f64 \<Rightarrow> rat" where
  "fval (Fin r) = r"
| "fval _ = 0"

fun sign_negative :: "f64 \<Rightarrow> bool" where
  "sign_negative Nan = False"
| "sign_negative (Inf n) = n"
| "sign_negative NegZero = True"
| "sign_negative (Fin r) = (r < 0)"

fun is_finite :: "f64 \<Rightarrow> bool" where
  "is_finite Nan = False"
| "is_finite (Inf _) = False"
| "is_finite _ = True"

fun is_inf :: "f64 \<Rightarrow> bool" where
  "is_inf (Inf _) = True"
| "is_inf _ = False"

definition signed_zero :: "bool \<Rightarrow> f64" where
  "signed_zero n = (if n then NegZero else Fin 0)"

fun fneg :: "f64 \<Rightarrow> f64" where
  "fneg Nan = Nan"
| "fneg (Inf n) = Inf (\<not> n)"
| "fneg NegZero = Fin 0"
| "fneg (Fin r) = (if r = 0 then NegZero else Fin (- r))"

definition fabs :: "f64 \<Rightarrow> f64" where
  "fabs a = (if sign_negative a then fneg a else a)"

definition fadd :: "f64 \<Rightarrow> f64 \<Rightarrow> f64" where
  "fadd a b =
     (if a = Nan \<or> b = Nan then Nan
      else if is_inf a then (if is_inf b \<and> a \<noteq> b then Nan else a)
      else if is_inf b then b
      else let s = fval a + fval b
           in if s = 0 then signed_zero (sign_negative a \<and> sign_negative b) else rnd s)"

definition fsub :: "f64 \<Rightarrow> f64 \<Rightarrow> f64" where
  "fsub a b = fadd a (fneg b)"

definition fmul :: "f64 \<Rightarrow> f64 \<Rightarrow> f64" where
  "fmul a b =
     (let n = (sign_negative a \<noteq> sign_negative b)
      in if a = Nan \<or> b = Nan then Nan
         else if is_inf a then (if is_finite b \<and> fval b = 0 then Nan else Inf n)
         else if is_inf b then (if fval a = 0 then Nan else Inf n)
         else let p = fval a * fval b in if p = 0 then signed_zero n else rnd p)"

definition fdiv :: "f64 \<Rightarrow> f64 \<Rightarrow> f64" where
  "fdiv a b =
     (let n = (sign_negative a \<noteq> sign_negative b)
      in if a = Nan \<or> b = Nan then Nan
         else if is_inf a then (if is_inf b then Nan else Inf n)
         else if is_inf b then signed_zero n
         else if fval b = 0 then (if fval a = 0 then Nan else Inf n)
         else if fval a = 0 then signed_zero n else rnd (fval a / fval b))"

definition ffloor :: "f64 \<Rightarrow> f64" where
  "ffloor a = (case a of Fin r \<Rightarrow> if r = 0 then a else Fin (of_int \<lfloor>r\<rfloor>) | _ \<Rightarrow> a)"

section \<open>Comparisons\<close>

fun order_key :: "f64 \<Rightarrow> int \<times> rat" where
  "order_key (Inf n) = (if n then - 1 else 1, 0)"
| "order_key a = (0, fval a)"

definition feq :: "f64 \<Rightarrow> f64 \<Rightarrow> bool" where
  "feq a b \<longleftrightarrow> a \<noteq> Nan \<and> b \<noteq> Nan \<and> order_key a = order_key b"

definition flt :: "f64 \<Rightarrow> f64 \<Rightarrow> bool" where
  "flt a b \<longleftrightarrow> a \<noteq> Nan \<and> b \<noteq> Nan \<and> order_key a < order_key b"

definition fle :: "f64 \<Rightarrow> f64 \<Rightarrow> bool" where
  "fle a b \<longleftrightarrow> a \<noteq> Nan \<and> b \<noteq> Nan \<and> order_key a \<le> order_key b"

definition fmax :: "f64 \<Rightarrow> f64 \<Rightarrow> f64" where
  "fmax a b = (if a = Nan then b else if b = Nan then a else if flt a b then b else a)"

definition fmin :: "f64 \<Rightarrow> f64 \<Rightarrow> f64" where
  "fmin a b = (if a = Nan then b else if b = Nan then a else if flt b a then b else a)"

definition fclamp :: "f64 \<Rightarrow> f64 \<Rightarrow> f64 \<Rightarrow> f64" where
  "fclamp a lo hi = (if flt a lo then lo else if flt hi a then hi else a)"

text \<open>\<open>total_cmp\<close>.\<close>

fun total_key :: "f64 \<Rightarrow> int \<times> rat \<times> int" where
  "total_key (Inf n) = (if n then - 1 else 1, 0, 0)"
| "total_key (Fin r) = (0, r, 1)"
| "total_key NegZero = (0, 0, 0)"
| "total_key Nan = (2, 0, 0)"

lemma total_key_inject: "total_key a = total_key b \<longleftrightarrow> a = b"
  by (cases a; cases b) auto

instantiation f64 :: linorder
begin

definition less_eq_f64 :: "f64 \<Rightarrow> f64 \<Rightarrow> bool" where
  "less_eq_f64 a b \<longleftrightarrow> total_key a \<le> total_key b"

definition less_f64 :: "f64 \<Rightarrow> f64 \<Rightarrow> bool" where
  "less_f64 a b \<longleftrightarrow> total_key a < total_key b"

instance
  by standard (auto simp: less_eq_f64_def less_f64_def total_key_inject less_le_not_le
      intro: order_trans antisym [of "total_key x" "total_key y" for x y, THEN total_key_inject [THEN iffD1]])

end

section \<open>Lemmas\<close>

lemma fle_refl [simp]: "fle a a \<longleftrightarrow> a \<noteq> Nan"
  by (simp add: fle_def)

lemma fle_trans: "fle a b \<Longrightarrow> fle b c \<Longrightarrow> fle a c"
  by (auto simp: fle_def)

lemma flt_fle_trans: "flt a b \<Longrightarrow> fle b c \<Longrightarrow> flt a c"
  by (auto simp: fle_def flt_def)

lemma fle_flt_trans: "fle a b \<Longrightarrow> flt b c \<Longrightarrow> flt a c"
  by (auto simp: fle_def flt_def)

lemma flt_imp_fle: "flt a b \<Longrightarrow> fle a b"
  by (auto simp: fle_def flt_def)

lemma not_flt: "a \<noteq> Nan \<Longrightarrow> b \<noteq> Nan \<Longrightarrow> \<not> flt a b \<longleftrightarrow> fle b a"
  by (auto simp: fle_def flt_def)

lemma not_fle: "a \<noteq> Nan \<Longrightarrow> b \<noteq> Nan \<Longrightarrow> \<not> fle a b \<longleftrightarrow> flt b a"
  by (auto simp: fle_def flt_def)

lemma is_finite_not_Nan: "is_finite a \<Longrightarrow> a \<noteq> Nan"
  by auto

lemma flt_imp_less: "flt a b \<Longrightarrow> a < b"
  by (cases a; cases b) (auto simp: flt_def less_f64_def less_prod_def split: if_splits)

lemma total_le_imp_fle: "a \<le> b \<Longrightarrow> a \<noteq> Nan \<Longrightarrow> b \<noteq> Nan \<Longrightarrow> fle a b"
  by (cases a; cases b) (auto simp: fle_def less_eq_f64_def less_eq_prod_def less_prod_def split: if_splits)

lemma fle_finite: "is_finite a \<Longrightarrow> is_finite b \<Longrightarrow> fle a b \<longleftrightarrow> fval a \<le> fval b"
  by (cases a; cases b) (auto simp: fle_def less_eq_prod_def less_prod_def)

lemma flt_finite: "is_finite a \<Longrightarrow> is_finite b \<Longrightarrow> flt a b \<longleftrightarrow> fval a < fval b"
  by (cases a; cases b) (auto simp: flt_def less_prod_def)

text \<open>Rounding of zero, and a value is never rounded across zero.\<close>

lemma rnd_zero [simp]: "rnd 0 = Fin 0"
  by (simp add: rnd_def)

lemma rnd_not_Nan [simp]: "rnd x \<noteq> Nan"
  by (simp add: rnd_def split: prod.split option.split)

section \<open>Extrema and differences\<close>

lemma fmax_upper: "a \<noteq> Nan \<Longrightarrow> b \<noteq> Nan \<Longrightarrow> fle a (fmax a b) \<and> fle b (fmax a b) \<and> fmax a b \<noteq> Nan"
  by (auto simp: fmax_def not_flt flt_imp_fle)

lemma fmin_lower: "a \<noteq> Nan \<Longrightarrow> b \<noteq> Nan \<Longrightarrow> fle (fmin a b) a \<and> fle (fmin a b) b \<and> fmin a b \<noteq> Nan"
  by (auto simp: fmin_def not_flt flt_imp_fle)

lemma fmin_finite: "is_finite a \<Longrightarrow> is_finite b \<Longrightarrow> is_finite (fmin a b) \<and> fval (fmin a b) = min (fval a) (fval b)"
  using is_finite_not_Nan [of a] is_finite_not_Nan [of b] by (auto simp: fmin_def flt_finite min_def)

lemma fmax_finite: "is_finite a \<Longrightarrow> is_finite b \<Longrightarrow> is_finite (fmax a b) \<and> fval (fmax a b) = max (fval a) (fval b)"
  using is_finite_not_Nan [of a] is_finite_not_Nan [of b] by (auto simp: fmax_def flt_finite max_def)

lemma fold_fmax: "a \<noteq> Nan \<Longrightarrow> (\<forall>x\<in>set xs. g x \<noteq> Nan) \<Longrightarrow>
    fle a (fold (\<lambda>x acc. fmax acc (g x)) xs a) \<and> (\<forall>x\<in>set xs. fle (g x) (fold (\<lambda>x acc. fmax acc (g x)) xs a)) \<and>
    (fold (\<lambda>x acc. fmax acc (g x)) xs a = a \<or> (\<exists>x\<in>set xs. fold (\<lambda>x acc. fmax acc (g x)) xs a = g x))"
proof (induction xs arbitrary: a)
  case (Cons x xs)
  then have up: "fle a (fmax a (g x))" "fle (g x) (fmax a (g x))" "fmax a (g x) \<noteq> Nan" using fmax_upper [of a "g x"] by auto
  moreover have "fmax a (g x) = a \<or> fmax a (g x) = g x" by (simp add: fmax_def)
  ultimately show ?case using Cons.IH [of "fmax a (g x)"] Cons.prems by (auto intro: fle_trans)
qed simp

lemma fold_fmin: "a \<noteq> Nan \<Longrightarrow> (\<forall>x\<in>set xs. g x \<noteq> Nan) \<Longrightarrow>
    fle (fold (\<lambda>x acc. fmin acc (g x)) xs a) a \<and> (\<forall>x\<in>set xs. fle (fold (\<lambda>x acc. fmin acc (g x)) xs a) (g x)) \<and>
    (fold (\<lambda>x acc. fmin acc (g x)) xs a = a \<or> (\<exists>x\<in>set xs. fold (\<lambda>x acc. fmin acc (g x)) xs a = g x))"
proof (induction xs arbitrary: a)
  case (Cons x xs)
  then have up: "fle (fmin a (g x)) a" "fle (fmin a (g x)) (g x)" "fmin a (g x) \<noteq> Nan" using fmin_lower [of a "g x"] by auto
  moreover have "fmin a (g x) = a \<or> fmin a (g x) = g x" by (simp add: fmin_def)
  ultimately show ?case using Cons.IH [of "fmin a (g x)"] Cons.prems by (auto intro: fle_trans)
qed simp

lemma rnd_abs_nonneg:
  assumes "0 \<le> n" "0 < d" "rnd_abs n d = Some y"
  shows "0 \<le> y"
proof -
  have half: "0 \<le> a \<Longrightarrow> 0 < b \<Longrightarrow> 0 \<le> div_half_even a b" for a b
    by (simp add: div_half_even_def Let_def pos_imp_zdiv_nonneg_iff)
  have "0 \<le> significand n d q" for q using assms(1,2) by (simp add: significand_def half)
  then have "0 \<le> scaled (significand n d q) q" for q
    by (simp add: scaled_def zero_le_Fract_iff)
  with assms(3) show ?thesis by (auto simp: rnd_abs_def Let_def split: if_splits)
qed

lemma rnd_positive: "flt (Fin 0) (rnd x) \<Longrightarrow> 0 < x"
proof (rule ccontr)
  assume x: "flt (Fin 0) (rnd x)" "\<not> 0 < x"
  obtain n d where q: "quotient_of \<bar>x\<bar> = (n, d)" by fastforce
  then have "0 < d" by (rule quotient_of_denom_pos)
  moreover have "0 \<le> n" using quotient_of_div [OF q] \<open>0 < d\<close> by (metis abs_ge_zero zero_le_divide_iff of_int_0_le_iff of_int_0_less_iff not_less)
  ultimately have "rnd_abs n d = Some y \<Longrightarrow> 0 \<le> y" for y by (blast intro: rnd_abs_nonneg)
  with x q show False by (auto simp: rnd_def flt_def less_prod_def split: option.splits if_splits)
qed

text \<open>A positive difference separates the values.\<close>

lemma fsub_positive:
  assumes "flt (Fin 0) (fsub a b)" "a \<noteq> Nan" "b \<noteq> Nan"
  shows "flt b a"
proof -
  have "0 < fval a + fval (fneg b)" if "is_finite a" "is_finite b"
    using assms(1) that rnd_positive [of "fval a + fval (fneg b)"]
    by (cases a; cases b) (auto simp: fsub_def fadd_def Let_def signed_zero_def flt_def split: if_splits)
  then show ?thesis using assms
    by (cases a; cases b) (auto simp: fsub_def fadd_def Let_def signed_zero_def flt_def less_prod_def split: if_splits)
qed

lemma fsub_finite_not_Nan: "is_finite a \<Longrightarrow> is_finite b \<Longrightarrow> fsub a b \<noteq> Nan"
  by (cases a; cases b) (auto simp: fsub_def fadd_def Let_def signed_zero_def)

lemma wide_gap:
  assumes "\<not> flt g (fmax a (Fin 2))" "g \<noteq> Nan"
  shows "flt (Fin 0) g"
proof -
  have "flt (Fin 0) (Fin 2)" by (simp add: flt_def less_prod_def)
  moreover have "fle (Fin 2) (fmax a (Fin 2))" using fmax_upper [of a "Fin 2"] by (cases "a = Nan") (auto simp: fmax_def)
  moreover have "fle (fmax a (Fin 2)) g"
    using assms fmax_upper [of a "Fin 2"] by (cases "a = Nan") (auto simp: not_flt fmax_def)
  ultimately show ?thesis by (blast intro: flt_fle_trans)
qed

section \<open>Quotients\<close>

text \<open>Rounding never goes below one.\<close>

lemma div_half_even_lower: "0 < d \<Longrightarrow> c * d \<le> n \<Longrightarrow> c \<le> div_half_even n d"
  using zdiv_mono1 [of "c * d" n d] by (auto simp: div_half_even_def Let_def)

lemma exponent_lower:
  assumes "0 < d" "d \<le> n"
  shows "0 \<le> exponent n d \<and> d * 2 ^ nat (exponent n d) \<le> n"
proof -
  note bn = bit_length_bounds [of n] and bd = bit_length_bounds [of d]
  have "n < 2 ^ nat (bit_length n)" using bn assms by simp
  with assms bn have mono: "bit_length d \<le> bit_length n" using bit_length_le [of d "nat (bit_length n)"] by simp
  define k where "k = bit_length n - bit_length d"
  have k: "0 \<le> k" using mono by (simp add: k_def)
  show ?thesis
  proof (cases "d * 2 ^ nat k \<le> n")
    case True
    with k show ?thesis by (simp add: exponent_def k_def [symmetric])
  next
    case False
    then have "k \<noteq> 0" using assms(2) by auto
    with k have k1: "0 \<le> k - 1" by simp
    have "d * 2 ^ nat (k - 1) \<le> 2 ^ nat (bit_length d) * 2 ^ nat (k - 1)" using bd assms by (intro mult_right_mono) auto
    also have "\<dots> = 2 ^ (nat (bit_length d) + nat (k - 1))" by (simp add: power_add)
    also have "nat (bit_length d) + nat (k - 1) = nat (bit_length n - 1)" using k1 bd assms(1) by (simp add: k_def nat_add_distrib [symmetric])
    also have "(2::int) ^ nat (bit_length n - 1) \<le> n" using bn assms by simp
    finally show ?thesis using False k k1 by (simp add: exponent_def k_def [symmetric])
  qed
qed

lemma rnd_abs_ge_one:
  assumes "0 < d" "d \<le> n" "rnd_abs n d = Some y"
  shows "1 \<le> y"
proof -
  define q where "q = max (exponent n d - 52) (- 1074)"
  note e = exponent_lower [OF assms(1,2)]
  have y: "y = scaled (significand n d q) q" using assms(3) by (auto simp: rnd_abs_def Let_def q_def split: if_splits)
  show ?thesis
  proof (cases "0 \<le> q")
    case True
    have "(2::int) ^ nat q \<le> 2 ^ nat (exponent n d)" using True by (intro power_increasing) (auto simp: q_def)
    then have "d * 2 ^ nat q \<le> d * 2 ^ nat (exponent n d)" using assms(1) by (simp only: mult_le_cancel_left_pos)
    also have "\<dots> \<le> n" using e by simp
    finally have "1 \<le> div_half_even n (d * 2 ^ nat q)" using assms(1) by (intro div_half_even_lower) auto
    then have "1 \<le> significand n d q" using True by (simp add: significand_def)
    moreover have "1 \<le> (2::int) ^ nat q" by simp
    ultimately have "1 \<le> significand n d q * 2 ^ nat q" by (smt (verit) mult_le_cancel_right1 mult_mono)
    then show ?thesis using True by (simp only: y scaled_def if_True of_int_1_le_iff)
  next
    case False
    have "2 ^ nat (- q) * d \<le> n * 2 ^ nat (- q)" using assms(2) by (simp add: mult.commute)
    then have "2 ^ nat (- q) \<le> significand n d q" using False assms(1) by (simp add: significand_def div_half_even_lower)
    then show ?thesis using False by (simp add: y scaled_def one_le_Fract_iff)
  qed
qed

lemma rnd_ge_one:
  assumes "1 \<le> x"
  shows "fle (Fin 1) (rnd x)"
proof -
  obtain n d where q: "quotient_of \<bar>x\<bar> = (n, d)" by fastforce
  have d: "0 < d" using q by (rule quotient_of_denom_pos)
  have "of_int d \<le> (of_int n :: rat)" using assms quotient_of_div [OF q] d by (simp add: le_divide_eq)
  then have "d \<le> n" by simp
  from rnd_abs_ge_one [OF d this] assms q show ?thesis
    by (auto simp: rnd_def fle_def less_eq_prod_def less_prod_def split: option.split)
qed

text \<open>A quotient below one has a smaller numerator.\<close>

lemma fdiv_below_one:
  assumes "fle (fdiv a b) (rnd r)" "flt (rnd r) (Fin 1)" "is_finite b" "flt (Fin 0) b"
  shows "flt a b"
proof (rule ccontr)
  assume "\<not> flt a b"
  have small: "flt (fdiv a b) (Fin 1)" using assms(1,2) by (rule fle_flt_trans)
  have b: "0 < fval b" using assms(3,4) by (cases b) (auto simp: flt_def less_prod_def)
  show False
  proof (cases "is_finite a")
    case True
    with \<open>\<not> flt a b\<close> assms(3) have "fval b \<le> fval a" by (simp add: flt_finite)
    with b have "fle (Fin 1) (rnd (fval a / fval b))" "fdiv a b = rnd (fval a / fval b)"
      using True assms(3) by (auto simp: rnd_ge_one le_divide_eq fdiv_def Let_def elim: is_finite.elims)
    with small show False by (auto simp: flt_def fle_def)
  next
    case False
    with assms(3) b \<open>\<not> flt a b\<close> small show False
      by (cases a; cases b) (auto simp: fdiv_def Let_def flt_def less_prod_def)
  qed
qed
end
