(* ===== verification/Document.thy ===== *)
theory Document
  imports Rust_Text F64
begin

text \<open>
  The document model that every stage shares: \<open>crates/core/src/types.rs\<close>, the table types of
  \<open>crates/core/src/table/mod.rs\<close>, the labels of \<open>crates/layout/src/types.rs\<close> with their
  policies (\<open>crates/core/src/label_policy.rs\<close>) and the boxes of
  \<open>crates/layout/src/geometry.rs\<close>. A stable identifier is its string. A \<open>BTreeMap\<close> is the list
  of its entries in key order.
\<close>

section \<open>Geometry\<close>

record bbox =
  left :: f64
  top_of :: f64
  right :: f64
  bottom :: f64

record point =
  px :: f64
  py :: f64

type_synonym polygon = "point list"

definition width :: "bbox \<Rightarrow> f64" where
  "width b = fsub (right b) (left b)"

definition height :: "bbox \<Rightarrow> f64" where
  "height b = fsub (bottom b) (top_of b)"

definition area :: "bbox \<Rightarrow> f64" where
  "area b = fmul (width b) (height b)"

definition contains_bbox :: "bbox \<Rightarrow> bbox \<Rightarrow> bool" where
  "contains_bbox a b \<longleftrightarrow>
     fle (left a) (left b) \<and> fle (top_of a) (top_of b) \<and> fle (right b) (right a) \<and> fle (bottom b) (bottom a)"

definition intersection_area :: "bbox \<Rightarrow> bbox \<Rightarrow> f64" where
  "intersection_area a b =
     fmul (fmax (fsub (fmin (right a) (right b)) (fmax (left a) (left b))) (Fin 0))
          (fmax (fsub (fmin (bottom a) (bottom b)) (fmax (top_of a) (top_of b))) (Fin 0))"

definition bbox_eq :: "bbox \<Rightarrow> bbox \<Rightarrow> bool" where
  "bbox_eq a b \<longleftrightarrow>
     feq (left a) (left b) \<and> feq (top_of a) (top_of b) \<and> feq (right a) (right b) \<and> feq (bottom a) (bottom b)"

datatype geometry_error = NonFinite string | DegenerateBbox | InvalidPolygon string

text \<open>\<open>Bbox::try_from\<close>: the coordinates are tested in the order of the fields.\<close>

definition bbox_try_from :: "f64 \<Rightarrow> f64 \<Rightarrow> f64 \<Rightarrow> f64 \<Rightarrow> geometry_error + bbox" where
  "bbox_try_from l t r b =
     rbind (ensure (is_finite l) (NonFinite ''bbox.left'')) (\<lambda>_.
     rbind (ensure (is_finite t) (NonFinite ''bbox.top'')) (\<lambda>_.
     rbind (ensure (is_finite r) (NonFinite ''bbox.right'')) (\<lambda>_.
     rbind (ensure (is_finite b) (NonFinite ''bbox.bottom'')) (\<lambda>_.
     if fle r l \<or> fle b t then Inl DegenerateBbox
     else Inr \<lparr>left = l, top_of = t, right = r, bottom = b\<rparr>))))"

text \<open>What \<open>bbox_try_from\<close> guarantees.\<close>

definition bbox_ok :: "bbox \<Rightarrow> bool" where
  "bbox_ok b \<longleftrightarrow>
     is_finite (left b) \<and> is_finite (top_of b) \<and> is_finite (right b) \<and> is_finite (bottom b) \<and>
     flt (left b) (right b) \<and> flt (top_of b) (bottom b)"

lemma bbox_try_from_ok:
  "bbox_try_from l t r b = Inr x \<longleftrightarrow>
     x = \<lparr>left = l, top_of = t, right = r, bottom = b\<rparr> \<and> bbox_ok x"
proof -
  have "is_finite a \<Longrightarrow> is_finite c \<Longrightarrow> fle c a \<longleftrightarrow> \<not> flt a c" for a c
    by (subst not_flt) auto
  then show ?thesis by (auto simp: bbox_try_from_def bbox_ok_def result_simps)
qed

lemma union_box_ok:
  assumes "bbox_ok a" "bbox_ok b"
  shows "\<exists>c. bbox_try_from (fmin (left a) (left b)) (fmin (top_of a) (top_of b)) (fmax (right a) (right b)) (fmax (bottom a) (bottom b)) = Inr c \<and> bbox_ok c"
  unfolding bbox_try_from_ok using assms
  by (auto simp: bbox_ok_def fmin_finite fmax_finite flt_finite min_less_iff_disj less_max_iff_disj)

section \<open>Labels\<close>

datatype layout_label =
    Abstract | Algorithm | AsideText | Chart | Content | DisplayFormula | DocTitle
  | FigureTitle | Footer | FooterImage | Footnote | FormulaNumber | Header | HeaderImage
  | Image | InlineFormula | Number | ParagraphTitle | Reference | ReferenceContent | Seal
  | Table | Text | VerticalText | VisionFootnote | Watermark | Unknown rstr

datatype label_policy =
    FlowText | Title | AlgorithmText | Atomic | Formula | Chrome | Structured | VisualOnly
  | UnknownLabel

fun policy_of :: "layout_label \<Rightarrow> label_policy" where
  "policy_of Abstract = FlowText"
| "policy_of AsideText = FlowText"
| "policy_of Footnote = FlowText"
| "policy_of ReferenceContent = FlowText"
| "policy_of Text = FlowText"
| "policy_of VerticalText = FlowText"
| "policy_of VisionFootnote = FlowText"
| "policy_of DocTitle = Title"
| "policy_of FigureTitle = Title"
| "policy_of ParagraphTitle = Title"
| "policy_of Algorithm = AlgorithmText"
| "policy_of Chart = Atomic"
| "policy_of FooterImage = Atomic"
| "policy_of HeaderImage = Atomic"
| "policy_of Image = Atomic"
| "policy_of Seal = Atomic"
| "policy_of Watermark = Atomic"
| "policy_of DisplayFormula = Formula"
| "policy_of FormulaNumber = Formula"
| "policy_of InlineFormula = Formula"
| "policy_of Footer = Chrome"
| "policy_of Header = Chrome"
| "policy_of Number = Chrome"
| "policy_of Reference = VisualOnly"
| "policy_of Table = Structured"
| "policy_of Content = Structured"
| "policy_of (Unknown _) = UnknownLabel"

definition preserves_line_breaks :: "label_policy \<Rightarrow> bool" where
  "preserves_line_breaks p \<longleftrightarrow> p = AlgorithmText \<or> p = Structured \<or> p = Atomic"

definition joins_encoded_hyphens :: "label_policy \<Rightarrow> bool" where
  "joins_encoded_hyphens p \<longleftrightarrow> p = FlowText \<or> p = Title"

definition line_text :: "label_policy \<Rightarrow> rstr \<Rightarrow> rstr" where
  "line_text p s = (if preserves_line_breaks p then trim_end s else trim s)"

section \<open>Text items and lines\<close>

datatype label_source = FromModel | FromPdf | Heuristic | Fallback

datatype text_source = Native | Ocr

datatype watermark_source = PdfMarkedContent | TextPattern

datatype writing_direction = LeftToRight | RightToLeft | Vertical

datatype repair_action =
    RemovedControl | EncodedHyphen | MergedFragment | GlyphNameRecovery | FontCmapRecovery
  | GlyphOutlineRecovery | GlyphComposition | LigatureExpansion | PunctuationNormalization
  | OcrSpacing | OcrNativeOverlap

datatype inline_content_status = Complete | Partial | Missing

record text_item_range =
  range_start :: nat
  range_end :: nat

record baseline =
  base_start :: point
  base_end :: point

text \<open>The font facts of \<open>TextStyle\<close> that later stages read; paint, colour and matrix are left out.\<close>

record text_style =
  font_size :: "f64 option"
  font_height :: "f64 option"
  st_size_estimated :: bool
  st_weight :: "nat option"
  st_flags :: "nat option"
  st_bold :: bool
  st_italic :: bool

text \<open>Bit 18 of the descriptor flags forces a bold face.\<close>

definition font_evidence_is_bold :: "nat option \<Rightarrow> nat option \<Rightarrow> bool" where
  "font_evidence_is_bold w fl \<longleftrightarrow>
     (case w of None \<Rightarrow> False | Some v \<Rightarrow> 600 \<le> v \<and> v \<le> 1000) \<or>
     (case fl of None \<Rightarrow> False | Some v \<Rightarrow> odd (v div 262144))"

definition style_is_bold :: "text_style \<Rightarrow> bool" where
  "style_is_bold st \<longleftrightarrow> st_bold st \<or> font_evidence_is_bold (st_weight st) (st_flags st)"

definition style_font_size :: "text_style \<Rightarrow> f64 option" where
  "style_font_size st = (case font_height st of None \<Rightarrow> font_size st | Some h \<Rightarrow> Some h)"

record text_item =
  it_id :: rstr
  raw_text :: rstr
  it_bbox :: bbox
  it_polygon :: "polygon option"
  it_watermark :: "watermark_source option"
  it_baseline :: "baseline option"
  it_rotation :: f64
  it_source :: text_source
  it_confidence :: "f64 option"
  extraction_order :: nat
  it_final_order :: nat
  it_style :: "text_style option"
  repair_actions :: "repair_action list"

definition item_is_bold :: "text_item \<Rightarrow> bool" where
  "item_is_bold it \<longleftrightarrow> (case it_style it of None \<Rightarrow> False | Some st \<Rightarrow> style_is_bold st)"

definition effective_font_size :: "text_item \<Rightarrow> f64" where
  "effective_font_size it =
     (case (case it_style it of None \<Rightarrow> None | Some st \<Rightarrow> style_font_size st) of
        None \<Rightarrow> fmax (height (it_bbox it)) (Fin 1) | Some v \<Rightarrow> v)"

record inline_span =
  sp_label :: layout_label
  sp_confidence :: "f64 option"
  sp_bbox :: bbox
  text_item_range :: text_item_range
  extracted_text :: "rstr option"
  content_status :: inline_content_status

record line =
  ln_id :: rstr
  ln_text :: rstr
  ln_bbox :: bbox
  ln_baseline :: "baseline option"
  ln_rotation :: f64
  direction :: writing_direction
  model_region_coverage :: "f64 option"
  inline_spans :: "inline_span list"
  text_items :: "text_item list"

definition derive_line_text :: "text_item list \<Rightarrow> rstr" where
  "derive_line_text items = concat (map raw_text items)"

definition dominant_font_size :: "line \<Rightarrow> f64" where
  "dominant_font_size l = fold (\<lambda>it acc. fmax acc (effective_font_size it)) (text_items l) (Fin 0)"

section \<open>Tables\<close>

definition max_table_cells :: nat where
  "max_table_cells = 4096"

definition max_table_columns :: nat where
  "max_table_columns = 64"

definition max_table_rows :: nat where
  "max_table_rows = 256"

datatype table_structure_source = TaggedPdf | Ruled | TextAlignment | ExternalTsr

record table_text_span =
  text_item_id :: rstr
  byte_start :: nat
  byte_end :: nat
  ts_bbox :: bbox

record table_cell_line =
  cl_text :: rstr
  cl_bbox :: bbox
  spans :: "table_text_span list"

record table_cell =
  row :: nat
  column :: nat
  row_span :: nat
  column_span :: nat
  tc_bbox :: "bbox option"
  is_header :: bool
  tc_text :: rstr
  tc_markdown :: "rstr option"
  tc_lines :: "table_cell_line list"

record table =
  row_count :: nat
  column_count :: nat
  cells :: "table_cell list"
  tb_source :: table_structure_source

section \<open>Blocks\<close>

datatype geometry_source = ModelPolygon | DerivedFromBbox

record source_region =
  sr_label :: "layout_label option"
  sr_model_region_id :: "rstr option"
  sr_fallback_region_id :: "rstr option"
  sr_bbox :: bbox
  sr_polygon :: "polygon option"
  geometry_source :: geometry_source
  sr_confidence :: "f64 option"
  sr_model_order :: "int option"

datatype list_kind =
  Unordered | Decimal | BareDecimal | AlphaLower | AlphaUpper | RomanLower | RomanUpper

record list_item =
  group_of :: nat
  level :: nat
  kind :: list_kind
  marker :: rstr
  ordinal :: "nat option"
  line_ids :: "rstr list"
  marker_end :: nat

datatype figure_source = Embedded | Raster

datatype figure_media_type = Jpeg | Png | Jp2 | Jpx

datatype figure_delivery = File rstr | Inline rstr

record figure_image =
  im_source :: figure_source
  media_type :: figure_media_type
  im_width :: nat
  im_height :: nat
  delivery :: figure_delivery

record page_image_asset =
  as_id :: rstr
  as_bbox :: bbox
  image :: figure_image

record evidence =
  ev_kind :: rstr
  ev_score :: "f64 option"
  ev_details :: "(rstr \<times> rstr) list"

record block =
  bk_id :: rstr
  label :: layout_label
  bk_text :: rstr
  label_source :: label_source
  bk_confidence :: "f64 option"
  bk_bbox :: bbox
  bk_polygon :: "polygon option"
  source_region :: "source_region option"
  source_regions :: "source_region list"
  model_region_id :: "rstr option"
  model_order :: "int option"
  final_order :: nat
  semantic_hints :: "(rstr \<times> rstr) list"
  lines_of :: "line list"
  list_items :: "list_item list"
  table_of :: "table option"
  bk_image :: "figure_image option"
  embedded_image_index :: "nat option"
  evidence_of :: "evidence list"

definition is_detached :: "block \<Rightarrow> bool" where
  "is_detached b \<longleftrightarrow> label b = Reference \<or> label b = Watermark"

text \<open>\<open>Block::source_regions()\<close>: the merged regions, or else the primary one.\<close>

definition all_source_regions :: "block \<Rightarrow> source_region list" where
  "all_source_regions b =
     (if source_regions b = [] then (case source_region b of None \<Rightarrow> [] | Some r \<Rightarrow> [r]) else [])
     @ source_regions b"

definition sparse_layout_hint :: rstr where
  "sparse_layout_hint = lit ''sparse_layout_envelope''"

definition opt_eq :: "('a \<Rightarrow> 'a \<Rightarrow> bool) \<Rightarrow> 'a option \<Rightarrow> 'a option \<Rightarrow> bool" where
  "opt_eq eq a b \<longleftrightarrow> (case (a, b) of (None, None) \<Rightarrow> True | (Some x, Some y) \<Rightarrow> eq x y | _ \<Rightarrow> False)"

definition point_eq :: "point \<Rightarrow> point \<Rightarrow> bool" where
  "point_eq p q \<longleftrightarrow> feq (px p) (px q) \<and> feq (py p) (py q)"

text \<open>The derived \<open>PartialEq\<close>, with the float comparison of the language.\<close>

definition source_region_eq :: "source_region \<Rightarrow> source_region \<Rightarrow> bool" where
  "source_region_eq a b \<longleftrightarrow>
     sr_label a = sr_label b \<and> sr_model_region_id a = sr_model_region_id b \<and>
     sr_fallback_region_id a = sr_fallback_region_id b \<and> bbox_eq (sr_bbox a) (sr_bbox b) \<and>
     opt_eq (list_all2 point_eq) (sr_polygon a) (sr_polygon b) \<and> geometry_source a = geometry_source b \<and>
     opt_eq feq (sr_confidence a) (sr_confidence b) \<and> sr_model_order a = sr_model_order b"

section \<open>Plain values, for examples\<close>

definition box :: "int \<Rightarrow> int \<Rightarrow> int \<Rightarrow> int \<Rightarrow> bbox" where
  "box l t r b = \<lparr>left = Fin (of_int l), top_of = Fin (of_int t), right = Fin (of_int r), bottom = Fin (of_int b)\<rparr>"

definition plain_item :: "rstr \<Rightarrow> rstr \<Rightarrow> bbox \<Rightarrow> text_item" where
  "plain_item i s b = \<lparr>it_id = i, raw_text = s, it_bbox = b, it_polygon = None, it_watermark = None,
     it_baseline = None, it_rotation = Fin 0, it_source = Native, it_confidence = None, extraction_order = 0, it_final_order = 0,
     it_style = None, repair_actions = []\<rparr>"

definition plain_line :: "rstr \<Rightarrow> text_item list \<Rightarrow> bbox \<Rightarrow> line" where
  "plain_line i items b = \<lparr>ln_id = i, ln_text = derive_line_text items, ln_bbox = b, ln_baseline = None,
     ln_rotation = Fin 0, direction = LeftToRight, model_region_coverage = None, inline_spans = [],
     text_items = items\<rparr>"

definition plain_block :: "rstr \<Rightarrow> layout_label \<Rightarrow> rstr \<Rightarrow> bbox \<Rightarrow> line list \<Rightarrow> nat \<Rightarrow> block" where
  "plain_block i lab s b ls n = \<lparr>bk_id = i, label = lab, bk_text = s, label_source = FromModel,
     bk_confidence = None, bk_bbox = b, bk_polygon = None, source_region = None, source_regions = [],
     model_region_id = None, model_order = None, final_order = n, semantic_hints = [], lines_of = ls,
     list_items = [], table_of = None, bk_image = None,
     embedded_image_index = None, evidence_of = []\<rparr>"

end
