(* ===== verification/Cell_Grid.thy ===== *)
theory Cell_Grid
  imports Document
begin

text \<open>
  Transactional edits of one table candidate: \<open>crates/core/src/table/grid/cells.rs\<close>. Every
  operation that takes \<open>&mut self\<close> returns its result and the grid after it. The owner
  sentinel \<open>usize::MAX\<close> is \<open>None\<close>: a table has at most 4096 cells, so no index reaches it.
\<close>

record grid_row =
  gr_top :: f64
  gr_bottom :: f64
  physical :: "nat list"
  words :: "nat list"

record cell_grid =
  gtable :: table
  grows :: "grid_row list"
  owners :: "nat option list"
  assignment :: "nat list option"

section \<open>Construction\<close>

fun geometry_error_text :: "geometry_error \<Rightarrow> string" where
  "geometry_error_text (NonFinite field) = ''geometry field '' @ field @ '' must be finite''"
| "geometry_error_text DegenerateBbox = ''bounding box must have positive width and height''"
| "geometry_error_text (InvalidPolygon reason) = ''invalid polygon: '' @ reason"

definition dimensions_ok :: "table \<Rightarrow> bool" where
  "dimensions_ok t \<longleftrightarrow>
     row_count t \<noteq> 0 \<and> row_count t \<le> max_table_rows \<and>
     column_count t \<noteq> 0 \<and> column_count t \<le> max_table_columns \<and>
     (case checked_mul (row_count t) (column_count t) of None \<Rightarrow> False | Some n \<Rightarrow> n \<le> max_table_cells) \<and>
     length (cells t) \<le> max_table_cells"

definition check_cell_bbox :: "bbox option \<Rightarrow> string + unit" where
  "check_cell_bbox b =
     (case b of None \<Rightarrow> Inr ()
      | Some b \<Rightarrow> (case bbox_try_from (left b) (top_of b) (right b) (bottom b) of
          Inl e \<Rightarrow> Inl (geometry_error_text e) | Inr _ \<Rightarrow> Inr ()))"

text \<open>The slots of a cell, row by row.\<close>

definition slots :: "nat \<Rightarrow> table_cell \<Rightarrow> nat list" where
  "slots cc c =
     concat (map (\<lambda>r. map (\<lambda>k. r * cc + k) [column c ..< column c + column_span c])
                 [row c ..< row c + row_span c])"

definition take_slot :: "nat \<Rightarrow> nat \<Rightarrow> nat option list \<Rightarrow> string + nat option list" where
  "take_slot i p own =
     (case get_at own p of
        None \<Rightarrow> Inl ''cell outside grid''
      | Some None \<Rightarrow> Inr (own[p := Some i])
      | Some (Some _) \<Rightarrow> Inl ''table cells overlap in grid coordinates'')"

definition place_cell :: "table \<Rightarrow> nat \<times> table_cell \<Rightarrow> nat option list \<Rightarrow> string + nat option list" where
  "place_cell t ic own =
     (let (i, c) = ic
      in rbind (ok_or ''row span overflow'' (checked_add (row c) (row_span c))) (\<lambda>last_row.
         rbind (ok_or ''column span overflow'' (checked_add (column c) (column_span c))) (\<lambda>last_column.
         if row_span c = 0 \<or> column_span c = 0 \<or> row_count t < last_row \<or> column_count t < last_column
         then Inl ''cell span extends outside the table''
         else rbind (check_cell_bbox (tc_bbox c)) (\<lambda>_.
              rfold (take_slot i) (slots (column_count t) c) own))))"

definition grid_try_from :: "table \<Rightarrow> string + cell_grid" where
  "grid_try_from t =
     (if \<not> dimensions_ok t then Inl ''table dimensions exceed the bounded grid contract''
      else rbind (rfold (place_cell t) (List.enumerate 0 (cells t))
                        (replicate (row_count t * column_count t) None)) (\<lambda>own.
        if None \<in> set own then Inl ''grid positions need either a cell or a spanning owner''
        else Inr \<lparr>gtable = t, grows = [], owners = own, assignment = None\<rparr>))"

section \<open>Edits\<close>

definition with_rows :: "grid_row list \<Rightarrow> cell_grid \<Rightarrow> string + cell_grid" where
  "with_rows rs g =
     (if assignment g \<noteq> None \<or> length rs \<noteq> row_count (gtable g) \<or>
         (\<exists>r\<in>set rs. \<not> is_finite (gr_top r) \<or> \<not> is_finite (gr_bottom r) \<or> fle (gr_bottom r) (gr_top r))
      then Inl ''invalid logical row plan'' else Inr (g\<lparr>grows := rs\<rparr>))"

definition select_owner :: "cell_grid \<Rightarrow> nat \<Rightarrow> bool list \<Rightarrow> string + bool list" where
  "select_owner g p sel =
     rbind (ok_or ''missing grid owner'' (get_at (owners g) p)) (\<lambda>own.
       (case own of None \<Rightarrow> Inl ''invalid grid owner''
        | Some i \<Rightarrow> if i < length sel then Inr (sel[i := True]) else Inl ''invalid grid owner''))"

text \<open>The cells a rectangle edit keeps; the rectangle is \<open>r0..r1\<close> by \<open>c0..c1\<close>.\<close>

definition keep_outside ::
  "nat \<Rightarrow> nat \<Rightarrow> nat \<Rightarrow> nat \<Rightarrow> bool list \<Rightarrow> nat \<times> table_cell \<Rightarrow> table_cell list \<Rightarrow> string + table_cell list" where
  "keep_outside r0 r1 c0 c1 sel ic kept =
     (let (i, c) = ic; bot = row c + row_span c; rgt = column c + column_span c
      in rbind (ok_or ''missing selection'' (get_at sel i)) (\<lambda>intersects.
         if intersects then
           (if row c < r0 \<or> r1 < bot \<or> column c < c0 \<or> c1 < rgt
            then Inl ''grid edit cuts an existing span''
            else if tc_lines c \<noteq> [] \<or> tc_text c \<noteq> []
            then Inl ''grid edit cannot discard populated cells''
            else Inr kept)
         else Inr (kept @ [c])))"

definition outside_region :: "nat \<Rightarrow> nat \<Rightarrow> nat \<Rightarrow> nat \<Rightarrow> table_cell \<Rightarrow> bool" where
  "outside_region r0 r1 c0 c1 c \<longleftrightarrow>
     row c < r0 \<or> column c < c0 \<or>
     (case checked_add (row c) (row_span c) of None \<Rightarrow> True | Some e \<Rightarrow> r1 < e) \<or>
     (case checked_add (column c) (column_span c) of None \<Rightarrow> True | Some e \<Rightarrow> c1 < e)"

definition region_slots :: "nat \<Rightarrow> nat \<Rightarrow> nat \<Rightarrow> nat \<Rightarrow> nat \<Rightarrow> nat list" where
  "region_slots cc r0 r1 c0 c1 = concat (map (\<lambda>r. map (\<lambda>k. r * cc + k) [c0 ..< c1]) [r0 ..< r1])"

definition edit_region ::
  "nat \<Rightarrow> nat \<Rightarrow> nat \<Rightarrow> nat \<Rightarrow> table_cell list \<Rightarrow> cell_grid \<Rightarrow> string + cell_grid" where
  "edit_region r0 r1 c0 c1 cs g =
     (let t = gtable g
      in if assignment g \<noteq> None \<or> r1 \<le> r0 \<or> c1 \<le> c0 \<or> row_count t < r1 \<or> column_count t < c1
         then Inl ''invalid or frozen grid edit''
         else
           rbind (rfold (select_owner g) (region_slots (column_count t) r0 r1 c0 c1)
                        (replicate (length (cells t)) False)) (\<lambda>sel.
           rbind (rfold (keep_outside r0 r1 c0 c1 sel) (List.enumerate 0 (cells t)) []) (\<lambda>kept.
           if \<exists>c\<in>set cs. outside_region r0 r1 c0 c1 c
           then Inl ''replacement extends outside its region''
           else rbind (grid_try_from (t\<lparr>cells := kept @ cs\<rparr>)) (\<lambda>next.
             Inr (next\<lparr>grows := grows g\<rparr>)))))"

text \<open>\<open>*self = next\<close> is the last thing an edit does: an error leaves the grid as it was.\<close>

definition commit :: "(cell_grid \<Rightarrow> string + cell_grid) \<Rightarrow> cell_grid \<Rightarrow> (string + unit) \<times> cell_grid" where
  "commit edit g = (case edit g of Inl e \<Rightarrow> (Inl e, g) | Inr g' \<Rightarrow> (Inr (), g'))"

definition replace_region ::
  "nat \<Rightarrow> nat \<Rightarrow> nat \<Rightarrow> nat \<Rightarrow> table_cell list \<Rightarrow> cell_grid \<Rightarrow> (string + unit) \<times> cell_grid" where
  "replace_region r0 r1 c0 c1 cs = commit (edit_region r0 r1 c0 c1 cs)"

definition keep_row ::
  "nat \<Rightarrow> nat \<Rightarrow> nat \<Rightarrow> table_cell \<Rightarrow> table_cell list \<Rightarrow> string + table_cell list" where
  "keep_row r0 r1 count c kept =
     (let bot = row c + row_span c
      in if row c < r1 \<and> r0 < bot then
           (if row c < r0 \<or> r1 < bot \<or> tc_text c \<noteq> [] \<or> tc_lines c \<noteq> []
            then Inl ''row edit cuts a span or discards text'' else Inr kept)
         else Inr (kept @ [if r1 \<le> row c then c\<lparr>row := row c - (r1 - r0) + count\<rparr> else c]))"

definition edit_rows ::
  "nat \<Rightarrow> nat \<Rightarrow> grid_row list \<Rightarrow> table_cell list \<Rightarrow> cell_grid \<Rightarrow> string + cell_grid" where
  "edit_rows r0 r1 rs cs g =
     (let t = gtable g; count = length rs
      in if assignment g \<noteq> None \<or> r1 \<le> r0 \<or> row_count t < r1 \<or> length (grows g) \<noteq> row_count t \<or> rs = []
         then Inl ''invalid or frozen row edit''
         else
           rbind (rfold (keep_row r0 r1 count) (cells t) []) (\<lambda>kept.
           if \<exists>c\<in>set cs. row c < r0 \<or>
                (case checked_add (row c) (row_span c) of None \<Rightarrow> True | Some e \<Rightarrow> r0 + count < e)
           then Inl ''replacement extends outside its row band''
           else rbind (grid_try_from (t\<lparr>row_count := row_count t - (r1 - r0) + count, cells := kept @ cs\<rparr>))
             (with_rows (take r0 (grows g) @ rs @ drop r1 (grows g)))))"

definition replace_rows ::
  "nat \<Rightarrow> nat \<Rightarrow> grid_row list \<Rightarrow> table_cell list \<Rightarrow> cell_grid \<Rightarrow> (string + unit) \<times> cell_grid" where
  "replace_rows r0 r1 rs cs = commit (edit_rows r0 r1 rs cs)"

definition try_merge :: "table_cell \<Rightarrow> cell_grid \<Rightarrow> (string + unit) \<times> cell_grid" where
  "try_merge c g =
     (case checked_add (row c) (row_span c) of None \<Rightarrow> (Inl ''row span overflow'', g)
      | Some r1 \<Rightarrow> (case checked_add (column c) (column_span c) of None \<Rightarrow> (Inl ''column span overflow'', g)
          | Some c1 \<Rightarrow> replace_region (row c) r1 (column c) c1 [c] g))"

definition set_header :: "nat \<Rightarrow> cell_grid \<Rightarrow> (string + unit) \<times> cell_grid" where
  "set_header r g =
     (if assignment g \<noteq> None \<or> row_count (gtable g) \<le> r then (Inl ''invalid or frozen header edit'', g)
      else (Inr (), g\<lparr>gtable := (gtable g)\<lparr>cells :=
        map (\<lambda>c. if row c = r then c\<lparr>is_header := True\<rparr> else c) (cells (gtable g))\<rparr>\<rparr>))"

section \<open>Binding\<close>

definition bind_words :: "nat list \<Rightarrow> nat \<Rightarrow> cell_grid \<Rightarrow> string + cell_grid" where
  "bind_words asg word_count g =
     (if assignment g \<noteq> None \<or> length asg \<noteq> word_count \<or>
         (\<exists>c\<in>set asg. length (cells (gtable g)) \<le> c)
      then Inl ''invalid source word assignment'' else Inr (g\<lparr>assignment := Some asg\<rparr>))"

definition into_parts :: "cell_grid \<Rightarrow> string + (table \<times> nat list)" where
  "into_parts g = rbind (ok_or ''table words were not assigned'' (assignment g)) (\<lambda>a. Inr (gtable g, a))"

end
