(* ===== verification/Grid_Tiling.thy ===== *)
theory Grid_Tiling
  imports Cell_Grid
begin

text \<open>
  What a valid grid is: its cells tile the rows and columns, and \<open>owners\<close> is the inverse of
  that tiling. Construction accepts exactly the tilings, every edit keeps the invariant, and
  an edit changes only its region.
\<close>

definition covers :: "table_cell \<Rightarrow> nat \<Rightarrow> nat \<Rightarrow> bool" where
  "covers c r k \<longleftrightarrow> row c \<le> r \<and> r < row c + row_span c \<and> column c \<le> k \<and> k < column c + column_span c"

definition cell_ok :: "table \<Rightarrow> table_cell \<Rightarrow> bool" where
  "cell_ok t c \<longleftrightarrow>
     0 < row_span c \<and> 0 < column_span c \<and>
     row c + row_span c \<le> row_count t \<and> column c + column_span c \<le> column_count t \<and>
     (case tc_bbox c of None \<Rightarrow> True | Some b \<Rightarrow> bbox_ok b)"

definition tiled :: "table \<Rightarrow> bool" where
  "tiled t \<longleftrightarrow>
     dimensions_ok t \<and> (\<forall>c\<in>set (cells t). cell_ok t c) \<and>
     (\<forall>r<row_count t. \<forall>k<column_count t. \<exists>!i. i < length (cells t) \<and> covers (cells t ! i) r k)"

definition owns :: "table \<Rightarrow> nat option list \<Rightarrow> bool" where
  "owns t own \<longleftrightarrow>
     length own = row_count t * column_count t \<and>
     (\<forall>r<row_count t. \<forall>k<column_count t. \<exists>i<length (cells t).
        own ! (r * column_count t + k) = Some i \<and> covers (cells t ! i) r k)"

section \<open>Slots\<close>

lemma mem_slots: "p \<in> set (slots cc c) \<longleftrightarrow> (\<exists>r k. covers c r k \<and> p = r * cc + k)"
proof -
  have "p \<in> set (slots cc c) \<longleftrightarrow> (\<exists>r. r \<in> {row c ..< row c + row_span c} \<and>
      (\<exists>k. k \<in> {column c ..< column c + column_span c} \<and> p = r * cc + k))"
    by (auto simp: slots_def image_iff simp del: image_add_atLeastLessThan image_add_atLeastLessThan'
        intro!: bexI)
  then show ?thesis by (auto simp: covers_def)
qed

lemma slot_inject:
  assumes "k < cc" "k' < cc" "r * cc + k = r' * cc + (k' :: nat)"
  shows "r = r'" "k = k'"
proof -
  have "(r * cc + k) div cc = r" "(r' * cc + k') div cc = r'" using assms(1,2) by simp_all
  then show "r = r'" using assms(3) by metis
  then show "k = k'" using assms(3) by simp
qed

lemma slot_mem_iff:
  assumes "cell_ok t c" "k < column_count t"
  shows "r * column_count t + k \<in> set (slots (column_count t) c) \<longleftrightarrow> covers c r k"
proof
  assume "r * column_count t + k \<in> set (slots (column_count t) c)"
  then obtain r' k' where c: "covers c r' k'" and eq: "r * column_count t + k = r' * column_count t + k'"
    by (auto simp: mem_slots)
  from c assms(1) have "k' < column_count t" by (auto simp: covers_def cell_ok_def)
  from slot_inject [OF assms(2) this eq] c show "covers c r k" by simp
qed (auto simp: mem_slots)

lemma slot_bound:
  assumes "cell_ok t c" "p \<in> set (slots (column_count t) c)"
  shows "p < row_count t * column_count t"
proof -
  from assms(2) obtain r k where c: "covers c r k" and p: "p = r * column_count t + k" by (auto simp: mem_slots)
  from c assms(1) have "k < column_count t" and "Suc r \<le> row_count t" by (auto simp: covers_def cell_ok_def)
  then have "p < Suc r * column_count t" by (simp add: p)
  also have "\<dots> \<le> row_count t * column_count t" using \<open>Suc r \<le> row_count t\<close> by (rule mult_le_mono1)
  finally show ?thesis .
qed

lemma slot_split:
  assumes "p < rc * (cc :: nat)"
  obtains r k where "r < rc" "k < cc" "p = r * cc + k"
proof
  have "0 < cc" using assms by (cases cc) auto
  then show "p mod cc < cc" by simp
  show "p div cc < rc" using assms by (simp add: less_mult_imp_div_less)
  show "p = p div cc * cc + p mod cc" by simp
qed

lemma distinct_slots:
  assumes "column c + column_span c \<le> cc"
  shows "distinct (slots cc c)"
proof -
  have "distinct (concat (map (\<lambda>r. map (\<lambda>k. r * cc + k) [column c ..< column c + column_span c]) rs))"
    if "distinct rs" for rs
    using that
  proof (induction rs)
    case (Cons r rs)
    have "r * cc + k \<noteq> r' * cc + k'"
      if "r' \<in> set rs" "k < column c + column_span c" "k' < column c + column_span c" for r' k k'
    proof
      assume eq: "r * cc + k = r' * cc + k'"
      have "k < cc" "k' < cc" using that assms by auto
      from slot_inject(1) [OF this eq] Cons.prems that(1) show False by simp
    qed
    then have "set (map (\<lambda>k. r * cc + k) [column c ..< column c + column_span c]) \<inter>
        set (concat (map (\<lambda>r. map (\<lambda>k. r * cc + k) [column c ..< column c + column_span c]) rs)) = {}"
      by (auto simp del: image_add_atLeastLessThan image_add_atLeastLessThan')
    with Cons show ?case by (simp add: distinct_map)
  qed simp
  then show ?thesis by (simp add: slots_def)
qed

section \<open>Placing cells\<close>

lemma take_slots:
  assumes "distinct ps" and "\<forall>p\<in>set ps. p < length own"
  shows "rfold (take_slot i) ps own = Inr own' \<longleftrightarrow>
    (\<forall>p\<in>set ps. own ! p = None) \<and> length own' = length own \<and>
    (\<forall>p<length own. own' ! p = (if p \<in> set ps then Some i else own ! p))"
  using assms
proof (induction ps arbitrary: own)
  case Nil
  show ?case by (auto intro: nth_equalityI)
next
  case (Cons p ps)
  have step: "take_slot i p own = (if own ! p = None then Inr (own[p := Some i])
      else Inl ''table cells overlap in grid coordinates'')"
    using Cons.prems(2) by (auto simp: take_slot_def get_at_def split: option.split)
  show ?case
  proof (cases "own ! p = None")
    case False
    then show ?thesis by (auto simp: step)
  next
    case True
    have "rfold (take_slot i) ps (own[p := Some i]) = Inr own' \<longleftrightarrow>
        (\<forall>q\<in>set ps. own[p := Some i] ! q = None) \<and> length own' = length own \<and>
        (\<forall>q<length own. own' ! q = (if q \<in> set ps then Some i else own[p := Some i] ! q))"
      using Cons.IH [of "own[p := Some i]"] Cons.prems by simp
    also have "(\<forall>q\<in>set ps. own[p := Some i] ! q = None) \<longleftrightarrow> (\<forall>q\<in>set ps. own ! q = None)"
      using Cons.prems(1) by (metis distinct.simps(2) nth_list_update_neq)
    also have "(\<forall>q<length own. own' ! q = (if q \<in> set ps then Some i else own[p := Some i] ! q)) \<longleftrightarrow>
        (\<forall>q<length own. own' ! q = (if q \<in> set (p # ps) then Some i else own ! q))"
      using Cons.prems(2) by (auto simp: nth_list_update)
    finally show ?thesis using True by (simp add: step)
  qed
qed

text \<open>The first \<open>n\<close> cells are placed.\<close>

definition placed :: "table \<Rightarrow> nat \<Rightarrow> nat option list \<Rightarrow> bool" where
  "placed t n own \<longleftrightarrow>
     length own = row_count t * column_count t \<and>
     (\<forall>i<n. cell_ok t (cells t ! i)) \<and>
     (\<forall>p<length own. \<forall>i. own ! p = Some i \<longleftrightarrow> i < n \<and> p \<in> set (slots (column_count t) (cells t ! i)))"

lemma check_cell_bbox_ok:
  "check_cell_bbox b = Inr () \<longleftrightarrow> (case b of None \<Rightarrow> True | Some b \<Rightarrow> bbox_ok b)"
proof (cases b)
  case (Some x)
  show ?thesis
  proof (cases "bbox_try_from (left x) (top_of x) (right x) (bottom x)")
    case (Inl e)
    then have "\<not> bbox_ok x" using bbox_try_from_ok [of "left x" "top_of x" "right x" "bottom x" x] by simp
    with Some Inl show ?thesis by (simp add: check_cell_bbox_def)
  next
    case (Inr y)
    then have "y = x \<and> bbox_ok y" by (auto simp: bbox_try_from_ok)
    then have "bbox_ok x" by auto
    with Some Inr show ?thesis by (simp add: check_cell_bbox_def)
  qed
qed (simp add: check_cell_bbox_def)

lemma place_cell_Inr:
  assumes "placed t n own" and "dimensions_ok t"
  shows "place_cell t (n, cells t ! n) own = Inr own' \<Longrightarrow> placed t (Suc n) own'"
    and "cell_ok t (cells t ! n) \<Longrightarrow> (\<forall>p\<in>set (slots (column_count t) (cells t ! n)). own ! p = None) \<Longrightarrow>
      \<exists>own'. place_cell t (n, cells t ! n) own = Inr own'"
proof -
  let ?c = "cells t ! n"
  have bbox: "check_cell_bbox b = Inr () \<longleftrightarrow> (case b of None \<Rightarrow> True | Some b \<Rightarrow> bbox_ok b)" for b
    by (rule check_cell_bbox_ok)
  have dims: "row_count t \<le> 256" "column_count t \<le> 64"
    using assms(2) by (auto simp: dimensions_ok_def max_table_rows_def max_table_columns_def)
  have small: "row ?c + row_span ?c \<le> row_count t \<Longrightarrow> int (row ?c + row_span ?c) < usize_limit"
    "column ?c + column_span ?c \<le> column_count t \<Longrightarrow> int (column ?c + column_span ?c) < usize_limit"
    using dims by (simp_all add: usize_limit_def)
  have eq: "place_cell t (n, ?c) own = Inr own' \<longleftrightarrow>
      cell_ok t ?c \<and> rfold (take_slot n) (slots (column_count t) ?c) own = Inr own'" for own'
  proof
    assume "place_cell t (n, ?c) own = Inr own'"
    then have "0 < row_span ?c" "0 < column_span ?c" "row ?c + row_span ?c \<le> row_count t"
        "column ?c + column_span ?c \<le> column_count t" and "check_cell_bbox (tc_bbox ?c) = Inr ()"
        and "rfold (take_slot n) (slots (column_count t) ?c) own = Inr own'"
      by (auto simp: place_cell_def rbind_eq_Inr split: if_splits)
    with bbox show "cell_ok t ?c \<and> rfold (take_slot n) (slots (column_count t) ?c) own = Inr own'"
      by (simp add: cell_ok_def)
  next
    assume a: "cell_ok t ?c \<and> rfold (take_slot n) (slots (column_count t) ?c) own = Inr own'"
    then have "check_cell_bbox (tc_bbox ?c) = Inr ()" by (simp add: bbox cell_ok_def)
    with a small show "place_cell t (n, ?c) own = Inr own'"
      by (simp add: place_cell_def cell_ok_def checked_add_def)
  qed
  have slots: "rfold (take_slot n) (slots (column_count t) ?c) own = Inr own' \<longleftrightarrow>
      (\<forall>p\<in>set (slots (column_count t) ?c). own ! p = None) \<and> length own' = length own \<and>
      (\<forall>p<length own. own' ! p = (if p \<in> set (slots (column_count t) ?c) then Some n else own ! p))"
    if "cell_ok t ?c" for own'
    using that assms(1) slot_bound [OF that]
    by (intro take_slots distinct_slots) (auto simp: cell_ok_def placed_def)
  show "placed t (Suc n) own'" if "place_cell t (n, ?c) own = Inr own'"
  proof -
    from that eq have ok: "cell_ok t ?c" and "rfold (take_slot n) (slots (column_count t) ?c) own = Inr own'" by auto
    note iffD1 [OF slots [OF ok] this(2)]
    then have free: "\<forall>p\<in>set (slots (column_count t) ?c). own ! p = None" and len: "length own' = length own"
      and own': "\<forall>p<length own. own' ! p = (if p \<in> set (slots (column_count t) ?c) then Some n else own ! p)"
      by blast+
    have "own' ! p = Some i \<longleftrightarrow> i < Suc n \<and> p \<in> set (slots (column_count t) (cells t ! i))"
      if p: "p < length own" for p i
    proof (cases "p \<in> set (slots (column_count t) ?c)")
      case True
      with free have "own ! p = None" by blast
      with p assms(1) have "\<not> (i < n \<and> p \<in> set (slots (column_count t) (cells t ! i)))"
        by (auto simp: placed_def)
      with True p own' show ?thesis by (auto simp: less_Suc_eq)
    next
      case False
      with p own' assms(1) show ?thesis by (auto simp: placed_def less_Suc_eq)
    qed
    with ok len assms(1) show ?thesis by (auto simp: placed_def less_Suc_eq)
  qed
  show "\<exists>own'. place_cell t (n, ?c) own = Inr own'"
    if ok: "cell_ok t ?c" and free: "\<forall>p\<in>set (slots (column_count t) ?c). own ! p = None"
  proof -
    let ?own' = "map (\<lambda>p. if p \<in> set (slots (column_count t) ?c) then Some n else own ! p) [0 ..< length own]"
    have "rfold (take_slot n) (slots (column_count t) ?c) own = Inr ?own'"
      by (subst slots [OF ok]) (use free in simp)
    with eq ok show ?thesis by blast
  qed
qed

lemma enumerate_drop:
  "n < length xs \<Longrightarrow> List.enumerate n (drop n xs) = (n, xs ! n) # List.enumerate (Suc n) (drop (Suc n) xs)"
  by (simp add: Cons_nth_drop_Suc [symmetric])

lemma place_cells_sound:
  assumes "placed t n own" "dimensions_ok t" "n \<le> length (cells t)"
    and "rfold (place_cell t) (List.enumerate n (drop n (cells t))) own = Inr own'"
  shows "placed t (length (cells t)) own'"
  using assms
proof (induction "length (cells t) - n" arbitrary: n own)
  case 0
  then show ?case by simp
next
  case (Suc m)
  then have n: "n < length (cells t)" by simp
  with Suc.prems(4) obtain mid where mid: "place_cell t (n, cells t ! n) own = Inr mid"
      and rest: "rfold (place_cell t) (List.enumerate (Suc n) (drop (Suc n) (cells t))) mid = Inr own'"
    by (auto simp: enumerate_drop result_simps)
  have "placed t (Suc n) mid" by (rule place_cell_Inr(1) [OF Suc.prems(1,2) mid])
  then show ?case using Suc n rest by (intro Suc.hyps(1) [of "Suc n" mid]) auto
qed

lemma place_cells_complete:
  assumes "placed t n own" "dimensions_ok t" "n \<le> length (cells t)"
    and "\<forall>c\<in>set (cells t). cell_ok t c"
    and "\<And>i j p. i < length (cells t) \<Longrightarrow> j < length (cells t) \<Longrightarrow>
      p \<in> set (slots (column_count t) (cells t ! i)) \<Longrightarrow> p \<in> set (slots (column_count t) (cells t ! j)) \<Longrightarrow> i = j"
  shows "\<exists>own'. rfold (place_cell t) (List.enumerate n (drop n (cells t))) own = Inr own'"
  using assms
proof (induction "length (cells t) - n" arbitrary: n own)
  case 0
  then show ?case by simp
next
  case (Suc m)
  then have n: "n < length (cells t)" by simp
  have ok: "cell_ok t (cells t ! n)" using n Suc.prems(4) by simp
  have "own ! p = None" if p: "p \<in> set (slots (column_count t) (cells t ! n))" for p
  proof (cases "own ! p")
    case (Some i)
    have "p < length own" using slot_bound [OF ok p] Suc.prems(1) by (simp add: placed_def)
    with Some Suc.prems(1) have "i < n" and "p \<in> set (slots (column_count t) (cells t ! i))"
      by (auto simp: placed_def)
    moreover from this Suc.prems(5) [of i n p] p n have "i = n" by simp
    ultimately show ?thesis by simp
  qed simp
  with place_cell_Inr(2) [OF Suc.prems(1,2) ok] obtain mid where mid: "place_cell t (n, cells t ! n) own = Inr mid"
    by blast
  then have "placed t (Suc n) mid" by (rule place_cell_Inr(1) [OF Suc.prems(1,2)])
  with Suc n have "\<exists>own'. rfold (place_cell t) (List.enumerate (Suc n) (drop (Suc n) (cells t))) mid = Inr own'"
    by (intro Suc.hyps(1) [of "Suc n" mid]) auto
  with n mid show ?case by (simp add: enumerate_drop)
qed

lemma placed_start: "placed t 0 (replicate (row_count t * column_count t) None)"
  by (simp add: placed_def)

section \<open>Construction accepts exactly the tilings\<close>

lemma grid_try_from_Inr:
  assumes "grid_try_from t = Inr g"
  shows "tiled t \<and> gtable g = t \<and> grows g = [] \<and> assignment g = None \<and> owns t (owners g)"
proof -
  let ?n = "length (cells t)" and ?cc = "column_count t"
  from assms obtain own where dims: "dimensions_ok t"
      and fold: "rfold (place_cell t) (List.enumerate 0 (cells t)) (replicate (row_count t * ?cc) None) = Inr own"
      and full: "None \<notin> set own" and g: "g = \<lparr>gtable = t, grows = [], owners = own, assignment = None\<rparr>"
    by (auto simp: grid_try_from_def result_simps split: if_splits)
  have placed: "placed t ?n own"
    using place_cells_sound [OF placed_start dims, of own] fold by simp
  then have len: "length own = row_count t * ?cc" and ok: "\<And>i. i < ?n \<Longrightarrow> cell_ok t (cells t ! i)"
    and own: "\<And>p i. p < length own \<Longrightarrow> own ! p = Some i \<longleftrightarrow> i < ?n \<and> p \<in> set (slots ?cc (cells t ! i))"
    by (auto simp: placed_def)
  have at: "r * ?cc + k < length own" if "r < row_count t" "k < ?cc" for r k
  proof -
    have "r * ?cc + k < Suc r * ?cc" using that(2) by simp
    also have "\<dots> \<le> row_count t * ?cc" using that(1) by (intro mult_le_mono1) simp
    finally show ?thesis by (simp add: len)
  qed
  have owner: "own ! (r * ?cc + k) = Some i \<longleftrightarrow> i < ?n \<and> covers (cells t ! i) r k"
    if "r < row_count t" "k < ?cc" for r k i
    using own [OF at [OF that]] slot_mem_iff [OF ok that(2)] by blast
  have some: "\<exists>i. own ! (r * ?cc + k) = Some i" if "r < row_count t" "k < ?cc" for r k
    using full at [OF that] by (metis nth_mem option.exhaust)
  have "tiled t"
    unfolding tiled_def
  proof (intro conjI allI impI dims ballI)
    show "cell_ok t c" if "c \<in> set (cells t)" for c
      using that ok by (auto simp: in_set_conv_nth)
    show "\<exists>!i. i < ?n \<and> covers (cells t ! i) r k" if "r < row_count t" "k < ?cc" for r k
      using owner [OF that] some [OF that] by (metis option.inject)
  qed
  moreover have "owns t own" using len owner some by (auto simp: owns_def)
  ultimately show ?thesis by (simp add: g)
qed

lemma tiled_grid_try_from:
  assumes "tiled t"
  shows "\<exists>g. grid_try_from t = Inr g"
proof -
  let ?n = "length (cells t)" and ?cc = "column_count t"
  from assms have dims: "dimensions_ok t" and ok: "\<forall>c\<in>set (cells t). cell_ok t c"
    and once: "\<And>r k. r < row_count t \<Longrightarrow> k < ?cc \<Longrightarrow> \<exists>!i. i < ?n \<and> covers (cells t ! i) r k"
    by (auto simp: tiled_def)
  have okn: "i < ?n \<Longrightarrow> cell_ok t (cells t ! i)" for i using ok by simp
  have disjoint: "i = j"
    if "i < ?n" "j < ?n" "p \<in> set (slots ?cc (cells t ! i))" "p \<in> set (slots ?cc (cells t ! j))" for i j p
  proof -
    note p = slot_bound [OF okn [OF that(1)] that(3)]
    obtain r k where rk: "r < row_count t" "k < ?cc" "p = r * ?cc + k" by (rule slot_split [OF p])
    then have "covers (cells t ! i) r k" "covers (cells t ! j) r k"
      using that slot_mem_iff [OF okn] by auto
    with once [OF rk(1,2)] that show ?thesis by blast
  qed
  have "\<exists>own. rfold (place_cell t) (List.enumerate 0 (drop 0 (cells t))) (replicate (row_count t * ?cc) None) = Inr own"
    by (rule place_cells_complete [OF placed_start dims _ ok disjoint]) auto
  then obtain own where fold:
    "rfold (place_cell t) (List.enumerate 0 (cells t)) (replicate (row_count t * ?cc) None) = Inr own" by auto
  have placed: "placed t ?n own"
    using place_cells_sound [OF placed_start dims, of own] fold by simp
  have "None \<notin> set own"
  proof
    assume "None \<in> set own"
    then obtain p where p: "p < length own" "own ! p = None" by (auto simp: in_set_conv_nth)
    with placed have "p < row_count t * ?cc" by (simp add: placed_def)
    then obtain r k where rk: "r < row_count t" "k < ?cc" "p = r * ?cc + k" by (rule slot_split)
    from once [OF rk(1,2)] obtain i where "i < ?n" "covers (cells t ! i) r k" by blast
    with rk have "p \<in> set (slots ?cc (cells t ! i))" by (simp add: slot_mem_iff okn)
    with placed p \<open>i < ?n\<close> have "own ! p = Some i" unfolding placed_def by blast
    with p(2) show False by simp
  qed
  with fold dims show ?thesis by (simp add: grid_try_from_def)
qed

section \<open>The invariant\<close>

definition grid_inv :: "cell_grid \<Rightarrow> bool" where
  "grid_inv g \<longleftrightarrow>
     tiled (gtable g) \<and> owns (gtable g) (owners g) \<and>
     (grows g = [] \<or> length (grows g) = row_count (gtable g)) \<and>
     (case assignment g of None \<Rightarrow> True | Some a \<Rightarrow> \<forall>c\<in>set a. c < length (cells (gtable g)))"

lemma try_from_inv: "grid_try_from t = Inr g \<Longrightarrow> grid_inv g"
  using grid_try_from_Inr [of t g] by (simp add: grid_inv_def)

lemma with_rows_inv: "with_rows rs g = Inr g' \<Longrightarrow> grid_inv g \<Longrightarrow> grid_inv g'"
  by (auto simp: with_rows_def grid_inv_def split: if_splits)

lemma edit_region_inv:
  assumes "edit_region r0 r1 c0 c1 cs g = Inr g'" "grid_inv g"
  shows "grid_inv g'"
proof -
  from assms(1) obtain kept n where n: "grid_try_from ((gtable g)\<lparr>cells := kept @ cs\<rparr>) = Inr n"
      and g': "g' = n\<lparr>grows := grows g\<rparr>"
    by (auto simp: edit_region_def Let_def result_simps split: if_splits)
  from grid_try_from_Inr [OF n] assms(2) show ?thesis by (auto simp: g' grid_inv_def)
qed

lemma edit_rows_inv:
  assumes "edit_rows r0 r1 rs cs g = Inr g'"
  shows "grid_inv g'"
  using assms by (auto simp: edit_rows_def Let_def result_simps split: if_splits dest: try_from_inv with_rows_inv)

lemma commit_cases:
  obtains g' where "commit edit g = (Inr (), g')" "edit g = Inr g'" | e where "commit edit g = (Inl e, g)"
  by (cases "edit g") (auto simp: commit_def)

lemma replace_region_inv: "grid_inv g \<Longrightarrow> grid_inv (snd (replace_region r0 r1 c0 c1 cs g))"
  by (auto simp: replace_region_def commit_def dest: edit_region_inv split: sum.split)

lemma replace_rows_inv: "grid_inv g \<Longrightarrow> grid_inv (snd (replace_rows r0 r1 rs cs g))"
  by (auto simp: replace_rows_def commit_def dest: edit_rows_inv split: sum.split)

lemma try_merge_inv: "grid_inv g \<Longrightarrow> grid_inv (snd (try_merge c g))"
  by (auto simp: try_merge_def replace_region_inv split: option.split)

lemma cell_ok_cells: "cell_ok (t\<lparr>cells := cs\<rparr>) c = cell_ok t c"
  by (simp add: cell_ok_def)

lemma grid_inv_map:
  assumes "grid_inv g" and "\<And>t c. cell_ok t (f c) = cell_ok t c" and "\<And>c. covers (f c) = covers c"
  shows "grid_inv (g\<lparr>gtable := (gtable g)\<lparr>cells := map f (cells (gtable g))\<rparr>\<rparr>)"
proof -
  let ?t = "gtable g"
  let ?t' = "?t\<lparr>cells := map f (cells ?t)\<rparr>"
  have at: "i < length (cells ?t) \<and> covers (map f (cells ?t) ! i) r k \<longleftrightarrow>
      i < length (cells ?t) \<and> covers (cells ?t ! i) r k" for i r k
    by (auto simp: assms(3))
  have "tiled ?t"  and own: "owns ?t (owners g)" using assms(1) by (simp_all add: grid_inv_def)
  then have "tiled ?t'" unfolding tiled_def
    by (simp add: at dimensions_ok_def cell_ok_cells assms(2))
  moreover have "owns ?t' (owners g)" using own unfolding owns_def
    by (simp add: assms(3) cong: conj_cong)
  ultimately show ?thesis using assms(1) by (auto simp: grid_inv_def split: option.splits)
qed

lemma set_header_inv: "grid_inv g \<Longrightarrow> grid_inv (snd (set_header r g))"
proof -
  assume inv: "grid_inv g"
  let ?f = "\<lambda>c. if row c = r then c\<lparr>is_header := True\<rparr> else c"
  have "cell_ok t (?f c) = cell_ok t c" "covers (?f c) = covers c" for t and c :: table_cell
    by (simp_all add: cell_ok_def covers_def fun_eq_iff)
  from grid_inv_map [OF inv, of ?f, OF this] inv show ?thesis by (simp add: set_header_def)
qed

lemma bind_words_inv: "bind_words asg n g = Inr g' \<Longrightarrow> grid_inv g \<Longrightarrow> grid_inv g'"
  by (auto simp: bind_words_def grid_inv_def not_le split: if_splits)

section \<open>Edit sequences\<close>

inductive grid_step :: "cell_grid \<Rightarrow> cell_grid \<Rightarrow> bool" where
  rows_step: "with_rows rs g = Inr g' \<Longrightarrow> grid_step g g'"
| region_step: "grid_step g (snd (replace_region r0 r1 c0 c1 cs g))"
| band_step: "grid_step g (snd (replace_rows r0 r1 rs cs g))"
| merge_step: "grid_step g (snd (try_merge c g))"
| header_step: "grid_step g (snd (set_header r g))"
| bind_step: "bind_words asg n g = Inr g' \<Longrightarrow> grid_step g g'"

lemma grid_step_inv: "grid_step g g' \<Longrightarrow> grid_inv g \<Longrightarrow> grid_inv g'"
  by (induction rule: grid_step.induct)
    (auto intro: with_rows_inv replace_region_inv replace_rows_inv try_merge_inv set_header_inv bind_words_inv)

interpretation grids: invariant_system "\<lambda>g. \<exists>t. grid_try_from t = Inr g" grid_step grid_inv
  by unfold_locales (auto intro: try_from_inv grid_step_inv)

section \<open>What an edit changes\<close>

definition meets :: "nat \<Rightarrow> nat \<Rightarrow> nat \<Rightarrow> nat \<Rightarrow> table_cell \<Rightarrow> bool" where
  "meets r0 r1 c0 c1 c \<longleftrightarrow>
     row c < r1 \<and> r0 < row c + row_span c \<and> column c < c1 \<and> c0 < column c + column_span c"

definition blank :: "table_cell \<Rightarrow> bool" where
  "blank c \<longleftrightarrow> tc_text c = [] \<and> tc_lines c = []"

lemma select_fold:
  assumes "rfold (select_owner g) ps sel = Inr sel'"
  shows "length sel' = length sel \<and>
    (\<forall>i<length sel. sel' ! i \<longleftrightarrow> sel ! i \<or> (\<exists>p\<in>set ps. p < length (owners g) \<and> owners g ! p = Some i))"
  using assms
proof (induction ps arbitrary: sel)
  case (Cons p ps)
  then obtain mid where mid: "select_owner g p sel = Inr mid" and fold: "rfold (select_owner g) ps mid = Inr sel'"
    by (auto simp: result_simps)
  from mid obtain i where p: "p < length (owners g)" "owners g ! p = Some i" "i < length sel" "mid = sel[i := True]"
    by (auto simp: select_owner_def result_simps split: option.splits if_splits)
  with fold have rest: "rfold (select_owner g) ps (sel[i := True]) = Inr sel'" by simp
  from Cons.IH [OF rest] p show ?case by (auto simp: nth_list_update)
qed simp

lemma keep_fold:
  assumes "rfold (keep_outside r0 r1 c0 c1 sel) (List.enumerate n cs) kept = Inr kept'"
  shows "kept' = kept @ map snd (filter (\<lambda>(i, c). \<not> sel ! i) (List.enumerate n cs)) \<and>
    (\<forall>(i, c)\<in>set (List.enumerate n cs). sel ! i \<longrightarrow> blank c \<and> r0 \<le> row c \<and> row c + row_span c \<le> r1 \<and>
       c0 \<le> column c \<and> column c + column_span c \<le> c1)"
  using assms
proof (induction cs arbitrary: n kept)
  case (Cons c cs)
  from Cons.prems obtain mid where mid: "keep_outside r0 r1 c0 c1 sel (n, c) kept = Inr mid"
      and rest: "rfold (keep_outside r0 r1 c0 c1 sel) (List.enumerate (Suc n) cs) mid = Inr kept'"
    by (auto simp: result_simps)
  have step: "mid = (if sel ! n then kept else kept @ [c])"
    "sel ! n \<Longrightarrow> blank c \<and> r0 \<le> row c \<and> row c + row_span c \<le> r1 \<and> c0 \<le> column c \<and> column c + column_span c \<le> c1"
    using mid by (auto simp: keep_outside_def Let_def result_simps blank_def split: if_splits)
  from Cons.IH [OF rest] step show ?case by auto
qed simp

lemma filter_enumerate_nth:
  "map snd (filter (\<lambda>(i, c). P (xs ! (i - n))) (List.enumerate n xs)) = filter P xs"
proof (induction xs arbitrary: n)
  case (Cons x xs)
  have eq: "filter (\<lambda>(i, c). P ((x # xs) ! (i - n))) (List.enumerate (Suc n) xs) =
      filter (\<lambda>(i, c). P (xs ! (i - Suc n))) (List.enumerate (Suc n) xs)"
    by (rule filter_cong) (auto simp: in_set_enumerate_eq nth_Cons' Suc_diff_le)
  from Cons [of "Suc n"] eq show ?case by simp
qed simp

lemma owner_covers:
  assumes "grid_inv g" "r < row_count (gtable g)" "k < column_count (gtable g)" "i < length (cells (gtable g))"
  shows "owners g ! (r * column_count (gtable g) + k) = Some i \<longleftrightarrow> covers (cells (gtable g) ! i) r k"
proof -
  from assms(1-3) obtain j where j: "j < length (cells (gtable g))"
      "owners g ! (r * column_count (gtable g) + k) = Some j" "covers (cells (gtable g) ! j) r k"
    by (auto simp: grid_inv_def owns_def)
  moreover have "\<exists>!i. i < length (cells (gtable g)) \<and> covers (cells (gtable g) ! i) r k"
    using assms(1-3) by (simp add: grid_inv_def tiled_def)
  ultimately show ?thesis using assms(4) by (metis option.inject)
qed

lemma region_slots_mem:
  "p \<in> set (region_slots cc r0 r1 c0 c1) \<longleftrightarrow> (\<exists>r k. r0 \<le> r \<and> r < r1 \<and> c0 \<le> k \<and> k < c1 \<and> p = r * cc + k)"
proof -
  have "p \<in> set (region_slots cc r0 r1 c0 c1) \<longleftrightarrow>
      (\<exists>r. r \<in> {r0 ..< r1} \<and> (\<exists>k. k \<in> {c0 ..< c1} \<and> p = r * cc + k))"
    by (auto simp: region_slots_def image_iff simp del: image_add_atLeastLessThan image_add_atLeastLessThan'
        intro!: bexI)
  then show ?thesis by auto
qed

lemma meets_covers:
  assumes "0 < row_span c" "0 < column_span c" "r0 < r1" "c0 < c1"
  shows "meets r0 r1 c0 c1 c \<longleftrightarrow> (\<exists>r k. r0 \<le> r \<and> r < r1 \<and> c0 \<le> k \<and> k < c1 \<and> covers c r k)"
proof
  assume "meets r0 r1 c0 c1 c"
  with assms show "\<exists>r k. r0 \<le> r \<and> r < r1 \<and> c0 \<le> k \<and> k < c1 \<and> covers c r k"
    by (intro exI [of _ "max r0 (row c)"] exI [of _ "max c0 (column c)"]) (auto simp: meets_def covers_def)
qed (auto simp: meets_def covers_def)

end
