(* ===== verification/Grid_Properties.thy ===== *)
theory Grid_Properties
  imports Grid_Tiling
begin

text \<open>
  The properties of table-grid editing, with a two-by-two example.
\<close>

section \<open>An example\<close>

definition demo_cell :: "nat \<Rightarrow> nat \<Rightarrow> nat \<Rightarrow> nat \<Rightarrow> rstr \<Rightarrow> table_cell" where
  "demo_cell r k rs ks s = \<lparr>row = r, column = k, row_span = rs, column_span = ks, tc_bbox = None,
     is_header = False, tc_text = s, tc_markdown = None, tc_lines = []\<rparr>"

definition demo_table :: table where
  "demo_table = \<lparr>row_count = 2, column_count = 2,
     cells = [demo_cell 0 0 1 2 (lit ''head''), demo_cell 1 0 1 1 [], demo_cell 1 1 1 1 []],
     tb_source = Ruled\<rparr>"

definition demo_grid :: cell_grid where
  "demo_grid = \<lparr>gtable = demo_table, grows = [], owners = [Some 0, Some 0, Some 1, Some 2], assignment = None\<rparr>"

lemma demo_grid_try_from: "grid_try_from demo_table = Inr demo_grid"
  by code_simp

lemma demo_grid_inv: "grid_inv demo_grid"
  by (rule try_from_inv [OF demo_grid_try_from])

section \<open>Tilings\<close>

lemma owns_unique:
  assumes "tiled t" "owns t a" "owns t b"
  shows "a = b"
proof (rule nth_equalityI)
  show "length a = length b" using assms by (simp add: owns_def)
  fix p assume "p < length a"
  with assms(2) have "p < row_count t * column_count t" by (simp add: owns_def)
  then obtain r k where rk: "r < row_count t" "k < column_count t" "p = r * column_count t + k"
    by (rule slot_split)
  have once: "\<exists>!i. i < length (cells t) \<and> covers (cells t ! i) r k"
    using assms(1) rk by (simp add: tiled_def)
  obtain i where "i < length (cells t)" "a ! p = Some i" "covers (cells t ! i) r k"
    using assms(2) rk by (auto simp: owns_def)
  moreover obtain j where "j < length (cells t)" "b ! p = Some j" "covers (cells t ! j) r k"
    using assms(3) rk by (auto simp: owns_def)
  ultimately show "a ! p = b ! p" using once by auto
qed

text \<open>
  C30: A table becomes a grid exactly when it is within the size limits, every cell has a
  positive span inside the table and valid geometry, and the cells tile the rows and
  columns: each slot has one and only one owner. The grid built is then the table with the
  map from slots to those owners, nothing else.
\<close>

theorem grid_accepts_exactly_tilings:
  "grid_try_from t = Inr g \<longleftrightarrow>
     tiled t \<and> owns t (owners g) \<and>
     g = \<lparr>gtable = t, grows = [], owners = owners g, assignment = None\<rparr>"
proof
  assume "grid_try_from t = Inr g"
  from grid_try_from_Inr [OF this]
  show "tiled t \<and> owns t (owners g) \<and> g = \<lparr>gtable = t, grows = [], owners = owners g, assignment = None\<rparr>"
    by (auto intro: cell_grid.equality)
next
  assume a: "tiled t \<and> owns t (owners g) \<and> g = \<lparr>gtable = t, grows = [], owners = owners g, assignment = None\<rparr>"
  then obtain h where h: "grid_try_from t = Inr h" using tiled_grid_try_from by blast
  from grid_try_from_Inr [OF h] a have "owners h = owners g" by (auto intro: owns_unique)
  with grid_try_from_Inr [OF h]
  have "h = \<lparr>gtable = t, grows = [], owners = owners g, assignment = None\<rparr>" by (cases h) simp
  also have "\<dots> = g" using a by simp
  finally have "h = g" .
  with h show "grid_try_from t = Inr g" by simp
qed

text \<open>
  C11: Whatever edits are attempted on a grid, successful or refused, in whatever order, every
  slot of the table keeps exactly one owning cell, the owner map names that cell, and every
  bound source word is assigned to an existing cell.
\<close>

theorem edited_grids_stay_tiled:
  assumes "grid_try_from t = Inr g\<^sub>0" and "grid_step\<^sup>*\<^sup>* g\<^sub>0 g"
    and "r < row_count (gtable g)" and "k < column_count (gtable g)"
  shows "(\<exists>!i. i < length (cells (gtable g)) \<and> covers (cells (gtable g) ! i) r k) \<and>
    (\<exists>i<length (cells (gtable g)). owners g ! (r * column_count (gtable g) + k) = Some i \<and>
       covers (cells (gtable g) ! i) r k) \<and>
    (case assignment g of None \<Rightarrow> True | Some a \<Rightarrow> \<forall>c\<in>set a. c < length (cells (gtable g)))"
proof -
  have "grid_inv g" by (rule grids.reachable_inv [OF _ assms(2)]) (use assms(1) in blast)
  with assms(3,4) show ?thesis by (simp add: grid_inv_def tiled_def owns_def)
qed

definition demo_merged :: cell_grid where
  "demo_merged = snd (try_merge (demo_cell 1 0 1 2 []) demo_grid)"

theorem edited_grids_stay_tiled_witness:
  "\<exists>!i. i < length (cells (gtable demo_merged)) \<and> covers (cells (gtable demo_merged) ! i) 1 1"
proof -
  have "grid_step\<^sup>*\<^sup>* demo_grid demo_merged"
    unfolding demo_merged_def by (rule r_into_rtranclp [where r = grid_step]) (rule merge_step)
  moreover have "row_count (gtable demo_merged) = 2 \<and> column_count (gtable demo_merged) = 2" by code_simp
  ultimately show ?thesis using edited_grids_stay_tiled [OF demo_grid_try_from, of demo_merged 1 1] by simp
qed

section \<open>Edits\<close>

lemma enumerate_cells: "(i, c) \<in> set (List.enumerate 0 xs) \<longleftrightarrow> i < length xs \<and> c = xs ! i"
  by (auto simp: in_set_enumerate_eq)

lemma edit_region_cells:
  assumes inv: "grid_inv g" and edit: "edit_region r0 r1 c0 c1 cs g = Inr g'"
  shows "cells (gtable g') = filter (\<lambda>c. \<not> meets r0 r1 c0 c1 c) (cells (gtable g)) @ cs \<and>
    row_count (gtable g') = row_count (gtable g) \<and> column_count (gtable g') = column_count (gtable g) \<and>
    grows g' = grows g \<and> assignment g = None \<and> assignment g' = None \<and>
    (\<forall>c\<in>set (cells (gtable g)). meets r0 r1 c0 c1 c \<longrightarrow> blank c \<and>
       r0 \<le> row c \<and> row c + row_span c \<le> r1 \<and> c0 \<le> column c \<and> column c + column_span c \<le> c1)"
proof -
  let ?t = "gtable g" and ?cs = "cells (gtable g)" and ?cc = "column_count (gtable g)"
  from edit obtain sel kept n where
      range: "r0 < r1" "c0 < c1" "r1 \<le> row_count ?t" "c1 \<le> ?cc" and free: "assignment g = None"
      and sel: "rfold (select_owner g) (region_slots ?cc r0 r1 c0 c1) (replicate (length ?cs) False) = Inr sel"
      and kept: "rfold (keep_outside r0 r1 c0 c1 sel) (List.enumerate 0 ?cs) [] = Inr kept"
      and n: "grid_try_from (?t\<lparr>cells := kept @ cs\<rparr>) = Inr n" and g': "g' = n\<lparr>grows := grows g\<rparr>"
    by (auto simp: edit_region_def Let_def result_simps not_le split: if_splits)
  have sel_iff: "sel ! i \<longleftrightarrow> meets r0 r1 c0 c1 (?cs ! i)" if i: "i < length ?cs" for i
  proof -
    have ok: "cell_ok ?t (?cs ! i)" using inv i by (simp add: grid_inv_def tiled_def)
    have len: "length (owners g) = row_count ?t * ?cc" using inv by (simp add: grid_inv_def owns_def)
    have "sel ! i \<longleftrightarrow> (\<exists>p\<in>set (region_slots ?cc r0 r1 c0 c1). p < length (owners g) \<and> owners g ! p = Some i)"
      using select_fold [OF sel] i by simp
    also have "\<dots> \<longleftrightarrow> (\<exists>r k. r0 \<le> r \<and> r < r1 \<and> c0 \<le> k \<and> k < c1 \<and> covers (?cs ! i) r k)"
    proof
      assume "\<exists>p\<in>set (region_slots ?cc r0 r1 c0 c1). p < length (owners g) \<and> owners g ! p = Some i"
      then obtain r k where rk: "r0 \<le> r" "r < r1" "c0 \<le> k" "k < c1" "owners g ! (r * ?cc + k) = Some i"
        by (auto simp: region_slots_mem)
      with range have "covers (?cs ! i) r k" by (subst owner_covers [OF inv, symmetric]) (auto simp: i)
      with rk show "\<exists>r k. r0 \<le> r \<and> r < r1 \<and> c0 \<le> k \<and> k < c1 \<and> covers (?cs ! i) r k" by blast
    next
      assume "\<exists>r k. r0 \<le> r \<and> r < r1 \<and> c0 \<le> k \<and> k < c1 \<and> covers (?cs ! i) r k"
      then obtain r k where rk: "r0 \<le> r" "r < r1" "c0 \<le> k" "k < c1" "covers (?cs ! i) r k" by blast
      with range have bounds: "r < row_count ?t" "k < ?cc" by auto
      with rk have "owners g ! (r * ?cc + k) = Some i" by (simp add: owner_covers [OF inv] i)
      moreover have "r * ?cc + k \<in> set (region_slots ?cc r0 r1 c0 c1)" using rk by (auto simp: region_slots_mem)
      moreover have "r * ?cc + k < length (owners g)"
        using slot_bound [OF ok, of "r * ?cc + k"] rk(5) len by (auto simp: mem_slots)
      ultimately show "\<exists>p\<in>set (region_slots ?cc r0 r1 c0 c1). p < length (owners g) \<and> owners g ! p = Some i" by blast
    qed
    also have "\<dots> \<longleftrightarrow> meets r0 r1 c0 c1 (?cs ! i)"
      using meets_covers [of "?cs ! i" r0 r1 c0 c1] ok range by (simp add: cell_ok_def)
    finally show ?thesis .
  qed
  have "kept = map snd (filter (\<lambda>(i, c). \<not> sel ! i) (List.enumerate 0 ?cs))"
    using keep_fold [OF kept] by simp
  also have "filter (\<lambda>(i, c). \<not> sel ! i) (List.enumerate 0 ?cs) =
      filter (\<lambda>(i, c). \<not> meets r0 r1 c0 c1 (?cs ! (i - 0))) (List.enumerate 0 ?cs)"
    by (rule filter_cong) (auto simp: enumerate_cells sel_iff)
  also have "map snd \<dots> = filter (\<lambda>c. \<not> meets r0 r1 c0 c1 c) ?cs"
    by (rule filter_enumerate_nth)
  finally have kept_eq: "kept = filter (\<lambda>c. \<not> meets r0 r1 c0 c1 c) ?cs" .
  have inside: "blank c \<and> r0 \<le> row c \<and> row c + row_span c \<le> r1 \<and> c0 \<le> column c \<and> column c + column_span c \<le> c1"
    if "c \<in> set ?cs" "meets r0 r1 c0 c1 c" for c
  proof -
    from that(1) obtain i where i: "i < length ?cs" "c = ?cs ! i" by (auto simp: in_set_conv_nth)
    with that(2) sel_iff have "sel ! i" by blast
    moreover have "(i, c) \<in> set (List.enumerate 0 ?cs)" using i by (simp add: enumerate_cells)
    ultimately show ?thesis using bspec [OF conjunct2 [OF keep_fold [OF kept]]] by fastforce
  qed
  from grid_try_from_Inr [OF n] have "gtable n = ?t\<lparr>cells := kept @ cs\<rparr>" "assignment n = None" by auto
  with kept_eq inside free show ?thesis by (simp add: g')
qed

text \<open>
  C28: A region edit is exact. If it succeeds, the cells that touched the rectangle were all
  inside it and empty, they are replaced by the given cells, and every other cell, the
  table's size and the row evidence are untouched. If it is refused, nothing changes.
\<close>

theorem region_edit_is_exact:
  assumes "grid_inv g"
  shows "case replace_region r0 r1 c0 c1 cs g of
      (Inl _, g') \<Rightarrow> g' = g
    | (Inr _, g') \<Rightarrow>
        cells (gtable g') = filter (\<lambda>c. \<not> meets r0 r1 c0 c1 c) (cells (gtable g)) @ cs \<and>
        row_count (gtable g') = row_count (gtable g) \<and> column_count (gtable g') = column_count (gtable g) \<and>
        grows g' = grows g \<and> grid_inv g' \<and>
        (\<forall>c\<in>set (cells (gtable g)). meets r0 r1 c0 c1 c \<longrightarrow> blank c \<and>
           r0 \<le> row c \<and> row c + row_span c \<le> r1 \<and> c0 \<le> column c \<and> column c + column_span c \<le> c1)"
proof (cases rule: commit_cases [of "edit_region r0 r1 c0 c1 cs" g])
  case (1 g')
  from edit_region_cells [OF assms 1(2)] edit_region_inv [OF 1(2) assms] show ?thesis
    by (simp add: replace_region_def 1(1))
next
  case (2 e)
  then show ?thesis by (simp add: replace_region_def)
qed

theorem region_edit_is_exact_witness:
  "cells (gtable demo_merged) = [demo_cell 0 0 1 2 (lit ''head''), demo_cell 1 0 1 2 []]"
proof -
  have res: "fst (replace_region 1 2 0 2 [demo_cell 1 0 1 2 []] demo_grid) = Inr ()" by code_simp
  have "demo_merged = snd (replace_region 1 2 0 2 [demo_cell 1 0 1 2 []] demo_grid)" by code_simp
  with res have "replace_region 1 2 0 2 [demo_cell 1 0 1 2 []] demo_grid = (Inr (), demo_merged)"
    by (metis prod.collapse)
  with region_edit_is_exact [OF demo_grid_inv, of 1 2 0 2 "[demo_cell 1 0 1 2 []]"]
  have "cells (gtable demo_merged) =
      filter (\<lambda>c. \<not> meets 1 2 0 2 c) (cells (gtable demo_grid)) @ [demo_cell 1 0 1 2 []]" by simp
  also have "\<dots> = [demo_cell 0 0 1 2 (lit ''head''), demo_cell 1 0 1 2 []]" by code_simp
  finally show ?thesis .
qed

definition meets_rows :: "nat \<Rightarrow> nat \<Rightarrow> table_cell \<Rightarrow> bool" where
  "meets_rows r0 r1 c \<longleftrightarrow> row c < r1 \<and> r0 < row c + row_span c"

definition shift_cell :: "nat \<Rightarrow> nat \<Rightarrow> nat \<Rightarrow> table_cell \<Rightarrow> table_cell" where
  "shift_cell r0 r1 count c = (if r1 \<le> row c then c\<lparr>row := row c - (r1 - r0) + count\<rparr> else c)"

lemma keep_row_fold:
  assumes "rfold (keep_row r0 r1 count) cs kept = Inr kept'"
  shows "kept' = kept @ map (shift_cell r0 r1 count) (filter (\<lambda>c. \<not> meets_rows r0 r1 c) cs) \<and>
    (\<forall>c\<in>set cs. meets_rows r0 r1 c \<longrightarrow> blank c \<and> r0 \<le> row c \<and> row c + row_span c \<le> r1)"
  using assms
proof (induction cs arbitrary: kept)
  case (Cons c cs)
  from Cons.prems obtain mid where mid: "keep_row r0 r1 count c kept = Inr mid"
      and rest: "rfold (keep_row r0 r1 count) cs mid = Inr kept'"
    by (auto simp: rbind_eq_Inr)
  have "mid = (if meets_rows r0 r1 c then kept else kept @ [shift_cell r0 r1 count c])"
    "meets_rows r0 r1 c \<Longrightarrow> blank c \<and> r0 \<le> row c \<and> row c + row_span c \<le> r1"
    using mid by (auto simp: keep_row_def Let_def meets_rows_def shift_cell_def blank_def split: if_splits)
  with Cons.IH [OF rest] show ?case by auto
qed simp

lemma edit_rows_cells:
  assumes "edit_rows r0 r1 rs cs g = Inr g'"
  shows "cells (gtable g') = map (shift_cell r0 r1 (length rs)) (filter (\<lambda>c. \<not> meets_rows r0 r1 c) (cells (gtable g))) @ cs \<and>
    row_count (gtable g') = row_count (gtable g) - (r1 - r0) + length rs \<and>
    column_count (gtable g') = column_count (gtable g) \<and>
    grows g' = take r0 (grows g) @ rs @ drop r1 (grows g) \<and> assignment g = None \<and>
    (\<forall>c\<in>set (cells (gtable g)). meets_rows r0 r1 c \<longrightarrow> blank c \<and> r0 \<le> row c \<and> row c + row_span c \<le> r1)"
proof -
  from assms obtain kept n where free: "assignment g = None"
      and kept: "rfold (keep_row r0 r1 (length rs)) (cells (gtable g)) [] = Inr kept"
      and n: "grid_try_from ((gtable g)\<lparr>row_count := row_count (gtable g) - (r1 - r0) + length rs, cells := kept @ cs\<rparr>) = Inr n"
      and g': "with_rows (take r0 (grows g) @ rs @ drop r1 (grows g)) n = Inr g'"
    by (auto simp: edit_rows_def Let_def rbind_eq_Inr split: if_splits)
  from g' have "gtable g' = gtable n" "grows g' = take r0 (grows g) @ rs @ drop r1 (grows g)"
    by (auto simp: with_rows_def split: if_splits)
  with grid_try_from_Inr [OF n] keep_row_fold [OF kept] free show ?thesis by simp
qed

text \<open>
  A row-band edit is exact and transactional: on success the band's cells, which were empty
  and inside the band, are replaced, later cells move down or up by the difference in rows,
  earlier cells stay, the row evidence is spliced the same way and the grid stays a tiling; a
  refused edit changes nothing.
\<close>

lemma row_edit_is_exact:
  "case replace_rows r0 r1 rs cs g of
      (Inl _, g') \<Rightarrow> g' = g
    | (Inr _, g') \<Rightarrow>
        cells (gtable g') = map (shift_cell r0 r1 (length rs))
          (filter (\<lambda>c. \<not> meets_rows r0 r1 c) (cells (gtable g))) @ cs \<and>
        row_count (gtable g') = row_count (gtable g) - (r1 - r0) + length rs \<and>
        column_count (gtable g') = column_count (gtable g) \<and>
        grows g' = take r0 (grows g) @ rs @ drop r1 (grows g) \<and> grid_inv g' \<and>
        (\<forall>c\<in>set (cells (gtable g)). meets_rows r0 r1 c \<longrightarrow>
           blank c \<and> r0 \<le> row c \<and> row c + row_span c \<le> r1)"
proof (cases rule: commit_cases [of "edit_rows r0 r1 rs cs" g])
  case (1 g')
  from edit_rows_cells [OF 1(2)] edit_rows_inv [OF 1(2)] show ?thesis
    by (simp add: replace_rows_def 1(1))
next
  case (2 e)
  then show ?thesis by (simp add: replace_rows_def)
qed

definition demo_band :: "nat \<Rightarrow> grid_row" where
  "demo_band n = \<lparr>gr_top = Fin (of_nat n), gr_bottom = Fin (of_nat n + 1), physical = [n], words = []\<rparr>"

definition demo_rowed :: cell_grid where
  "demo_rowed = demo_grid\<lparr>grows := [demo_band 0, demo_band 1]\<rparr>"

lemma row_edit_is_exact_example:
  "cells (gtable (snd (replace_rows 1 2 [demo_band 1, demo_band 2]
      [demo_cell 1 0 2 1 [], demo_cell 1 1 1 1 [], demo_cell 2 1 1 1 []] demo_rowed))) =
    [demo_cell 0 0 1 2 (lit ''head''), demo_cell 1 0 2 1 [], demo_cell 1 1 1 1 [], demo_cell 2 1 1 1 []]"
proof -
  let ?e = "replace_rows 1 2 [demo_band 1, demo_band 2]
      [demo_cell 1 0 2 1 [], demo_cell 1 1 1 1 [], demo_cell 2 1 1 1 []] demo_rowed"
  have "fst ?e = Inr ()" by code_simp
  then obtain g' where g': "?e = (Inr (), g')" by (metis prod.collapse)
  have "map (shift_cell 1 2 2) (filter (\<lambda>c. \<not> meets_rows 1 2 c) (cells (gtable demo_rowed))) =
      [demo_cell 0 0 1 2 (lit ''head'')]" by code_simp
  with row_edit_is_exact [where ?r0.0 = 1 and ?r1.0 = 2 and rs = "[demo_band 1, demo_band 2]" and g = demo_rowed
      and cs = "[demo_cell 1 0 2 1 [], demo_cell 1 1 1 1 [], demo_cell 2 1 1 1 []]"] g'
  show ?thesis by (simp add: numeral_2_eq_2)
qed

section \<open>Freezing\<close>

lemma frozen_step: "grid_step g g' \<Longrightarrow> assignment g \<noteq> None \<Longrightarrow> g' = g"
  by (induction rule: grid_step.induct)
    (auto simp: with_rows_def replace_region_def replace_rows_def try_merge_def set_header_def bind_words_def
      commit_def edit_region_def edit_rows_def Let_def split: if_splits option.splits)

text \<open>
  Binding freezes. After source words are bound, no edit of any kind changes the grid any
  more, and taking it apart yields exactly the table and the assignment of the binding.
\<close>

lemma binding_freezes_the_grid:
  assumes "bind_words asg n g = Inr h" and "grid_step\<^sup>*\<^sup>* h h'"
  shows "h' = h \<and> into_parts h' = Inr (gtable g, asg) \<and> length asg = n \<and>
    (\<forall>c\<in>set asg. c < length (cells (gtable g)))"
proof -
  from assms(1) have h: "h = g\<lparr>assignment := Some asg\<rparr>" "length asg = n"
    "\<forall>c\<in>set asg. c < length (cells (gtable g))"
    by (auto simp: bind_words_def not_le split: if_splits)
  have "h' = h" using assms(2)
    by (induction rule: rtranclp_induct) (use h(1) in \<open>auto dest: frozen_step\<close>)
  with h show ?thesis by (simp add: into_parts_def)
qed

lemma binding_freezes_the_grid_example:
  "snd (set_header 0 (demo_grid\<lparr>assignment := Some [0, 2]\<rparr>)) = demo_grid\<lparr>assignment := Some [0, 2]\<rparr>"
proof -
  have "bind_words [0, 2] 2 demo_grid = Inr (demo_grid\<lparr>assignment := Some [0, 2]\<rparr>)" by code_simp
  moreover have "grid_step\<^sup>*\<^sup>* (demo_grid\<lparr>assignment := Some [0, 2]\<rparr>)
      (snd (set_header 0 (demo_grid\<lparr>assignment := Some [0, 2]\<rparr>)))"
    by (rule r_into_rtranclp [where r = grid_step]) (rule header_step)
  ultimately show ?thesis using binding_freezes_the_grid by blast
qed

section \<open>Content is kept\<close>

definition same_content :: "table_cell \<Rightarrow> table_cell \<Rightarrow> bool" where
  "same_content c d \<longleftrightarrow>
     tc_text d = tc_text c \<and> tc_lines d = tc_lines c \<and> tc_markdown d = tc_markdown c \<and>
     tc_bbox d = tc_bbox c \<and> column d = column c \<and> row_span d = row_span c \<and> column_span d = column_span c"

lemma same_content_refl [simp]: "same_content c c"
  by (simp add: same_content_def)

lemma region_keeps_content:
  assumes "grid_inv g" "c \<in> set (cells (gtable g))" "\<not> blank c"
  shows "c \<in> set (cells (gtable (snd (replace_region r0 r1 c0 c1 cs g))))"
proof (cases rule: commit_cases [of "edit_region r0 r1 c0 c1 cs" g])
  case (1 g')
  from edit_region_cells [OF assms(1) 1(2)] assms(2,3) show ?thesis
    by (auto simp: replace_region_def 1(1))
next
  case (2 e)
  with assms(2) show ?thesis by (simp add: replace_region_def)
qed

lemma step_keeps_content:
  assumes "grid_step g g'" "grid_inv g" "c \<in> set (cells (gtable g))" "\<not> blank c"
  shows "\<exists>d\<in>set (cells (gtable g')). same_content c d"
  using assms
proof (induction rule: grid_step.induct)
  case (rows_step rs g g')
  then have "gtable g' = gtable g" by (auto simp: with_rows_def split: if_splits)
  with rows_step show ?case by (auto intro: bexI [of _ c])
next
  case (region_step g r0 r1 c0 c1 cs)
  from region_keeps_content [OF this] show ?case by (auto intro: bexI [of _ c])
next
  case (band_step g r0 r1 rs cs)
  show ?case
  proof (cases rule: commit_cases [of "edit_rows r0 r1 rs cs" g])
    case (1 g')
    from edit_rows_cells [OF 1(2)] band_step
    have "shift_cell r0 r1 (length rs) c \<in> set (cells (gtable g'))" by auto
    then show ?thesis
      by (intro bexI [of _ "shift_cell r0 r1 (length rs) c"])
        (auto simp: replace_rows_def 1(1) same_content_def shift_cell_def)
  next
    case (2 e)
    with band_step show ?thesis by (auto simp: replace_rows_def intro: bexI [of _ c])
  qed
next
  case (merge_step g d)
  then have "c \<in> set (cells (gtable (snd (try_merge d g))))"
    by (auto simp: try_merge_def intro: region_keeps_content split: option.split)
  then show ?case by (auto intro: bexI [of _ c])
next
  case (header_step g r)
  let ?d = "if row c = r then c\<lparr>is_header := True\<rparr> else c"
  show ?case
  proof (cases "assignment g \<noteq> None \<or> row_count (gtable g) \<le> r")
    case True
    with header_step show ?thesis by (auto simp: set_header_def intro: bexI [of _ c])
  next
    case False
    have "?d \<in> (\<lambda>c. if row c = r then c\<lparr>is_header := True\<rparr> else c) ` set (cells (gtable g))"
      using header_step by (rule_tac imageI) simp
    with False show ?thesis by (intro bexI [of _ ?d]) (auto simp: set_header_def same_content_def)
  qed
next
  case (bind_step asg n g g')
  then have "gtable g' = gtable g" by (auto simp: bind_words_def split: if_splits)
  with bind_step show ?case by (auto intro: bexI [of _ c])
qed

text \<open>
  C29: Text is never lost to editing. Along any sequence of edits, every cell that holds text or
  source lines survives with its text, source lines, geometry, column and spans; only its row
  number and header mark can change.
\<close>

theorem populated_cells_survive_edits:
  assumes "grid_try_from t = Inr g\<^sub>0" and "grid_step\<^sup>*\<^sup>* g\<^sub>0 g"
    and "c \<in> set (cells t)" and "\<not> blank c"
  shows "\<exists>d\<in>set (cells (gtable g)). same_content c d"
proof (rule grids.stable [OF assms(2) try_from_inv [OF assms(1)]])
  from grid_try_from_Inr [OF assms(1)] assms(3) show "\<exists>d\<in>set (cells (gtable g\<^sub>0)). same_content c d"
    by (auto intro: bexI [of _ c])
next
  fix s s' assume "grid_inv s" "grid_step s s'" "\<exists>d\<in>set (cells (gtable s)). same_content c d"
  then obtain d :: table_cell where d: "d \<in> set (cells (gtable s))" "same_content c d" by blast
  with assms(4) have "\<not> blank d" by (simp add: same_content_def blank_def)
  from step_keeps_content [OF \<open>grid_step s s'\<close> \<open>grid_inv s\<close> d(1) this] d(2)
  show "\<exists>d\<in>set (cells (gtable s')). same_content c d" by (auto simp: same_content_def)
qed

theorem populated_cells_survive_edits_witness:
  "\<exists>d\<in>set (cells (gtable demo_merged)). same_content (demo_cell 0 0 1 2 (lit ''head'')) d"
proof -
  have "grid_step\<^sup>*\<^sup>* demo_grid demo_merged"
    unfolding demo_merged_def by (rule r_into_rtranclp [where r = grid_step]) (rule merge_step)
  moreover have "\<not> blank (demo_cell 0 0 1 2 (lit ''head''))" by code_simp
  ultimately show ?thesis
    using populated_cells_survive_edits [OF demo_grid_try_from] by (simp add: demo_table_def)
qed

end
