(* ===== verification/BTree_Map.thy ===== *)
theory BTree_Map
  imports Rust_Text
begin

text \<open>
  Rust's \<open>BTreeMap\<close> as the list of its entries in key order, behind the contract that its
  clients use: what a lookup returns after an insertion, and that the keys come in strictly
  increasing order.
\<close>

section \<open>The contract\<close>

locale ordered_map =
  fixes empty_map :: "'m" and insert_map :: "'k :: linorder \<Rightarrow> 'v \<Rightarrow> 'm \<Rightarrow> 'm"
    and lookup_map :: "'m \<Rightarrow> 'k \<Rightarrow> 'v option" and keys_map :: "'m \<Rightarrow> 'k list" and well :: "'m \<Rightarrow> bool"
  assumes well_empty: "well empty_map"
    and well_insert: "well m \<Longrightarrow> well (insert_map k v m)"
    and lookup_empty: "lookup_map empty_map k = None"
    and lookup_insert: "well m \<Longrightarrow> lookup_map (insert_map k v m) k' = (if k' = k then Some v else lookup_map m k')"
    and keys_sorted: "well m \<Longrightarrow> sorted (keys_map m) \<and> distinct (keys_map m)"
    and keys_lookup: "well m \<Longrightarrow> k \<in> set (keys_map m) \<longleftrightarrow> lookup_map m k \<noteq> None"
begin

definition collect :: "('k \<times> 'v) list \<Rightarrow> 'm" where
  "collect kvs = fold (\<lambda>(k, v). insert_map k v) kvs empty_map"

lemma collect_fold:
  "well m \<Longrightarrow> well (fold (\<lambda>(k, v). insert_map k v) kvs m) \<and>
    lookup_map (fold (\<lambda>(k, v). insert_map k v) kvs m) k =
      (case map_of (rev kvs) k of None \<Rightarrow> lookup_map m k | Some v \<Rightarrow> Some v)"
proof (induction kvs arbitrary: m)
  case (Cons kv kvs)
  obtain k' v where kv: "kv = (k', v)" by (cases kv)
  have "well (insert_map k' v m)" by (rule well_insert [OF Cons.prems])
  from Cons.IH [OF this] show ?case
    by (auto simp: kv lookup_insert Cons.prems map_add_def split: option.split)
qed simp

lemma well_collect: "well (collect kvs)"
  using collect_fold [OF well_empty] by (simp add: collect_def)

lemma lookup_collect: "lookup_map (collect kvs) k = map_of (rev kvs) k"
  using collect_fold [OF well_empty, of kvs k] by (simp add: collect_def lookup_empty split: option.split)

lemma keys_collect: "set (keys_map (collect kvs)) = fst ` set kvs"
  using keys_lookup [OF well_collect] lookup_collect
  by (auto simp: map_of_eq_None_iff)

lemma collect_keys: "keys_map (collect kvs) = sorted_list_of_set (fst ` set kvs)"
  using keys_sorted [OF well_collect] keys_collect [of kvs]
  by (intro sorted_distinct_set_unique) auto

end

section \<open>The map\<close>

fun bt_insert :: "'k :: linorder \<Rightarrow> 'v \<Rightarrow> ('k \<times> 'v) list \<Rightarrow> ('k \<times> 'v) list" where
  "bt_insert k v [] = [(k, v)]"
| "bt_insert k v ((k', v') # m) =
     (if k < k' then (k, v) # (k', v') # m else if k = k' then (k, v) # m else (k', v') # bt_insert k v m)"

definition bt_collect :: "('k :: linorder \<times> 'v) list \<Rightarrow> ('k \<times> 'v) list" where
  "bt_collect kvs = fold (\<lambda>(k, v). bt_insert k v) kvs []"

definition bt_ok :: "('k :: linorder \<times> 'v) list \<Rightarrow> bool" where
  "bt_ok m \<longleftrightarrow> sorted (map fst m) \<and> distinct (map fst m)"

lemma bt_insert_keys: "set (map fst (bt_insert k v m)) = insert k (set (map fst m))"
  by (induction k v m rule: bt_insert.induct) auto

lemma bt_insert_ok: "bt_ok m \<Longrightarrow> bt_ok (bt_insert k v m)"
proof (induction k v m rule: bt_insert.induct)
  case (2 k v k' v' m)
  then have "bt_ok m" by (simp add: bt_ok_def)
  with 2 bt_insert_keys [of k v m] show ?case by (fastforce simp: bt_ok_def)
qed (simp add: bt_ok_def)

lemma bt_insert_lookup:
  "bt_ok m \<Longrightarrow> map_of (bt_insert k v m) k' = (if k' = k then Some v else map_of m k')"
  by (induction k v m rule: bt_insert.induct) (auto simp: bt_ok_def)

interpretation bt: ordered_map "[]" bt_insert map_of "map fst" bt_ok
proof (unfold_locales, goal_cases)
  case (2 m k v)
  then show ?case by (rule bt_insert_ok)
next
  case (4 m k v k')
  then show ?case by (rule bt_insert_lookup)
next
  case (6 m k)
  show ?case by (auto simp: map_of_eq_None_iff)
qed (simp_all add: bt_ok_def)

lemma bt_collect_eq: "bt_collect kvs = bt.collect kvs"
  by (simp add: bt_collect_def bt.collect_def)

lemma bt_collect_ok: "bt_ok (bt_collect kvs)"
  unfolding bt_collect_eq by (rule bt.well_collect)

lemma bt_collect_lookup: "map_of (bt_collect kvs) = map_of (rev kvs)"
  unfolding bt_collect_eq by (rule ext) (rule bt.lookup_collect)

lemma bt_collect_keys: "map fst (bt_collect kvs) = sorted_list_of_set (fst ` set kvs)"
  unfolding bt_collect_eq by (rule bt.collect_keys)

lemma bt_collect_mem: "(k, v) \<in> set (bt_collect kvs) \<Longrightarrow> map_of (bt_collect kvs) k = Some v"
  using bt_collect_ok [of kvs] by (simp add: bt_ok_def)

lemma bt_collect_values: "set (map snd (bt_collect kvs)) \<subseteq> set (map snd kvs)"
proof
  fix v assume "v \<in> set (map snd (bt_collect kvs))"
  then obtain k where "(k, v) \<in> set (bt_collect kvs)" by auto
  then have "map_of (bt_collect kvs) k = Some v" using bt_collect_ok [of kvs] by (simp add: bt_ok_def)
  then have "map_of (rev kvs) k = Some v" by (simp add: bt_collect_lookup)
  then show "v \<in> set (map snd kvs)" by (force dest: map_of_SomeD)
qed

end
