(* ===== verification/Table_Check.thy ===== *)
theory Table_Check
  imports BTree_Map Grid_Tiling
begin

text \<open>
  The final check of a recovered table: \<open>Table::validate\<close> in
  \<open>crates/core/src/table/validate.rs\<close>, with the cell-line projection
  \<open>TableCellLine::derive_text\<close> of \<open>crates/core/src/table/assemble.rs\<close> and the plain-text view
  \<open>Table::to_text\<close> of \<open>crates/core/src/table/render.rs\<close>. The coverage map of the code is the
  list of its insertions, in order: the ranges of one source are its sub-list.
\<close>

fun join :: "rstr \<Rightarrow> rstr list \<Rightarrow> rstr" where
  "join sep [] = []"
| "join sep [s] = s"
| "join sep (s # t # ts) = s @ sep @ join sep (t # ts)"

definition all_whitespace :: "rstr \<Rightarrow> bool" where
  "all_whitespace s \<longleftrightarrow> (\<forall>c\<in>set s. is_whitespace c)"

section \<open>Text projections\<close>

text \<open>\<open>derive_text\<close>: the loop over the spans, with the text so far and the previous span.\<close>

fun derive_spans ::
  "(rstr \<Rightarrow> text_item option) \<Rightarrow> table_text_span option \<Rightarrow> table_text_span list \<Rightarrow> rstr option" where
  "derive_spans sources prev [] = Some []"
| "derive_spans sources prev (sp # sps) =
     (case sources (text_item_id sp) of None \<Rightarrow> None
      | Some item \<Rightarrow>
         (case get_range (raw_text item) (byte_start sp) (byte_end sp) of None \<Rightarrow> None
          | Some raw \<Rightarrow>
             (case (case prev of None \<Rightarrow> Some []
                    | Some p \<Rightarrow>
                        if text_item_id p = text_item_id sp \<and> byte_end p < byte_start sp
                        then map_option (\<lambda>gap. if all_whitespace gap then gap else [])
                               (get_range (raw_text item) (byte_end p) (byte_start sp))
                        else Some []) of None \<Rightarrow> None
              | Some gap \<Rightarrow> map_option (\<lambda>t. gap @ raw @ t) (derive_spans sources (Some sp) sps))))"

definition derive_cell_line :: "(rstr \<Rightarrow> text_item option) \<Rightarrow> table_cell_line \<Rightarrow> rstr option" where
  "derive_cell_line sources l = map_option trim (derive_spans sources None (spans l))"

definition to_text :: "table \<Rightarrow> rstr" where
  "to_text t =
     (if max_table_rows < row_count t \<or> max_table_columns < column_count t \<or>
         max_table_cells < row_count t * column_count t then []
      else let put = (\<lambda>c rows. if row c < row_count t \<and> column c < column_count t
                 then rows[row c := (rows ! row c)[column c := join [32] (map cl_text (tc_lines c))]] else rows)
           in join [10] (map (join [9])
                (fold put (cells t) (replicate (row_count t) (replicate (column_count t) [])))))"

section \<open>Validation\<close>

definition one :: f64 where
  "one = Fin 1"

definition validate_bounds :: "bbox \<Rightarrow> bbox \<Rightarrow> string + unit" where
  "validate_bounds b parent =
     (if \<not> (is_finite (left b) \<and> is_finite (top_of b) \<and> is_finite (right b) \<and> is_finite (bottom b)) \<or>
         fle (width b) (Fin 0) \<or> fle (height b) (Fin 0) \<or>
         flt (left b) (fsub (left parent) one) \<or> flt (top_of b) (fsub (top_of parent) one) \<or>
         flt (fadd (right parent) one) (right b) \<or> flt (fadd (bottom parent) one) (bottom b)
      then Inl ''table geometry is invalid or outside its source bounds'' else Inr ())"

definition epsilon :: f64 where
  "epsilon = Fin (1 / 4503599627370496)"

text \<open>\<open>0.8 - 1e-9\<close>.\<close>

definition owned_share :: f64 where
  "owned_share = fsub (rnd (8 / 10)) (rnd (1 / 1000000000))"

definition block_sources :: "block \<Rightarrow> (rstr \<times> text_item) list" where
  "block_sources b = bt_collect (map (\<lambda>i. (it_id i, i)) (concat (map text_items (lines_of b))))"

type_synonym coverage = "(rstr \<times> nat \<times> nat) list"

definition check_span ::
  "(rstr \<Rightarrow> text_item option) \<Rightarrow> table_cell \<Rightarrow> table_cell_line \<Rightarrow> table_text_span \<Rightarrow> coverage \<Rightarrow> string + coverage" where
  "check_span sources c l sp cov =
     rbind (ok_or ''cell references text outside its parent block'' (sources (text_item_id sp))) (\<lambda>item.
     if byte_end sp \<le> byte_start sp \<or> get_range (raw_text item) (byte_start sp) (byte_end sp) = None
     then Inl ''cell reference is not a valid non-empty UTF-8 byte range''
     else rbind (ok_or ''a populated cell needs measured bounds'' (tc_bbox c)) (\<lambda>cb.
       if flt (fdiv (intersection_area (ts_bbox sp) cb) (fmax (area (ts_bbox sp)) epsilon)) owned_share
       then Inl ''cell geometry does not own its source text''
       else rbind (validate_bounds (ts_bbox sp) (it_bbox item)) (\<lambda>_.
            rbind (validate_bounds (ts_bbox sp) (cl_bbox l)) (\<lambda>_.
            Inr (cov @ [(text_item_id sp, byte_start sp, byte_end sp)])))))"

definition check_cell_line ::
  "(rstr \<Rightarrow> text_item option) \<Rightarrow> block \<Rightarrow> table_cell \<Rightarrow> table_cell_line \<Rightarrow> coverage \<Rightarrow> string + coverage" where
  "check_cell_line sources b c l cov =
     rbind (validate_bounds (cl_bbox l) (bk_bbox b)) (\<lambda>_.
     if spans l = [] then Inl ''a cell line needs source references''
     else rbind (rfold (check_span sources c l) (spans l) cov) (\<lambda>cov.
       if derive_cell_line sources l \<noteq> Some (cl_text l)
       then Inl ''cell line text differs from its measured source projection'' else Inr cov))"

definition occupy :: "nat \<Rightarrow> bool list \<Rightarrow> string + bool list" where
  "occupy p occ =
     (case get_at occ p of None \<Rightarrow> Inl ''cell outside grid''
      | Some taken \<Rightarrow> if taken then Inl ''table cells overlap in grid coordinates'' else Inr (occ[p := True]))"

definition check_cell ::
  "(rstr \<Rightarrow> text_item option) \<Rightarrow> block \<Rightarrow> table \<Rightarrow> table_cell \<Rightarrow> bool list \<times> coverage \<Rightarrow> string + (bool list \<times> coverage)" where
  "check_cell sources b t c st =
     (let (occ, cov) = st
      in rbind (ok_or ''table row span overflow'' (checked_add (row c) (row_span c))) (\<lambda>last_row.
         rbind (ok_or ''table column span overflow'' (checked_add (column c) (column_span c))) (\<lambda>last_column.
         if row_span c = 0 \<or> column_span c = 0 \<or> row_count t < last_row \<or> column_count t < last_column
         then Inl ''cell span extends outside the table''
         else rbind (rfold occupy (slots (column_count t) c) occ) (\<lambda>occ.
         rbind (case tc_bbox c of Some bb \<Rightarrow> validate_bounds bb (bk_bbox b)
                | None \<Rightarrow> ensure (tc_lines c = []) ''a populated cell needs measured bounds'') (\<lambda>_.
         rbind (rfold (check_cell_line sources b c) (tc_lines c) cov) (\<lambda>cov.
         if join [10] (map cl_text (tc_lines c)) \<noteq> tc_text c
         then Inl ''cell text differs from its ordered lines'' else Inr (occ, cov)))))))"

text \<open>The scan over one source's sorted ranges: \<open>from\<close> is the end of the previous range.\<close>

fun check_gaps :: "rstr \<Rightarrow> nat \<Rightarrow> (nat \<times> nat) list \<Rightarrow> string + unit" where
  "check_gaps raw from [] =
     (case get_from raw from of
        Some gap \<Rightarrow> ensure (all_whitespace gap) ''table cells omit trailing source characters''
      | None \<Rightarrow> Inl ''table cells omit trailing source characters'')"
| "check_gaps raw from ((s, e) # rs) =
     (if s < from then Inl ''source characters are referenced by multiple cells''
      else case get_range raw from s of
         Some gap \<Rightarrow> if all_whitespace gap then check_gaps raw e rs else Inl ''table cells omit source characters''
       | None \<Rightarrow> Inl ''table cells omit source characters'')"

definition ranges_of :: "rstr \<Rightarrow> coverage \<Rightarrow> (nat \<times> nat) list" where
  "ranges_of i cov = map snd (filter (\<lambda>(j, _). j = i) cov)"

definition table_validate :: "table \<Rightarrow> block \<Rightarrow> string + unit" where
  "table_validate t b =
     (if row_count t = 0 \<or> column_count t = 0 \<or> max_table_rows < row_count t \<or>
         max_table_columns < column_count t \<or> max_table_cells < row_count t * column_count t \<or>
         max_table_cells < length (cells t)
      then Inl ''table dimensions exceed the bounded grid contract''
      else let sources = block_sources b
           in rbind (rfold (check_cell (map_of sources) b t) (cells t)
                       (replicate (row_count t * column_count t) False, [])) (\<lambda>(occ, cov).
              if False \<in> set occ then Inl ''grid positions need either a cell or a spanning owner''
              else reach (\<lambda>(i, item). check_gaps (raw_text item) 0 (sort (ranges_of i cov))) sources))"

section \<open>What acceptance means\<close>

definition table_spans :: "table \<Rightarrow> table_text_span list" where
  "table_spans t = concat (map spans (concat (map tc_lines (cells t))))"

definition span_entry :: "table_text_span \<Rightarrow> rstr \<times> nat \<times> nat" where
  "span_entry sp = (text_item_id sp, byte_start sp, byte_end sp)"

definition non_ws :: "rstr \<Rightarrow> rstr" where
  "non_ws s = filter (\<lambda>c. \<not> is_whitespace c) s"

lemma non_ws_append [simp]: "non_ws (s @ t) = non_ws s @ non_ws t"
  by (simp add: non_ws_def)

lemma all_whitespace_non_ws: "all_whitespace s \<longleftrightarrow> non_ws s = []"
  by (simp add: all_whitespace_def non_ws_def filter_empty_conv)

text \<open>The slices of a source that a list of ranges names.\<close>

definition slices :: "rstr \<Rightarrow> (nat \<times> nat) list \<Rightarrow> rstr option list" where
  "slices raw rs = map (\<lambda>(s, e). get_range raw s e) rs"

lemma get_range_split:
  assumes "str_split raw from = Some (a, r)"
  shows "get_range raw from s = Some gap \<longleftrightarrow> (\<exists>u. r = gap @ u \<and> from + str_len gap = s)"
proof -
  from assms have raw: "raw = a @ r" and len: "str_len a = from" by (simp_all add: str_split_Some)
  show ?thesis
  proof
    assume "get_range raw from s = Some gap"
    then obtain a' b where e: "raw = a' @ gap @ b" "str_len a' = from" "str_len a' + str_len gap = s"
      by (auto simp: get_range_Some)
    have "str_split raw from = Some (a', gap @ b)" using e by (simp add: str_split_Some)
    with assms e show "\<exists>u. r = gap @ u \<and> from + str_len gap = s" by simp
  next
    assume "\<exists>u. r = gap @ u \<and> from + str_len gap = s"
    with raw len show "get_range raw from s = Some gap" by (auto simp: get_range_Some)
  qed
qed

lemma check_gaps_conserves:
  assumes "check_gaps raw from rs = Inr ()" and "str_split raw from = Some (a, r)"
    and "\<forall>(s, e)\<in>set rs. get_range raw s e \<noteq> None"
  shows "\<exists>parts. slices raw rs = map Some parts \<and> non_ws r = concat (map non_ws parts)"
  using assms
proof (induction raw "from" rs arbitrary: a r rule: check_gaps.induct)
  case (1 raw "from")
  from 1(1) obtain gap where "get_from raw from = Some gap" "all_whitespace gap"
    by (auto simp: result_simps split: option.splits)
  with 1(2) have "non_ws r = []" by (simp add: get_from_def all_whitespace_non_ws)
  then show ?case by (intro exI [of _ "[]"]) (simp add: slices_def)
next
  case (2 raw "from" s e rs)
  from 2(2) obtain gap where gap: "get_range raw from s = Some gap" "all_whitespace gap"
      and rest: "check_gaps raw e rs = Inr ()"
    by (auto split: if_splits option.splits)
  from gap(1) get_range_split [OF 2(3)] obtain u where u: "r = gap @ u" "from + str_len gap = s" by auto
  have at_s: "str_split raw s = Some (a @ gap, u)" using 2(3) u by (simp add: str_split_Some)
  from 2(4) obtain part where part: "get_range raw s e = Some part" by auto
  from part get_range_split [OF at_s] obtain v where v: "u = part @ v" "s + str_len part = e" by auto
  have at_e: "str_split raw e = Some (a @ gap @ part, v)" using at_s v by (simp add: str_split_Some)
  have "\<not> s < from" using 2(2) by (auto split: if_splits)
  from 2(1) [OF this gap rest at_e] 2(4) obtain parts where
      "slices raw rs = map Some parts" "non_ws v = concat (map non_ws parts)" by auto
  with u v gap(2) part show ?case
    by (intro exI [of _ "part # parts"]) (simp add: slices_def all_whitespace_non_ws)
qed

lemma check_gaps_ordered:
  assumes "check_gaps raw from rs = Inr ()"
  shows "(\<forall>(s, e)\<in>set (take 1 rs). from \<le> s) \<and> (\<forall>((s, e), (s', e'))\<in>set (windows2 rs). e \<le> s')"
  using assms
proof (induction raw "from" rs rule: check_gaps.induct)
  case (2 raw "from" s e rs)
  then have "from \<le> s" and "check_gaps raw e rs = Inr ()" by (auto split: if_splits option.splits)
  moreover from 2 have "(\<forall>(s, e')\<in>set (take 1 rs). e \<le> s) \<and> (\<forall>((s, e), (s', e'))\<in>set (windows2 rs). e \<le> s')"
    by (auto split: if_splits option.splits)
  ultimately show ?case by (cases rs) (auto split: prod.splits)
qed simp

section \<open>The fold over the cells\<close>

lemma check_span_Inr:
  "check_span sources c l sp cov = Inr cov' \<Longrightarrow>
     cov' = cov @ [span_entry sp] \<and>
     (\<exists>item. sources (text_item_id sp) = Some item \<and> get_range (raw_text item) (byte_start sp) (byte_end sp) \<noteq> None)"
  by (auto simp: check_span_def rbind_eq_Inr span_entry_def split: if_splits)

lemma check_spans_Inr:
  "rfold (check_span sources c l) sps cov = Inr cov' \<Longrightarrow>
     cov' = cov @ map span_entry sps \<and>
     (\<forall>sp\<in>set sps. \<exists>item. sources (text_item_id sp) = Some item \<and>
        get_range (raw_text item) (byte_start sp) (byte_end sp) \<noteq> None)"
proof (induction sps arbitrary: cov)
  case (Cons sp sps)
  then obtain mid where mid: "check_span sources c l sp cov = Inr mid"
      and rest: "rfold (check_span sources c l) sps mid = Inr cov'" by (auto simp: rbind_eq_Inr)
  from Cons.IH [OF rest] check_span_Inr [OF mid] show ?case by simp
qed simp

definition span_ok :: "(rstr \<Rightarrow> text_item option) \<Rightarrow> table_text_span \<Rightarrow> bool" where
  "span_ok sources sp \<longleftrightarrow> (\<exists>item. sources (text_item_id sp) = Some item \<and>
     get_range (raw_text item) (byte_start sp) (byte_end sp) \<noteq> None)"

lemma check_lines_Inr:
  "rfold (check_cell_line sources b c) ls cov = Inr cov' \<Longrightarrow>
     cov' = cov @ map span_entry (concat (map spans ls)) \<and>
     (\<forall>l\<in>set ls. derive_cell_line sources l = Some (cl_text l) \<and> (\<forall>sp\<in>set (spans l). span_ok sources sp))"
proof (induction ls arbitrary: cov)
  case (Cons l ls)
  then obtain mid where mid: "check_cell_line sources b c l cov = Inr mid"
      and rest: "rfold (check_cell_line sources b c) ls mid = Inr cov'" by (auto simp: rbind_eq_Inr)
  have "mid = cov @ map span_entry (spans l) \<and> derive_cell_line sources l = Some (cl_text l) \<and>
      (\<forall>sp\<in>set (spans l). span_ok sources sp)"
    using mid by (auto simp: check_cell_line_def rbind_eq_Inr span_ok_def dest!: check_spans_Inr split: if_splits)
  with Cons.IH [OF rest] show ?case by simp
qed simp

lemma occupy_fold:
  "rfold occupy ps occ = Inr occ' \<Longrightarrow>
     length occ' = length occ \<and> distinct ps \<and> (\<forall>p\<in>set ps. p < length occ \<and> \<not> occ ! p) \<and>
     (\<forall>q<length occ. occ' ! q \<longleftrightarrow> occ ! q \<or> q \<in> set ps)"
proof (induction ps arbitrary: occ)
  case (Cons p ps)
  from Cons.prems obtain mid where mid: "occupy p occ = Inr mid" and fold: "rfold occupy ps mid = Inr occ'"
    by (auto simp: rbind_eq_Inr)
  from mid have p: "p < length occ" "\<not> occ ! p" "mid = occ[p := True]"
    by (auto simp: occupy_def split: option.splits if_splits)
  with fold have rest: "rfold occupy ps (occ[p := True]) = Inr occ'" by simp
  from Cons.IH [OF rest] p show ?case by (auto simp: nth_list_update split: if_splits)
qed simp

definition inside :: "table \<Rightarrow> table_cell \<Rightarrow> bool" where
  "inside t c \<longleftrightarrow> 0 < row_span c \<and> 0 < column_span c \<and>
     row c + row_span c \<le> row_count t \<and> column c + column_span c \<le> column_count t"

definition cell_text_ok :: "(rstr \<Rightarrow> text_item option) \<Rightarrow> table_cell \<Rightarrow> bool" where
  "cell_text_ok sources c \<longleftrightarrow>
     tc_text c = join [10] (map cl_text (tc_lines c)) \<and>
     (\<forall>l\<in>set (tc_lines c). derive_cell_line sources l = Some (cl_text l) \<and> (\<forall>sp\<in>set (spans l). span_ok sources sp))"

lemma check_cell_Inr:
  assumes "check_cell sources b t c (occ, cov) = Inr (occ', cov')"
  shows "inside t c \<and> cell_text_ok sources c \<and> rfold occupy (slots (column_count t) c) occ = Inr occ' \<and>
    cov' = cov @ map span_entry (concat (map spans (tc_lines c)))"
proof -
  from assms obtain u where "inside t c" "rfold occupy (slots (column_count t) c) occ = Inr occ'"
      "rfold (check_cell_line sources b c) (tc_lines c) cov = Inr cov'"
      "join [10] (map cl_text (tc_lines c)) = tc_text c"
    by (auto simp: check_cell_def rbind_eq_Inr inside_def split: if_splits)
  with check_lines_Inr show ?thesis by (fastforce simp: cell_text_ok_def)
qed

lemma check_cells_Inr:
  assumes "rfold (check_cell sources b t) cs (occ, cov) = Inr (occ', cov')"
  shows "(\<forall>c\<in>set cs. inside t c \<and> cell_text_ok sources c) \<and> length occ' = length occ \<and>
    distinct (concat (map (slots (column_count t)) cs)) \<and>
    (\<forall>p\<in>set (concat (map (slots (column_count t)) cs)). p < length occ \<and> \<not> occ ! p) \<and>
    (\<forall>q<length occ. occ' ! q \<longleftrightarrow> occ ! q \<or> q \<in> set (concat (map (slots (column_count t)) cs))) \<and>
    cov' = cov @ map span_entry (concat (map spans (concat (map tc_lines cs))))"
  using assms
proof (induction cs arbitrary: occ cov)
  case (Cons c cs)
  from Cons.prems obtain mo mc where mid: "check_cell sources b t c (occ, cov) = Inr (mo, mc)"
      and rest: "rfold (check_cell sources b t) cs (mo, mc) = Inr (occ', cov')"
    by (auto simp: rbind_eq_Inr)
  from check_cell_Inr [OF mid] have c: "inside t c \<and> cell_text_ok sources c"
      and o: "rfold occupy (slots (column_count t) c) occ = Inr mo"
      and cov: "mc = cov @ map span_entry (concat (map spans (tc_lines c)))" by auto
  let ?A = "set (slots (column_count t) c)" and ?B = "set (concat (map (slots (column_count t)) cs))"
  note A = occupy_fold [OF o] and B = Cons.IH [OF rest]
  have free: "p < length occ \<and> \<not> occ ! p \<and> p \<notin> ?A" if "p \<in> ?B" for p
  proof -
    from B that have "p < length mo" "\<not> mo ! p" by blast+
    with A show ?thesis by simp
  qed
  have "distinct (concat (map (slots (column_count t)) (c # cs)))" using A B free by auto
  moreover have "\<forall>p\<in>set (concat (map (slots (column_count t)) (c # cs))). p < length occ \<and> \<not> occ ! p"
    using A free by auto
  moreover have "\<forall>q<length occ. occ' ! q \<longleftrightarrow> occ ! q \<or> q \<in> set (concat (map (slots (column_count t)) (c # cs)))"
    using A B by auto
  ultimately show ?case using A B c cov by simp
qed simp

end
