(* ===== verification/Table_Properties.thy ===== *)
theory Table_Properties
  imports Table_Check
begin

text \<open>
  What a table that passed validation guarantees: a tiling whose cells say exactly what the
  source says.
\<close>

lemma distinct_concat_nth:
  "distinct (concat xss) \<Longrightarrow> i < length xss \<Longrightarrow> j < length xss \<Longrightarrow>
     x \<in> set (xss ! i) \<Longrightarrow> x \<in> set (xss ! j) \<Longrightarrow> i = j"
proof (induction xss arbitrary: i j)
  case (Cons xs xss)
  have "x \<notin> set (xss ! k)" if "k < length xss" "x \<in> set xs" for k
    using Cons.prems(1) that by (auto dest: nth_mem)
  with Cons show ?case by (cases i; cases j) auto
qed simp

lemma inside_slot:
  assumes "inside t c" "k < column_count t"
  shows "r * column_count t + k \<in> set (slots (column_count t) c) \<longleftrightarrow> covers c r k"
proof
  assume "r * column_count t + k \<in> set (slots (column_count t) c)"
  then obtain r' k' where c: "covers c r' k'" and eq: "r * column_count t + k = r' * column_count t + k'"
    by (auto simp: mem_slots)
  from c assms(1) have "k' < column_count t" by (auto simp: covers_def inside_def)
  from slot_inject [OF assms(2) this eq] c show "covers c r k" by simp
qed (auto simp: mem_slots)

lemma table_validateE:
  assumes "table_validate t b = Inr ()"
  obtains occ cov where
    "rfold (check_cell (map_of (block_sources b)) b t) (cells t)
       (replicate (row_count t * column_count t) False, []) = Inr (occ, cov)"
    "False \<notin> set occ" "\<forall>(i, item)\<in>set (block_sources b).
       check_gaps (raw_text item) 0 (sort (ranges_of i cov)) = Inr ()"
    "0 < row_count t" "row_count t \<le> max_table_rows" "0 < column_count t" "column_count t \<le> max_table_columns"
proof -
  from assms obtain occ cov where
      "rfold (check_cell (map_of (block_sources b)) b t) (cells t)
         (replicate (row_count t * column_count t) False, []) = Inr (occ, cov)"
      "False \<notin> set occ"
      "\<forall>x\<in>set (block_sources b). (case x of (i, item) \<Rightarrow> check_gaps (raw_text item) 0 (sort (ranges_of i cov))) = Inr ()"
      "0 < row_count t" "row_count t \<le> max_table_rows" "0 < column_count t" "column_count t \<le> max_table_columns"
    by (auto simp: table_validate_def Let_def rbind_eq_Inr reach_ok split: if_splits)
  then show thesis by (intro that [of occ cov]) (auto split: prod.splits)
qed

lemma table_tiles:
  assumes "table_validate t b = Inr ()"
  shows "0 < row_count t \<and> row_count t \<le> max_table_rows \<and> 0 < column_count t \<and> column_count t \<le> max_table_columns \<and>
    (\<forall>r<row_count t. \<forall>k<column_count t. \<exists>!i. i < length (cells t) \<and> covers (cells t ! i) r k) \<and>
    (\<forall>c\<in>set (cells t). tc_text c = join [10] (map cl_text (tc_lines c)) \<and>
       (\<forall>l\<in>set (tc_lines c). derive_cell_line (map_of (block_sources b)) l = Some (cl_text l)))"
proof -
  let ?cc = "column_count t" and ?n = "row_count t * column_count t"
  from assms obtain occ cov where
      fold: "rfold (check_cell (map_of (block_sources b)) b t) (cells t) (replicate ?n False, []) = Inr (occ, cov)"
      and full: "False \<notin> set occ"
      and dims: "0 < row_count t" "row_count t \<le> max_table_rows" "0 < ?cc" "?cc \<le> max_table_columns"
    by (rule table_validateE)
  from check_cells_Inr [OF fold] have ok: "\<forall>c\<in>set (cells t). inside t c \<and> cell_text_ok (map_of (block_sources b)) c"
    and len: "length occ = ?n" and dist: "distinct (concat (map (slots ?cc) (cells t)))"
    and occ: "\<forall>q<?n. occ ! q \<longleftrightarrow> q \<in> set (concat (map (slots ?cc) (cells t)))" by auto
  have once: "\<exists>!i. i < length (cells t) \<and> covers (cells t ! i) r k"
    if rk: "r < row_count t" "k < ?cc" for r k
  proof -
    let ?q = "r * ?cc + k"
    have "?q < Suc r * ?cc" using rk(2) by simp
    also have "\<dots> \<le> ?n" using rk(1) by (intro mult_le_mono1) simp
    finally have q: "?q < ?n" .
    have iff: "?q \<in> set (slots ?cc (cells t ! i)) \<longleftrightarrow> covers (cells t ! i) r k" if "i < length (cells t)" for i
      using ok that by (intro inside_slot rk) simp
    have "occ ! ?q" using full q len by (metis nth_mem)
    with occ q obtain c where "c \<in> set (cells t)" "?q \<in> set (slots ?cc c)" by auto
    then obtain i where i: "i < length (cells t)" "?q \<in> set (slots ?cc (cells t ! i))"
      by (auto simp: in_set_conv_nth)
    show ?thesis
    proof (intro ex1I conjI)
      show "i < length (cells t)" "covers (cells t ! i) r k" using i iff by auto
      fix j assume j: "j < length (cells t) \<and> covers (cells t ! j) r k"
      with iff have "?q \<in> set (slots ?cc (cells t ! j))" by simp
      with distinct_concat_nth [OF dist, of j i ?q] i j show "j = i" by simp
    qed
  qed
  with dims ok show ?thesis by (simp add: cell_text_ok_def)
qed

text \<open>
  C27: A validated table is a tiling with faithful cells: its size is within the limits, every
  slot belongs to exactly one cell, every cell's text is its lines joined by newlines, and
  every line's text is the projection of the source ranges it references.
\<close>

theorem validated_table_is_a_tiling:
  assumes "table_validate t b = Inr ()"
  shows "0 < row_count t \<and> row_count t \<le> max_table_rows \<and> 0 < column_count t \<and> column_count t \<le> max_table_columns \<and>
    (\<forall>r<row_count t. \<forall>k<column_count t. \<exists>!i. i < length (cells t) \<and> covers (cells t ! i) r k) \<and>
    (\<forall>c\<in>set (cells t). tc_text c = join [10] (map cl_text (tc_lines c)) \<and>
       (\<forall>l\<in>set (tc_lines c). derive_cell_line (map_of (block_sources b)) l = Some (cl_text l)))"
  using assms by (rule table_tiles)

lemma block_sources_mem:
  assumes "distinct (map it_id (concat (map text_items (lines_of b))))"
    and "item \<in> set (concat (map text_items (lines_of b)))"
  shows "(it_id item, item) \<in> set (block_sources b)"
proof -
  let ?items = "concat (map text_items (lines_of b))"
  have "map_of (rev (map (\<lambda>i. (it_id i, i)) ?items)) (it_id item) = Some item"
    using assms by (intro map_of_is_SomeI) (simp_all add: rev_map [symmetric] comp_def)
  then have "map_of (block_sources b) (it_id item) = Some item"
    by (simp add: block_sources_def bt_collect_lookup)
  then show ?thesis by (rule map_of_SomeD)
qed

lemma ranges_of_spans:
  "(s, e) \<in> set (ranges_of i (map span_entry sps)) \<longleftrightarrow>
     (\<exists>sp\<in>set sps. text_item_id sp = i \<and> byte_start sp = s \<and> byte_end sp = e)"
  by (force simp: ranges_of_def span_entry_def)

lemma table_conserves:
  assumes "table_validate t b = Inr ()"
    and "distinct (map it_id (concat (map text_items (lines_of b))))"
    and "item \<in> set (concat (map text_items (lines_of b)))"
    and "rs = sort (ranges_of (it_id item) (map span_entry (table_spans t)))"
  shows "(\<exists>parts. slices (raw_text item) rs = map Some parts \<and>
      non_ws (raw_text item) = concat (map non_ws parts)) \<and>
    (\<forall>((s, e), (s', e'))\<in>set (windows2 rs). e \<le> s')"
proof -
  from assms(1) obtain occ cov where
      fold: "rfold (check_cell (map_of (block_sources b)) b t) (cells t)
        (replicate (row_count t * column_count t) False, []) = Inr (occ, cov)"
      and gaps: "\<forall>(i, item)\<in>set (block_sources b).
        check_gaps (raw_text item) 0 (sort (ranges_of i cov)) = Inr ()"
    by (rule table_validateE)
  from check_cells_Inr [OF fold] have cov: "cov = map span_entry (table_spans t)"
    and ok: "\<forall>c\<in>set (cells t). cell_text_ok (map_of (block_sources b)) c"
    by (auto simp: table_spans_def)
  note mem = block_sources_mem [OF assms(2,3)]
  from gaps mem have "check_gaps (raw_text item) 0 (sort (ranges_of (it_id item) cov)) = Inr ()" by blast
  then have check: "check_gaps (raw_text item) 0 rs = Inr ()" by (simp add: cov assms(4))
  have look: "map_of (block_sources b) (it_id item) = Some item"
    using mem unfolding block_sources_def by (rule bt_collect_mem)
  have "get_range (raw_text item) s e \<noteq> None" if "(s, e) \<in> set rs" for s e
  proof -
    from that obtain sp where sp: "sp \<in> set (table_spans t)" "text_item_id sp = it_id item"
        "byte_start sp = s" "byte_end sp = e"
      by (auto simp: assms(4) ranges_of_spans)
    with ok have "span_ok (map_of (block_sources b)) sp" by (auto simp: table_spans_def cell_text_ok_def)
    with look sp show ?thesis by (simp add: span_ok_def)
  qed
  then have "\<forall>(s, e)\<in>set rs. get_range (raw_text item) s e \<noteq> None" by blast
  from check_gaps_conserves [OF check _ this, of "[]" "raw_text item"] check_gaps_ordered [OF check]
  show ?thesis by simp
qed

text \<open>
  C26: A validated table conserves its text. For every source item of the block, the byte ranges
  that the cells reference are well-formed, never overlap, and together they contain every
  non-whitespace character of the item, in order, exactly once: cells neither drop, duplicate
  nor invent text.
\<close>

theorem validated_table_conserves_text:
  assumes "table_validate t b = Inr ()"
    and "distinct (map it_id (concat (map text_items (lines_of b))))"
    and "item \<in> set (concat (map text_items (lines_of b)))"
    and "rs = sort (ranges_of (it_id item) (map span_entry (table_spans t)))"
  shows "(\<exists>parts. slices (raw_text item) rs = map Some parts \<and>
      non_ws (raw_text item) = concat (map non_ws parts)) \<and>
    (\<forall>((s, e), (s', e'))\<in>set (windows2 rs). e \<le> s')"
  using assms by (rule table_conserves)

section \<open>An example\<close>

definition demo_item :: text_item where
  "demo_item = plain_item (lit ''p1:t0'') (lit ''a b'') (box 0 0 30 10)"

definition demo_table_block :: block where
  "demo_table_block = plain_block (lit ''p1:b:m0:s0'') Table [] (box 0 0 30 10)
     [plain_line (lit ''p1:b:m0:s0:l0'') [demo_item] (box 0 0 30 10)] 0"

definition text_cell :: "nat \<Rightarrow> nat \<Rightarrow> nat \<Rightarrow> nat \<Rightarrow> bbox \<Rightarrow> rstr \<Rightarrow> table_cell" where
  "text_cell r k s e b txt = \<lparr>row = r, column = k, row_span = 1, column_span = 1, tc_bbox = Some b,
     is_header = False, tc_text = txt, tc_markdown = None,
     tc_lines = [\<lparr>cl_text = txt, cl_bbox = b,
       spans = [\<lparr>text_item_id = lit ''p1:t0'', byte_start = s, byte_end = e, ts_bbox = b\<rparr>]\<rparr>]\<rparr>"

definition demo_text_table :: table where
  "demo_text_table = \<lparr>row_count = 1, column_count = 2,
     cells = [text_cell 0 0 0 1 (box 0 0 10 10) (lit ''a''), text_cell 0 1 2 3 (box 20 0 30 10) (lit ''b'')],
     tb_source = Ruled\<rparr>"

lemma demo_text_table_valid: "table_validate demo_text_table demo_table_block = Inr ()"
  by code_simp

theorem validated_table_is_a_tiling_witness:
  "\<exists>!i. i < length (cells demo_text_table) \<and> covers (cells demo_text_table ! i) 0 1"
  using validated_table_is_a_tiling [OF demo_text_table_valid]
  by (simp add: demo_text_table_def)

theorem validated_table_conserves_text_witness:
  "\<exists>parts. slices (lit ''a b'') (sort (ranges_of (it_id demo_item) (map span_entry (table_spans demo_text_table)))) =
     map Some parts \<and> non_ws (lit ''a b'') = concat (map non_ws parts)"
  using validated_table_conserves_text [OF demo_text_table_valid, of demo_item]
  by (simp add: demo_table_block_def plain_block_def plain_line_def demo_item_def plain_item_def)

end
