(* ===== verification/Order_Graph.thy ===== *)
theory Order_Graph
  imports BTree_Map Document
begin

text \<open>
  The reading order of one page: \<open>crates/core/src/fusion/order.rs\<close>. Blocks become the nodes of
  a graph, geometry, model regions, captions and the fallback segmentation give its edges,
  cycles lose their weakest removable edges, and a deterministic topological sort gives the
  order. Loops carry fuel; running out of it is \<open>None\<close>, apart from the code's own errors.
  Log output is not modelled.
\<close>

section \<open>Edges and nodes\<close>

datatype edge_source =
  ModelOrder | FallbackInsertion | BandHorizontal | CaptionRelation | XyCut | IntraRegion | StrongVertical

fun rank :: "edge_source \<Rightarrow> nat" where
  "rank ModelOrder = 0"
| "rank FallbackInsertion = 1"
| "rank BandHorizontal = 2"
| "rank CaptionRelation = 3"
| "rank XyCut = 4"
| "rank IntraRegion = 5"
| "rank StrongVertical = 6"

lemma rank_inject: "rank a = rank b \<longleftrightarrow> a = b"
  by (cases a; cases b) simp_all

text \<open>The derived \<open>Ord\<close> of the source enum is its declaration order, which \<open>rank\<close> repeats.\<close>

instantiation edge_source :: linorder
begin

definition less_eq_edge_source :: "edge_source \<Rightarrow> edge_source \<Rightarrow> bool" where
  "less_eq_edge_source a b \<longleftrightarrow> rank a \<le> rank b"

definition less_edge_source :: "edge_source \<Rightarrow> edge_source \<Rightarrow> bool" where
  "less_edge_source a b \<longleftrightarrow> rank a < rank b"

instance
  by standard (auto simp: less_eq_edge_source_def less_edge_source_def rank_inject)

end

definition is_strong :: "edge_source \<Rightarrow> bool" where
  "is_strong s \<longleftrightarrow> s = StrongVertical \<or> s = IntraRegion"

definition unwrap_or :: "'a option \<Rightarrow> 'a \<Rightarrow> 'a" where
  "unwrap_or m d = (case m of None \<Rightarrow> d | Some x \<Rightarrow> x)"

fun weight :: "edge_source \<Rightarrow> f64 option \<Rightarrow> f64" where
  "weight StrongVertical _ = Fin 1"
| "weight IntraRegion _ = Fin 1"
| "weight ModelOrder c = fclamp (unwrap_or c (Fin 0)) (Fin 0) (Fin 1)"
| "weight XyCut _ = rnd (85 / 100)"
| "weight CaptionRelation _ = rnd (80 / 100)"
| "weight BandHorizontal _ = rnd (65 / 100)"
| "weight FallbackInsertion _ = rnd (60 / 100)"

record order_node =
  nd_id :: rstr
  nd_bbox :: bbox
  xy_path :: "rstr option"
  source_priority :: nat

record order_edge =
  e_from :: rstr
  e_to :: rstr
  e_source :: edge_source
  reason :: string
  source_confidence :: "f64 option"
  preservation_weight :: f64
  stable_key :: rstr

record removed_edge =
  r_from :: rstr
  r_to :: rstr
  r_source :: edge_source
  r_weight :: f64
  r_reason :: string

definition removed_of :: "order_edge \<Rightarrow> removed_edge" where
  "removed_of e = \<lparr>r_from = e_from e, r_to = e_to e, r_source = e_source e,
     r_weight = preservation_weight e, r_reason = reason e\<rparr>"

datatype order_error =
  UnknownBlock rstr | InternalOrderConflict | DuplicateBlock rstr | MissingBlock rstr

text \<open>\<open>quantized_band\<close>; the casts saturate at the ends of \<open>i64\<close>.\<close>

definition i64_min :: int where
  "i64_min = - 9223372036854775808"

definition i64_max :: int where
  "i64_max = 9223372036854775807"

definition as_i64 :: "f64 \<Rightarrow> int" where
  "as_i64 a = (case a of Nan \<Rightarrow> 0 | Inf n \<Rightarrow> if n then i64_min else i64_max | NegZero \<Rightarrow> 0
     | Fin r \<Rightarrow> let t = (if 0 \<le> r then \<lfloor>r\<rfloor> else \<lceil>r\<rceil>) in max i64_min (min i64_max t))"

definition quantized_band :: "f64 \<Rightarrow> int" where
  "quantized_band t =
     (let band = ffloor (fdiv t (Fin (1 / 2)))
      in if fle band (Fin (of_int i64_min)) then i64_min
         else if fle (Fin (of_int i64_max + 1)) band then i64_max
         else as_i64 band)"

text \<open>\<open>stable_cmp\<close> compares these components in turn.\<close>

definition node_key :: "order_node \<Rightarrow> rstr \<times> int \<times> f64 \<times> f64 \<times> nat \<times> rstr" where
  "node_key n = (unwrap_or (xy_path n) [], quantized_band (top_of (nd_bbox n)), top_of (nd_bbox n),
     left (nd_bbox n), source_priority n, nd_id n)"

record order_graph =
  nodes :: "(rstr \<times> order_node) list"
  edges :: "order_edge list"

definition empty_graph :: order_graph where
  "empty_graph = \<lparr>nodes = [], edges = []\<rparr>"

definition insert_node :: "order_node \<Rightarrow> order_graph \<Rightarrow> order_graph" where
  "insert_node n g = g\<lparr>nodes := bt_insert (nd_id n) n (nodes g)\<rparr>"

definition insert_edge :: "order_edge \<Rightarrow> order_graph \<Rightarrow> order_graph" where
  "insert_edge e g = g\<lparr>edges := edges g @ [e]\<rparr>"

definition push_edge ::
  "rstr \<Rightarrow> rstr \<Rightarrow> edge_source \<Rightarrow> string \<Rightarrow> f64 option \<Rightarrow> order_graph \<Rightarrow> order_graph" where
  "push_edge a b src why conf g =
     (if a = b then g
      else insert_edge \<lparr>e_from = a, e_to = b, e_source = src, reason = why, source_confidence = conf,
        preservation_weight = weight src conf,
        stable_key = a @ [62] @ b @ [58] @ show_nat (rank src)\<rparr> g)"

section \<open>Selection helpers\<close>

text \<open>\<open>min_by\<close> keeps the first least element, \<open>max_by\<close> the last greatest.\<close>

fun min_by_key :: "('a \<Rightarrow> 'k :: linorder) \<Rightarrow> 'a list \<Rightarrow> 'a option" where
  "min_by_key f [] = None"
| "min_by_key f (x # xs) = Some (fold (\<lambda>y acc. if f y < f acc then y else acc) xs x)"

fun max_by_less :: "('a \<Rightarrow> 'a \<Rightarrow> bool) \<Rightarrow> 'a list \<Rightarrow> 'a option" where
  "max_by_less lt [] = None"
| "max_by_less lt (x # xs) = Some (fold (\<lambda>y acc. if lt y acc then acc else y) xs x)"

lemma fold_pick: "(\<And>y acc. f y acc = y \<or> f y acc = acc) \<Longrightarrow> fold f zs a \<in> insert a (set zs)"
proof (induction zs arbitrary: a)
  case (Cons z zs)
  from Cons.IH [OF Cons.prems, of "f z a"] Cons.prems [of z a] show ?case by auto
qed simp

lemma max_by_less_in: "max_by_less lt xs = Some x \<Longrightarrow> x \<in> set xs"
  using fold_pick [of "\<lambda>y acc. if lt y acc then acc else y" "tl xs" "hd xs"] by (cases xs) auto

lemma min_by_key_in: "min_by_key f xs = Some x \<Longrightarrow> x \<in> set xs"
  using fold_pick [of "\<lambda>y acc. if f y < f acc then y else acc" "tl xs" "hd xs"] by (cases xs) auto

definition block_key :: "block \<Rightarrow> f64 \<times> f64 \<times> rstr" where
  "block_key b = (top_of (bk_bbox b), left (bk_bbox b), bk_id b)"

definition overlap :: "f64 \<Rightarrow> f64 \<Rightarrow> f64 \<Rightarrow> f64 \<Rightarrow> f64" where
  "overlap ls le rs re = fmax (fsub (fmin le re) (fmax ls rs)) (Fin 0)"

definition vertical_distance :: "bbox \<Rightarrow> bbox \<Rightarrow> f64" where
  "vertical_distance a b =
     (if flt (bottom a) (top_of b) then fsub (top_of b) (bottom a)
      else if flt (bottom b) (top_of a) then fsub (top_of a) (bottom b)
      else Fin 0)"

definition model_region_index :: "rstr \<Rightarrow> int" where
  "model_region_index i =
     (case split_once (lit '':m'') i of None \<Rightarrow> u32_limit - 1
      | Some (_, ix) \<Rightarrow> (case parse_unsigned u32_limit ix of None \<Rightarrow> u32_limit - 1 | Some n \<Rightarrow> int n))"

definition is_rotated_marginal :: "block \<Rightarrow> bool" where
  "is_rotated_marginal b \<longleftrightarrow>
     ((\<exists>l\<in>set (lines_of b). direction l = Vertical \<or>
         fle (fabs (fsub (fabs (ln_rotation l)) (Fin 90))) (Fin 2) \<or>
         fle (fabs (fsub (fabs (ln_rotation l)) (Fin 270))) (Fin 2)) \<or>
      label b = AsideText) \<and>
     fle (fmul (width (bk_bbox b)) (Fin 3)) (height (bk_bbox b))"

section \<open>Edge construction\<close>

definition group_by_region :: "block list \<Rightarrow> (rstr \<times> block list) list" where
  "group_by_region bs = fold (\<lambda>b groups.
     (case model_region_id b of None \<Rightarrow> groups
      | Some r \<Rightarrow> bt_insert r (unwrap_or (map_of groups r) [] @ [b]) groups)) bs []"

definition chain_edges ::
  "('a \<Rightarrow> 'a \<Rightarrow> order_graph \<Rightarrow> order_graph) \<Rightarrow> 'a list \<Rightarrow> order_graph \<Rightarrow> order_graph" where
  "chain_edges link xs g = fold (\<lambda>(a, b). link a b) (windows2 xs) g"

definition intra_link :: "block \<Rightarrow> block \<Rightarrow> order_graph \<Rightarrow> order_graph" where
  "intra_link a b = push_edge (bk_id a) (bk_id b) IntraRegion ''children of one model region''
     (Some (fmin (unwrap_or (bk_confidence a) (Fin 0)) (unwrap_or (bk_confidence b) (Fin 0))))"

type_synonym region = "int \<times> int \<times> rstr \<times> rstr \<times> f64"

definition region_of :: "rstr \<Rightarrow> block list \<Rightarrow> region" where
  "region_of r children = (unwrap_or (model_order (hd children)) i64_max, model_region_index r,
     bk_id (hd children), bk_id (last children),
     fold (\<lambda>c acc. fmin acc c) (List.map_filter bk_confidence children) (Fin 1))"

definition add_group :: "rstr \<times> block list \<Rightarrow> order_graph \<times> region list \<Rightarrow> order_graph \<times> region list" where
  "add_group grp st =
     (let (r, members) = grp; (g, regions) = st;
          children = sort_key block_key members;
          g = chain_edges intra_link children g
      in if \<not> (\<forall>b\<in>set children. is_rotated_marginal b) \<and> children \<noteq> []
         then (g, regions @ [region_of r children]) else (g, regions))"

definition region_link :: "region \<Rightarrow> region \<Rightarrow> order_graph \<Rightarrow> order_graph" where
  "region_link a b =
     (case a of (_, _, _, last_a, conf_a) \<Rightarrow> case b of (_, _, first_b, _, conf_b) \<Rightarrow>
        push_edge last_a first_b ModelOrder ''adjacent model region order'' (Some (fmin conf_a conf_b)))"

definition add_model_edges :: "block list \<Rightarrow> order_graph \<Rightarrow> order_graph" where
  "add_model_edges bs g =
     (let (g, regions) = fold add_group (group_by_region bs) (g, [])
      in chain_edges region_link (sort_key (\<lambda>(ord, ix, first, _, _). (ord, ix, first)) regions) g)"

definition marginal_link :: "block \<Rightarrow> block \<Rightarrow> order_graph \<Rightarrow> order_graph" where
  "marginal_link a b = push_edge (bk_id a) (bk_id b) IntraRegion ''rotated marginal content order'' None"

text \<open>\<open>lower a b\<close>: \<open>a\<close> compares less than \<open>b\<close> when the last main block is chosen.\<close>

definition lower :: "block \<Rightarrow> block \<Rightarrow> bool" where
  "lower a b \<longleftrightarrow>
     (let ka = (bottom (bk_bbox a), right (bk_bbox a)); kb = (bottom (bk_bbox b), right (bk_bbox b))
      in ka < kb \<or> ka = kb \<and> bk_id b < bk_id a)"

definition marginals_of :: "block list \<Rightarrow> block list" where
  "marginals_of bs = sort_key block_key (filter is_rotated_marginal bs)"

definition main_flow :: "block list \<Rightarrow> block list" where
  "main_flow bs = filter (\<lambda>b. \<not> is_rotated_marginal b) bs"

definition add_rotated_marginal_edges :: "block list \<Rightarrow> order_graph \<Rightarrow> order_graph" where
  "add_rotated_marginal_edges bs g =
     (case marginals_of bs of [] \<Rightarrow> g
      | first_margin # _ \<Rightarrow>
          chain_edges marginal_link (marginals_of bs)
            (case max_by_less lower (main_flow bs) of None \<Rightarrow> g
             | Some last_main \<Rightarrow> push_edge (bk_id last_main) (bk_id first_margin) StrongVertical
                 ''main flow before rotated marginal content'' None g))"

definition fallback_region :: "block \<Rightarrow> rstr option" where
  "fallback_region b = (case source_region b of None \<Rightarrow> None | Some s \<Rightarrow> sr_fallback_region_id s)"

definition xy_link :: "rstr \<times> block \<Rightarrow> rstr \<times> block \<Rightarrow> order_graph \<Rightarrow> order_graph" where
  "xy_link a b = push_edge (bk_id (snd a)) (bk_id (snd b)) XyCut ''adjacent residual XY-cut leaves'' None"

definition add_xy_cut_edges :: "block list \<Rightarrow> order_graph \<Rightarrow> order_graph" where
  "add_xy_cut_edges bs =
     chain_edges xy_link (sort_key (\<lambda>(r, b). (r, bk_id b))
       (List.map_filter (\<lambda>b. map_option (\<lambda>r. (r, b)) (fallback_region b)) bs))"

definition below_of :: "block list \<Rightarrow> block \<Rightarrow> block option" where
  "below_of flow s = min_by_key block_key
     (filter (\<lambda>c. bk_id c \<noteq> bk_id s \<and> fle (bottom (bk_bbox s)) (top_of (bk_bbox c)) \<and>
        flt (Fin 0) (overlap (left (bk_bbox s)) (right (bk_bbox s)) (left (bk_bbox c)) (right (bk_bbox c)))) flow)"

definition right_of :: "block list \<Rightarrow> block \<Rightarrow> block option" where
  "right_of flow s = min_by_key
     (\<lambda>c. (fsub (left (bk_bbox c)) (right (bk_bbox s)), top_of (bk_bbox c), bk_id c))
     (filter (\<lambda>c. bk_id c \<noteq> bk_id s \<and> \<not> flt (left (bk_bbox c)) (right (bk_bbox s)) \<and>
        fle (Fin (1 / 2))
          (fdiv (overlap (top_of (bk_bbox s)) (bottom (bk_bbox s)) (top_of (bk_bbox c)) (bottom (bk_bbox c)))
                (fmax (fmin (height (bk_bbox s)) (height (bk_bbox c))) (Fin (1 / 4503599627370496))))) flow)"

definition geometry_link :: "block list \<Rightarrow> block \<Rightarrow> order_graph \<Rightarrow> order_graph" where
  "geometry_link flow s g =
     (let g = (case below_of flow s of None \<Rightarrow> g
               | Some c \<Rightarrow> push_edge (bk_id s) (bk_id c) StrongVertical
                   ''nearest non-overlapping vertical geometry'' None g)
      in case right_of flow s of None \<Rightarrow> g
         | Some c \<Rightarrow> push_edge (bk_id s) (bk_id c) BandHorizontal
             ''nearest same-band left-to-right geometry'' None g)"

definition add_geometry_edges :: "block list \<Rightarrow> order_graph \<Rightarrow> order_graph" where
  "add_geometry_edges bs g = fold (geometry_link (main_flow bs)) (main_flow bs) g"

definition is_visual_object :: "block \<Rightarrow> bool" where
  "is_visual_object b \<longleftrightarrow> label b = Chart \<or> label b = Image \<or> label b = Table"

definition caption_link :: "block list \<Rightarrow> block \<Rightarrow> order_graph \<Rightarrow> order_graph" where
  "caption_link objects c g =
     (case min_by_key (\<lambda>v. (vertical_distance (bk_bbox c) (bk_bbox v), bk_id v)) objects of
        None \<Rightarrow> g
      | Some v \<Rightarrow>
          if fle (bottom (bk_bbox v)) (top_of (bk_bbox c))
          then push_edge (bk_id v) (bk_id c) CaptionRelation ''visual object before lower caption'' (bk_confidence c) g
          else push_edge (bk_id c) (bk_id v) CaptionRelation ''upper caption before visual object'' (bk_confidence c) g)"

definition add_caption_edges :: "block list \<Rightarrow> order_graph \<Rightarrow> order_graph" where
  "add_caption_edges bs g =
     fold (caption_link (filter is_visual_object bs)) (filter (\<lambda>b. label b = FigureTitle) bs) g"

definition insertion_link :: "block \<Rightarrow> block \<Rightarrow> order_graph \<Rightarrow> order_graph" where
  "insertion_link a b g =
     (if label_source a = Fallback \<or> label_source b = Fallback
      then push_edge (bk_id a) (bk_id b) FallbackInsertion ''fallback block geometry insertion'' None g
      else g)"

definition add_fallback_insertion_edges :: "block list \<Rightarrow> order_graph \<Rightarrow> order_graph" where
  "add_fallback_insertion_edges bs = chain_edges insertion_link (sort_key block_key bs)"

definition node_of :: "block \<Rightarrow> order_node" where
  "node_of b = \<lparr>nd_id = bk_id b, nd_bbox = bk_bbox b,
     xy_path = (case fallback_region b of None \<Rightarrow> None | Some r \<Rightarrow> map_option snd (split_once (lit '':f'') r)),
     source_priority = (case label_source b of FromModel \<Rightarrow> 0 | Fallback \<Rightarrow> 1 | Heuristic \<Rightarrow> 2 | FromPdf \<Rightarrow> 2)\<rparr>"

definition from_blocks :: "block list \<Rightarrow> order_graph" where
  "from_blocks bs =
     add_fallback_insertion_edges bs (add_caption_edges bs (add_geometry_edges bs (add_xy_cut_edges bs
       (add_rotated_marginal_edges bs (add_model_edges bs
         (fold (\<lambda>b. insert_node (node_of b)) bs empty_graph))))))"

section \<open>Indexing\<close>

fun dedup_keys :: "order_edge list \<Rightarrow> order_edge list" where
  "dedup_keys (a # b # es) =
     (if stable_key b = stable_key a then dedup_keys (a # es) else a # dedup_keys (b # es))"
| "dedup_keys es = es"

definition normalize_edges :: "order_graph \<Rightarrow> order_error + order_graph" where
  "normalize_edges g =
     rbind (reach (\<lambda>e.
         rbind (ensure (map_of (nodes g) (e_from e) \<noteq> None) (UnknownBlock (e_from e))) (\<lambda>_.
         ensure (map_of (nodes g) (e_to e) \<noteq> None) (UnknownBlock (e_to e)))) (edges g))
       (\<lambda>_. Inr (g\<lparr>edges := dedup_keys (sort_key stable_key (edges g))\<rparr>))"

record indexed_edges =
  endpoints :: "(nat \<times> nat) list"
  forward :: "nat list list"
  backward :: "nat list list"

fun index_of :: "rstr \<Rightarrow> rstr list \<Rightarrow> nat option" where
  "index_of k [] = None"
| "index_of k (x # xs) = (if k = x then Some 0 else map_option Suc (index_of k xs))"

definition index_edge ::
  "rstr list \<Rightarrow> nat \<times> order_edge \<Rightarrow> indexed_edges \<Rightarrow> order_error + indexed_edges" where
  "index_edge ids ie ix =
     (let (i, e) = ie
      in rbind (ok_or InternalOrderConflict (index_of (e_from e) ids)) (\<lambda>a.
         rbind (ok_or InternalOrderConflict (index_of (e_to e) ids)) (\<lambda>b.
         if a < length (forward ix) \<and> b < length (backward ix)
         then Inr (ix\<lparr>endpoints := endpoints ix @ [(a, b)],
                forward := (forward ix)[a := forward ix ! a @ [i]],
                backward := (backward ix)[b := backward ix ! b @ [i]]\<rparr>)
         else Inl InternalOrderConflict)))"

definition index_edges :: "order_graph \<Rightarrow> order_error + indexed_edges" where
  "index_edges g =
     (let n = length (nodes g)
      in rfold (index_edge (map fst (nodes g))) (List.enumerate 0 (edges g))
           \<lparr>endpoints = [], forward = replicate n [], backward = replicate n []\<rparr>)"

section \<open>Cyclic components\<close>

definition is_active :: "bool list \<Rightarrow> nat \<Rightarrow> bool" where
  "is_active active i \<longleftrightarrow> i < length active \<and> active ! i"

definition successors :: "indexed_edges \<Rightarrow> bool list \<Rightarrow> nat \<Rightarrow> nat list" where
  "successors ix active n =
     (if n < length (forward ix)
      then List.map_filter (\<lambda>i. if is_active active i \<and> i < length (endpoints ix)
             then Some (snd (endpoints ix ! i)) else None) (forward ix ! n)
      else [])"

definition predecessors :: "indexed_edges \<Rightarrow> bool list \<Rightarrow> nat \<Rightarrow> nat list" where
  "predecessors ix active n =
     (if n < length (backward ix)
      then List.map_filter (\<lambda>i. if is_active active i \<and> i < length (endpoints ix)
             then Some (fst (endpoints ix ! i)) else None) (backward ix ! n)
      else [])"

text \<open>Both searches, with the nodes visited and the nodes emitted so far.\<close>

fun finish_depth_first :: "nat \<Rightarrow> (nat \<Rightarrow> nat list) \<Rightarrow> nat \<Rightarrow> bool list \<times> nat list \<Rightarrow> bool list \<times> nat list" where
  "finish_depth_first 0 next n st = st"
| "finish_depth_first (Suc fuel) next n (visited, finished) =
     (if length visited \<le> n \<or> visited ! n then (visited, finished)
      else case fold (finish_depth_first fuel next) (next n) (visited[n := True], finished) of
        (visited, finished) \<Rightarrow> (visited, finished @ [n]))"

fun collect_depth_first :: "nat \<Rightarrow> (nat \<Rightarrow> nat list) \<Rightarrow> nat \<Rightarrow> bool list \<times> nat list \<Rightarrow> bool list \<times> nat list" where
  "collect_depth_first 0 next n st = st"
| "collect_depth_first (Suc fuel) next n (visited, component) =
     (if length visited \<le> n \<or> visited ! n then (visited, component)
      else fold (collect_depth_first fuel next) (next n) (visited[n := True], component @ [n]))"

definition has_self_loop :: "indexed_edges \<Rightarrow> bool list \<Rightarrow> nat \<Rightarrow> bool" where
  "has_self_loop ix active n \<longleftrightarrow>
     n < length (forward ix) \<and>
     (\<exists>i\<in>set (forward ix ! n). is_active active i \<and> i < length (endpoints ix) \<and> endpoints ix ! i = (n, n))"

definition collect_step ::
  "indexed_edges \<Rightarrow> bool list \<Rightarrow> nat \<Rightarrow> bool list \<times> nat list list \<Rightarrow> bool list \<times> nat list list" where
  "collect_step ix active n st =
     (let (visited, components) = st
      in if length visited \<le> n \<or> visited ! n then st
         else case collect_depth_first (Suc (length visited)) (predecessors ix active) n (visited, []) of
           (visited, component) \<Rightarrow>
             let component = sort component
             in if 1 < length component \<or> length component = 1 \<and> has_self_loop ix active n
                then (visited, components @ [component]) else (visited, components))"

definition cyclic_components :: "indexed_edges \<Rightarrow> bool list \<Rightarrow> nat list list" where
  "cyclic_components ix active =
     (let n = length (forward ix);
          finished = snd (fold (finish_depth_first (Suc n) (successors ix active)) [0 ..< n] (replicate n False, []))
      in sort_key hd (snd (fold (collect_step ix active) (rev finished) (replicate n False, []))))"

section \<open>Cycle removal\<close>

definition removal_key :: "order_edge \<Rightarrow> f64 \<times> nat \<times> rstr" where
  "removal_key e = (preservation_weight e, rank (e_source e), stable_key e)"

definition memberships :: "nat \<Rightarrow> nat list list \<Rightarrow> nat option list" where
  "memberships n components =
     fold (\<lambda>(c, component). fold (\<lambda>v m. if v < length m then m[v := Some c] else m) component)
       (List.enumerate 0 components) (replicate n None)"

definition member_of :: "nat option list \<Rightarrow> nat \<Rightarrow> nat option" where
  "member_of m v = (if v < length m then m ! v else None)"

definition select_edge ::
  "order_edge list \<Rightarrow> (nat \<times> nat) list \<Rightarrow> bool list \<Rightarrow> nat option list \<Rightarrow> nat \<times> order_edge
     \<Rightarrow> nat option list \<Rightarrow> order_error + nat option list" where
  "select_edge es ends active member ie selected =
     (let (i, e) = ie
      in if \<not> is_active active i \<or> is_strong (e_source e) then Inr selected
         else case get_at ends i of None \<Rightarrow> Inl InternalOrderConflict
           | Some (a, b) \<Rightarrow>
               (case member_of member a of None \<Rightarrow> Inr selected
                | Some c \<Rightarrow>
                    if member_of member b \<noteq> Some c then Inr selected
                    else
                      let better = (case member_of selected c of None \<Rightarrow> True
                            | Some j \<Rightarrow> (case get_at es j of None \<Rightarrow> True
                                | Some cur \<Rightarrow> removal_key e < removal_key cur))
                      in if better \<and> c < length selected then Inr (selected[c := Some i]) else Inr selected))"

definition remove_selected ::
  "order_edge list \<Rightarrow> nat option \<Rightarrow> bool list \<times> removed_edge list \<Rightarrow> order_error + (bool list \<times> removed_edge list)" where
  "remove_selected es sel st =
     (let (active, removed) = st
      in case sel of None \<Rightarrow> Inl InternalOrderConflict
         | Some i \<Rightarrow>
             if i < length active \<and> i < length es
             then Inr (active[i := False], removed @ [removed_of (es ! i)])
             else Inl InternalOrderConflict)"

definition break_cycles ::
  "order_edge list \<Rightarrow> indexed_edges \<Rightarrow> nat list list \<Rightarrow> bool list \<times> removed_edge list
     \<Rightarrow> order_error + (bool list \<times> removed_edge list)" where
  "break_cycles es ix components st =
     rbind (rfold (select_edge es (endpoints ix) (fst st) (memberships (length (forward ix)) components))
              (List.enumerate 0 es) (replicate (length components) None))
       (\<lambda>selected. rfold (remove_selected es) selected st)"

fun remove_cycles ::
  "nat \<Rightarrow> order_edge list \<Rightarrow> indexed_edges \<Rightarrow> bool list \<times> removed_edge list
     \<Rightarrow> (order_error + (bool list \<times> removed_edge list)) option" where
  "remove_cycles 0 es ix st = None"
| "remove_cycles (Suc fuel) es ix st =
     (let components = cyclic_components ix (fst st)
      in if components = [] then Some (Inr st)
         else case break_cycles es ix components st of
           Inl e \<Rightarrow> Some (Inl e)
         | Inr st' \<Rightarrow> remove_cycles fuel es ix st')"

section \<open>Topological order\<close>

definition indegrees :: "indexed_edges \<Rightarrow> bool list \<Rightarrow> nat \<Rightarrow> nat list" where
  "indegrees ix active n =
     fold (\<lambda>(i, (_, b)) d. if is_active active i \<and> b < length d then d[b := Suc (d ! b)] else d)
       (List.enumerate 0 (endpoints ix)) (replicate n 0)"

text \<open>The ready heap holds node indices; it pops the least by \<open>stable_cmp\<close>, then by index.\<close>

definition ready_key :: "order_node list \<Rightarrow> nat \<Rightarrow> (rstr \<times> int \<times> f64 \<times> f64 \<times> nat \<times> rstr) \<times> nat" where
  "ready_key ns i = (node_key (ns ! i), i)"

definition push_ready :: "order_node list \<Rightarrow> nat \<Rightarrow> nat list \<Rightarrow> nat list" where
  "push_ready ns i ready = insort_key (ready_key ns) i ready"

definition release ::
  "order_node list \<Rightarrow> indexed_edges \<Rightarrow> bool list \<Rightarrow> nat \<Rightarrow> nat list \<times> nat list \<Rightarrow> order_error + (nat list \<times> nat list)" where
  "release ns ix active i st =
     (let (degrees, ready) = st
      in if \<not> is_active active i then Inr st
         else case get_at (endpoints ix) i of None \<Rightarrow> Inl InternalOrderConflict
           | Some (_, b) \<Rightarrow>
               (case get_at degrees b of None \<Rightarrow> Inl InternalOrderConflict
                | Some 0 \<Rightarrow> Inr st
                | Some (Suc d) \<Rightarrow>
                    if d = 0 then
                      (if b < length ns then Inr (degrees[b := d], push_ready ns b ready)
                       else Inl InternalOrderConflict)
                    else Inr (degrees[b := d], ready)))"

fun kahn ::
  "nat \<Rightarrow> order_node list \<Rightarrow> indexed_edges \<Rightarrow> bool list \<Rightarrow> nat list \<times> nat list \<Rightarrow> nat list
     \<Rightarrow> (order_error + nat list) option" where
  "kahn fuel ns ix active (degrees, []) ordered = Some (Inr ordered)"
| "kahn 0 ns ix active (degrees, n # ready) ordered = None"
| "kahn (Suc fuel) ns ix active (degrees, n # ready) ordered =
     (case get_at (forward ix) n of None \<Rightarrow> Some (Inl InternalOrderConflict)
      | Some is \<Rightarrow>
          (case rfold (release ns ix active) is (degrees, ready) of
             Inl e \<Rightarrow> Some (Inl e)
           | Inr st \<Rightarrow> kahn fuel ns ix active st (ordered @ [n])))"

definition topological_order ::
  "order_graph \<Rightarrow> indexed_edges \<Rightarrow> bool list \<Rightarrow> (order_error + rstr list) option" where
  "topological_order g ix active =
     (let ns = map snd (nodes g); degrees = indegrees ix active (length ns);
          ready = fold (\<lambda>i r. if degrees ! i = 0 then push_ready ns i r else r) [0 ..< length ns] []
      in case kahn (length ns) ns ix active (degrees, ready) [] of
           None \<Rightarrow> None
         | Some (Inl e) \<Rightarrow> Some (Inl e)
         | Some (Inr ordered) \<Rightarrow>
             if length ordered \<noteq> length ns then Some (Inl InternalOrderConflict)
             else Some (Inr (map (\<lambda>i. nd_id (ns ! i)) ordered)))"

section \<open>Resolution\<close>

definition resolve :: "order_graph \<Rightarrow> (order_error + (rstr list \<times> removed_edge list)) option" where
  "resolve g =
     (case rbind (normalize_edges g) (\<lambda>g. rbind (index_edges g) (\<lambda>ix. Inr (g, ix))) of
        Inl e \<Rightarrow> Some (Inl e)
      | Inr (g, ix) \<Rightarrow>
          (case remove_cycles (Suc (length (edges g))) (edges g) ix (replicate (length (edges g)) True, []) of
             None \<Rightarrow> None
           | Some (Inl e) \<Rightarrow> Some (Inl e)
           | Some (Inr (active, removed)) \<Rightarrow>
               (case topological_order g ix active of
                  None \<Rightarrow> None
                | Some (Inl e) \<Rightarrow> Some (Inl e)
                | Some (Inr ids) \<Rightarrow> Some (Inr (ids, removed)))))"

definition own_block :: "block \<Rightarrow> (rstr \<times> block) list \<Rightarrow> order_error + (rstr \<times> block) list" where
  "own_block b owned =
     (if map_of owned (bk_id b) \<noteq> None then Inl (DuplicateBlock (bk_id b))
      else Inr (bt_insert (bk_id b) b owned))"

definition place_block ::
  "nat \<times> rstr \<Rightarrow> (rstr \<times> block) list \<times> block list \<Rightarrow> order_error + ((rstr \<times> block) list \<times> block list)" where
  "place_block oi st =
     (let (ord, i) = oi; (owned, ordered) = st
      in case map_of owned i of None \<Rightarrow> Inl (MissingBlock i)
         | Some b \<Rightarrow> Inr (filter (\<lambda>(k, _). k \<noteq> i) owned,
             ordered @ [b\<lparr>final_order := (if int ord < u32_limit then ord else nat (u32_limit - 1))\<rparr>]))"

definition order_blocks :: "block list \<Rightarrow> (order_error + (block list \<times> removed_edge list)) option" where
  "order_blocks bs =
     (case resolve (from_blocks bs) of
        None \<Rightarrow> None
      | Some (Inl e) \<Rightarrow> Some (Inl e)
      | Some (Inr (ids, removed)) \<Rightarrow>
          Some (rbind (rfold own_block bs []) (\<lambda>owned.
                rbind (rfold place_block (List.enumerate 0 ids) (owned, [])) (\<lambda>(_, ordered).
                Inr (ordered, removed)))))"

end
