(* ===== verification/Order_Scc.thy ===== *)
theory Order_Scc
  imports Order_Graph
begin

text \<open>
  The two depth-first passes of \<open>cyclic_components\<close> (Kosaraju's algorithm) on any finite
  graph given by successor and predecessor lists: the components found are exactly the
  strongly connected components that contain a cycle.
\<close>

section \<open>Paths\<close>

definition vset :: "bool list \<Rightarrow> nat set" where
  "vset visited = {v. v < length visited \<and> visited ! v}"

lemma vset_update: "v < length vis \<Longrightarrow> vset (vis[v := True]) = insert v (vset vis)"
  by (auto simp: vset_def nth_list_update)

lemma vset_replicate [simp]: "vset (replicate n False) = {}"
  by (auto simp: vset_def)

definition avoid :: "(nat \<times> nat) set \<Rightarrow> nat set \<Rightarrow> (nat \<times> nat) set" where
  "avoid E V = E \<inter> (UNIV \<times> (- V))"

lemma avoid_empty [simp]: "avoid E {} = E"
  by (simp add: avoid_def)

lemma avoid_rtrancl: "(x, y) \<in> (avoid E V)\<^sup>* \<Longrightarrow> (x, y) \<in> E\<^sup>*"
  by (rule rtrancl_mono [THEN subsetD, rotated]) (auto simp: avoid_def)

text \<open>A set that is closed under the edges that avoid \<open>V\<close> is not left by such a path.\<close>

lemma avoid_closed:
  assumes "(x, y) \<in> (avoid E V)\<^sup>*" and "x \<in> S" and "\<And>a b. a \<in> S \<Longrightarrow> (a, b) \<in> E \<Longrightarrow> b \<in> V \<union> S"
  shows "y \<in> S"
  using assms(1,2)
proof (induction rule: rtrancl_induct)
  case (step y z)
  then have "(y, z) \<in> E" "z \<notin> V" by (auto simp: avoid_def)
  with assms(3) [of y z] step show ?case by auto
qed

text \<open>A path that avoids \<open>V\<close> either avoids more, or meets the rest.\<close>

lemma avoid_more:
  assumes "(x, y) \<in> (avoid E V)\<^sup>*" and "x \<notin> W"
  shows "(x, y) \<in> (avoid E (V \<union> W))\<^sup>* \<or> (\<exists>w\<in>W. (x, w) \<in> (avoid E V)\<^sup>* \<and> (w, y) \<in> (avoid E V)\<^sup>*)"
  using assms(1)
proof (induction rule: rtrancl_induct)
  case (step y z)
  show ?case
  proof (cases "z \<in> W")
    case True
    then show ?thesis using step by (meson rtrancl.rtrancl_refl rtrancl.rtrancl_into_rtrancl)
  next
    case False
    with step(2) have "(y, z) \<in> avoid E (V \<union> W)" by (auto simp: avoid_def)
    with step show ?thesis by (meson rtrancl.rtrancl_into_rtrancl)
  qed
qed simp

definition precedes :: "nat list \<Rightarrow> nat \<Rightarrow> nat \<Rightarrow> bool" where
  "precedes L y w \<longleftrightarrow> (\<exists>us vs. L = us @ w # vs \<and> y \<in> set (us @ [w]))"

lemma precedes_append1: "precedes L y w \<Longrightarrow> precedes (L @ M) y w"
  unfolding precedes_def by force

lemma precedes_append2: "precedes M y w \<Longrightarrow> precedes (L @ M) y w"
  unfolding precedes_def by (metis (no_types, opaque_lifting) UnCI append.assoc set_append)

lemma precedes_last: "y \<in> set (L @ [w]) \<Longrightarrow> precedes (L @ [w]) y w"
  unfolding precedes_def by blast

lemma precedes_across: "y \<in> set L \<Longrightarrow> w \<in> set M \<Longrightarrow> precedes (L @ M) y w"
proof -
  assume y: "y \<in> set L" and "w \<in> set M"
  then obtain us vs where "M = us @ w # vs" by (auto simp: in_set_conv_decomp)
  then have "L @ M = (L @ us) @ w # vs" by simp
  with y show ?thesis unfolding precedes_def by fastforce
qed

lemma precedes_self: "w \<in> set L \<Longrightarrow> precedes L w w"
  by (auto simp: precedes_def in_set_conv_decomp)

section \<open>What one search emits\<close>

definition dfs_ok :: "(nat \<times> nat) set \<Rightarrow> nat set \<Rightarrow> nat list \<Rightarrow> bool" where
  "dfs_ok E V L \<longleftrightarrow>
     set L \<inter> V = {} \<and> distinct L \<and>
     (\<forall>x\<in>set L. \<forall>y. (x, y) \<in> E \<longrightarrow> y \<in> V \<union> set L) \<and>
     (\<forall>x\<in>set L. \<forall>y\<in>set L. (x, y) \<in> (avoid E V)\<^sup>* \<longrightarrow>
        (\<exists>w. (x, w) \<in> E\<^sup>* \<and> (w, x) \<in> E\<^sup>* \<and> precedes L y w))"

lemma dfs_ok_Nil [simp]: "dfs_ok E V []"
  by (simp add: dfs_ok_def)

lemma dfs_ok_append:
  assumes L: "dfs_ok E V L" and M: "dfs_ok E (V \<union> set L) M"
  shows "dfs_ok E V (L @ M)"
proof -
  from L M have disj: "set L \<inter> V = {}" "set M \<inter> (V \<union> set L) = {}" and dist: "distinct L" "distinct M"
    and closedL: "\<And>x y. x \<in> set L \<Longrightarrow> (x, y) \<in> E \<Longrightarrow> y \<in> V \<union> set L"
    and closedM: "\<And>x y. x \<in> set M \<Longrightarrow> (x, y) \<in> E \<Longrightarrow> y \<in> V \<union> set L \<union> set M"
    and ordL: "\<And>x y. x \<in> set L \<Longrightarrow> y \<in> set L \<Longrightarrow> (x, y) \<in> (avoid E V)\<^sup>* \<Longrightarrow>
        \<exists>w. (x, w) \<in> E\<^sup>* \<and> (w, x) \<in> E\<^sup>* \<and> precedes L y w"
    and ordM: "\<And>x y. x \<in> set M \<Longrightarrow> y \<in> set M \<Longrightarrow> (x, y) \<in> (avoid E (V \<union> set L))\<^sup>* \<Longrightarrow>
        \<exists>w. (x, w) \<in> E\<^sup>* \<and> (w, x) \<in> E\<^sup>* \<and> precedes M y w"
    unfolding dfs_ok_def by blast+
  have "\<exists>w. (x, w) \<in> E\<^sup>* \<and> (w, x) \<in> E\<^sup>* \<and> precedes (L @ M) y w"
    if x: "x \<in> set (L @ M)" and y: "y \<in> set (L @ M)" and path: "(x, y) \<in> (avoid E V)\<^sup>*" for x y
  proof (cases "x \<in> set L")
    case True
    then have "y \<in> set L" using avoid_closed [OF path, of "set L"] closedL by blast
    with ordL [OF True _ path] show ?thesis by (blast intro: precedes_append1)
  next
    case False
    with x have xM: "x \<in> set M" by simp
    show ?thesis
    proof (cases "y \<in> set L")
      case True
      with xM show ?thesis by (intro exI [of _ x]) (simp add: precedes_across)
    next
      case yL: False
      with y have yM: "y \<in> set M" by simp
      from avoid_more [OF path False] show ?thesis
      proof
        assume "(x, y) \<in> (avoid E (V \<union> set L))\<^sup>*"
        from ordM [OF xM yM this] show ?thesis by (blast intro: precedes_append2)
      next
        assume "\<exists>w\<in>set L. (x, w) \<in> (avoid E V)\<^sup>* \<and> (w, y) \<in> (avoid E V)\<^sup>*"
        then obtain w where "w \<in> set L" "(w, y) \<in> (avoid E V)\<^sup>*" by blast
        then have "y \<in> set L" using avoid_closed [of w y E V "set L"] closedL by blast
        with yL show ?thesis ..
      qed
    qed
  qed
  moreover have "\<forall>x\<in>set (L @ M). \<forall>y. (x, y) \<in> E \<longrightarrow> y \<in> V \<union> set (L @ M)"
    using closedL closedM by auto
  moreover have "set (L @ M) \<inter> V = {}" "distinct (L @ M)" using disj dist by auto
  ultimately show ?thesis unfolding dfs_ok_def by blast
qed

lemma dfs_ok_node:
  assumes L: "dfs_ok E (insert v V) L" and v: "v \<notin> V"
    and next_v: "\<And>y. (v, y) \<in> E \<Longrightarrow> y \<in> insert v V \<union> set L"
    and from_v: "\<And>x. x \<in> set L \<Longrightarrow> (v, x) \<in> E\<^sup>*"
  shows "dfs_ok E V (L @ [v])"
proof -
  from L have disj: "set L \<inter> insert v V = {}" and dist: "distinct L"
    and closedL: "\<And>x y. x \<in> set L \<Longrightarrow> (x, y) \<in> E \<Longrightarrow> y \<in> insert v V \<union> set L"
    and ordL: "\<And>x y. x \<in> set L \<Longrightarrow> y \<in> set L \<Longrightarrow> (x, y) \<in> (avoid E (insert v V))\<^sup>* \<Longrightarrow>
        \<exists>w. (x, w) \<in> E\<^sup>* \<and> (w, x) \<in> E\<^sup>* \<and> precedes L y w"
    unfolding dfs_ok_def by blast+
  have "\<exists>w. (x, w) \<in> E\<^sup>* \<and> (w, x) \<in> E\<^sup>* \<and> precedes (L @ [v]) y w"
    if x: "x \<in> set (L @ [v])" and y: "y \<in> set (L @ [v])" and path: "(x, y) \<in> (avoid E V)\<^sup>*" for x y
  proof (cases "x = v")
    case True
    with y show ?thesis by (intro exI [of _ v]) (auto intro: precedes_last)
  next
    case False
    with x have xL: "x \<in> set L" by simp
    from avoid_more [OF path, of "{v}"] False
    have "(x, y) \<in> (avoid E (insert v V))\<^sup>* \<or> (x, v) \<in> (avoid E V)\<^sup>*" by auto
    then show ?thesis
    proof
      assume "(x, v) \<in> (avoid E V)\<^sup>*"
      then have "(x, v) \<in> E\<^sup>*" by (rule avoid_rtrancl)
      with from_v [OF xL] y show ?thesis by (intro exI [of _ v]) (simp add: precedes_last)
    next
      assume p: "(x, y) \<in> (avoid E (insert v V))\<^sup>*"
      have "y \<noteq> v"
      proof
        assume "y = v"
        with p False show False by (auto elim: rtranclE simp: avoid_def)
      qed
      with y have "y \<in> set L" by simp
      from ordL [OF xL this p] show ?thesis by (blast intro: precedes_append1)
    qed
  qed
  moreover have "\<forall>x\<in>set (L @ [v]). \<forall>y. (x, y) \<in> E \<longrightarrow> y \<in> V \<union> set (L @ [v])"
    using closedL next_v by auto
  moreover have "set (L @ [v]) \<inter> V = {}" "distinct (L @ [v])" using disj dist v by auto
  ultimately show ?thesis unfolding dfs_ok_def by blast
qed

section \<open>Components\<close>

definition scc :: "(nat \<times> nat) set \<Rightarrow> nat \<Rightarrow> nat set" where
  "scc E v = {w. (w, v) \<in> E\<^sup>* \<and> (v, w) \<in> E\<^sup>*}"

lemma scc_self [simp]: "v \<in> scc E v"
  by (simp add: scc_def)

lemma scc_eq: "w \<in> scc E v \<Longrightarrow> scc E w = scc E v"
  unfolding scc_def by (auto intro: rtrancl_trans)

lemma scc_cycle:
  assumes "scc E v \<noteq> {v}"
  shows "(v, v) \<in> E\<^sup>+"
proof -
  from assms obtain w where "w \<noteq> v" "(w, v) \<in> E\<^sup>*" "(v, w) \<in> E\<^sup>*"
    using scc_self [of v E] unfolding scc_def by blast
  then show ?thesis by (metis rtranclD trancl_rtrancl_trancl)
qed

lemma scc_self_loop: "scc E v = {v} \<Longrightarrow> (v, v) \<in> E\<^sup>+ \<longleftrightarrow> (v, v) \<in> E"
proof
  assume scc: "scc E v = {v}" and "(v, v) \<in> E\<^sup>+"
  then obtain w where "(v, w) \<in> E" "(w, v) \<in> E\<^sup>*" by (meson tranclD)
  then have "w \<in> scc E v" by (auto simp: scc_def)
  with scc \<open>(v, w) \<in> E\<close> show "(v, v) \<in> E" by simp
qed auto

text \<open>The components that contain a cycle.\<close>

definition cyclic_sccs :: "(nat \<times> nat) set \<Rightarrow> nat set set" where
  "cyclic_sccs E = {scc E v | v. (v, v) \<in> E\<^sup>+}"

lemma distinct_split: "distinct (as @ w # bs) \<Longrightarrow> as @ w # bs = cs @ w # ds \<Longrightarrow> as = cs"
proof (induction as arbitrary: cs)
  case Nil
  then show ?case by (cases cs) auto
next
  case (Cons a as)
  then obtain ds' where "cs = a # ds'" by (cases cs) auto
  moreover have "as = ds'" using Cons.IH [of ds'] Cons.prems calculation
    by (metis append_Cons distinct.simps(2) list.inject)
  ultimately show ?case by simp
qed

section \<open>Both searches\<close>

definition edge_rel :: "nat \<Rightarrow> (nat \<Rightarrow> nat list) \<Rightarrow> (nat \<times> nat) set" where
  "edge_rel n adj = {(v, w). v < n \<and> w \<in> set (adj v)}"

text \<open>
  The interface the passes rely on: \<open>n\<close> nodes, adjacency lists that stay below \<open>n\<close>, and
  predecessor lists that mirror the successor lists.
\<close>

locale digraph =
  fixes n :: nat and succs preds :: "nat \<Rightarrow> nat list"
  assumes succs_bound: "w \<in> set (succs v) \<Longrightarrow> v < n \<and> w < n"
    and preds_succs: "w \<in> set (preds v) \<longleftrightarrow> v \<in> set (succs w)"
begin

lemma edge_iff: "(v, w) \<in> edge_rel n succs \<longleftrightarrow> w \<in> set (succs v)"
  using succs_bound by (auto simp: edge_rel_def)

lemma converse_edges: "edge_rel n preds = (edge_rel n succs)\<inverse>"
  using succs_bound by (auto simp: edge_rel_def preds_succs)

lemma edge_bound: "(v, w) \<in> edge_rel n succs \<Longrightarrow> v < n \<and> w < n"
  using succs_bound by (auto simp: edge_rel_def)

lemma free_decreases:
  assumes "v < n" "v \<notin> V"
  shows "card ({0 ..< n} - insert v V) < card ({0 ..< n} - V)"
proof -
  have "{0 ..< n} - insert v V = ({0 ..< n} - V) - {v}" by blast
  moreover have "card (({0 ..< n} - V) - {v}) < card ({0 ..< n} - V)"
    by (rule card_Diff1_less) (use assms in simp_all)
  ultimately show ?thesis by simp
qed

lemma free_mono: "V \<subseteq> W \<Longrightarrow> card ({0 ..< n} - W) \<le> card ({0 ..< n} - V)"
  by (rule card_mono) auto

lemma finish_spec:
  assumes "length vis = n" and "card ({0 ..< n} - vset vis) < fuel"
  shows "\<exists>vis' L. finish_depth_first fuel succs v (vis, fin) = (vis', fin @ L) \<and> length vis' = n \<and>
    vset vis' = vset vis \<union> set L \<and> dfs_ok (edge_rel n succs) (vset vis) L \<and>
    (\<forall>x\<in>set L. (v, x) \<in> (edge_rel n succs)\<^sup>*) \<and> (v < n \<longrightarrow> v \<in> vset vis')"
  using assms
proof (induction fuel arbitrary: v vis fin)
  case (Suc fuel)
  let ?E = "edge_rel n succs"
  have many: "\<exists>vis' L. fold (finish_depth_first fuel succs) ws (vis, fin) = (vis', fin @ L) \<and> length vis' = n \<and>
      vset vis' = vset vis \<union> set L \<and> dfs_ok ?E (vset vis) L \<and>
      (\<forall>x\<in>set L. \<exists>w\<in>set ws. (w, x) \<in> ?E\<^sup>*) \<and> (\<forall>w\<in>set ws. w < n \<longrightarrow> w \<in> vset vis')"
    if "length vis = n" "card ({0 ..< n} - vset vis) < fuel" for ws vis fin
    using that
  proof (induction ws arbitrary: vis fin)
    case Nil
    then show ?case by (intro exI [of _ vis] exI [of _ "[]"]) simp
  next
    case (Cons w ws)
    obtain vis1 L1 where 1: "finish_depth_first fuel succs w (vis, fin) = (vis1, fin @ L1)" "length vis1 = n"
        "vset vis1 = vset vis \<union> set L1" "dfs_ok ?E (vset vis) L1"
        "\<forall>x\<in>set L1. (w, x) \<in> ?E\<^sup>*" "w < n \<longrightarrow> w \<in> vset vis1"
      using Suc.IH [OF Cons.prems] by metis
    have "card ({0 ..< n} - vset vis1) < fuel"
      using Cons.prems(2) free_mono [of "vset vis" "vset vis1"] 1(3) by simp
    from Cons.IH [OF 1(2) this, of "fin @ L1"] obtain vis2 L2 where
        2: "fold (finish_depth_first fuel succs) ws (vis1, fin @ L1) = (vis2, (fin @ L1) @ L2)" "length vis2 = n"
        "vset vis2 = vset vis1 \<union> set L2" "dfs_ok ?E (vset vis1) L2"
        "\<forall>x\<in>set L2. \<exists>w\<in>set ws. (w, x) \<in> ?E\<^sup>*" "\<forall>w\<in>set ws. w < n \<longrightarrow> w \<in> vset vis2"
      by metis
    have "dfs_ok ?E (vset vis) (L1 @ L2)"
      using dfs_ok_append [OF 1(4)] 2(4) 1(3) by simp
    then show ?case
      using 1 2 by (intro exI [of _ vis2] exI [of _ "L1 @ L2"]) auto
  qed
  show ?case
  proof (cases "length vis \<le> v \<or> vis ! v")
    case True
    then show ?thesis using Suc.prems(1)
      by (intro exI [of _ vis] exI [of _ "[]"]) (auto simp: vset_def)
  next
    case False
    then have v: "v < n" "v \<notin> vset vis" using Suc.prems(1) by (auto simp: vset_def)
    let ?vis = "vis[v := True]"
    have set: "vset ?vis = insert v (vset vis)" using v Suc.prems(1) by (simp add: vset_update)
    have "card ({0 ..< n} - vset ?vis) < fuel"
      using free_decreases [OF v] Suc.prems(2) by (simp add: set)
    from many [of ?vis "succs v" fin, OF _ this] Suc.prems(1) obtain vis' L where
        r: "fold (finish_depth_first fuel succs) (succs v) (?vis, fin) = (vis', fin @ L)" "length vis' = n"
        "vset vis' = insert v (vset vis) \<union> set L" "dfs_ok ?E (insert v (vset vis)) L"
        "\<forall>x\<in>set L. \<exists>w\<in>set (succs v). (w, x) \<in> ?E\<^sup>*" "\<forall>w\<in>set (succs v). w < n \<longrightarrow> w \<in> vset vis'"
      by (auto simp: set)
    have from_v: "(v, x) \<in> ?E\<^sup>*" if x: "x \<in> set L" for x
    proof -
      from r(5) x obtain w where "w \<in> set (succs v)" "(w, x) \<in> ?E\<^sup>*" by blast
      then show ?thesis by (meson edge_iff converse_rtrancl_into_rtrancl)
    qed
    have "dfs_ok ?E (vset vis) (L @ [v])"
    proof (rule dfs_ok_node [OF r(4) v(2) _ from_v])
      fix y assume "(v, y) \<in> ?E"
      then show "y \<in> insert v (vset vis) \<union> set L" using r(3,6) edge_iff edge_bound by blast
    qed
    then show ?thesis using False r from_v
      by (intro exI [of _ vis'] exI [of _ "L @ [v]"]) auto
  qed
qed simp

lemma finish_all:
  "\<exists>vis' L. fold (finish_depth_first (Suc n) succs) [0 ..< n] (replicate n False, []) = (vis', L) \<and>
     set L = {0 ..< n} \<and> dfs_ok (edge_rel n succs) {} L"
proof -
  let ?E = "edge_rel n succs" and ?F = "finish_depth_first (Suc n) succs"
  have "\<exists>vis' L. fold ?F vs (vis, fin) = (vis', fin @ L) \<and> length vis' = n \<and> vset vis' = vset vis \<union> set L \<and>
      dfs_ok ?E (vset vis) L \<and> (\<forall>v\<in>set vs. v < n \<longrightarrow> v \<in> vset vis')"
    if "length vis = n" for vs vis fin
    using that
  proof (induction vs arbitrary: vis fin)
    case Nil
    then show ?case by (intro exI [of _ vis] exI [of _ "[]"]) simp
  next
    case (Cons v vs)
    have "card ({0 ..< n} - vset vis) < Suc n"
      using card_mono [of "{0 ..< n}" "{0 ..< n} - vset vis"] by (simp add: less_Suc_eq_le)
    from finish_spec [OF Cons.prems this, of v fin] obtain vis1 L1 where
        1: "?F v (vis, fin) = (vis1, fin @ L1)" "length vis1 = n"
        "vset vis1 = vset vis \<union> set L1" "dfs_ok ?E (vset vis) L1" "v < n \<longrightarrow> v \<in> vset vis1" by metis
    from Cons.IH [OF 1(2), of "fin @ L1"] obtain vis2 L2 where
        2: "fold ?F vs (vis1, fin @ L1) = (vis2, (fin @ L1) @ L2)" "length vis2 = n"
        "vset vis2 = vset vis1 \<union> set L2" "dfs_ok ?E (vset vis1) L2" "\<forall>v\<in>set vs. v < n \<longrightarrow> v \<in> vset vis2" by metis
    have "dfs_ok ?E (vset vis) (L1 @ L2)" using dfs_ok_append [OF 1(4)] 2(4) 1(3) by simp
    then show ?case using 1 2
      by (intro exI [of _ vis2] exI [of _ "L1 @ L2"]) (auto simp del: finish_depth_first.simps)
  qed
  from this [of "replicate n False" "[0 ..< n]" "[]"] obtain vis' L where
      "fold ?F [0 ..< n] (replicate n False, []) = (vis', L)" "length vis' = n" "vset vis' = set L"
      "dfs_ok ?E {} L" "\<forall>v\<in>set [0 ..< n]. v < n \<longrightarrow> v \<in> vset vis'"
    by (auto simp del: finish_depth_first.simps)
  moreover from this have "set L = {0 ..< n}" by (auto simp: vset_def)
  ultimately show ?thesis by blast
qed

text \<open>The backward search collects what reaches the root without entering \<open>V\<close>.\<close>

lemma collect_spec:
  assumes "length vis = n" and "card ({0 ..< n} - vset vis) < fuel"
  shows "\<exists>vis' L. collect_depth_first fuel preds v (vis, acc) = (vis', acc @ L) \<and> length vis' = n \<and>
    vset vis' = vset vis \<union> set L \<and> set L \<inter> vset vis = {} \<and> distinct L \<and>
    (\<forall>x\<in>set L. (v, x) \<in> (avoid (edge_rel n preds) (vset vis))\<^sup>*) \<and>
    (\<forall>x\<in>set L. \<forall>y. (x, y) \<in> edge_rel n preds \<longrightarrow> y \<in> vset vis') \<and> (v < n \<longrightarrow> v \<in> vset vis')"
  using assms
proof (induction fuel arbitrary: v vis acc)
  case (Suc fuel)
  let ?E = "edge_rel n preds"
  have bound: "(x, y) \<in> ?E \<longleftrightarrow> y \<in> set (preds x)" "(x, y) \<in> ?E \<Longrightarrow> y < n" for x y
    using succs_bound by (auto simp: edge_rel_def preds_succs)
  have many: "\<exists>vis' L. fold (collect_depth_first fuel preds) ws (vis, acc) = (vis', acc @ L) \<and> length vis' = n \<and>
      vset vis' = vset vis \<union> set L \<and> set L \<inter> vset vis = {} \<and> distinct L \<and>
      (\<forall>x\<in>set L. \<exists>w\<in>set ws. w \<notin> vset vis \<and> (w, x) \<in> (avoid ?E (vset vis))\<^sup>*) \<and>
      (\<forall>x\<in>set L. \<forall>y. (x, y) \<in> ?E \<longrightarrow> y \<in> vset vis') \<and> (\<forall>w\<in>set ws. w < n \<longrightarrow> w \<in> vset vis')"
    if "length vis = n" "card ({0 ..< n} - vset vis) < fuel" for ws vis acc
    using that
  proof (induction ws arbitrary: vis acc)
    case Nil
    then show ?case by (intro exI [of _ vis] exI [of _ "[]"]) simp
  next
    case (Cons w ws)
    obtain vis1 L1 where 1: "collect_depth_first fuel preds w (vis, acc) = (vis1, acc @ L1)" "length vis1 = n"
        "vset vis1 = vset vis \<union> set L1" "set L1 \<inter> vset vis = {}" "distinct L1"
        "\<forall>x\<in>set L1. (w, x) \<in> (avoid ?E (vset vis))\<^sup>*"
        "\<forall>x\<in>set L1. \<forall>y. (x, y) \<in> ?E \<longrightarrow> y \<in> vset vis1" "w < n \<longrightarrow> w \<in> vset vis1"
      using Suc.IH [OF Cons.prems] by metis
    have "card ({0 ..< n} - vset vis1) < fuel"
      using Cons.prems(2) free_mono [of "vset vis" "vset vis1"] 1(3) by simp
    from Cons.IH [OF 1(2) this, of "acc @ L1"] obtain vis2 L2 where
        2: "fold (collect_depth_first fuel preds) ws (vis1, acc @ L1) = (vis2, (acc @ L1) @ L2)" "length vis2 = n"
        "vset vis2 = vset vis1 \<union> set L2" "set L2 \<inter> vset vis1 = {}" "distinct L2"
        "\<forall>x\<in>set L2. \<exists>w\<in>set ws. w \<notin> vset vis1 \<and> (w, x) \<in> (avoid ?E (vset vis1))\<^sup>*"
        "\<forall>x\<in>set L2. \<forall>y. (x, y) \<in> ?E \<longrightarrow> y \<in> vset vis2" "\<forall>w\<in>set ws. w < n \<longrightarrow> w \<in> vset vis2"
      by metis
    have weaker: "(a, b) \<in> (avoid ?E (vset vis1))\<^sup>* \<Longrightarrow> (a, b) \<in> (avoid ?E (vset vis))\<^sup>*" for a b
      by (rule rtrancl_mono [THEN subsetD, rotated]) (auto simp: avoid_def 1(3))
    have w_new: "w \<notin> vset vis" if x: "x \<in> set L1" for x
    proof
      assume "w \<in> vset vis"
      then have "collect_depth_first fuel preds w (vis, acc) = (vis, acc)"
        by (cases fuel) (auto simp: vset_def)
      with 1(1) x show False by simp
    qed
    have reach: "\<forall>x\<in>set (L1 @ L2). \<exists>u\<in>set (w # ws). u \<notin> vset vis \<and> (u, x) \<in> (avoid ?E (vset vis))\<^sup>*"
    proof
      fix x assume "x \<in> set (L1 @ L2)"
      then consider "x \<in> set L1" | "x \<in> set L2" by auto
      then show "\<exists>u\<in>set (w # ws). u \<notin> vset vis \<and> (u, x) \<in> (avoid ?E (vset vis))\<^sup>*"
      proof cases
        case 1
        with \<open>\<forall>x\<in>set L1. (w, x) \<in> (avoid ?E (vset vis))\<^sup>*\<close> w_new show ?thesis by auto
      next
        case 2
        with \<open>\<forall>x\<in>set L2. \<exists>w\<in>set ws. w \<notin> vset vis1 \<and> (w, x) \<in> (avoid ?E (vset vis1))\<^sup>*\<close>
        obtain u where "u \<in> set ws" "u \<notin> vset vis1" "(u, x) \<in> (avoid ?E (vset vis1))\<^sup>*" by blast
        with weaker \<open>vset vis1 = vset vis \<union> set L1\<close> show ?thesis by auto
      qed
    qed
    show ?case
    proof (intro exI conjI)
      show "fold (collect_depth_first fuel preds) (w # ws) (vis, acc) = (vis2, acc @ (L1 @ L2))"
        using 1(1) 2(1) by simp
    qed (use 1 2 reach in auto)
  qed
  show ?case
  proof (cases "length vis \<le> v \<or> vis ! v")
    case True
    then show ?thesis using Suc.prems(1)
      by (intro exI [of _ vis] exI [of _ "[]"]) (auto simp: vset_def)
  next
    case False
    then have v: "v < n" "v \<notin> vset vis" using Suc.prems(1) by (auto simp: vset_def)
    let ?vis = "vis[v := True]"
    have set: "vset ?vis = insert v (vset vis)" using v Suc.prems(1) by (simp add: vset_update)
    have "card ({0 ..< n} - vset ?vis) < fuel"
      using free_decreases [OF v] Suc.prems(2) by (simp add: set)
    from many [of ?vis "preds v" "acc @ [v]", OF _ this] Suc.prems(1) obtain vis' L where
        r: "fold (collect_depth_first fuel preds) (preds v) (?vis, acc @ [v]) = (vis', (acc @ [v]) @ L)" "length vis' = n"
        "vset vis' = insert v (vset vis) \<union> set L" "set L \<inter> insert v (vset vis) = {}" "distinct L"
        "\<forall>x\<in>set L. \<exists>w\<in>set (preds v). w \<notin> insert v (vset vis) \<and> (w, x) \<in> (avoid ?E (insert v (vset vis)))\<^sup>*"
        "\<forall>x\<in>set L. \<forall>y. (x, y) \<in> ?E \<longrightarrow> y \<in> vset vis'" "\<forall>w\<in>set (preds v). w < n \<longrightarrow> w \<in> vset vis'"
      unfolding set by auto
    have "(v, x) \<in> (avoid ?E (vset vis))\<^sup>*" if x: "x \<in> set L" for x
    proof -
      from r(6) x obtain w where w: "w \<in> set (preds v)" "w \<notin> insert v (vset vis)"
          "(w, x) \<in> (avoid ?E (insert v (vset vis)))\<^sup>*" by blast
      have "(w, x) \<in> (avoid ?E (vset vis))\<^sup>*"
        by (rule rtrancl_mono [THEN subsetD, OF _ w(3)]) (auto simp: avoid_def)
      moreover have "(v, w) \<in> avoid ?E (vset vis)" using w bound(1) by (auto simp: avoid_def)
      ultimately show ?thesis by (rule converse_rtrancl_into_rtrancl [rotated])
    qed
    moreover have "\<forall>y. (v, y) \<in> ?E \<longrightarrow> y \<in> vset vis'" using r(8) bound by blast
    ultimately show ?thesis using False r v
      by (intro exI [of _ vis'] exI [of _ "v # L"]) auto
  qed
qed simp

text \<open>One root of the second pass: in reverse finishing order, what is collected is its component.\<close>

lemma collect_root:
  fixes L us P :: "nat list"
  assumes L: "L = us @ r # P" "set L = {0 ..< n}" "dfs_ok (edge_rel n succs) {} L"
    and vis: "length vis = n" "vset vis = (\<Union>p\<in>set P. scc (edge_rel n succs) p)"
    and r: "r \<notin> vset vis"
  shows "\<exists>vis' C. collect_depth_first (Suc n) preds r (vis, []) = (vis', C) \<and> length vis' = n \<and>
    vset vis' = (\<Union>p\<in>set (r # P). scc (edge_rel n succs) p) \<and> distinct C \<and>
    set C = scc (edge_rel n succs) r"
proof -
  let ?E = "edge_rel n succs" and ?R = "edge_rel n preds"
  have rn: "r < n" using L(1,2) by (metis atLeastLessThan_iff in_set_conv_decomp)
  have "card ({0 ..< n} - vset vis) < Suc n"
    using card_mono [of "{0 ..< n}" "{0 ..< n} - vset vis"] by (simp add: less_Suc_eq_le)
  from collect_spec [OF vis(1) this, of r "[]"] obtain vis' C where
      c: "collect_depth_first (Suc n) preds r (vis, []) = (vis', C)" "length vis' = n"
      "vset vis' = vset vis \<union> set C" "set C \<inter> vset vis = {}" "distinct C"
      and reach: "\<forall>x\<in>set C. (r, x) \<in> (avoid ?R (vset vis))\<^sup>*"
      and closed: "\<forall>x\<in>set C. \<forall>y. (x, y) \<in> ?R \<longrightarrow> y \<in> vset vis'" and root: "r \<in> vset vis'"
    using rn by (metis append_Nil)
  have flip: "(y, x) \<in> ?R\<^sup>* \<longleftrightarrow> (x, y) \<in> ?E\<^sup>*" for x y
    by (simp add: converse_edges rtrancl_converse)
  have "set C = scc ?E r"
  proof (rule set_eqI, rule iffI)
    fix x assume x: "x \<in> set C"
    then have xr: "(x, r) \<in> ?E\<^sup>*" using reach avoid_rtrancl flip by blast
    then have xL: "x \<in> set L"
      using rn by (metis L(2) atLeastLessThan_iff converse_rtranclE edge_bound le0)
    have "r \<in> set L" using L(1) by simp
    with L(3) xL xr obtain w where w: "(x, w) \<in> ?E\<^sup>*" "(w, x) \<in> ?E\<^sup>*" "precedes L r w"
      unfolding dfs_ok_def by force
    from w(3) obtain xs ys where ab: "L = xs @ w # ys" "r \<in> set (xs @ [w])"
      unfolding precedes_def by blast
    have "w \<in> set (r # P)"
    proof (cases "w = r")
      case False
      have "distinct L" using L(3) by (simp add: dfs_ok_def)
      moreover have "w \<in> set us \<or> w \<in> set (r # P)" using L(1) ab(1) by (metis UnE in_set_conv_decomp set_append)
      moreover have False if "w \<in> set us"
      proof -
        from that obtain u1 u2 where "us = u1 @ w # u2" by (auto simp: in_set_conv_decomp)
        then have eq: "xs @ w # ys = u1 @ w # (u2 @ r # P)" using ab(1) L(1) by simp
        have "distinct (xs @ w # ys)" using \<open>distinct L\<close> ab(1) by simp
        then have "xs = u1" using eq distinct_split by metis
        with eq have "r \<in> set ys" by simp
        moreover have "r \<in> set xs" using ab(2) False by simp
        ultimately show False using \<open>distinct (xs @ w # ys)\<close> by auto
      qed
      ultimately show ?thesis by blast
    qed simp
    moreover have "x \<in> scc ?E w" using w by (simp add: scc_def)
    moreover have "x \<notin> vset vis" using x c(4) by blast
    ultimately have "w = r" using vis(2) by auto
    with \<open>x \<in> scc ?E w\<close> show "x \<in> scc ?E r" by simp
  next
    fix x assume "x \<in> scc ?E r"
    then have rx: "(r, x) \<in> ?R\<^sup>*" and xr: "(r, x) \<in> ?E\<^sup>*" by (auto simp: scc_def flip)
    have "x \<in> set C \<or> (r, x) \<notin> ?E\<^sup>*"
      using rx
    proof (induction rule: rtrancl_induct)
      case base
      then show ?case using root r c(3) by blast
    next
      case (step y z)
      show ?case
      proof (rule disjCI)
        assume "\<not> (r, z) \<notin> ?E\<^sup>*"
        moreover have zy: "(z, y) \<in> ?E" using step(2) by (simp add: converse_edges)
        ultimately have "y \<in> set C" using step(3) by (meson rtrancl.rtrancl_into_rtrancl not_not)
        moreover have "z \<notin> vset vis"
        proof
          assume "z \<in> vset vis"
          then obtain p where p: "p \<in> set P" "z \<in> scc ?E p" using vis(2) by blast
          have "(z, r) \<in> ?E\<^sup>*" using zy step(1) flip by (meson converse_rtrancl_into_rtrancl)
          with p(2) \<open>\<not> (r, z) \<notin> ?E\<^sup>*\<close> have "r \<in> scc ?E p"
            unfolding scc_def by (auto intro: rtrancl_trans)
          with p(1) r vis(2) show False by blast
        qed
        ultimately show "z \<in> set C" using closed step(2) c(3) by blast
      qed
    qed
    with xr show "x \<in> set C" by blast
  qed
  with c vis(2) show ?thesis by (intro exI [of _ vis'] exI [of _ C]) auto
qed

end

end
