(* ===== verification/Order_Cycles.thy ===== *)
theory Order_Cycles
  imports Order_Scc
begin

text \<open>
  The index that \<open>index_edges\<close> builds, the graph of its active edges, and what
  \<open>cyclic_components\<close> finds in it.
\<close>

section \<open>The index of a list of edges\<close>

definition in_range :: "nat \<Rightarrow> (nat \<times> nat) list \<Rightarrow> bool" where
  "in_range n ends \<longleftrightarrow> (\<forall>(a, b)\<in>set ends. a < n \<and> b < n)"

definition clip :: "nat \<Rightarrow> (nat \<times> nat) list \<Rightarrow> (nat \<times> nat) list" where
  "clip n ends = filter (\<lambda>(a, b). a < n \<and> b < n) ends"

lemma clip_in_range: "in_range n (clip n ends)"
  by (auto simp: in_range_def clip_def)

lemma clip_id: "in_range n ends \<Longrightarrow> clip n ends = ends"
  unfolding in_range_def clip_def by (rule filter_True) auto

definition edges_at :: "(nat \<times> nat \<Rightarrow> nat) \<Rightarrow> (nat \<times> nat) list \<Rightarrow> nat \<Rightarrow> nat list" where
  "edges_at f ends v = filter (\<lambda>i. f (ends ! i) = v) [0 ..< length ends]"

definition built :: "nat \<Rightarrow> (nat \<times> nat) list \<Rightarrow> indexed_edges" where
  "built n ends = (let ends = clip n ends in \<lparr>endpoints = ends,
     forward = map (edges_at fst ends) [0 ..< n], backward = map (edges_at snd ends) [0 ..< n]\<rparr>)"

lemma edges_at_snoc: "edges_at f (ends @ [e]) v = edges_at f ends v @ (if f e = v then [length ends] else [])"
  by (auto simp: edges_at_def nth_append intro: filter_cong)

lemma set_edges_at: "set (edges_at f ends v) = {i. i < length ends \<and> f (ends ! i) = v}"
  by (auto simp: edges_at_def)

lemma built_sel:
  "in_range n ends \<Longrightarrow> endpoints (built n ends) = ends"
  "length (forward (built n ends)) = n" "length (backward (built n ends)) = n"
  "in_range n ends \<Longrightarrow> v < n \<Longrightarrow> forward (built n ends) ! v = edges_at fst ends v"
  "in_range n ends \<Longrightarrow> v < n \<Longrightarrow> backward (built n ends) ! v = edges_at snd ends v"
  by (simp_all add: built_def clip_id Let_def)

lemma in_range_snoc: "in_range n (ends @ [(a, b)]) \<longleftrightarrow> in_range n ends \<and> a < n \<and> b < n"
  by (auto simp: in_range_def)

lemma built_snoc:
  assumes "in_range n ends" "a < n" "b < n"
  shows "built n (ends @ [(a, b)]) = (built n ends)\<lparr>endpoints := ends @ [(a, b)],
    forward := (forward (built n ends))[a := edges_at fst ends a @ [length ends]],
    backward := (backward (built n ends))[b := edges_at snd ends b @ [length ends]]\<rparr>"
  using assms
  by (auto simp: built_def Let_def clip_id in_range_snoc edges_at_snoc intro!: nth_equalityI
      simp: nth_list_update)

text \<open>The edges, as pairs of positions of the node list.\<close>

definition ends_of :: "rstr list \<Rightarrow> order_edge list \<Rightarrow> (nat \<times> nat) list" where
  "ends_of ids es = map (\<lambda>e. (the (index_of (e_from e) ids), the (index_of (e_to e) ids))) es"

lemma index_of_Some: "index_of k xs = Some i \<Longrightarrow> i < length xs \<and> xs ! i = k"
  by (induction xs arbitrary: i) (auto split: if_splits)

lemma index_of_exists: "k \<in> set xs \<Longrightarrow> \<exists>i. index_of k xs = Some i"
  by (induction xs) auto

lemma index_of_nth: "distinct xs \<Longrightarrow> i < length xs \<Longrightarrow> index_of (xs ! i) xs = Some i"
  by (induction xs arbitrary: i) (auto simp: nth_Cons split: nat.splits)

lemma index_edges_steps:
  assumes "in_range (length ids) ends"
    and "rfold (index_edge ids) (List.enumerate (length ends) es) (built (length ids) ends) = Inr ix"
  shows "ix = built (length ids) (ends @ ends_of ids es) \<and> in_range (length ids) (ends @ ends_of ids es) \<and>
    (\<forall>e\<in>set es. e_from e \<in> set ids \<and> e_to e \<in> set ids)"
  using assms
proof (induction es arbitrary: ends)
  case Nil
  then show ?case by (simp add: ends_of_def)
next
  case (Cons e es)
  from Cons.prems(2) obtain a b where
      ab: "index_of (e_from e) ids = Some a" "index_of (e_to e) ids = Some b"
    by (auto simp: index_edge_def rbind_eq_Inr ok_or_eq_Inr)
  then have lt: "a < length ids" "b < length ids" "ids ! a = e_from e" "ids ! b = e_to e"
    using index_of_Some by metis+
  then have known: "e_from e \<in> set ids" "e_to e \<in> set ids" using nth_mem by metis+
  have "index_edge ids (length ends, e) (built (length ids) ends) = Inr (built (length ids) (ends @ [(a, b)]))"
    using lt Cons.prems(1)
    by (simp add: index_edge_def ab ok_or_simps rbind_simps built_sel built_snoc)
  with Cons.prems(2)
  have "rfold (index_edge ids) (List.enumerate (length (ends @ [(a, b)])) es) (built (length ids) (ends @ [(a, b)])) = Inr ix"
    by (simp add: rbind_simps)
  from Cons.IH [OF _ this] Cons.prems(1) lt ab known show ?case
    by (auto simp: in_range_snoc ends_of_def)
qed

lemma built_Nil: "built n [] = \<lparr>endpoints = [], forward = replicate n [], backward = replicate n []\<rparr>"
  by (simp add: built_def clip_def Let_def edges_at_def list_eq_iff_nth_eq)

lemma index_edges_built:
  assumes "index_edges g = Inr ix"
  shows "ix = built (length (nodes g)) (ends_of (map fst (nodes g)) (edges g))"
    "in_range (length (nodes g)) (ends_of (map fst (nodes g)) (edges g))"
  using index_edges_steps [of "map fst (nodes g)" "[]" "edges g" ix] assms
  by (simp_all add: index_edges_def Let_def built_Nil in_range_def)

lemma index_edges_total:
  assumes "\<forall>e\<in>set (edges g). e_from e \<in> fst ` set (nodes g) \<and> e_to e \<in> fst ` set (nodes g)"
  shows "\<exists>ix. index_edges g = Inr ix"
proof -
  let ?ids = "map fst (nodes g)"
  have "\<exists>ix'. rfold (index_edge ?ids) ies ix = Inr ix'"
    if "length (forward ix) = length ?ids" "length (backward ix) = length ?ids"
      "\<forall>(i, e)\<in>set ies. e_from e \<in> set ?ids \<and> e_to e \<in> set ?ids" for ies ix
    using that
  proof (induction ies arbitrary: ix)
    case (Cons ie ies)
    obtain i e where ie: "ie = (i, e)" by (cases ie)
    with Cons.prems(3) obtain a b where "index_of (e_from e) ?ids = Some a" "index_of (e_to e) ?ids = Some b"
      using index_of_exists by (metis (no_types, lifting) case_prodD list.set_intros(1))
    moreover from this have "a < length ?ids" "b < length ?ids" using index_of_Some by metis+
    ultimately show ?case using Cons ie
      by (auto simp: index_edge_def rbind_simps ok_or_simps)
  qed simp
  moreover have "\<forall>(i, e)\<in>set (List.enumerate 0 (edges g)). e_from e \<in> set ?ids \<and> e_to e \<in> set ?ids"
    using assms by (auto simp: enumerate_eq_zip dest!: set_zip_rightD)
  ultimately show ?thesis unfolding index_edges_def Let_def by simp
qed

section \<open>The graph of the active edges\<close>

definition live :: "(nat \<times> nat) list \<Rightarrow> bool list \<Rightarrow> (nat \<times> nat) set" where
  "live ends active = {ends ! i | i. i < length ends \<and> is_active active i}"

lemma live_mono: "(\<And>i. is_active x i \<Longrightarrow> is_active y i) \<Longrightarrow> live ends x \<subseteq> live ends y"
  by (auto simp: live_def)

lemma set_successors:
  "in_range n ends \<Longrightarrow> set (successors (built n ends) active v) = (if v < n then {w. (v, w) \<in> live ends active} else {})"
  by (auto simp: successors_def built_sel set_map_filter set_edges_at live_def) (metis fst_conv snd_conv)

lemma set_predecessors:
  "in_range n ends \<Longrightarrow> set (predecessors (built n ends) active v) = (if v < n then {w. (w, v) \<in> live ends active} else {})"
  by (auto simp: predecessors_def built_sel set_map_filter set_edges_at live_def) (metis fst_conv snd_conv)

lemma live_bound: "in_range n ends \<Longrightarrow> (a, b) \<in> live ends active \<Longrightarrow> a < n \<and> b < n"
  unfolding in_range_def live_def by (force dest: nth_mem)

lemma built_clip: "built n ends = built n (clip n ends)"
  by (simp add: built_def Let_def clip_def)

interpretation page: digraph n "successors (built n ends) active" "predecessors (built n ends) active"
  for n ends active
proof unfold_locales
  show "v < n \<and> w < n" if "w \<in> set (successors (built n ends) active v)" for v w
    using that live_bound [OF clip_in_range] unfolding built_clip [of n ends]
    by (auto simp: set_successors [OF clip_in_range] split: if_splits)
  show "w \<in> set (predecessors (built n ends) active v) \<longleftrightarrow> v \<in> set (successors (built n ends) active w)" for v w
    unfolding built_clip [of n ends]
    by (auto simp: set_successors [OF clip_in_range] set_predecessors [OF clip_in_range]
        dest: live_bound [OF clip_in_range])
qed

lemma edge_rel_live:
  "in_range n ends \<Longrightarrow> edge_rel n (successors (built n ends) active) = live ends active"
  by (auto simp: edge_rel_def set_successors dest: live_bound)

lemma self_loop_live:
  "in_range n ends \<Longrightarrow> v < n \<Longrightarrow> has_self_loop (built n ends) active v \<longleftrightarrow> (v, v) \<in> live ends active"
  by (simp add: has_self_loop_def built_sel set_edges_at live_def) (metis fst_conv)

section \<open>The cyclic components\<close>

lemma collect_steps:
  assumes r: "in_range n ends" and "length vis = n" "vset vis = (\<Union>p\<in>set P. scc (live ends active) p)"
    and L: "L = us @ P" "set L = {0 ..< n}" "dfs_ok (live ends active) {} L"
    and found: "set ` set cs = {scc (live ends active) v | v. v \<in> set P \<and> (v, v) \<in> (live ends active)\<^sup>+}"
      "\<forall>c\<in>set cs. sorted c \<and> distinct c" "distinct cs"
  shows "\<exists>vis' cs'. fold (collect_step (built n ends) active) (rev us) (vis, cs) = (vis', cs') \<and>
    set ` set cs' = {scc (live ends active) v | v. v \<in> set L \<and> (v, v) \<in> (live ends active)\<^sup>+} \<and>
    (\<forall>c\<in>set cs'. sorted c \<and> distinct c) \<and> distinct cs'"
  using assms(2-)
proof (induction us arbitrary: vis cs P rule: rev_induct)
  case Nil
  then show ?case by (intro exI [of _ vis] exI [of _ cs]) simp
next
  case (snoc r us)
  let ?E = "live ends active"
  note E = edge_rel_live [OF r, of active]
  have split: "L = us @ r # P" using snoc.prems(3) by simp
  have rn: "r < n" using split snoc.prems(4) by (metis atLeastLessThan_iff in_set_conv_decomp)
  show ?case
  proof (cases "r \<in> vset vis")
    case True
    then obtain p where p: "p \<in> set P" "r \<in> scc ?E p" using snoc.prems(2) by blast
    then have same: "scc ?E r = scc ?E p" by (simp add: scc_eq)
    have cyc: "(r, r) \<in> ?E\<^sup>+ \<Longrightarrow> (p, p) \<in> ?E\<^sup>+"
      using p(2) by (auto simp: scc_def)
    have "collect_step (built n ends) active r (vis, cs) = (vis, cs)"
      using True by (auto simp: collect_step_def vset_def)
    moreover have "vset vis = (\<Union>q\<in>set (r # P). scc ?E q)" using snoc.prems(2) p(1) same by auto
    moreover have "set ` set cs = {scc ?E v | v. v \<in> set (r # P) \<and> (v, v) \<in> ?E\<^sup>+}"
      unfolding snoc.prems(6) using p(1) same cyc by auto
    ultimately show ?thesis using snoc.IH [OF snoc.prems(1) _ split snoc.prems(4,5) _ snoc.prems(7,8)] by simp
  next
    case False
    from page.collect_root [of L us r P n ends active vis] obtain vis1 C where
        c: "collect_depth_first (Suc n) (predecessors (built n ends) active) r (vis, []) = (vis1, C)"
        "length vis1 = n" "vset vis1 = (\<Union>q\<in>set (r # P). scc ?E q)" "distinct C" "set C = scc ?E r"
      using split snoc.prems(1,2,4,5) False unfolding E by blast
    let ?cs = "if 1 < length C \<or> length C = 1 \<and> has_self_loop (built n ends) active r then cs @ [sort C] else cs"
    have step: "collect_step (built n ends) active r (vis, cs) = (vis1, ?cs)"
      using False rn snoc.prems(1) c(1) by (simp add: collect_step_def vset_def)
    have test: "1 < length C \<or> length C = 1 \<and> has_self_loop (built n ends) active r \<longleftrightarrow> (r, r) \<in> ?E\<^sup>+"
    proof (cases "scc ?E r = {r}")
      case True
      with c(4,5) have "length C = 1" by (metis card_1_singleton_iff distinct_card One_nat_def)
      with True show ?thesis by (simp add: self_loop_live [OF r rn] scc_self_loop)
    next
      case no: False
      have "1 < length C"
      proof (rule ccontr)
        assume "\<not> 1 < length C"
        then have "length C = 0 \<or> length C = Suc 0" by arith
        then have "set C = {} \<or> (\<exists>x. set C = {x})" by (auto simp: length_Suc_conv)
        with no c(5) scc_self [of r ?E] show False by (metis empty_iff singletonD)
      qed
      with scc_cycle [OF no] show ?thesis by simp
    qed
    have sets: "set ` set ?cs = {scc ?E v | v. v \<in> set (r # P) \<and> (v, v) \<in> ?E\<^sup>+}"
      unfolding test using snoc.prems(6) c(5) by (auto simp del: scc_self)
    have fresh: "sort C \<notin> set cs"
    proof
      assume "sort C \<in> set cs"
      then have "set (sort C) \<in> set ` set cs" by blast
      then obtain v where "v \<in> set P" "set (sort C) = scc ?E v" unfolding snoc.prems(6) by blast
      with c(5) have "r \<in> scc ?E v" using scc_self [of r ?E] by simp
      with \<open>v \<in> set P\<close> False snoc.prems(2) show False by blast
    qed
    have "\<forall>c\<in>set ?cs. sorted c \<and> distinct c" "distinct ?cs"
      using snoc.prems(7,8) c(4) fresh by auto
    from snoc.IH [OF c(2,3) split snoc.prems(4,5) sets this] show ?thesis by (simp add: step)
  qed
qed

lemma cyclic_components_spec:
  assumes "in_range n ends"
  shows "set ` set (cyclic_components (built n ends) active) = cyclic_sccs (live ends active)"
    and "\<forall>c\<in>set (cyclic_components (built n ends) active). sorted c \<and> distinct c"
    and "distinct (cyclic_components (built n ends) active)"
proof -
  let ?E = "live ends active"
  note E = edge_rel_live [OF assms, of active]
  from page.finish_all [of n ends active] obtain vis L where
      f: "fold (finish_depth_first (Suc n) (successors (built n ends) active)) [0 ..< n] (replicate n False, []) = (vis, L)"
      "set L = {0 ..< n}" "dfs_ok ?E {} L" unfolding E by blast
  from collect_steps [OF assms _ _ _ f(2,3), of "replicate n False" "[]" L "[]"] obtain vis' cs where
      c: "fold (collect_step (built n ends) active) (rev L) (replicate n False, []) = (vis', cs)"
      "set ` set cs = {scc ?E v | v. v \<in> set L \<and> (v, v) \<in> ?E\<^sup>+}" "\<forall>c\<in>set cs. sorted c \<and> distinct c" "distinct cs"
    by auto
  have eq: "cyclic_components (built n ends) active = sort_key hd cs"
    using f(1) c(1) by (simp add: cyclic_components_def built_sel Let_def)
  have bound: "v \<in> set L" if "(v, v) \<in> ?E\<^sup>+" for v
    using that f(2) live_bound [OF assms] by (metis atLeastLessThan_iff le0 tranclD)
  show "set ` set (cyclic_components (built n ends) active) = cyclic_sccs ?E"
    unfolding eq using c(2) bound by (auto simp: cyclic_sccs_def)
  show "\<forall>c\<in>set (cyclic_components (built n ends) active). sorted c \<and> distinct c"
    "distinct (cyclic_components (built n ends) active)"
    unfolding eq using c(3,4) by simp_all
qed

end
