(* ===== verification/Order_Removal.thy ===== *)
theory Order_Removal
  imports Order_Cycles
begin

text \<open>
  The rounds of \<open>resolve\<close> that break cycles: each round takes the weakest removable edge of
  every cyclic component, the rounds end, and they fail exactly when the strong edges alone
  form a cycle.
\<close>

section \<open>Membership\<close>

definition apart :: "nat list list \<Rightarrow> bool" where
  "apart cs \<longleftrightarrow> (\<forall>i<length cs. \<forall>j<length cs. \<forall>v. v \<in> set (cs ! i) \<longrightarrow> v \<in> set (cs ! j) \<longrightarrow> i = j)"

lemma mark_spec:
  "length (fold (\<lambda>v m. if v < length m then m[v := x] else m) vs m) = length m"
  "v < length m \<Longrightarrow>
    fold (\<lambda>v m. if v < length m then m[v := x] else m) vs m ! v = (if v \<in> set vs then x else m ! v)"
  by (induction vs arbitrary: m) (auto simp: nth_list_update)

lemma marks_spec:
  "length (fold (\<lambda>(c, component). fold (\<lambda>v m. if v < length m then m[v := Some c] else m) component)
     (List.enumerate k cs) m) = length m"
  "v < length m \<Longrightarrow> \<forall>c\<in>set cs. v \<notin> set c \<Longrightarrow>
    fold (\<lambda>(c, component). fold (\<lambda>v m. if v < length m then m[v := Some c] else m) component)
      (List.enumerate k cs) m ! v = m ! v"
  by (induction cs arbitrary: k m) (auto simp: mark_spec)

lemma memberships_length: "length (memberships n cs) = n"
  by (simp add: memberships_def marks_spec)

lemma member_of_memberships:
  assumes "apart cs" and "\<forall>c\<in>set cs. \<forall>v\<in>set c. v < n"
  shows "member_of (memberships n cs) v = Some i \<longleftrightarrow> i < length cs \<and> v \<in> set (cs ! i)"
proof (cases "\<exists>j<length cs. v \<in> set (cs ! j)")
  case True
  then obtain j where j: "j < length cs" "v \<in> set (cs ! j)" by blast
  have vn: "v < n" using assms(2) j nth_mem by blast
  have split: "cs = take j cs @ cs ! j # drop (Suc j) cs" by (rule id_take_nth_drop [OF j(1)])
  have "v \<notin> set c" if c: "c \<in> set (drop (Suc j) cs)" for c
  proof
    assume "v \<in> set c"
    moreover from c obtain l where "l < length cs - Suc j" "c = cs ! (Suc j + l)"
      by (auto simp: in_set_conv_nth)
    ultimately have "Suc j + l = j" using assms(1) j unfolding apart_def by auto
    then show False by simp
  qed
  then have "memberships n cs ! v = Some j"
    unfolding memberships_def
    by (subst split) (use vn j in \<open>auto simp: enumerate_append_eq marks_spec mark_spec min_def\<close>)
  moreover have "i < length cs \<and> v \<in> set (cs ! i) \<longleftrightarrow> i = j"
    using assms(1) j unfolding apart_def by blast
  ultimately show ?thesis using vn by (auto simp: member_of_def memberships_length)
next
  case False
  then have "\<forall>c\<in>set cs. v \<notin> set c" by (metis in_set_conv_nth)
  then have "v < n \<Longrightarrow> memberships n cs ! v = None"
    by (simp add: memberships_def marks_spec)
  with False show ?thesis by (auto simp: member_of_def memberships_length)
qed

section \<open>The weakest removable edge of each component\<close>

definition removable ::
  "order_edge list \<Rightarrow> (nat \<times> nat) list \<Rightarrow> bool list \<Rightarrow> nat list \<Rightarrow> nat \<Rightarrow> bool" where
  "removable es ends active c i \<longleftrightarrow> i < length es \<and> is_active active i \<and> \<not> is_strong (e_source (es ! i)) \<and>
     fst (ends ! i) \<in> set c \<and> snd (ends ! i) \<in> set c"

definition weakest ::
  "order_edge list \<Rightarrow> (nat \<times> nat) list \<Rightarrow> bool list \<Rightarrow> nat list \<Rightarrow> nat \<Rightarrow> bool" where
  "weakest es ends active c i \<longleftrightarrow> removable es ends active c i \<and>
     (\<forall>j. removable es ends active c j \<longrightarrow> removal_key (es ! i) \<le> removal_key (es ! j))"

lemma select_step:
  assumes apart: "apart cs" "\<forall>c\<in>set cs. \<forall>v\<in>set c. v < n" and ends: "length ends = length es"
    and m: "m < length es" and sel: "length sel = length cs"
    and before: "\<And>c i. c < length cs \<Longrightarrow> sel ! c = Some i \<Longrightarrow> removable es ends active (cs ! c) i \<and>
        (\<forall>j<m. removable es ends active (cs ! c) j \<longrightarrow> removal_key (es ! i) \<le> removal_key (es ! j))"
      "\<And>c. c < length cs \<Longrightarrow> sel ! c = None \<Longrightarrow> \<forall>j<m. \<not> removable es ends active (cs ! c) j"
  shows "\<exists>sel'. select_edge es ends active (memberships n cs) (m, es ! m) sel = Inr sel' \<and> length sel' = length cs \<and>
    (\<forall>c<length cs. case sel' ! c of
        Some i \<Rightarrow> removable es ends active (cs ! c) i \<and>
          (\<forall>j<Suc m. removable es ends active (cs ! c) j \<longrightarrow> removal_key (es ! i) \<le> removal_key (es ! j))
      | None \<Rightarrow> \<forall>j<Suc m. \<not> removable es ends active (cs ! c) j)"
proof -
  obtain a b where ab: "ends ! m = (a, b)" by (cases "ends ! m")
  note mem = member_of_memberships [OF apart]
  have rem: "removable es ends active (cs ! c) m \<longleftrightarrow> is_active active m \<and> \<not> is_strong (e_source (es ! m)) \<and>
      member_of (memberships n cs) a = Some c \<and> member_of (memberships n cs) b = Some c" if "c < length cs" for c
    using that m ab by (auto simp: removable_def mem)
  have same: "\<forall>c<length cs. case sel ! c of
        Some i \<Rightarrow> removable es ends active (cs ! c) i \<and>
          (\<forall>j<Suc m. removable es ends active (cs ! c) j \<longrightarrow> removal_key (es ! i) \<le> removal_key (es ! j))
      | None \<Rightarrow> \<forall>j<Suc m. \<not> removable es ends active (cs ! c) j"
    if "\<forall>c<length cs. \<not> removable es ends active (cs ! c) m"
    using that before by (auto simp: less_Suc_eq split: option.split)
  show ?thesis
  proof (cases "\<exists>c<length cs. removable es ends active (cs ! c) m")
    case False
    then have "select_edge es ends active (memberships n cs) (m, es ! m) sel = Inr sel"
      using m ends ab mem [of a] by (auto simp: select_edge_def get_at_def rem split: option.split)
    with same False sel show ?thesis by blast
  next
    case True
    then obtain c where c: "c < length cs" "removable es ends active (cs ! c) m" by blast
    with rem have mm: "is_active active m" "\<not> is_strong (e_source (es ! m))"
        "member_of (memberships n cs) a = Some c" "member_of (memberships n cs) b = Some c" by auto
    have other: "\<not> removable es ends active (cs ! d) m" if "d < length cs" "d \<noteq> c" for d
      using rem [OF that(1)] mm(3) that(2) by simp
    let ?better = "case sel ! c of None \<Rightarrow> True | Some j \<Rightarrow> removal_key (es ! m) < removal_key (es ! j)"
    have old: "sel ! c = Some j \<Longrightarrow> j < length es" for j
      using before(1) [OF c(1)] by (auto simp: removable_def)
    have step: "select_edge es ends active (memberships n cs) (m, es ! m) sel =
        Inr (if ?better then sel[c := Some m] else sel)"
      using m ends ab mm c(1) sel old
      by (auto simp: select_edge_def get_at_def member_of_def [of sel] Let_def split: option.split)
    show ?thesis
    proof (intro exI conjI)
      show "select_edge es ends active (memberships n cs) (m, es ! m) sel =
        Inr (if ?better then sel[c := Some m] else sel)" by (rule step)
      show "length (if ?better then sel[c := Some m] else sel) = length cs" using sel by simp
      show "\<forall>d<length cs. case (if ?better then sel[c := Some m] else sel) ! d of
          Some i \<Rightarrow> removable es ends active (cs ! d) i \<and>
            (\<forall>j<Suc m. removable es ends active (cs ! d) j \<longrightarrow> removal_key (es ! i) \<le> removal_key (es ! j))
        | None \<Rightarrow> \<forall>j<Suc m. \<not> removable es ends active (cs ! d) j"
      proof (intro allI impI)
        fix d assume d: "d < length cs"
        show "case (if ?better then sel[c := Some m] else sel) ! d of
          Some i \<Rightarrow> removable es ends active (cs ! d) i \<and>
            (\<forall>j<Suc m. removable es ends active (cs ! d) j \<longrightarrow> removal_key (es ! i) \<le> removal_key (es ! j))
        | None \<Rightarrow> \<forall>j<Suc m. \<not> removable es ends active (cs ! d) j"
        proof (cases "d = c")
          case False
          then show ?thesis using before [OF d] other [OF d False]
            by (auto simp: less_Suc_eq split: option.split)
        next
          case True
          show ?thesis
          proof (cases "sel ! c")
            case None
            with True c sel before(2) [OF c(1)] show ?thesis by (auto simp: less_Suc_eq)
          next
            case (Some i)
            with True c sel before(1) [OF c(1) Some] show ?thesis
              by (auto simp: less_Suc_eq not_less intro: less_imp_le order.strict_trans2)
          qed
        qed
      qed
    qed
  qed
qed

lemma select_spec:
  assumes "apart cs" "\<forall>c\<in>set cs. \<forall>v\<in>set c. v < n" and "length ends = length es"
  shows "\<exists>sel. rfold (select_edge es ends active (memberships n cs)) (List.enumerate 0 es) (replicate (length cs) None) = Inr sel \<and>
    length sel = length cs \<and>
    (\<forall>c<length cs. case sel ! c of Some i \<Rightarrow> weakest es ends active (cs ! c) i
       | None \<Rightarrow> \<forall>j. \<not> removable es ends active (cs ! c) j)"
proof -
  have "\<exists>sel. rfold (select_edge es ends active (memberships n cs)) (List.enumerate 0 (take m es)) (replicate (length cs) None) = Inr sel \<and>
      length sel = length cs \<and>
      (\<forall>c<length cs. case sel ! c of
          Some i \<Rightarrow> removable es ends active (cs ! c) i \<and>
            (\<forall>j<m. removable es ends active (cs ! c) j \<longrightarrow> removal_key (es ! i) \<le> removal_key (es ! j))
        | None \<Rightarrow> \<forall>j<m. \<not> removable es ends active (cs ! c) j)" if "m \<le> length es" for m
    using that
  proof (induction m)
    case (Suc m)
    then obtain sel where sel: "rfold (select_edge es ends active (memberships n cs)) (List.enumerate 0 (take m es)) (replicate (length cs) None) = Inr sel"
        "length sel = length cs"
      and inv: "\<forall>c<length cs. case sel ! c of
          Some i \<Rightarrow> removable es ends active (cs ! c) i \<and>
            (\<forall>j<m. removable es ends active (cs ! c) j \<longrightarrow> removal_key (es ! i) \<le> removal_key (es ! j))
        | None \<Rightarrow> \<forall>j<m. \<not> removable es ends active (cs ! c) j" by auto
    have m: "m < length es" using Suc.prems by simp
    have snoc: "List.enumerate 0 (take (Suc m) es) = List.enumerate 0 (take m es) @ [(m, es ! m)]"
      using m by (simp add: take_Suc_conv_app_nth enumerate_append_eq)
    show ?case unfolding snoc rfold_append sel(1)
      using select_step [OF assms m sel(2), of active] inv by (force simp: rbind_eq_Inr)
  qed simp
  from this [of "length es"] show ?thesis
    by (fastforce simp: weakest_def removable_def split: option.split_asm option.split)
qed

section \<open>One round\<close>

definition deactivate :: "nat list \<Rightarrow> bool list \<Rightarrow> bool list" where
  "deactivate is active = fold (\<lambda>i act. act[i := False]) is active"

lemma deactivate_simps [simp]:
  "deactivate [] active = active"
  "deactivate (i # is) active = deactivate is (active[i := False])"
  by (simp_all add: deactivate_def)

lemma is_active_update: "is_active (active[j := False]) i \<longleftrightarrow> is_active active i \<and> i \<noteq> j"
  by (cases "i = j") (auto simp: is_active_def)

lemma deactivate_spec:
  "length (deactivate is active) = length active"
  "is_active (deactivate is active) i \<longleftrightarrow> is_active active i \<and> i \<notin> set is"
  by (induction "is" arbitrary: active) (auto simp: is_active_update)

lemma remove_all:
  assumes "length active = length es" and "\<forall>i\<in>set is. i < length es"
  shows "rfold (remove_selected es) (map Some is) (active, removed) =
    Inr (deactivate is active, removed @ map (\<lambda>i. removed_of (es ! i)) is)"
  using assms
  by (induction "is" arbitrary: active removed) (simp_all add: remove_selected_def deactivate_def)

lemma remove_missing:
  assumes "length active = length es" and "\<forall>i. Some i \<in> set sel \<longrightarrow> i < length es" and "None \<in> set sel"
  shows "rfold (remove_selected es) sel (active, removed) = Inl InternalOrderConflict"
  using assms
  by (induction sel arbitrary: active removed) (auto simp: remove_selected_def split: option.split)

lemma break_cycles_spec:
  assumes "apart cs" "\<forall>c\<in>set cs. \<forall>v\<in>set c. v < n" and "length ends = length es" "length active = length es"
    and r: "in_range n ends"
  shows "(\<exists>is. list_all2 (weakest es ends active) cs is \<and>
      break_cycles es (built n ends) cs (active, removed) =
        Inr (deactivate is active, removed @ map (\<lambda>i. removed_of (es ! i)) is)) \<or>
    (\<exists>c\<in>set cs. (\<forall>j. \<not> removable es ends active c j) \<and>
      break_cycles es (built n ends) cs (active, removed) = Inl InternalOrderConflict)"
proof -
  from select_spec [OF assms(1-3), of active] obtain sel where
      sel: "rfold (select_edge es ends active (memberships n cs)) (List.enumerate 0 es) (replicate (length cs) None) = Inr sel"
      "length sel = length cs"
    and each: "\<And>c. c < length cs \<Longrightarrow> case sel ! c of Some i \<Rightarrow> weakest es ends active (cs ! c) i
       | None \<Rightarrow> \<forall>j. \<not> removable es ends active (cs ! c) j" by blast
  have eq: "break_cycles es (built n ends) cs (active, removed) = rfold (remove_selected es) sel (active, removed)"
    by (simp add: break_cycles_def built_sel r sel(1))
  have bound: "i < length es" if "Some i \<in> set sel" for i
  proof -
    from that sel(2) obtain c where "c < length cs" "sel ! c = Some i" by (auto simp: in_set_conv_nth)
    with each [of c] show ?thesis by (simp add: weakest_def removable_def)
  qed
  show ?thesis
  proof (cases "None \<in> set sel")
    case True
    then obtain c where "c < length cs" "sel ! c = None" using sel(2) by (auto simp: in_set_conv_nth)
    with each [of c] have "\<forall>j. \<not> removable es ends active (cs ! c) j" "cs ! c \<in> set cs" by simp_all
    moreover have "rfold (remove_selected es) sel (active, removed) = Inl InternalOrderConflict"
      by (rule remove_missing [OF assms(4) _ True]) (use bound in blast)
    ultimately show ?thesis unfolding eq by blast
  next
    case False
    have some: "map Some (map the sel) = sel"
      unfolding map_map
    proof (rule map_idI)
      fix x assume "x \<in> set sel"
      with False show "(Some \<circ> the) x = x" by (cases x) simp_all
    qed
    obtain "is" where eq_is: "is = map the sel" by blast
    have "list_all2 (weakest es ends active) cs is"
      unfolding eq_is
    proof (rule list_all2_all_nthI)
      fix c assume c: "c < length cs"
      with False sel(2) have "sel ! c \<noteq> None" by (metis nth_mem)
      with each [OF c] c sel(2) show "weakest es ends active (cs ! c) (map the sel ! c)" by auto
    qed (simp add: sel(2))
    moreover have "\<forall>i\<in>set is. i < length es"
      using bound False unfolding eq_is by (auto simp: image_iff) (metis option.collapse)
    then have "rfold (remove_selected es) sel (active, removed) =
        Inr (deactivate is active, removed @ map (\<lambda>i. removed_of (es ! i)) is)"
      using remove_all [OF assms(4), of "is" removed] some by (simp flip: eq_is)
    ultimately show ?thesis unfolding eq by blast
  qed
qed

section \<open>Cycles\<close>

lemma cyclic_sccs_empty: "cyclic_sccs E = {} \<longleftrightarrow> acyclic E"
  by (auto simp: cyclic_sccs_def acyclic_def)

lemma cycle_inside:
  assumes "(v, w) \<in> E\<^sup>+" and "(w, v) \<in> E\<^sup>*"
  shows "(v, w) \<in> (E \<inter> scc E v \<times> scc E v)\<^sup>+"
  using assms
proof (induction rule: trancl_induct)
  case (base y)
  then have "(v, y) \<in> E \<inter> scc E v \<times> scc E v" by (auto simp: scc_def)
  then show ?case ..
next
  case (step y z)
  then have "(y, v) \<in> E\<^sup>*" by (meson converse_rtrancl_into_rtrancl)
  with step have "(v, y) \<in> (E \<inter> scc E v \<times> scc E v)\<^sup>+" by blast
  moreover have "(y, z) \<in> E \<inter> scc E v \<times> scc E v"
    using step \<open>(y, v) \<in> E\<^sup>*\<close> by (auto simp: scc_def)
  ultimately show ?case by (rule trancl.trancl_into_trancl)
qed

definition strong_live :: "order_edge list \<Rightarrow> (nat \<times> nat) list \<Rightarrow> bool list \<Rightarrow> (nat \<times> nat) set" where
  "strong_live es ends active =
     {ends ! i | i. i < length ends \<and> is_active active i \<and> is_strong (e_source (es ! i))}"

lemma strong_live_subset: "strong_live es ends active \<subseteq> live ends active"
  by (auto simp: strong_live_def live_def)

lemma stuck_component:
  assumes "(v, v) \<in> (live ends active)\<^sup>+" and "length ends = length es"
    and "set c = scc (live ends active) v" "\<forall>j. \<not> removable es ends active c j"
  shows "\<not> acyclic (strong_live es ends active)"
proof -
  let ?E = "live ends active"
  have "?E \<inter> scc ?E v \<times> scc ?E v \<subseteq> strong_live es ends active"
  proof
    fix e assume e: "e \<in> ?E \<inter> scc ?E v \<times> scc ?E v"
    then obtain i where i: "i < length ends" "is_active active i" "e = ends ! i" by (auto simp: live_def)
    with e assms(2-4) have "is_strong (e_source (es ! i))"
      by (auto simp: removable_def mem_Times_iff)
    with i show "e \<in> strong_live es ends active" by (auto simp: strong_live_def)
  qed
  moreover have "(v, v) \<in> (?E \<inter> scc ?E v \<times> scc ?E v)\<^sup>+"
    by (rule cycle_inside [OF assms(1)]) simp
  ultimately have "(v, v) \<in> (strong_live es ends active)\<^sup>+" by (meson trancl_mono)
  then show ?thesis by (auto simp: acyclic_def)
qed

lemma components_apart:
  assumes "in_range n ends"
  shows "apart (cyclic_components (built n ends) active)"
    and "\<forall>c\<in>set (cyclic_components (built n ends) active). \<forall>v\<in>set c. v < n"
    and "c \<in> set (cyclic_components (built n ends) active) \<Longrightarrow>
      \<exists>v. set c = scc (live ends active) v \<and> (v, v) \<in> (live ends active)\<^sup>+"
proof -
  let ?cs = "cyclic_components (built n ends) active" and ?E = "live ends active"
  note spec = cyclic_components_spec [OF assms, of active]
  show comp_of: "\<exists>v. set c = scc ?E v \<and> (v, v) \<in> ?E\<^sup>+" if "c \<in> set ?cs" for c
  proof -
    from that have "set c \<in> cyclic_sccs ?E" using spec(1) by blast
    then show ?thesis by (auto simp: cyclic_sccs_def)
  qed
  show "\<forall>c\<in>set ?cs. \<forall>v\<in>set c. v < n"
  proof (intro ballI)
    fix c v assume "c \<in> set ?cs" "v \<in> set c"
    with comp_of obtain u where "(u, u) \<in> ?E\<^sup>+" "v \<in> scc ?E u" by blast
    then have "(v, v) \<in> ?E\<^sup>+" by (auto simp: scc_def)
    then show "v < n" using live_bound [OF assms] by (meson tranclD)
  qed
  have "i = j" if "i < length ?cs" "j < length ?cs" "v \<in> set (?cs ! i)" "v \<in> set (?cs ! j)" for i j v
  proof -
    from that comp_of obtain a b where "set (?cs ! i) = scc ?E a" "set (?cs ! j) = scc ?E b"
      by (metis nth_mem)
    with that scc_eq have "set (?cs ! i) = set (?cs ! j)" by metis
    with spec(2) that have "?cs ! i = ?cs ! j" by (meson nth_mem sorted_distinct_set_unique)
    with spec(3) that show ?thesis by (simp add: nth_eq_iff_index_eq)
  qed
  then show "apart ?cs" unfolding apart_def by blast
qed

section \<open>All rounds\<close>

text \<open>What the loop does to the active edges: only weak edges that lie on a cycle go.\<close>

definition thinned :: "order_edge list \<Rightarrow> (nat \<times> nat) list \<Rightarrow> bool list \<Rightarrow> bool list \<Rightarrow> nat list \<Rightarrow> bool" where
  "thinned es ends active active' is \<longleftrightarrow>
     length active' = length active \<and> distinct is \<and>
     (\<forall>i. is_active active' i \<longleftrightarrow> is_active active i \<and> i \<notin> set is) \<and>
     (\<forall>i\<in>set is. i < length es \<and> is_active active i \<and> \<not> is_strong (e_source (es ! i)) \<and>
        (snd (ends ! i), fst (ends ! i)) \<in> (live ends active)\<^sup>*)"

lemma thinned_refl [simp]: "thinned es ends active active []"
  by (simp add: thinned_def)

lemma thinned_strong: "thinned es ends active active' is \<Longrightarrow> length ends = length es \<Longrightarrow>
    strong_live es ends active' = strong_live es ends active"
  unfolding thinned_def strong_live_def by blast

lemma thinned_live: "thinned es ends active active' is \<Longrightarrow> live ends active' \<subseteq> live ends active"
  by (rule live_mono) (simp add: thinned_def)

lemma thinned_trans:
  assumes "thinned es ends a b is" "thinned es ends b c js"
  shows "thinned es ends a c (is @ js)"
proof -
  have "(x, y) \<in> (live ends b)\<^sup>* \<Longrightarrow> (x, y) \<in> (live ends a)\<^sup>*" for x y
    using thinned_live [OF assms(1)] by (meson rtrancl_mono subsetD)
  then show ?thesis using assms unfolding thinned_def by auto
qed

lemma round_thinned:
  assumes r: "in_range n ends" and len: "length ends = length es" "length active = length es"
    and sel: "list_all2 (weakest es ends active) (cyclic_components (built n ends) active) is"
  shows "thinned es ends active (deactivate is active) is"
proof -
  let ?cs = "cyclic_components (built n ends) active"
  have each: "weakest es ends active (?cs ! k) (is ! k)" if "k < length is" for k
    using sel that by (auto simp: list_all2_conv_all_nth)
  have len_is: "length ?cs = length is" by (rule list_all2_lengthD [OF sel])
  have "distinct is"
  proof (subst distinct_conv_nth, intro allI impI)
    fix j k assume jk: "j < length is" "k < length is" "j \<noteq> k"
    show "is ! j \<noteq> is ! k"
    proof
      assume "is ! j = is ! k"
      then have "fst (ends ! (is ! j)) \<in> set (?cs ! j)" "fst (ends ! (is ! j)) \<in> set (?cs ! k)"
        using each [OF jk(1)] each [OF jk(2)] by (auto simp: weakest_def removable_def)
      with components_apart(1) [OF r, of active] jk len_is show False unfolding apart_def by metis
    qed
  qed
  moreover have "i < length es \<and> is_active active i \<and> \<not> is_strong (e_source (es ! i)) \<and>
      (snd (ends ! i), fst (ends ! i)) \<in> (live ends active)\<^sup>*" if "i \<in> set is" for i
  proof -
    from that obtain k where k: "k < length is" "is ! k = i" by (auto simp: in_set_conv_nth)
    with len_is have "?cs ! k \<in> set ?cs" by simp
    from components_apart(3) [OF r this] obtain v where v: "set (?cs ! k) = scc (live ends active) v" by blast
    from each [OF k(1)] k(2) have rem: "removable es ends active (?cs ! k) i" by (simp add: weakest_def)
    then have "fst (ends ! i) \<in> scc (live ends active) v" "snd (ends ! i) \<in> scc (live ends active) v"
      unfolding removable_def v by simp_all
    then have "(snd (ends ! i), fst (ends ! i)) \<in> (live ends active)\<^sup>*"
      unfolding scc_def by (auto intro: rtrancl_trans)
    with rem show ?thesis by (simp add: removable_def)
  qed
  ultimately show ?thesis by (simp add: thinned_def deactivate_spec)
qed

lemma active_finite: "finite {i. is_active active i}"
  by (rule finite_subset [of _ "{..<length active}"]) (auto simp: is_active_def)

lemma remove_cycles_spec:
  assumes r: "in_range n ends" and len: "length ends = length es" "length active = length es"
    and fuel: "card {i. is_active active i} < fuel"
  shows "(\<exists>active' is. remove_cycles fuel es (built n ends) (active, removed) =
        Some (Inr (active', removed @ map (\<lambda>i. removed_of (es ! i)) is)) \<and>
      acyclic (live ends active') \<and> thinned es ends active active' is) \<or>
    (remove_cycles fuel es (built n ends) (active, removed) = Some (Inl InternalOrderConflict) \<and>
      \<not> acyclic (strong_live es ends active))"
  using len(2) fuel
proof (induction fuel arbitrary: active removed)
  case (Suc fuel)
  let ?cs = "cyclic_components (built n ends) active"
  show ?case
  proof (cases "?cs = []")
    case True
    then have "acyclic (live ends active)"
      using cyclic_components_spec(1) [OF r, of active] by (simp flip: cyclic_sccs_empty)
    with True show ?thesis
      by (intro disjI1 exI [of _ active] exI [of _ "[]"]) simp
  next
    case False
    from break_cycles_spec [OF components_apart(1,2) [OF r] len(1) Suc.prems(1) r, of active removed]
    consider (ok) "is" where "list_all2 (weakest es ends active) ?cs is"
        "break_cycles es (built n ends) ?cs (active, removed) =
          Inr (deactivate is active, removed @ map (\<lambda>i. removed_of (es ! i)) is)"
      | (stuck) c where "c \<in> set ?cs" "\<forall>j. \<not> removable es ends active c j"
        "break_cycles es (built n ends) ?cs (active, removed) = Inl InternalOrderConflict" by blast
    then show ?thesis
    proof cases
      case stuck
      from components_apart(3) [OF r stuck(1)] obtain v where
        "set c = scc (live ends active) v" "(v, v) \<in> (live ends active)\<^sup>+" by blast
      with stuck_component [OF _ len(1) _ stuck(2)] have "\<not> acyclic (strong_live es ends active)" by blast
      with False stuck(3) show ?thesis by simp
    next
      case ok
      let ?next = "deactivate is active"
      have thin: "thinned es ends active ?next is" by (rule round_thinned [OF r len(1) Suc.prems(1) ok(1)])
      have "is \<noteq> []" using ok(1) False by auto
      then obtain i where i: "i \<in> set is" by (meson list.set_sel(1))
      have sub: "{i. is_active ?next i} \<subset> {i. is_active active i}"
      proof (rule psubsetI)
        show "{i. is_active ?next i} \<subseteq> {i. is_active active i}" using thin by (auto simp: thinned_def)
        have "is_active active i" "\<not> is_active ?next i" using thin i by (auto simp: thinned_def)
        then show "{i. is_active ?next i} \<noteq> {i. is_active active i}" by blast
      qed
      have "card {i. is_active ?next i} < fuel"
        using psubset_card_mono [OF active_finite sub] Suc.prems(2) by simp
      from Suc.IH [OF _ this, of "removed @ map (\<lambda>i. removed_of (es ! i)) is"] Suc.prems(1)
      consider (fin) active' js where "remove_cycles fuel es (built n ends) (?next, removed @ map (\<lambda>i. removed_of (es ! i)) is) =
            Some (Inr (active', (removed @ map (\<lambda>i. removed_of (es ! i)) is) @ map (\<lambda>i. removed_of (es ! i)) js))"
          "acyclic (live ends active')" "thinned es ends ?next active' js"
        | (err) "remove_cycles fuel es (built n ends) (?next, removed @ map (\<lambda>i. removed_of (es ! i)) is) = Some (Inl InternalOrderConflict)"
          "\<not> acyclic (strong_live es ends ?next)"
        by (auto simp: deactivate_spec)
      then show ?thesis
      proof cases
        case fin
        with thinned_trans [OF thin fin(3)] False ok(2) show ?thesis
          by (intro disjI1 exI [of _ active'] exI [of _ "is @ js"]) simp
      next
        case err
        with thinned_strong [OF thin len(1)] False ok(2) show ?thesis by simp
      qed
    qed
  qed
qed simp

lemma remove_cycles_complete:
  assumes "in_range n ends" "length ends = length es" "length active = length es"
    and "card {i. is_active active i} < fuel" and "acyclic (strong_live es ends active)"
  shows "\<exists>active' is. remove_cycles fuel es (built n ends) (active, removed) =
        Some (Inr (active', removed @ map (\<lambda>i. removed_of (es ! i)) is)) \<and>
      acyclic (live ends active') \<and> thinned es ends active active' is"
  using remove_cycles_spec [OF assms(1-4), of removed] assms(5) by blast

lemma remove_cycles_sound:
  assumes "in_range n ends" "length ends = length es" "length active = length es"
    and "card {i. is_active active i} < fuel" and "\<not> acyclic (strong_live es ends active)"
  shows "remove_cycles fuel es (built n ends) (active, removed) = Some (Inl InternalOrderConflict)"
proof -
  have False if "acyclic (live ends active')" "thinned es ends active active' is" for active' "is"
    using that thinned_strong [OF that(2) assms(2)] strong_live_subset assms(5) by (metis acyclic_subset)
  with remove_cycles_spec [OF assms(1-4), of removed] show ?thesis by blast
qed

end
