(* ===== verification/Order_Kahn.thy ===== *)
theory Order_Kahn
  imports Order_Removal
begin

text \<open>
  The topological sort of \<open>order.rs\<close>. On an acyclic graph it emits every node, and each node
  it emits is the least of those whose predecessors are all out: the result is determined by
  the graph and the keys alone.
\<close>

section \<open>The specification\<close>

definition open_nodes :: "nat \<Rightarrow> (nat \<times> nat) set \<Rightarrow> nat set \<Rightarrow> nat set" where
  "open_nodes n E S = {v. v < n \<and> v \<notin> S \<and> (\<forall>u. (u, v) \<in> E \<longrightarrow> u \<in> S)}"

text \<open>The order that always takes the least open node.\<close>

definition greedy :: "(nat \<Rightarrow> 'k :: linorder) \<Rightarrow> nat \<Rightarrow> (nat \<times> nat) set \<Rightarrow> nat list \<Rightarrow> bool" where
  "greedy key n E ord \<longleftrightarrow>
     (\<forall>k<length ord. ord ! k \<in> open_nodes n E (set (take k ord)) \<and>
        (\<forall>v\<in>open_nodes n E (set (take k ord)). key (ord ! k) \<le> key v))"

lemma greedy_Nil [simp]: "greedy key n E []"
  by (simp add: greedy_def)

lemma greedy_snoc:
  "greedy key n E (ord @ [v]) \<longleftrightarrow> greedy key n E ord \<and> v \<in> open_nodes n E (set ord) \<and>
     (\<forall>w\<in>open_nodes n E (set ord). key v \<le> key w)"
  by (auto simp: greedy_def nth_append less_Suc_eq)

lemma greedy_distinct: "greedy key n E ord \<Longrightarrow> distinct ord \<and> set ord \<subseteq> {0 ..< n}"
  by (induction ord rule: rev_induct) (auto simp: greedy_snoc open_nodes_def)

lemma greedy_respects:
  "greedy key n E ord \<Longrightarrow> j < length ord \<Longrightarrow> (u, ord ! j) \<in> E \<Longrightarrow> \<exists>i<j. ord ! i = u"
proof -
  assume "greedy key n E ord" "j < length ord" "(u, ord ! j) \<in> E"
  then have "u \<in> set (take j ord)" by (auto simp: greedy_def open_nodes_def)
  then show ?thesis by (auto simp: in_set_conv_nth)
qed

text \<open>Two greedy orders of the same graph are the same when the keys are distinct.\<close>

lemma greedy_prefix:
  assumes "greedy key n E xs" "greedy key n E ys" and "inj_on key {0 ..< n}" and "k \<le> length xs" "k \<le> length ys"
  shows "take k xs = take k ys"
  using assms(4,5)
proof (induction k)
  case (Suc k)
  then have same: "take k xs = take k ys" and k: "k < length xs" "k < length ys" by simp_all
  have greedy_at: "zs ! k \<in> open_nodes n E (set (take k zs)) \<and>
      (\<forall>v\<in>open_nodes n E (set (take k zs)). key (zs ! k) \<le> key v)" if "greedy key n E zs" "k < length zs" for zs
    using that unfolding greedy_def by blast
  have x: "xs ! k \<in> open_nodes n E (set (take k xs))" "\<forall>v\<in>open_nodes n E (set (take k xs)). key (xs ! k) \<le> key v"
    and y: "ys ! k \<in> open_nodes n E (set (take k xs))" "\<forall>v\<in>open_nodes n E (set (take k xs)). key (ys ! k) \<le> key v"
    using greedy_at [OF assms(1) k(1)] greedy_at [OF assms(2) k(2)] unfolding same by simp_all
  then have "key (xs ! k) = key (ys ! k)" by (meson antisym)
  moreover have "xs ! k < n" "ys ! k < n" using x(1) y(1) by (simp_all add: open_nodes_def)
  ultimately have "xs ! k = ys ! k" using assms(3) by (auto dest: inj_onD)
  with same k show ?case by (simp add: take_Suc_conv_app_nth)
qed simp

lemma open_exists:
  assumes "acyclic E" "E \<subseteq> {0 ..< n} \<times> {0 ..< n}" "S \<subset> {0 ..< n}"
  shows "open_nodes n E S \<noteq> {}"
proof -
  have "finite E" using assms(2) finite_subset by blast
  then have wf: "wf E" using assms(1) by (simp add: wf_iff_acyclic_if_finite)
  from assms(3) obtain v where "v \<in> {0 ..< n} - S" by blast
  with wf obtain m where m: "m \<in> {0 ..< n} - S" "\<And>u. (u, m) \<in> E \<Longrightarrow> u \<notin> {0 ..< n} - S"
    by (metis wfE_min)
  then have "m \<in> open_nodes n E S" using assms(2) unfolding open_nodes_def by auto
  then show ?thesis by blast
qed

section \<open>Indegrees\<close>

definition pending :: "(nat \<times> nat) list \<Rightarrow> bool list \<Rightarrow> nat set \<Rightarrow> nat \<Rightarrow> nat set" where
  "pending ends active R v = {i. i < length ends \<and> is_active active i \<and> snd (ends ! i) = v \<and> i \<notin> R}"

lemma pending_finite [simp]: "finite (pending ends active R v)"
  by (rule finite_subset [of _ "{..<length ends}"]) (auto simp: pending_def)

lemma indegrees_spec:
  assumes r: "in_range n ends"
  shows "length (indegrees (built n ends) active n) = n"
    and "v < n \<Longrightarrow> indegrees (built n ends) active n ! v = card (pending ends active {} v)"
proof -
  let ?f = "\<lambda>(i, (_, b)) d. if is_active active i \<and> b < length d then d[b := Suc (d ! b)] else d"
  have "length (fold ?f (List.enumerate 0 (take m ends)) (replicate n 0)) = n \<and>
      (\<forall>v<n. fold ?f (List.enumerate 0 (take m ends)) (replicate n 0) ! v =
         card {i. i < m \<and> is_active active i \<and> snd (ends ! i) = v})" if "m \<le> length ends" for m
    using that
  proof (induction m)
    case (Suc m)
    then have m: "m < length ends" by simp
    obtain a b where ab: "ends ! m = (a, b)" by (cases "ends ! m")
    then have b: "b < n" using r m nth_mem unfolding in_range_def by fastforce
    have snoc: "List.enumerate 0 (take (Suc m) ends) = List.enumerate 0 (take m ends) @ [(m, ends ! m)]"
      using m by (simp add: take_Suc_conv_app_nth enumerate_append_eq)
    have sets: "{i. i < Suc m \<and> is_active active i \<and> snd (ends ! i) = v} =
        (if is_active active m \<and> b = v then insert m {i. i < m \<and> is_active active i \<and> snd (ends ! i) = v}
         else {i. i < m \<and> is_active active i \<and> snd (ends ! i) = v})" for v
      using ab by (auto simp: less_Suc_eq)
    have fin: "finite {i. i < m \<and> is_active active i \<and> snd (ends ! i) = v}" for v by simp
    show ?case unfolding snoc sets using Suc m b ab fin
      by (auto simp: nth_list_update)
  qed simp
  from this [of "length ends"] show "length (indegrees (built n ends) active n) = n"
      "v < n \<Longrightarrow> indegrees (built n ends) active n ! v = card (pending ends active {} v)"
    by (simp_all add: indegrees_def built_sel r pending_def)
qed

section \<open>Releasing the successors of a node\<close>

definition front :: "order_node list \<Rightarrow> (nat \<times> nat) list \<Rightarrow> bool list \<Rightarrow> nat set \<Rightarrow> nat set \<Rightarrow> nat list \<times> nat list \<Rightarrow> bool" where
  "front ns ends active R S st \<longleftrightarrow>
     length (fst st) = length ns \<and>
     (\<forall>v<length ns. fst st ! v = card (pending ends active R v)) \<and>
     set (snd st) = {v. v < length ns \<and> fst st ! v = 0} - S \<and>
     (\<forall>v\<in>S. pending ends active R v = {}) \<and>
     distinct (snd st) \<and> sorted (map (ready_key ns) (snd st))"

lemma ready_key_inj: "ready_key ns a = ready_key ns b \<Longrightarrow> a = b"
  by (simp add: ready_key_def)

lemma push_ready_spec:
  "set (push_ready ns i ready) = insert i (set ready)"
  "sorted (map (ready_key ns) (push_ready ns i ready)) \<longleftrightarrow> sorted (map (ready_key ns) ready)"
  "distinct (push_ready ns i ready) \<longleftrightarrow> i \<notin> set ready \<and> distinct ready"
  by (simp_all add: push_ready_def set_insort_key sorted_insort_key distinct_insort_key distinct_insort)

lemma pending_insert:
  "pending ends active (insert i R) v = pending ends active R v - {i}"
  by (auto simp: pending_def)

lemma release_step:
  assumes r: "in_range (length ns) ends" and i: "i < length ends" "i \<notin> R"
    and front: "front ns ends active R S st"
  shows "\<exists>st'. release ns (built (length ns) ends) active i st = Inr st' \<and> front ns ends active (insert i R) S st'"
proof -
  obtain degrees ready where st: "st = (degrees, ready)" by (cases st)
  obtain a b where ab: "ends ! i = (a, b)" by (cases "ends ! i")
  then have b: "b < length ns" using r i nth_mem unfolding in_range_def by fastforce
  from front st have inv: "length degrees = length ns"
      "\<And>v. v < length ns \<Longrightarrow> degrees ! v = card (pending ends active R v)"
      "set ready = {v. v < length ns \<and> degrees ! v = 0} - S" "\<And>v. v \<in> S \<Longrightarrow> pending ends active R v = {}"
      "distinct ready" "sorted (map (ready_key ns) ready)"
    by (auto simp: front_def)
  show ?thesis
  proof (cases "is_active active i")
    case False
    then have "pending ends active (insert i R) = pending ends active R"
      by (auto simp: pending_def fun_eq_iff)
    with front False st show ?thesis by (auto simp: release_def front_def)
  next
    case True
    have mem: "i \<in> pending ends active R b" using True i ab by (simp add: pending_def)
    then have bS: "b \<notin> S" using inv(4) by blast
    from mem have pos: "0 < card (pending ends active R b)" by (auto simp: card_gt_0_iff)
    then obtain d where d: "degrees ! b = Suc d" using inv(2) [OF b] by (metis gr0_implies_Suc)
    have same: "v \<noteq> b \<Longrightarrow> pending ends active (insert i R) v = pending ends active R v" for v
      using ab by (auto simp: pending_def)
    have less: "card (pending ends active (insert i R) b) = d"
      using mem d inv(2) [OF b] by (simp add: pending_insert)
    let ?degrees = "degrees[b := d]" and ?ready = "if d = 0 then push_ready ns b ready else ready"
    have step: "release ns (built (length ns) ends) active i st = Inr (?degrees, ?ready)"
      using True st ab b d inv(1) i(1) r by (simp add: release_def built_sel get_at_def)
    have b_ready: "b \<notin> set ready" using inv(3) d by simp
    have "set ?ready = {v. v < length ns \<and> ?degrees ! v = 0} - S"
    proof -
      have "{v. v < length ns \<and> ?degrees ! v = 0} = (if d = 0 then insert b else id) {v. v < length ns \<and> degrees ! v = 0}"
        using inv(1) b d by (auto simp: nth_list_update split: if_splits)
      with inv(3) bS show ?thesis by (simp add: push_ready_spec insert_Diff_if)
    qed
    moreover have "\<forall>v<length ns. ?degrees ! v = card (pending ends active (insert i R) v)"
      using inv(1,2) less same b by (auto simp: nth_list_update)
    moreover have "\<forall>v\<in>S. pending ends active (insert i R) v = {}"
      using inv(4) by (auto simp: pending_insert)
    moreover have "distinct ?ready" "sorted (map (ready_key ns) ?ready)"
      using inv(5,6) b_ready by (simp_all add: push_ready_spec)
    ultimately have "front ns ends active (insert i R) S (?degrees, ?ready)"
      using inv(1) by (simp add: front_def)
    with step show ?thesis by blast
  qed
qed

lemma release_all:
  assumes "in_range (length ns) ends" "\<forall>i\<in>set is. i < length ends \<and> i \<notin> R" "distinct is"
    and "front ns ends active R S st"
  shows "\<exists>st'. rfold (release ns (built (length ns) ends) active) is st = Inr st' \<and>
    front ns ends active (R \<union> set is) S st'"
  using assms(2-)
proof (induction "is" arbitrary: R st)
  case (Cons i "is")
  from release_step [OF assms(1) _ _ Cons.prems(3), of i] Cons.prems(1) obtain st1 where
      1: "release ns (built (length ns) ends) active i st = Inr st1" "front ns ends active (insert i R) S st1" by auto
  from Cons.IH [OF _ _ 1(2)] Cons.prems(1,2) obtain st2 where
      "rfold (release ns (built (length ns) ends) active) is st1 = Inr st2"
      "front ns ends active (insert i R \<union> set is) S st2" by auto
  with 1(1) show ?case by simp
qed simp

section \<open>The sort\<close>

definition out_edges :: "(nat \<times> nat) list \<Rightarrow> nat set \<Rightarrow> nat set" where
  "out_edges ends S = {i. i < length ends \<and> fst (ends ! i) \<in> S}"

lemma pending_out:
  "pending ends active (out_edges ends S) v = {} \<longleftrightarrow> (\<forall>u. (u, v) \<in> live ends active \<longrightarrow> u \<in> S)"
proof
  assume none: "pending ends active (out_edges ends S) v = {}"
  show "\<forall>u. (u, v) \<in> live ends active \<longrightarrow> u \<in> S"
  proof (intro allI impI)
    fix u assume "(u, v) \<in> live ends active"
    then obtain i where i: "i < length ends" "is_active active i" "ends ! i = (u, v)" by (auto simp: live_def)
    from none have "i \<notin> pending ends active (out_edges ends S) v" by simp
    with i show "u \<in> S" by (simp add: pending_def out_edges_def)
  qed
next
  assume all: "\<forall>u. (u, v) \<in> live ends active \<longrightarrow> u \<in> S"
  have False if "i \<in> pending ends active (out_edges ends S) v" for i
  proof -
    from that have i: "i < length ends" "is_active active i" "snd (ends ! i) = v" "fst (ends ! i) \<notin> S"
      by (auto simp: pending_def out_edges_def)
    then have "(fst (ends ! i), v) \<in> live ends active" by (auto simp: live_def)
    with all i(4) show False by blast
  qed
  then show "pending ends active (out_edges ends S) v = {}" by blast
qed

lemma front_open:
  assumes "front ns ends active (out_edges ends S) S st"
  shows "set (snd st) = open_nodes (length ns) (live ends active) S"
  using assms by (auto simp: front_def open_nodes_def simp flip: pending_out)

lemma kahn_step:
  assumes r: "in_range (length ns) ends"
    and front: "front ns ends active (out_edges ends (set ord)) (set ord) (degrees, v # ready)"
    and greedy: "greedy (ready_key ns) (length ns) (live ends active) ord"
  shows "\<exists>st'. rfold (release ns (built (length ns) ends) active) (forward (built (length ns) ends) ! v) (degrees, ready) = Inr st' \<and>
    front ns ends active (out_edges ends (set (ord @ [v]))) (set (ord @ [v])) st' \<and>
    greedy (ready_key ns) (length ns) (live ends active) (ord @ [v]) \<and> v < length ns"
proof -
  have open_v: "v \<in> open_nodes (length ns) (live ends active) (set ord)"
    using front_open [OF front] by auto
  then have v: "v < length ns" "v \<notin> set ord" by (simp_all add: open_nodes_def)
  have least: "\<forall>w\<in>open_nodes (length ns) (live ends active) (set ord). ready_key ns v \<le> ready_key ns w"
    using front front_open [OF front] by (auto simp: front_def)
  have no_pending: "pending ends active (out_edges ends (set ord)) v = {}"
    using open_v by (simp add: pending_out open_nodes_def)
  have "front ns ends active (out_edges ends (set ord)) (insert v (set ord)) (degrees, ready)"
    using front no_pending by (auto simp: front_def)
  moreover have "\<forall>i\<in>set (edges_at fst ends v). i < length ends \<and> i \<notin> out_edges ends (set ord)"
    using v by (auto simp: set_edges_at out_edges_def)
  moreover have "distinct (edges_at fst ends v)" by (simp add: edges_at_def)
  ultimately obtain st' where st': "rfold (release ns (built (length ns) ends) active) (edges_at fst ends v) (degrees, ready) = Inr st'"
      "front ns ends active (out_edges ends (set ord) \<union> set (edges_at fst ends v)) (insert v (set ord)) st'"
    using release_all [OF r] by blast
  moreover have "out_edges ends (set ord) \<union> set (edges_at fst ends v) = out_edges ends (set (ord @ [v]))"
    by (auto simp: out_edges_def set_edges_at)
  ultimately show ?thesis using greedy open_v least v r by (simp add: greedy_snoc built_sel)
qed

lemma kahn_spec:
  assumes r: "in_range (length ns) ends" and acyc: "acyclic (live ends active)"
    and "front ns ends active (out_edges ends (set ord)) (set ord) st"
    and "greedy (ready_key ns) (length ns) (live ends active) ord" and "length ns \<le> fuel + length ord"
  shows "\<exists>out. kahn fuel ns (built (length ns) ends) active st ord = Some (Inr out) \<and>
    greedy (ready_key ns) (length ns) (live ends active) out \<and> length out = length ns"
  using assms(3-)
proof (induction fuel arbitrary: st ord)
  case 0
  then have full: "set ord = {0 ..< length ns}"
    using greedy_distinct [OF 0(2)] by (metis add_0 card_atLeastLessThan card_seteq diff_zero distinct_card finite_atLeastLessThan)
  obtain degrees ready where st: "st = (degrees, ready)" by (cases st)
  have "set ready = {}" using front_open [OF 0(1)] full st by (auto simp: open_nodes_def)
  moreover have "length ord = length ns" using full greedy_distinct [OF 0(2)] distinct_card by fastforce
  ultimately show ?case using st 0(2) by simp
next
  case (Suc fuel)
  obtain degrees ready where st: "st = (degrees, ready)" by (cases st)
  show ?case
  proof (cases ready)
    case Nil
    then have "open_nodes (length ns) (live ends active) (set ord) = {}"
      using front_open [OF Suc.prems(1)] st by simp
    moreover have "live ends active \<subseteq> {0 ..< length ns} \<times> {0 ..< length ns}"
      using live_bound [OF r] by auto
    ultimately have "set ord = {0 ..< length ns}"
      using open_exists [OF acyc] greedy_distinct [OF Suc.prems(2)] by (metis psubsetI)
    then have "length ord = length ns"
      using greedy_distinct [OF Suc.prems(2)] distinct_card by fastforce
    with Nil st Suc.prems(2) show ?thesis by simp
  next
    case (Cons v rest)
    with st have st: "st = (degrees, v # rest)" by simp
    from kahn_step [OF r _ Suc.prems(2)] Suc.prems(1) st obtain st' where
        k: "rfold (release ns (built (length ns) ends) active) (forward (built (length ns) ends) ! v) (degrees, rest) = Inr st'"
        "front ns ends active (out_edges ends (set (ord @ [v]))) (set (ord @ [v])) st'"
        "greedy (ready_key ns) (length ns) (live ends active) (ord @ [v])" "v < length ns" by blast
    from Suc.IH [OF k(2,3)] Suc.prems(3) show ?thesis
      using k(1,4) st by (simp add: built_sel get_at_def)
  qed
qed

lemma initial_front:
  fixes active :: "bool list"
  assumes r: "in_range (length ns) ends"
  defines "degrees \<equiv> indegrees (built (length ns) ends) active (length ns)"
  shows "front ns ends active (out_edges ends {}) {}
    (degrees, fold (\<lambda>i r. if degrees ! i = 0 then push_ready ns i r else r) [0 ..< length ns] [])"
proof -
  let ?f = "\<lambda>i r. if degrees ! i = 0 then push_ready ns i r else r"
  have "set (fold ?f [0 ..< m] []) = {v. v < m \<and> degrees ! v = 0} \<and> distinct (fold ?f [0 ..< m] []) \<and>
      sorted (map (ready_key ns) (fold ?f [0 ..< m] []))" for m
  proof (induction m)
    case (Suc m)
    have "{v. v < Suc m \<and> degrees ! v = 0} =
        (if degrees ! m = 0 then insert m {v. v < m \<and> degrees ! v = 0} else {v. v < m \<and> degrees ! v = 0})"
      by (auto simp: less_Suc_eq)
    with Suc show ?case by (simp add: push_ready_spec)
  qed simp
  moreover have "out_edges ends {} = {}" by (simp add: out_edges_def)
  ultimately show ?thesis
    using indegrees_spec [OF r, where active = active] unfolding degrees_def by (simp add: front_def)
qed

lemma topological_order_spec:
  assumes "in_range (length (nodes g)) ends" "acyclic (live ends active)"
  shows "\<exists>out. topological_order g (built (length (nodes g)) ends) active =
      Some (Inr (map (\<lambda>i. nd_id (snd (nodes g ! i))) out)) \<and>
    greedy (ready_key (map snd (nodes g))) (length (nodes g)) (live ends active) out \<and> length out = length (nodes g)"
proof -
  let ?ns = "map snd (nodes g)"
  have r: "in_range (length ?ns) ends" using assms(1) by simp
  from kahn_spec [OF r assms(2), of "[]"] initial_front [OF r, of active] obtain out where
      out: "kahn (length ?ns) ?ns (built (length ?ns) ends) active
        (indegrees (built (length ?ns) ends) active (length ?ns),
         fold (\<lambda>i r. if indegrees (built (length ?ns) ends) active (length ?ns) ! i = 0 then push_ready ?ns i r else r) [0 ..< length ?ns] []) []
        = Some (Inr out)"
      "greedy (ready_key ?ns) (length ?ns) (live ends active) out" "length out = length ?ns"
    by force
  have "\<forall>i\<in>set out. i < length (nodes g)" using greedy_distinct [OF out(2)] by auto
  then have "map (\<lambda>i. nd_id (?ns ! i)) out = map (\<lambda>i. nd_id (snd (nodes g ! i))) out" by simp
  with out show ?thesis unfolding topological_order_def Let_def
    by (intro exI [of _ out]) simp
qed

end
