(* ===== verification/Order_Resolve.thy ===== *)
theory Order_Resolve
  imports Order_Kahn "HOL-Library.Multiset"
begin

text \<open>
  What \<open>OrderGraph::resolve\<close> returns: it always ends, it fails exactly on an unknown endpoint
  or on a cycle of strong edges, and otherwise it returns the greedy order of the edges kept.
\<close>

section \<open>Graphs whose nodes are stored under their ids\<close>

definition keyed :: "order_graph \<Rightarrow> bool" where
  "keyed g \<longleftrightarrow> bt_ok (nodes g) \<and> (\<forall>(k, n)\<in>set (nodes g). nd_id n = k)"

lemma keyed_empty: "keyed empty_graph"
  by (simp add: keyed_def empty_graph_def bt_ok_def)

lemma bt_insert_set: "bt_ok m \<Longrightarrow> set (bt_insert k v m) = insert (k, v) {(k', v') \<in> set m. k' \<noteq> k}"
  by (induction k v m rule: bt_insert.induct) (auto simp: bt_ok_def intro: rev_image_eqI)

lemma keyed_insert: "keyed g \<Longrightarrow> keyed (insert_node n g)"
  by (auto simp: keyed_def insert_node_def bt_insert_ok bt_insert_set)

lemma keyed_distinct: "keyed g \<Longrightarrow> distinct (map fst (nodes g))"
  by (simp add: keyed_def bt_ok_def)

lemma keyed_nth: "keyed g \<Longrightarrow> i < length (nodes g) \<Longrightarrow> nd_id (snd (nodes g ! i)) = fst (nodes g ! i)"
  unfolding keyed_def by (metis (mono_tags, lifting) case_prod_beta nth_mem)

section \<open>Normalization\<close>

definition norm_edges :: "order_graph \<Rightarrow> order_edge list" where
  "norm_edges g = dedup_keys (sort_key stable_key (edges g))"

definition knows :: "order_graph \<Rightarrow> order_edge \<Rightarrow> bool" where
  "knows g e \<longleftrightarrow> e_from e \<in> fst ` set (nodes g) \<and> e_to e \<in> fst ` set (nodes g)"

lemma dedup_subset: "set (dedup_keys es) \<subseteq> set es"
  by (induction es rule: dedup_keys.induct) auto

lemma norm_edges_subset: "set (norm_edges g) \<subseteq> set (edges g)"
  using dedup_subset [of "sort_key stable_key (edges g)"] by (simp add: norm_edges_def)

lemma dedup_covers: "e \<in> set es \<Longrightarrow> \<exists>e'\<in>set (dedup_keys es). stable_key e' = stable_key e"
proof (induction es arbitrary: e rule: dedup_keys.induct)
  case (1 a b es)
  show ?case
  proof (cases "stable_key b = stable_key a")
    case True
    have "\<exists>e'\<in>set (a # es). stable_key e' = stable_key e"
      using 1(3) True by (cases "e = b") auto
    then obtain e' where "e' \<in> set (a # es)" "stable_key e' = stable_key e" by blast
    with 1(1) [OF True, of e'] True show ?thesis by simp
  next
    case False
    with 1 show ?thesis by auto
  qed
qed auto

lemma norm_edges_covers: "e \<in> set (edges g) \<Longrightarrow> \<exists>e'\<in>set (norm_edges g). stable_key e' = stable_key e"
  by (simp add: norm_edges_def dedup_covers)

lemma map_of_known: "map_of m k \<noteq> None \<longleftrightarrow> k \<in> fst ` set m"
  by (simp add: map_of_eq_None_iff)

lemma normalize_ok:
  "\<forall>e\<in>set (edges g). knows g e \<Longrightarrow> normalize_edges g = Inr (g\<lparr>edges := norm_edges g\<rparr>)"
  unfolding normalize_edges_def norm_edges_def
  by (subst reach_ok [of _ _ "()", THEN iffD2]) (auto simp: knows_def map_of_eq_None_iff ensure_def image_iff)

lemma reach_Inl: "reach f xs = Inl e \<Longrightarrow> \<exists>x\<in>set xs. f x = Inl e"
  by (induction xs) (auto simp: rbind_eq_Inl)

lemma reach_cases: "reach f xs = Inr () \<or> (\<exists>x\<in>set xs. \<exists>e. f x = Inl e \<and> reach f xs = Inl e)"
  by (cases "reach f xs") (auto dest: reach_Inl)

lemma normalize_unknown:
  assumes "\<not> (\<forall>e\<in>set (edges g). knows g e)"
  shows "\<exists>i. i \<notin> fst ` set (nodes g) \<and> normalize_edges g = Inl (UnknownBlock i)"
proof -
  define check where "check = (\<lambda>e :: order_edge. rbind (ensure (map_of (nodes g) (e_from e) \<noteq> None) (UnknownBlock (e_from e)))
      (\<lambda>_. ensure (map_of (nodes g) (e_to e) \<noteq> None) (UnknownBlock (e_to e))))"
  have norm: "normalize_edges g = rbind (reach check (edges g)) (\<lambda>_. Inr (g\<lparr>edges := norm_edges g\<rparr>))"
    by (simp add: normalize_edges_def norm_edges_def check_def)
  have ok: "check e = Inr () \<longleftrightarrow> knows g e" for e
    by (simp add: check_def rbind_eq_Inr map_of_eq_None_iff knows_def)
  from reach_cases [of check "edges g"] ok assms obtain e err where
    e: "check e = Inl err" "reach check (edges g) = Inl err" by (auto simp: reach_ok)
  from e(1) have "\<exists>i. i \<notin> fst ` set (nodes g) \<and> err = UnknownBlock i"
    by (auto simp: check_def ensure_def rbind_def map_of_eq_None_iff split: if_splits)
  with e(2) norm show ?thesis by auto
qed

section \<open>Relations on ids and on positions\<close>

definition strong_rel :: "order_edge list \<Rightarrow> (rstr \<times> rstr) set" where
  "strong_rel es = {(e_from e, e_to e) | e. e \<in> set es \<and> is_strong (e_source e)}"

definition edge_set :: "order_edge list \<Rightarrow> (rstr \<times> rstr) set" where
  "edge_set es = {(e_from e, e_to e) | e. e \<in> set es}"

lemma trancl_image:
  assumes "(x, y) \<in> R\<^sup>+" and "\<And>a b. (a, b) \<in> R \<Longrightarrow> (f a, f b) \<in> S"
  shows "(f x, f y) \<in> S\<^sup>+"
  using assms(1) by (induction rule: trancl_induct) (auto intro: assms(2) trancl.trancl_into_trancl)

lemma rtrancl_image:
  assumes "(x, y) \<in> R\<^sup>*" and "\<And>a b. (a, b) \<in> R \<Longrightarrow> (f a, f b) \<in> S"
  shows "(f x, f y) \<in> S\<^sup>*"
  using assms(1) by (induction rule: rtrancl_induct) (auto intro: assms(2) rtrancl.rtrancl_into_rtrancl)

lemma ends_of_nth:
  assumes "i < length es" "e_from (es ! i) \<in> set ids" "e_to (es ! i) \<in> set ids"
  shows "ids ! fst (ends_of ids es ! i) = e_from (es ! i)" "ids ! snd (ends_of ids es ! i) = e_to (es ! i)"
  using assms index_of_exists [of "e_from (es ! i)" ids] index_of_exists [of "e_to (es ! i)" ids]
  by (auto simp: ends_of_def dest: index_of_Some)

lemma all_active: "is_active (replicate n True) i \<longleftrightarrow> i < n"
  by (auto simp: is_active_def)

lemma acyclic_ids:
  assumes "\<forall>e\<in>set es. e_from e \<in> set ids \<and> e_to e \<in> set ids"
  shows "acyclic (strong_live es (ends_of ids es) (replicate (length es) True)) \<longleftrightarrow> acyclic (strong_rel es)"
proof -
  let ?S = "strong_live es (ends_of ids es) (replicate (length es) True)"
  let ?at = "\<lambda>k. the (index_of k ids)"
  have len: "length (ends_of ids es) = length es" by (simp add: ends_of_def)
  have down: "(ids ! a, ids ! b) \<in> strong_rel es" if ab: "(a, b) \<in> ?S" for a b
  proof -
    from ab len obtain i where i: "i < length es" "is_strong (e_source (es ! i))" "ends_of ids es ! i = (a, b)"
      by (auto simp: strong_live_def)
    with ends_of_nth [of i es ids] assms have "ids ! a = e_from (es ! i)" "ids ! b = e_to (es ! i)" by auto
    with i show ?thesis unfolding strong_rel_def by (auto intro!: exI [of _ "es ! i"])
  qed
  have up: "(?at x, ?at y) \<in> ?S" if xy: "(x, y) \<in> strong_rel es" for x y
  proof -
    from xy obtain i where "i < length es" "is_strong (e_source (es ! i))" "x = e_from (es ! i)" "y = e_to (es ! i)"
      by (auto simp: strong_rel_def in_set_conv_nth)
    then show ?thesis unfolding strong_live_def
      by (auto simp: len all_active ends_of_def intro!: exI [of _ i])
  qed
  show ?thesis unfolding acyclic_def
  proof (intro iffI allI notI)
    fix x assume "\<forall>x. (x, x) \<notin> ?S\<^sup>+" "(x, x) \<in> (strong_rel es)\<^sup>+"
    with trancl_image [of x x "strong_rel es" ?at ?S, OF _ up] show False by blast
  next
    fix a assume "\<forall>x. (x, x) \<notin> (strong_rel es)\<^sup>+" "(a, a) \<in> ?S\<^sup>+"
    with trancl_image [of a a ?S "\<lambda>a. ids ! a" "strong_rel es", OF _ down] show False by blast
  qed
qed

section \<open>The outcome\<close>

definition before :: "rstr list \<Rightarrow> rstr \<Rightarrow> rstr \<Rightarrow> bool" where
  "before ids x y \<longleftrightarrow> (\<exists>j<length ids. ids ! j = y \<and> x \<in> set (take j ids))"

text \<open>The order that always takes the least node whose kept predecessors are all out.\<close>

definition greedy_ids :: "(rstr \<times> order_node) list \<Rightarrow> order_edge list \<Rightarrow> rstr list \<Rightarrow> bool" where
  "greedy_ids ns kept ids \<longleftrightarrow>
     (\<forall>k<length ids. \<forall>v\<in>fst ` set ns - set (take k ids).
        (\<forall>e\<in>set kept. e_to e = v \<longrightarrow> e_from e \<in> set (take k ids)) \<longrightarrow>
        node_key (the (map_of ns (ids ! k))) \<le> node_key (the (map_of ns v)))"

definition resolved :: "order_graph \<Rightarrow> rstr list \<Rightarrow> removed_edge list \<Rightarrow> bool" where
  "resolved g ids removed \<longleftrightarrow>
     distinct ids \<and> set ids = fst ` set (nodes g) \<and>
     (\<exists>kept dropped. mset kept + mset dropped = mset (norm_edges g) \<and>
        mset removed = mset (map removed_of dropped) \<and>
        (\<forall>e\<in>set kept. before ids (e_from e) (e_to e)) \<and>
        (\<forall>e\<in>set dropped. \<not> is_strong (e_source e) \<and> (e_to e, e_from e) \<in> (edge_set (norm_edges g))\<^sup>*) \<and>
        greedy_ids (nodes g) kept ids)"

lemma mset_filter_split: "mset (filter (\<lambda>x. \<not> P x) xs) + mset (filter P xs) = mset xs"
  by (induction xs) auto

lemma mset_split_indices:
  assumes "distinct is" "\<forall>i\<in>set is. i < length es"
  shows "mset (map ((!) es) (filter (\<lambda>i. i \<notin> set is) [0 ..< length es])) + mset (map ((!) es) is) = mset es"
proof -
  have "mset (filter (\<lambda>i. i \<in> set is) [0 ..< length es]) = mset is"
    using assms by (intro set_eq_iff_mset_eq_distinct [THEN iffD1]) auto
  moreover have "mset (filter (\<lambda>i. i \<notin> set is) [0 ..< length es]) + mset (filter (\<lambda>i. i \<in> set is) [0 ..< length es]) =
      mset [0 ..< length es]" by (rule mset_filter_split)
  ultimately have "image_mset ((!) es) (mset (filter (\<lambda>i. i \<notin> set is) [0 ..< length es]) + mset is) =
      image_mset ((!) es) (mset [0 ..< length es])" by (simp only:)
  then have "mset (map ((!) es) (filter (\<lambda>i. i \<notin> set is) [0 ..< length es])) + mset (map ((!) es) is) =
      mset (map ((!) es) [0 ..< length es])" by (simp only: mset_map image_mset_union)
  then show ?thesis by (simp only: map_nth)
qed

lemma nth_range: "(!) xs ` {0 ..< length xs} = set xs"
  by (auto simp: set_conv_nth)

lemma before_nth:
  "j < length ids \<Longrightarrow> i < j \<Longrightarrow> before ids (ids ! i) (ids ! j)"
  unfolding before_def by (intro exI [of _ j]) (auto simp: in_set_conv_nth intro!: exI [of _ i])

lemma resolve_known:
  assumes keyed: "keyed g" and known: "\<forall>e\<in>set (edges g). knows g e"
  shows "if acyclic (strong_rel (norm_edges g))
    then \<exists>ids removed. resolve g = Some (Inr (ids, removed)) \<and> resolved g ids removed
    else resolve g = Some (Inl InternalOrderConflict)"
proof -
  let ?es = "norm_edges g" and ?ids = "map fst (nodes g)" and ?n = "length (nodes g)"
  let ?g = "g\<lparr>edges := ?es\<rparr>" and ?ends = "ends_of (map fst (nodes g)) (norm_edges g)"
  let ?all = "replicate (length ?es) True"
  have known': "\<forall>e\<in>set ?es. e_from e \<in> set ?ids \<and> e_to e \<in> set ?ids"
    using known norm_edges_subset [of g] by (auto simp: knows_def)
  then obtain ix where ix: "index_edges ?g = Inr ix" using index_edges_total [of ?g] by auto
  from index_edges_built [OF ix] have built: "ix = built ?n ?ends" and r: "in_range ?n ?ends" by simp_all
  have len: "length ?ends = length ?es" by (simp add: ends_of_def)
  have fuel: "card {i. is_active ?all i} < Suc (length ?es)" by (simp add: all_active)
  have start: "resolve g = (case remove_cycles (Suc (length ?es)) ?es (built ?n ?ends) (?all, []) of
      None \<Rightarrow> None | Some (Inl e) \<Rightarrow> Some (Inl e)
    | Some (Inr (active, removed)) \<Rightarrow> (case topological_order ?g (built ?n ?ends) active of
        None \<Rightarrow> None | Some (Inl e) \<Rightarrow> Some (Inl e) | Some (Inr ids) \<Rightarrow> Some (Inr (ids, removed))))"
    by (simp add: resolve_def normalize_ok [OF known] ix built del: remove_cycles.simps)
  note transfer = acyclic_ids [OF known']
  show ?thesis
  proof (cases "acyclic (strong_rel ?es)")
    case False
    with transfer remove_cycles_sound [OF r len _ fuel, of "[]"] show ?thesis by (simp add: start)
  next
    case True
    with transfer remove_cycles_complete [OF r len _ fuel, of "[]"] obtain active "is" where
        rc: "remove_cycles (Suc (length ?es)) ?es (built ?n ?ends) (?all, []) =
          Some (Inr (active, map (\<lambda>i. removed_of (?es ! i)) is))"
        and acyc: "acyclic (live ?ends active)" and thin: "thinned ?es ?ends ?all active is" by auto
    from topological_order_spec [of ?g ?ends active] r acyc obtain out where
        out: "topological_order ?g (built ?n ?ends) active = Some (Inr (map (\<lambda>i. nd_id (snd (nodes g ! i))) out))"
        "greedy (ready_key (map snd (nodes g))) ?n (live ?ends active) out" "length out = ?n" by auto
    let ?out = "map ((!) ?ids) out"
    have out_range: "\<forall>i\<in>set out. i < ?n" and out_dist: "distinct out"
      using greedy_distinct [OF out(2)] by auto
    have out_eq: "map (\<lambda>i. nd_id (snd (nodes g ! i))) out = ?out"
      using out_range keyed_nth [OF keyed] by simp
    have set_out: "set out = {0 ..< ?n}"
      using greedy_distinct [OF out(2)] out(3)
      by (metis card_atLeastLessThan card_seteq diff_zero distinct_card finite_atLeastLessThan order_refl)
    have ids_dist: "distinct ?ids" by (rule keyed_distinct [OF keyed])
    have dist: "distinct ?out"
      unfolding distinct_map [of "(!) ?ids"] using out_dist inj_on_nth [OF ids_dist, of "set out"] out_range by simp
    have set_ids: "set ?out = fst ` set (nodes g)"
      using nth_range [of ?ids] by (simp only: set_map set_out length_map)
    let ?keep = "filter (\<lambda>i. i \<notin> set is) [0 ..< length ?es]"
    let ?kept = "map ((!) ?es) ?keep" and ?drop = "map ((!) ?es) is"
    have is_range: "\<forall>i\<in>set is. i < length ?es" "distinct is" using thin by (auto simp: thinned_def)
    have act: "is_active active i \<longleftrightarrow> i < length ?es \<and> i \<notin> set is" for i
      using thin by (auto simp: thinned_def all_active)
    have at: "?ids ! fst (?ends ! i) = e_from (?es ! i)" "?ids ! snd (?ends ! i) = e_to (?es ! i)"
      "fst (?ends ! i) < ?n" "snd (?ends ! i) < ?n" if "i < length ?es" for i
    proof -
      have "?es ! i \<in> set ?es" "?ends ! i \<in> set ?ends" using that len by (metis nth_mem)+
      with known' r ends_of_nth [OF that, of ?ids]
      show "?ids ! fst (?ends ! i) = e_from (?es ! i)" "?ids ! snd (?ends ! i) = e_to (?es ! i)"
        "fst (?ends ! i) < ?n" "snd (?ends ! i) < ?n"
        unfolding in_range_def by (blast, blast, force+)
    qed
    have live_at: "(fst (?ends ! i), snd (?ends ! i)) \<in> live ?ends active" if "i < length ?es" "i \<notin> set is" for i
      using that len act by (auto simp: live_def)
    have kept_before: "before ?out (e_from e) (e_to e)" if "e \<in> set ?kept" for e
    proof -
      from that obtain i where i: "i < length ?es" "i \<notin> set is" "e = ?es ! i" by auto
      from at(4) [OF i(1)] set_out obtain j where j: "j < length out" "out ! j = snd (?ends ! i)"
        by (metis atLeastLessThan_iff in_set_conv_nth le0)
      with greedy_respects [OF out(2) j(1)] live_at [OF i(1,2)] obtain m where "m < j" "out ! m = fst (?ends ! i)" by metis
      with before_nth [of j ?out m] j at [OF i(1)] i(3) show ?thesis by simp
    qed
    have drop_cycle: "\<not> is_strong (e_source e) \<and> (e_to e, e_from e) \<in> (edge_set ?es)\<^sup>*" if "e \<in> set ?drop" for e
    proof -
      from that obtain i where i: "i \<in> set is" "e = ?es ! i" by auto
      with thin have "\<not> is_strong (e_source e)" "(snd (?ends ! i), fst (?ends ! i)) \<in> (live ?ends ?all)\<^sup>*"
        by (auto simp: thinned_def)
      moreover have "(?ids ! a, ?ids ! b) \<in> edge_set ?es" if ab: "(a, b) \<in> live ?ends ?all" for a b
      proof -
        from ab len obtain j where "j < length ?es" "?ends ! j = (a, b)" by (auto simp: live_def)
        with at(1,2) [of j] show ?thesis unfolding edge_set_def by (auto intro!: exI [of _ "?es ! j"])
      qed
      ultimately show ?thesis
        using rtrancl_image [of "snd (?ends ! i)" "fst (?ends ! i)" "live ?ends ?all" "\<lambda>a. ?ids ! a"] at [of i] is_range(1) i by auto
    qed
    have look: "the (map_of (nodes g) (?ids ! i)) = snd (nodes g ! i)" if "i < ?n" for i
    proof -
      have "(fst (nodes g ! i), snd (nodes g ! i)) \<in> set (nodes g)" using that by simp
      then have "map_of (nodes g) (fst (nodes g ! i)) = Some (snd (nodes g ! i))"
        using ids_dist by (simp add: map_of_eq_Some_iff)
      then show ?thesis using that by simp
    qed
    have "greedy_ids (nodes g) ?kept ?out"
      unfolding greedy_ids_def
    proof (intro allI ballI impI)
      fix k v assume k: "k < length ?out" and v: "v \<in> fst ` set (nodes g) - set (take k ?out)"
        and preds: "\<forall>e\<in>set ?kept. e_to e = v \<longrightarrow> e_from e \<in> set (take k ?out)"
      from v obtain w where w: "w < ?n" "?ids ! w = v"
        by (metis DiffD1 in_set_conv_nth length_map list.set_map)
      have "w \<in> open_nodes ?n (live ?ends active) (set (take k out))"
        unfolding open_nodes_def
      proof (intro CollectI conjI allI impI)
        show "w \<notin> set (take k out)" using v w(2) by (auto simp: take_map)
        fix u assume "(u, w) \<in> live ?ends active"
        then obtain i where i: "i < length ?es" "i \<notin> set is" "?ends ! i = (u, w)"
          using len act by (auto simp: live_def)
        then have "?es ! i \<in> set ?kept" "e_to (?es ! i) = v" "e_from (?es ! i) = ?ids ! u" "u < ?n"
          using at [OF i(1)] w by auto
        with preds have "?ids ! u \<in> set (take k ?out)" by metis
        then obtain u' where u': "u' \<in> set (take k out)" "?ids ! u' = ?ids ! u" by (auto simp: take_map)
        moreover have "u' < ?n" using out_range u'(1) by (auto dest: in_set_takeD)
        ultimately show "u \<in> set (take k out)" using ids_dist \<open>u < ?n\<close> by (metis length_map nth_eq_iff_index_eq)
      qed (rule w(1))
      with out(2) k have "ready_key (map snd (nodes g)) (out ! k) \<le> ready_key (map snd (nodes g)) w"
        by (simp add: greedy_def)
      moreover have "out ! k < ?n" using out_range k by simp
      ultimately have "node_key (snd (nodes g ! (out ! k))) \<le> node_key (snd (nodes g ! w))"
        using w(1) by (auto simp: ready_key_def less_eq_prod_def less_prod_def dest: less_imp_le)
      with look [OF w(1)] look [OF \<open>out ! k < ?n\<close>] w(2) k
      show "node_key (the (map_of (nodes g) (?out ! k))) \<le> node_key (the (map_of (nodes g) v))" by simp
    qed
    with mset_split_indices [OF is_range(2,1)] kept_before drop_cycle dist set_ids
    have "resolved g ?out (map (\<lambda>i. removed_of (?es ! i)) is)"
      unfolding resolved_def
      by (intro conjI exI [of _ ?kept] exI [of _ ?drop]) (simp_all add: image_mset.compositionality comp_def)
    with rc out(1) out_eq True show ?thesis by (simp add: start del: remove_cycles.simps)
  qed
qed

end
