(* ===== verification/Order_Edges.thy ===== *)
theory Order_Edges
  imports Order_Resolve
begin

text \<open>
  What the edge builders of \<open>order.rs\<close> add to the graph: every edge joins two blocks of the
  page, and the strong ones lead downwards in the block order, unless one model region mixes
  rotated marginal blocks with main ones.
\<close>

section \<open>Builders only append\<close>

definition grows_by :: "(rstr \<Rightarrow> rstr \<Rightarrow> edge_source \<Rightarrow> bool) \<Rightarrow> order_graph \<Rightarrow> order_graph \<Rightarrow> bool" where
  "grows_by Q g g' \<longleftrightarrow> nodes g' = nodes g \<and>
     (\<exists>es. edges g' = edges g @ es \<and>
        (\<forall>e\<in>set es. e_from e \<noteq> e_to e \<and> Q (e_from e) (e_to e) (e_source e) \<and>
           stable_key e = e_from e @ [62] @ e_to e @ [58] @ show_nat (rank (e_source e))))"

named_theorems growth \<open>how the edge builders extend the graph\<close>

lemma grows_refl [growth, simp]: "grows_by Q g g"
  by (simp add: grows_by_def)

lemma grows_trans: "grows_by Q g h \<Longrightarrow> grows_by Q h k \<Longrightarrow> grows_by Q g k"
  unfolding grows_by_def by (metis Un_iff append.assoc set_append)

lemma grows_push [growth]: "(a \<noteq> b \<Longrightarrow> Q a b s) \<Longrightarrow> grows_by Q g (push_edge a b s why c g)"
  by (auto simp: push_edge_def grows_by_def insert_edge_def)

lemma grows_fold:
  "(\<And>x g. x \<in> set xs \<Longrightarrow> grows_by Q g (f x g)) \<Longrightarrow> grows_by Q g (fold f xs g)"
proof (induction xs arbitrary: g)
  case (Cons x xs)
  then have "grows_by Q g (f x g)" "grows_by Q (f x g) (fold f xs (f x g))" by simp_all
  then show ?case by (simp add: grows_trans)
qed simp

lemma grows_chain:
  assumes "\<And>a b g. (a, b) \<in> set (windows2 xs) \<Longrightarrow> grows_by Q g (link a b g)"
  shows "grows_by Q g (chain_edges link xs g)"
  unfolding chain_edges_def by (rule grows_fold) (use assms in auto)

section \<open>Neighbours in a sorted list\<close>

lemma windows2_sorted: "sorted (map f xs) \<Longrightarrow> (a, b) \<in> set (windows2 xs) \<Longrightarrow> f a \<le> f b"
  by (induction xs rule: induct_list012) auto

definition pot :: "block \<Rightarrow> bool \<times> f64 \<times> f64 \<times> rstr" where
  "pot b = (is_rotated_marginal b, block_key b)"

lemma block_key_neq: "bk_id a \<noteq> bk_id b \<Longrightarrow> block_key a \<noteq> block_key b"
  by (simp add: block_key_def)

lemma pot_less: "is_rotated_marginal a = is_rotated_marginal b \<Longrightarrow> block_key a \<le> block_key b \<Longrightarrow> bk_id a \<noteq> bk_id b \<Longrightarrow> pot a < pot b"
  using block_key_neq [of a b] by (simp add: pot_def order.not_eq_order_implies_strict)

lemma pot_class: "\<not> is_rotated_marginal a \<Longrightarrow> is_rotated_marginal b \<Longrightarrow> pot a < pot b"
  by (simp add: pot_def)

section \<open>The groups of a model region\<close>

lemma group_members:
  "\<forall>(r, ms)\<in>set (group_by_region bs). ms \<noteq> [] \<and> (\<forall>b\<in>set ms. b \<in> set bs \<and> model_region_id b = Some r)"
proof -
  have "bt_ok (fold (\<lambda>b groups. (case model_region_id b of None \<Rightarrow> groups
        | Some r \<Rightarrow> bt_insert r (unwrap_or (map_of groups r) [] @ [b]) groups)) xs m) \<and>
      (\<forall>(r, ms)\<in>set (fold (\<lambda>b groups. (case model_region_id b of None \<Rightarrow> groups
        | Some r \<Rightarrow> bt_insert r (unwrap_or (map_of groups r) [] @ [b]) groups)) xs m).
        ms \<noteq> [] \<and> (\<forall>b\<in>set ms. b \<in> S \<and> model_region_id b = Some r))"
    if "bt_ok m" "\<forall>(r, ms)\<in>set m. ms \<noteq> [] \<and> (\<forall>b\<in>set ms. b \<in> S \<and> model_region_id b = Some r)" "set xs \<subseteq> S" for S xs m
    using that
  proof (induction xs arbitrary: m)
    case (Cons x xs)
    let ?m = "case model_region_id x of None \<Rightarrow> m | Some r \<Rightarrow> bt_insert r (unwrap_or (map_of m r) [] @ [x]) m"
    have "bt_ok ?m" using Cons.prems(1) by (simp add: bt_insert_ok split: option.split)
    moreover have "\<forall>(r, ms)\<in>set ?m. ms \<noteq> [] \<and> (\<forall>b\<in>set ms. b \<in> S \<and> model_region_id b = Some r)"
    proof (cases "model_region_id x")
      case (Some r)
      have "b \<in> S \<and> model_region_id b = Some r" if "b \<in> set (unwrap_or (map_of m r) [])" for b
        using that Cons.prems(2) by (cases "map_of m r") (auto simp: unwrap_or_def dest!: map_of_SomeD)
      with Some Cons.prems show ?thesis by (auto simp: bt_insert_set)
    qed (simp add: Cons.prems(2))
    ultimately show ?case using Cons.IH [of ?m] Cons.prems(3) by simp
  qed simp
  from this [of "[]" "set bs" bs] show ?thesis by (simp add: group_by_region_def bt_ok_def)
qed

section \<open>The builders\<close>

text \<open>Regions never mix rotated marginal blocks with the others.\<close>

definition uniform_regions :: "block list \<Rightarrow> bool" where
  "uniform_regions bs \<longleftrightarrow> (\<forall>r. \<forall>a\<in>set bs. \<forall>b\<in>set bs. model_region_id a = Some r \<longrightarrow>
     model_region_id b = Some r \<longrightarrow> is_rotated_marginal a = is_rotated_marginal b)"

text \<open>
  One statement covers both relations: an edge is allowed when it joins blocks of the page and,
  if \<open>down\<close> is set and it is strong, leads downwards.
\<close>

definition allowed :: "bool \<Rightarrow> block list \<Rightarrow> rstr \<Rightarrow> rstr \<Rightarrow> edge_source \<Rightarrow> bool" where
  "allowed down bs i j s \<longleftrightarrow>
     (\<exists>a\<in>set bs. \<exists>b\<in>set bs. i = bk_id a \<and> j = bk_id b \<and> (down \<longrightarrow> is_strong s \<longrightarrow> pot a < pot b))"

lemma allowedI:
  "a \<in> set bs \<Longrightarrow> b \<in> set bs \<Longrightarrow> (down \<Longrightarrow> is_strong s \<Longrightarrow> pot a < pot b) \<Longrightarrow> allowed down bs (bk_id a) (bk_id b) s"
  by (auto simp: allowed_def)

lemma grows_block_push:
  "a \<in> set bs \<Longrightarrow> b \<in> set bs \<Longrightarrow> (down \<Longrightarrow> is_strong s \<Longrightarrow> bk_id a \<noteq> bk_id b \<Longrightarrow> pot a < pot b) \<Longrightarrow>
    grows_by (allowed down bs) g (push_edge (bk_id a) (bk_id b) s why c g)"
  by (rule grows_push) (auto intro: allowedI)

lemma grows_weak_push:
  "a \<in> set bs \<Longrightarrow> b \<in> set bs \<Longrightarrow> \<not> is_strong s \<Longrightarrow>
    grows_by (allowed down bs) g (push_edge (bk_id a) (bk_id b) s why c g)"
  by (rule grows_block_push) simp_all

lemma weak_sources [simp]:
  "\<not> is_strong ModelOrder" "\<not> is_strong FallbackInsertion" "\<not> is_strong BandHorizontal"
  "\<not> is_strong CaptionRelation" "\<not> is_strong XyCut"
  by (simp_all add: is_strong_def)

definition steady :: "bool \<Rightarrow> block list \<Rightarrow> bool" where
  "steady down bs \<longleftrightarrow> (down \<longrightarrow> uniform_regions bs \<and> (\<forall>b\<in>set bs. bbox_ok (bk_bbox b)))"

lemma grows_intra:
  assumes "steady down bs" "set ms \<subseteq> set bs" "\<forall>b\<in>set ms. model_region_id b = Some r"
  shows "grows_by (allowed down bs) g (chain_edges intra_link (sort_key block_key ms) g)"
proof (rule grows_chain)
  fix a b g assume w: "(a, b) \<in> set (windows2 (sort_key block_key ms))"
  then have ab: "a \<in> set ms" "b \<in> set ms" using windows2_in [OF w] by simp_all
  have "block_key a \<le> block_key b" by (rule windows2_sorted [OF _ w]) simp
  have page: "a \<in> set bs" "b \<in> set bs" "model_region_id a = Some r" "model_region_id b = Some r"
    using assms(2,3) ab by blast+
  have same: "is_rotated_marginal a = is_rotated_marginal b" if down
  proof -
    from that assms(1) have "uniform_regions bs" by (simp add: steady_def)
    with page show ?thesis unfolding uniform_regions_def by blast
  qed
  from \<open>block_key a \<le> block_key b\<close> show "grows_by (allowed down bs) g (intra_link a b g)"
    using page(1,2) same unfolding intra_link_def by (intro grows_block_push) (simp_all add: pot_less)
qed

definition region_within :: "block list \<Rightarrow> region \<Rightarrow> bool" where
  "region_within bs r \<longleftrightarrow> fst (snd (snd r)) \<in> bk_id ` set bs \<and> fst (snd (snd (snd r))) \<in> bk_id ` set bs"

lemma grows_groups:
  assumes "steady down bs" "\<forall>(r, ms)\<in>set groups. ms \<noteq> [] \<and> (\<forall>b\<in>set ms. b \<in> set bs \<and> model_region_id b = Some r)"
    and "\<forall>r\<in>set regions. region_within bs r"
  shows "grows_by (allowed down bs) g (fst (fold add_group groups (g, regions))) \<and>
    (\<forall>r\<in>set (snd (fold add_group groups (g, regions))). region_within bs r)"
  using assms(2,3)
proof (induction groups arbitrary: g regions)
  case (Cons grp groups)
  obtain r ms where grp: "grp = (r, ms)" by (cases grp)
  with Cons.prems(1) have ms: "ms \<noteq> []" "\<forall>b\<in>set ms. b \<in> set bs \<and> model_region_id b = Some r" by auto
  let ?children = "sort_key block_key ms" and ?g = "chain_edges intra_link (sort_key block_key ms) g"
  have "set ?children = set ms" by simp
  with ms have kids: "?children \<noteq> []" "set ?children \<subseteq> set bs" by (metis set_empty, blast)
  have 1: "grows_by (allowed down bs) g ?g" by (rule grows_intra [OF assms(1)]) (use ms in auto)
  obtain regions' where step: "add_group grp (g, regions) = (?g, regions')"
      "regions' = regions \<or> regions' = regions @ [region_of r ?children]"
    unfolding grp add_group_def Let_def by (cases "(\<forall>b\<in>set ?children. is_rotated_marginal b) \<or> ?children = []") auto
  have "bk_id (hd ?children) \<in> bk_id ` set bs" "bk_id (last ?children) \<in> bk_id ` set bs"
    using kids hd_in_set [OF kids(1)] last_in_set [OF kids(1)] by auto
  then have "region_within bs (region_of r ?children)" by (simp add: region_within_def region_of_def)
  then have "\<forall>r\<in>set regions'. region_within bs r" using step(2) Cons.prems(2) by auto
  with Cons.IH [of regions' ?g] Cons.prems(1)
  have "grows_by (allowed down bs) ?g (fst (fold add_group groups (?g, regions')))"
    "\<forall>r\<in>set (snd (fold add_group groups (?g, regions'))). region_within bs r" by simp_all
  with grows_trans [OF 1] step(1) show ?case by simp
qed simp

lemma grows_model:
  assumes "steady down bs"
  shows "grows_by (allowed down bs) g (add_model_edges bs g)"
proof -
  obtain h regions where h: "fold add_group (group_by_region bs) (g, []) = (h, regions)" by fastforce
  from grows_groups [OF assms group_members, of "[]" g] h
  have 1: "grows_by (allowed down bs) g h" and
    reg: "\<forall>r\<in>set regions. region_within bs r" by simp_all
  let ?sorted = "sort_key (\<lambda>(ord, ix, first, _, _). (ord, ix, first)) regions"
  have "grows_by (allowed down bs) h (chain_edges region_link ?sorted h)"
  proof (rule grows_chain)
    fix a b g assume "(a, b) \<in> set (windows2 ?sorted)"
    then have "a \<in> set regions" "b \<in> set regions" using windows2_in by fastforce+
    with reg have "region_within bs a" "region_within bs b" by simp_all
    moreover obtain o1 i1 f1 l1 c1 o2 i2 f2 l2 c2 where "a = (o1, i1, f1, l1, c1)" "b = (o2, i2, f2, l2, c2)"
      by (cases a; cases b) blast
    ultimately show "grows_by (allowed down bs) g (region_link a b g)"
      by (auto intro!: grows_push simp: allowed_def region_within_def region_link_def is_strong_def)
  qed
  from grows_trans [OF 1 this] h show ?thesis by (simp add: add_model_edges_def)
qed

lemma grows_marginal: "grows_by (allowed down bs) g (add_rotated_marginal_edges bs g)"
proof (cases "marginals_of bs")
  case Nil
  then show ?thesis by (simp add: add_rotated_marginal_edges_def)
next
  case (Cons m ms)
  have in_marg: "\<And>b. b \<in> set (marginals_of bs) \<Longrightarrow> b \<in> set bs \<and> is_rotated_marginal b"
    by (simp add: marginals_of_def)
  have m: "m \<in> set bs" "is_rotated_marginal m" using in_marg [of m] Cons by simp_all
  let ?h = "case max_by_less lower (main_flow bs) of None \<Rightarrow> g
       | Some l \<Rightarrow> push_edge (bk_id l) (bk_id m) StrongVertical ''main flow before rotated marginal content'' None g"
  have 1: "grows_by (allowed down bs) g ?h"
  proof (cases "max_by_less lower (main_flow bs)")
    case (Some l)
    then have "l \<in> set bs" "\<not> is_rotated_marginal l" using max_by_less_in [OF Some] by (simp_all add: main_flow_def)
    with m Some show ?thesis by (simp add: grows_block_push pot_class)
  qed simp
  have "grows_by (allowed down bs) ?h (chain_edges marginal_link (marginals_of bs) ?h)"
  proof (rule grows_chain)
    fix a b g assume w: "(a, b) \<in> set (windows2 (marginals_of bs))"
    have "block_key a \<le> block_key b"
      by (rule windows2_sorted [OF _ w]) (simp add: marginals_of_def)
    with in_marg windows2_in [OF w] show "grows_by (allowed down bs) g (marginal_link a b g)"
      unfolding marginal_link_def by (intro grows_block_push) (auto intro: pot_less)
  qed
  with 1 show ?thesis using Cons grows_trans by (simp add: add_rotated_marginal_edges_def)
qed

lemma grows_xy: "grows_by (allowed down bs) g (add_xy_cut_edges bs g)"
  unfolding add_xy_cut_edges_def
proof (rule grows_chain)
  fix a b g
  assume "(a, b) \<in> set (windows2 (sort_key (\<lambda>(r, b). (r, bk_id b)) (List.map_filter (\<lambda>b. map_option (\<lambda>r. (r, b)) (fallback_region b)) bs)))"
  from windows2_in [OF this] have "snd a \<in> set bs" "snd b \<in> set bs" by (auto simp: set_map_filter)
  then show "grows_by (allowed down bs) g (xy_link a b g)"
    unfolding xy_link_def by (intro grows_block_push) (auto simp: is_strong_def)
qed

lemma below_less:
  assumes "below_of flow s = Some c" "bbox_ok (bk_bbox s)"
  shows "c \<in> set flow" "block_key s < block_key c"
proof -
  from min_by_key_in [OF assms(1) [unfolded below_of_def]]
  have c: "c \<in> set flow" "fle (bottom (bk_bbox s)) (top_of (bk_bbox c))" by auto
  show "c \<in> set flow" by (rule c(1))
  have "flt (top_of (bk_bbox s)) (top_of (bk_bbox c))"
    using assms(2) c(2) by (auto simp: bbox_ok_def intro: flt_fle_trans)
  then show "block_key s < block_key c" by (simp add: block_key_def flt_imp_less)
qed

lemma grows_geometry:
  assumes "steady down bs"
  shows "grows_by (allowed down bs) g (add_geometry_edges bs g)"
  unfolding add_geometry_edges_def
proof (rule grows_fold)
  fix s g assume s: "s \<in> set (main_flow bs)"
  have sub: "x \<in> set bs \<and> \<not> is_rotated_marginal x" if "x \<in> set (main_flow bs)" for x
    using that by (simp add: main_flow_def)
  let ?h = "case below_of (main_flow bs) s of None \<Rightarrow> g
       | Some c \<Rightarrow> push_edge (bk_id s) (bk_id c) StrongVertical ''nearest non-overlapping vertical geometry'' None g"
  have "grows_by (allowed down bs) g ?h"
  proof (cases "below_of (main_flow bs) s")
    case (Some c)
    have c: "c \<in> set (main_flow bs)"
      using min_by_key_in [OF Some [unfolded below_of_def]] by simp
    have "down \<Longrightarrow> pot s < pot c"
      using below_less(2) [OF Some] assms sub [OF s] sub [OF c] by (simp add: steady_def pot_def)
    with Some sub [OF s] sub [OF c] show ?thesis by (simp add: grows_block_push)
  qed simp
  moreover have "grows_by (allowed down bs) ?h (case right_of (main_flow bs) s of None \<Rightarrow> ?h
       | Some c \<Rightarrow> push_edge (bk_id s) (bk_id c) BandHorizontal ''nearest same-band left-to-right geometry'' None ?h)"
  proof (cases "right_of (main_flow bs) s")
    case (Some c)
    have c: "c \<in> set (main_flow bs)"
      using min_by_key_in [OF Some [unfolded right_of_def]] by simp
    with Some sub [OF s] sub [OF c] show ?thesis by (simp add: grows_weak_push)
  qed simp
  ultimately show "grows_by (allowed down bs) g (geometry_link (main_flow bs) s g)"
    unfolding geometry_link_def Let_def by (rule grows_trans)
qed

lemma grows_caption: "grows_by (allowed down bs) g (add_caption_edges bs g)"
  unfolding add_caption_edges_def
proof (rule grows_fold)
  fix c g assume c: "c \<in> set (filter (\<lambda>b. label b = FigureTitle) bs)"
  let ?near = "min_by_key (\<lambda>v. (vertical_distance (bk_bbox c) (bk_bbox v), bk_id v)) (filter is_visual_object bs)"
  show "grows_by (allowed down bs) g (caption_link (filter is_visual_object bs) c g)"
  proof (cases ?near)
    case (Some v)
    then have "v \<in> set bs" using min_by_key_in [OF Some] by simp
    with c Some show ?thesis by (simp add: caption_link_def grows_weak_push)
  qed (simp add: caption_link_def)
qed

lemma grows_insertion: "grows_by (allowed down bs) g (add_fallback_insertion_edges bs g)"
  unfolding add_fallback_insertion_edges_def
proof (rule grows_chain)
  fix a b g assume "(a, b) \<in> set (windows2 (sort_key block_key bs))"
  from windows2_in [OF this] show "grows_by (allowed down bs) g (insertion_link a b g)"
    by (simp add: insertion_link_def grows_weak_push)
qed

section \<open>The whole graph\<close>

definition node_graph :: "block list \<Rightarrow> order_graph" where
  "node_graph bs = fold (\<lambda>b. insert_node (node_of b)) bs empty_graph"

lemma grows_from_blocks: "steady down bs \<Longrightarrow> grows_by (allowed down bs) (node_graph bs) (from_blocks bs)"
  unfolding from_blocks_def node_graph_def
  by (intro grows_trans [OF _ grows_insertion] grows_trans [OF _ grows_caption] grows_trans [OF _ grows_geometry]
      grows_trans [OF _ grows_xy] grows_trans [OF _ grows_marginal] grows_model)

lemma node_graph_props:
  "keyed (node_graph bs) \<and> edges (node_graph bs) = [] \<and> fst ` set (nodes (node_graph bs)) = bk_id ` set bs"
proof -
  have "keyed (fold (\<lambda>b. insert_node (node_of b)) xs g) \<and> edges (fold (\<lambda>b. insert_node (node_of b)) xs g) = edges g \<and>
      fst ` set (nodes (fold (\<lambda>b. insert_node (node_of b)) xs g)) = fst ` set (nodes g) \<union> bk_id ` set xs"
    if "keyed g" for xs and g :: order_graph
    using that
  proof (induction xs arbitrary: g)
    case (Cons x xs)
    have "fst ` set (nodes (insert_node (node_of x) g)) = insert (bk_id x) (fst ` set (nodes g))"
      using bt_insert_keys [of "bk_id x" "node_of x" "nodes g"] by (simp add: insert_node_def node_of_def)
    with Cons keyed_insert [OF Cons.prems] show ?case by (simp add: insert_node_def)
  qed simp
  from this [OF keyed_empty, of bs] show ?thesis by (simp add: node_graph_def empty_graph_def)
qed

lemma from_blocks_props:
  "keyed (from_blocks bs)" "fst ` set (nodes (from_blocks bs)) = bk_id ` set bs"
  "e \<in> set (edges (from_blocks bs)) \<Longrightarrow> knows (from_blocks bs) e"
proof -
  have "steady False bs" by (simp add: steady_def)
  from grows_from_blocks [OF this] have nodes: "nodes (from_blocks bs) = nodes (node_graph bs)"
    and all: "\<forall>e\<in>set (edges (from_blocks bs)). allowed False bs (e_from e) (e_to e) (e_source e)"
    using node_graph_props [of bs] by (auto simp: grows_by_def)
  then show "keyed (from_blocks bs)" "fst ` set (nodes (from_blocks bs)) = bk_id ` set bs"
    using node_graph_props [of bs] by (simp_all add: keyed_def)
  then show "knows (from_blocks bs) e" if "e \<in> set (edges (from_blocks bs))"
    using all that by (auto simp: allowed_def knows_def)
qed

lemma from_blocks_node:
  assumes "distinct (map bk_id bs)" "b \<in> set bs"
  shows "map_of (nodes (from_blocks bs)) (bk_id b) = Some (node_of b)"
proof -
  have "bt_ok (nodes (fold (\<lambda>b. insert_node (node_of b)) xs g)) \<and>
      (\<forall>i. map_of (nodes (fold (\<lambda>b. insert_node (node_of b)) xs g)) i =
        (if i \<in> bk_id ` set xs then map_of (map (\<lambda>b. (bk_id b, node_of b)) xs) i else map_of (nodes g) i))"
    if "bt_ok (nodes g)" "distinct (map bk_id xs)" for xs and g :: order_graph
    using that
  proof (induction xs arbitrary: g)
    case (Cons x xs)
    have g: "bt_ok (nodes (insert_node (node_of x) g))" "\<And>i. map_of (nodes (insert_node (node_of x) g)) i = (if i = bk_id x then Some (node_of x) else map_of (nodes g) i)"
      using bt_insert_ok [OF Cons.prems(1)] bt_insert_lookup [OF Cons.prems(1)] by (simp_all add: insert_node_def node_of_def)
    with Cons.IH [OF g(1)] Cons.prems(2) show ?case by (auto simp: image_iff)
  qed simp
  from this [of empty_graph bs] assms have "map_of (nodes (node_graph bs)) (bk_id b) = map_of (map (\<lambda>b. (bk_id b, node_of b)) bs) (bk_id b)"
    by (simp add: node_graph_def empty_graph_def bt_ok_def)
  moreover have "steady False bs" by (simp add: steady_def)
  from grows_from_blocks [OF this] have "nodes (from_blocks bs) = nodes (node_graph bs)" by (simp add: grows_by_def)
  moreover have "map_of (map (\<lambda>b. (bk_id b, node_of b)) bs) (bk_id b) = Some (node_of b)"
    using assms by (subst map_of_eq_Some_iff) (auto simp: comp_def)
  ultimately show ?thesis by simp
qed

lemma from_blocks_keys:
  assumes "e \<in> set (edges (from_blocks bs))"
  shows "stable_key e = e_from e @ [62] @ e_to e @ [58] @ show_nat (rank (e_source e))" "e_from e \<noteq> e_to e"
proof -
  have "steady False bs" by (simp add: steady_def)
  from grows_from_blocks [OF this] node_graph_props [of bs] assms
  show "stable_key e = e_from e @ [62] @ e_to e @ [58] @ show_nat (rank (e_source e))" "e_from e \<noteq> e_to e"
    by (auto simp: grows_by_def)
qed

lemma strong_acyclic:
  assumes "steady True bs" "distinct (map bk_id bs)"
  shows "acyclic (strong_rel (norm_edges (from_blocks bs)))"
proof -
  from grows_from_blocks [OF assms(1)] node_graph_props [of bs]
  have all: "\<forall>e\<in>set (edges (from_blocks bs)). allowed True bs (e_from e) (e_to e) (e_source e)"
    by (auto simp: grows_by_def)
  let ?block = "\<lambda>i. THE b. b \<in> set bs \<and> bk_id b = i"
  have block: "?block (bk_id b) = b" if "b \<in> set bs" for b
    using that distinct_map_same [OF assms(2)] by blast
  have down: "pot (?block x) < pot (?block y)" if "(x, y) \<in> strong_rel (norm_edges (from_blocks bs))" for x y
  proof -
    from that obtain e where e: "e \<in> set (norm_edges (from_blocks bs))" "is_strong (e_source e)" "x = e_from e" "y = e_to e"
      by (auto simp: strong_rel_def)
    with all norm_edges_subset have "allowed True bs x y (e_source e)" by blast
    with e(2) block show ?thesis by (auto simp: allowed_def)
  qed
  have "pot (?block x) < pot (?block y)" if "(x, y) \<in> (strong_rel (norm_edges (from_blocks bs)))\<^sup>+" for x y
    using that
  proof (induction rule: trancl_induct)
    case (step y z)
    then show ?case using down [of y z] by (meson less_trans)
  qed (rule down)
  then show ?thesis unfolding acyclic_def by (meson less_irrefl)
qed

end
