(* ===== verification/Order_Properties.thy ===== *)
theory Order_Properties
  imports Order_Edges
begin

text \<open>
  The contract of \<open>order_blocks\<close>: the page's reading order exists, is a permutation of the
  blocks that respects every geometric constraint that can be respected, and depends on the
  blocks alone.
\<close>

section \<open>Placing the blocks\<close>

definition unplaced :: "block \<Rightarrow> block" where
  "unplaced b = b\<lparr>final_order := 0\<rparr>"

definition place_at :: "nat \<Rightarrow> nat" where
  "place_at k = (if int k < u32_limit then k else nat (u32_limit - 1))"

lemma own_spec:
  assumes "bt_ok m"
  shows "if distinct (map bk_id bs) \<and> (\<forall>b\<in>set bs. map_of m (bk_id b) = None)
    then \<exists>m'. rfold own_block bs m = Inr m' \<and>
      (\<forall>i b. map_of m' i = Some b \<longleftrightarrow> map_of m i = Some b \<or> b \<in> set bs \<and> bk_id b = i)
    else \<exists>i. rfold own_block bs m = Inl (DuplicateBlock i)"
  using assms
proof (induction bs arbitrary: m)
  case (Cons b bs)
  show ?case
  proof (cases "map_of m (bk_id b)")
    case (Some c)
    then show ?thesis by (simp add: own_block_def)
  next
    case None
    let ?m = "bt_insert (bk_id b) b m"
    have ok: "bt_ok ?m" by (rule bt_insert_ok [OF Cons.prems])
    note look = bt_insert_lookup [OF Cons.prems]
    have "(distinct (map bk_id bs) \<and> (\<forall>c\<in>set bs. map_of ?m (bk_id c) = None)) \<longleftrightarrow>
        (distinct (map bk_id (b # bs)) \<and> (\<forall>c\<in>set (b # bs). map_of m (bk_id c) = None))"
      using None by (auto simp: look intro: rev_image_eqI)
    moreover have "rfold own_block (b # bs) m = rfold own_block bs ?m"
      using None by (simp add: own_block_def)
    moreover have "map_of ?m i = Some c \<or> c \<in> set bs \<and> bk_id c = i \<longleftrightarrow>
        map_of m i = Some c \<or> c \<in> set (b # bs) \<and> bk_id c = i" for i c
      using None by (auto simp: look)
    ultimately show ?thesis using Cons.IH [OF ok] by (simp only:)
  qed
qed simp

lemma own_all: "distinct (map bk_id bs) \<Longrightarrow> \<exists>m. rfold own_block bs [] = Inr m \<and>
    (\<forall>i b. map_of m i = Some b \<longleftrightarrow> b \<in> set bs \<and> bk_id b = i)"
  using own_spec [of "[]" bs] by (simp add: bt_ok_def)

lemma own_duplicate: "\<not> distinct (map bk_id bs) \<Longrightarrow> \<exists>i. rfold own_block bs [] = Inl (DuplicateBlock i)"
  using own_spec [of "[]" bs] by (simp add: bt_ok_def)

lemma map_of_remove: "map_of (filter (\<lambda>(k, _). k \<noteq> i) m) = (map_of m)(i := None)"
  by (induction m) (auto simp: fun_eq_iff)

lemma place_all:
  assumes "distinct ids" "\<forall>i\<in>set ids. map_of m i \<noteq> None"
  shows "\<exists>m'. rfold place_block (List.enumerate k ids) (m, placed) =
    Inr (m', placed @ map (\<lambda>(ord, i). (the (map_of m i))\<lparr>final_order := place_at ord\<rparr>) (List.enumerate k ids))"
  using assms
proof (induction ids arbitrary: k m placed)
  case (Cons i ids)
  then obtain b where b: "map_of m i = Some b" by auto
  let ?m = "filter (\<lambda>(k, _). k \<noteq> i) m"
  have step: "place_block (k, i) (m, placed) = Inr (?m, placed @ [b\<lparr>final_order := place_at k\<rparr>])"
    by (simp add: place_block_def b place_at_def)
  have "\<forall>j\<in>set ids. map_of ?m j \<noteq> None" and same: "\<forall>j\<in>set ids. map_of ?m j = map_of m j"
    using Cons.prems by (auto simp: map_of_remove)
  with Cons.IH [of ?m "Suc k" "placed @ [b\<lparr>final_order := place_at k\<rparr>]"] Cons.prems(1) obtain m' where
    "rfold place_block (List.enumerate (Suc k) ids) (?m, placed @ [b\<lparr>final_order := place_at k\<rparr>]) =
      Inr (m', (placed @ [b\<lparr>final_order := place_at k\<rparr>]) @
        map (\<lambda>(ord, i). (the (map_of ?m i))\<lparr>final_order := place_at ord\<rparr>) (List.enumerate (Suc k) ids))" by auto
  moreover have "map (\<lambda>(ord, i). (the (map_of ?m i))\<lparr>final_order := place_at ord\<rparr>) (List.enumerate (Suc k) ids) =
      map (\<lambda>(ord, i). (the (map_of m i))\<lparr>final_order := place_at ord\<rparr>) (List.enumerate (Suc k) ids)"
    using same by (auto simp: enumerate_eq_zip dest: set_zip_rightD)
  ultimately show ?case using step b by simp
qed simp

text \<open>The blocks in the order of the ids.\<close>

definition placed_blocks :: "block list \<Rightarrow> rstr list \<Rightarrow> block list" where
  "placed_blocks bs ids =
     map (\<lambda>(ord, i). (the (map_of (map (\<lambda>b. (bk_id b, b)) bs) i))\<lparr>final_order := place_at ord\<rparr>) (List.enumerate 0 ids)"

lemma by_id: "distinct (map bk_id bs) \<Longrightarrow> map_of (map (\<lambda>b. (bk_id b, b)) bs) i = Some b \<longleftrightarrow> b \<in> set bs \<and> bk_id b = i"
  by (subst map_of_eq_Some_iff) (auto simp: comp_def)

lemma order_blocks_cases:
  "if \<not> acyclic (strong_rel (norm_edges (from_blocks bs))) then order_blocks bs = Some (Inl InternalOrderConflict)
   else if distinct (map bk_id bs)
   then \<exists>ids removed. order_blocks bs = Some (Inr (placed_blocks bs ids, removed)) \<and>
     resolved (from_blocks bs) ids removed
   else \<exists>i. order_blocks bs = Some (Inl (DuplicateBlock i))"
proof (cases "acyclic (strong_rel (norm_edges (from_blocks bs)))")
  case False
  with resolve_known [OF from_blocks_props(1), of bs] from_blocks_props(3) show ?thesis
    by (simp add: order_blocks_def)
next
  case True
  with resolve_known [OF from_blocks_props(1), of bs] from_blocks_props(3) obtain ids removed where
    r: "resolve (from_blocks bs) = Some (Inr (ids, removed))" "resolved (from_blocks bs) ids removed" by auto
  show ?thesis
  proof (cases "distinct (map bk_id bs)")
    case False
    with own_duplicate [OF False] r(1) True show ?thesis by (auto simp: order_blocks_def)
  next
    case dist: True
    from own_all [OF dist] obtain m where
      m: "rfold own_block bs [] = Inr m" "\<And>i b. map_of m i = Some b \<longleftrightarrow> b \<in> set bs \<and> bk_id b = i" by blast
    have same: "map_of m = map_of (map (\<lambda>b. (bk_id b, b)) bs)"
    proof
      fix i
      show "map_of m i = map_of (map (\<lambda>b. (bk_id b, b)) bs) i"
        by (rule option_same) (simp only: m(2) by_id [OF dist])
    qed
    have ids: "distinct ids" "set ids = bk_id ` set bs"
      using r(2) from_blocks_props(2) [of bs] by (auto simp: resolved_def)
    then have "\<forall>i\<in>set ids. map_of m i \<noteq> None" using m(2) by (metis (no_types, lifting) imageE option.distinct(1))
    from place_all [OF ids(1) this, of 0 "[]"] obtain m' where
      "rfold place_block (List.enumerate 0 ids) (m, []) = Inr (m', placed_blocks bs ids)"
      by (auto simp: placed_blocks_def same)
    with r m(1) True dist show ?thesis by (auto simp: order_blocks_def)
  qed
qed

lemma placed_props:
  assumes "distinct (map bk_id bs)" "distinct ids" "set ids = bk_id ` set bs"
  shows "map bk_id (placed_blocks bs ids) = ids"
    and "mset (map unplaced (placed_blocks bs ids)) = mset (map unplaced bs)"
    and "k < length ids \<Longrightarrow> final_order (placed_blocks bs ids ! k) = place_at k"
    and "length (placed_blocks bs ids) = length ids"
proof -
  let ?at = "\<lambda>i. the (map_of (map (\<lambda>b. (bk_id b, b)) bs) i)"
  have at: "?at (bk_id b) = b" if "b \<in> set bs" for b
    using by_id [OF assms(1), of "bk_id b" b] that by simp
  have bk: "bk_id (?at i) = i" if "i \<in> set ids" for i
    using that assms(3) at by auto
  show len: "length (placed_blocks bs ids) = length ids" by (simp add: placed_blocks_def)
  show "map bk_id (placed_blocks bs ids) = ids"
  proof (rule nth_equalityI)
    fix k assume "k < length (map bk_id (placed_blocks bs ids))"
    then have "k < length ids" by (simp add: len)
    then show "map bk_id (placed_blocks bs ids) ! k = ids ! k"
      by (simp add: placed_blocks_def nth_enumerate_eq bk)
  qed (simp add: len)
  show "final_order (placed_blocks bs ids ! k) = place_at k" if "k < length ids"
    using that by (simp add: placed_blocks_def nth_enumerate_eq)
  have "map unplaced (placed_blocks bs ids) = map (unplaced \<circ> ?at) ids"
    by (rule nth_equalityI) (simp_all add: placed_blocks_def nth_enumerate_eq unplaced_def)
  moreover have "mset ids = mset (map bk_id bs)"
    using assms by (intro set_eq_iff_mset_eq_distinct [THEN iffD1]) auto
  then have "mset (map (unplaced \<circ> ?at) ids) = mset (map (unplaced \<circ> ?at) (map bk_id bs))"
    by (simp only: mset_map)
  moreover have "map (unplaced \<circ> ?at) (map bk_id bs) = map unplaced bs" by (simp add: at)
  ultimately show "mset (map unplaced (placed_blocks bs ids)) = mset (map unplaced bs)" by (simp only:)
qed

lemma page_is_ordered:
  assumes "distinct (map bk_id bs)" and "\<forall>b\<in>set bs. bbox_ok (bk_bbox b)" and "uniform_regions bs"
  shows "\<exists>out removed. order_blocks bs = Some (Inr (out, removed)) \<and> mset (map unplaced out) = mset (map unplaced bs) \<and>
    (\<forall>e\<in>set (norm_edges (from_blocks bs)). is_strong (e_source e) \<longrightarrow> before (map bk_id out) (e_from e) (e_to e))"
proof -
  have "steady True bs" using assms(2,3) by (simp add: steady_def)
  from order_blocks_cases [of bs] strong_acyclic [OF this assms(1)] assms(1) obtain ids removed where
    ob: "order_blocks bs = Some (Inr (placed_blocks bs ids, removed))" and res: "resolved (from_blocks bs) ids removed"
    by auto
  from res from_blocks_props(2) have ids: "distinct ids" "set ids = bk_id ` set bs" by (simp_all add: resolved_def)
  from res obtain kept dropped where split: "mset kept + mset dropped = mset (norm_edges (from_blocks bs))"
      "\<forall>e\<in>set kept. before ids (e_from e) (e_to e)" "\<forall>e\<in>set dropped. \<not> is_strong (e_source e)"
    unfolding resolved_def by blast
  have "e \<in> set kept \<or> e \<in> set dropped" if "e \<in> set (norm_edges (from_blocks bs))" for e
    using that split(1) by (metis set_mset_mset set_mset_union UnE)
  with ob split(2,3) placed_props(1,2) [OF assms(1) ids] show ?thesis by auto
qed

section \<open>The greedy order\<close>

text \<open>The edges that were not given up, and the blocks that may come next once some are placed.\<close>

definition kept_edges :: "block list \<Rightarrow> removed_edge list \<Rightarrow> order_edge list" where
  "kept_edges bs removed = filter (\<lambda>e. removed_of e \<notin> set removed) (norm_edges (from_blocks bs))"

definition ready_blocks :: "block list \<Rightarrow> order_edge list \<Rightarrow> rstr set \<Rightarrow> block set" where
  "ready_blocks bs es placed =
     {b \<in> set bs. bk_id b \<notin> placed \<and> (\<forall>e\<in>set es. e_to e = bk_id b \<longrightarrow> e_from e \<in> placed)}"

definition greedy_reading :: "block list \<Rightarrow> order_edge list \<Rightarrow> rstr list \<Rightarrow> bool" where
  "greedy_reading bs es ids \<longleftrightarrow> length ids = length bs \<and>
     (\<forall>k<length ids. \<exists>b\<in>ready_blocks bs es (set (take k ids)). bk_id b = ids ! k \<and>
        (\<forall>c\<in>ready_blocks bs es (set (take k ids)). node_key (node_of b) \<le> node_key (node_of c)))"

lemma node_of_id: "node_key (node_of b) = node_key (node_of c) \<Longrightarrow> bk_id b = bk_id c"
  by (simp add: node_key_def node_of_def)

lemma greedy_reading_unique:
  assumes "greedy_reading bs es xs" "greedy_reading bs es ys"
  shows "xs = ys"
proof -
  have len: "length xs = length bs" "length ys = length bs" using assms by (simp_all add: greedy_reading_def)
  have "take k xs = take k ys" if "k \<le> length bs" for k
    using that
  proof (induction k)
    case (Suc k)
    then have same: "take k xs = take k ys" and k: "k < length xs" "k < length ys" using len by simp_all
    obtain b where b: "b \<in> ready_blocks bs es (set (take k xs))" "bk_id b = xs ! k"
      "\<forall>c\<in>ready_blocks bs es (set (take k xs)). node_key (node_of b) \<le> node_key (node_of c)"
      using assms(1) k(1) unfolding greedy_reading_def by blast
    obtain c where c: "c \<in> ready_blocks bs es (set (take k xs))" "bk_id c = ys ! k"
      "\<forall>b\<in>ready_blocks bs es (set (take k xs)). node_key (node_of c) \<le> node_key (node_of b)"
      using assms(2) k(2) unfolding greedy_reading_def same by blast
    have "xs ! k = ys ! k" using node_of_id [of b c] b c by (metis antisym)
    with same k show ?case by (simp add: take_Suc_conv_app_nth)
  qed simp
  from this [of "length bs"] len show ?thesis by simp
qed

lemma dedup_keys_strict:
  "sorted (map stable_key es) \<Longrightarrow> sorted_wrt (<) (map stable_key (dedup_keys es))"
proof (induction es rule: dedup_keys.induct)
  case (1 a b es)
  show ?case
  proof (cases "stable_key b = stable_key a")
    case False
    then have less: "stable_key a < stable_key b" using 1(3) by auto
    have "stable_key a < stable_key e" if "e \<in> set (dedup_keys (b # es))" for e
    proof -
      from that dedup_subset have "e \<in> set (b # es)" by blast
      with 1(3) less show ?thesis by (auto intro: less_le_trans)
    qed
    with False 1 show ?thesis by auto
  qed (use 1 in simp)
qed simp_all

lemma norm_edges_keys: "distinct (map stable_key (norm_edges g))"
  using dedup_keys_strict [of "sort_key stable_key (edges g)"] by (simp add: norm_edges_def strict_sorted_iff)

text \<open>A report names its edge.\<close>

lemma removed_of_inject: "inj_on removed_of (set (norm_edges (from_blocks bs)))"
proof (rule inj_onI)
  fix e f assume ef: "e \<in> set (norm_edges (from_blocks bs))" "f \<in> set (norm_edges (from_blocks bs))" "removed_of e = removed_of f"
  then have "e \<in> set (edges (from_blocks bs))" "f \<in> set (edges (from_blocks bs))" using norm_edges_subset by blast+
  with ef(3) have "stable_key e = stable_key f" by (simp add: from_blocks_keys(1) removed_of_def)
  with norm_edges_keys ef(1,2) show "e = f" by (metis distinct_map inj_onD)
qed

lemma kept_edges_split:
  assumes "mset kept + mset dropped = mset (norm_edges (from_blocks bs))" "mset removed = mset (map removed_of dropped)"
  shows "set (kept_edges bs removed) = set kept"
proof -
  have "mset (kept @ dropped) = mset (norm_edges (from_blocks bs))" using assms(1) by simp
  then have "distinct (kept @ dropped)" using mset_eq_imp_distinct_iff norm_edges_keys distinct_map by blast
  then have apart: "set kept \<inter> set dropped = {}" by simp
  have union: "set (norm_edges (from_blocks bs)) = set kept \<union> set dropped" using assms(1) by (metis set_mset_mset set_mset_union)
  have removed: "set removed = removed_of ` set dropped" using mset_eq_setD [OF assms(2)] by simp
  have "removed_of e \<in> removed_of ` set dropped \<longleftrightarrow> e \<in> set dropped" if "e \<in> set (norm_edges (from_blocks bs))" for e
    using removed_of_inject [of bs] that union by (auto dest: inj_onD)
  with apart union show ?thesis by (auto simp: kept_edges_def removed)
qed

lemma greedy_ids_reading:
  assumes "distinct (map bk_id bs)" "distinct ids" "set ids = bk_id ` set bs"
    and "\<forall>e\<in>set kept. before ids (e_from e) (e_to e)" "greedy_ids (nodes (from_blocks bs)) kept ids" "set es = set kept"
  shows "greedy_reading bs es ids"
  unfolding greedy_reading_def
proof (intro conjI allI impI)
  show "length ids = length bs" using assms(1-3) by (metis distinct_card length_map list.set_map)
  have look: "the (map_of (nodes (from_blocks bs)) (bk_id b)) = node_of b" if "b \<in> set bs" for b
    by (simp add: from_blocks_node [OF assms(1) that])
  fix k assume k: "k < length ids"
  then obtain b where b: "b \<in> set bs" "bk_id b = ids ! k" using assms(3) by (metis imageE nth_mem)
  have "e_from e \<in> set (take k ids)" if "e \<in> set es" "e_to e = ids ! k" for e
  proof -
    from assms(4,6) that obtain j where "j < length ids" "ids ! j = ids ! k" "e_from e \<in> set (take j ids)" by (auto simp: before_def)
    with assms(2) k show ?thesis by (simp add: nth_eq_iff_index_eq)
  qed
  moreover have "ids ! k \<notin> set (take k ids)" using assms(2) k by (auto simp: in_set_conv_nth nth_eq_iff_index_eq)
  ultimately have "b \<in> ready_blocks bs es (set (take k ids))" using b by (simp add: ready_blocks_def)
  moreover have "node_key (node_of b) \<le> node_key (node_of c)" if c: "c \<in> ready_blocks bs es (set (take k ids))" for c
  proof -
    from c have "c \<in> set bs" "bk_id c \<in> fst ` set (nodes (from_blocks bs)) - set (take k ids)"
      "\<forall>e\<in>set kept. e_to e = bk_id c \<longrightarrow> e_from e \<in> set (take k ids)"
      using assms(6) from_blocks_props(2) [of bs] by (auto simp: ready_blocks_def)
    with assms(5) k show ?thesis unfolding greedy_ids_def using look [of c] look [OF b(1)] b(2) by metis
  qed
  ultimately show "\<exists>b\<in>ready_blocks bs es (set (take k ids)). bk_id b = ids ! k \<and>
      (\<forall>c\<in>ready_blocks bs es (set (take k ids)). node_key (node_of b) \<le> node_key (node_of c))" using b(2) by blast
qed

section \<open>A page for examples\<close>

definition page_block :: "rstr \<Rightarrow> rat \<Rightarrow> rat \<Rightarrow> rat \<Rightarrow> rat \<Rightarrow> block" where
  "page_block i l t r b = \<lparr>bk_id = i, label = Text, bk_text = [], label_source = FromModel, bk_confidence = None,
     bk_bbox = \<lparr>left = Fin l, top_of = Fin t, right = Fin r, bottom = Fin b\<rparr>, bk_polygon = None,
     source_region = None, source_regions = [], model_region_id = None, model_order = None, final_order = 0,
     semantic_hints = [], lines_of = [], list_items = [], table_of = None, bk_image = None,
     embedded_image_index = None, evidence_of = []\<rparr>"

text \<open>A heading-like block above two columns, listed out of order.\<close>

definition two_columns :: "block list" where
  "two_columns = [page_block (lit ''c'') 60 20 100 90, page_block (lit ''a'') 0 0 100 10, page_block (lit ''b'') 0 20 40 90]"

section \<open>Properties\<close>

text \<open>
  C7: A reading order is sound. When \<open>order_blocks\<close> succeeds, its output is the page's blocks,
  each once and unchanged apart from \<open>final_order\<close>, which is its place. Every edge of the graph
  is respected by the order, or else it is a weak edge that lay on a cycle and is reported as
  removed.
\<close>

theorem reading_order_is_sound:
  assumes "order_blocks bs = Some (Inr (out, removed))"
  shows "mset (map unplaced out) = mset (map unplaced bs) \<and>
    (\<forall>k<length out. final_order (out ! k) = place_at k) \<and>
    (\<forall>e\<in>set (norm_edges (from_blocks bs)).
       before (map bk_id out) (e_from e) (e_to e) \<or>
       \<not> is_strong (e_source e) \<and> removed_of e \<in> set removed \<and>
         (e_to e, e_from e) \<in> (edge_set (norm_edges (from_blocks bs)))\<^sup>*)"
proof -
  from order_blocks_cases [of bs] assms obtain ids where dist: "distinct (map bk_id bs)"
    and out: "out = placed_blocks bs ids" and res: "resolved (from_blocks bs) ids removed"
    by (auto split: if_splits)
  from res from_blocks_props(2) have ids: "distinct ids" "set ids = bk_id ` set bs" by (simp_all add: resolved_def)
  note placed = placed_props [OF dist ids]
  from res obtain kept dropped where split: "mset kept + mset dropped = mset (norm_edges (from_blocks bs))"
      "mset removed = mset (map removed_of dropped)" "\<forall>e\<in>set kept. before ids (e_from e) (e_to e)"
      "\<forall>e\<in>set dropped. \<not> is_strong (e_source e) \<and> (e_to e, e_from e) \<in> (edge_set (norm_edges (from_blocks bs)))\<^sup>*"
    unfolding resolved_def by blast
  have "e \<in> set kept \<or> e \<in> set dropped" if "e \<in> set (norm_edges (from_blocks bs))" for e
    using that split(1) by (metis set_mset_mset set_mset_union UnE)
  moreover have "removed_of e \<in> set removed" if "e \<in> set dropped" for e
    using that split(2) by (metis image_eqI list.set_map set_mset_mset)
  ultimately show ?thesis using placed split(3,4) unfolding out by (simp only: placed(1)) blast
qed

text \<open>Ordering a page always ends with a result.\<close>

lemma ordering_terminates: "order_blocks bs \<noteq> None"
  using order_blocks_cases [of bs] by (auto split: if_splits)

text \<open>
  C19: A page is ordered exactly when its block ids are distinct and its strong edges alone have
  no cycle: conflicts among weak edges never fail a page, and strong edges are never given up.
  The only errors are a strong cycle and a duplicate id.
\<close>

theorem ordering_fails_only_on_strong_cycles:
  "case order_blocks bs of
     Some (Inr (out, removed)) \<Rightarrow> acyclic (strong_rel (norm_edges (from_blocks bs))) \<and> distinct (map bk_id bs)
   | Some (Inl e) \<Rightarrow>
       (e = InternalOrderConflict \<and> \<not> acyclic (strong_rel (norm_edges (from_blocks bs))) \<or>
        (\<exists>i. e = DuplicateBlock i) \<and> \<not> distinct (map bk_id bs))
   | None \<Rightarrow> False"
  using order_blocks_cases [of bs] by (auto split: if_splits)

text \<open>
  C6: Every page of distinct blocks with valid boxes, on which no model region mixes rotated
  marginal blocks with others, gets a reading order, and in it every block precedes the block
  found directly below it and the main flow precedes the rotated margin.
\<close>

theorem well_formed_pages_are_ordered:
  assumes "distinct (map bk_id bs)" and "\<forall>b\<in>set bs. bbox_ok (bk_bbox b)" and "uniform_regions bs"
  shows "\<exists>out removed. order_blocks bs = Some (Inr (out, removed)) \<and>
    (\<forall>e\<in>set (norm_edges (from_blocks bs)). is_strong (e_source e) \<longrightarrow> before (map bk_id out) (e_from e) (e_to e))"
  using page_is_ordered [OF assms] by blast

text \<open>
  C12: The order is the greedy one. The edges kept are those not reported as removed, and every strong
  edge is among them. At each place stands a block whose kept predecessors are all placed before it
  and which is the least such block by its stable key; and no other list of identifiers has this
  property, so nothing but the kept edges and the keys decides.
\<close>

theorem reading_order_is_greedy:
  assumes "order_blocks bs = Some (Inr (out, removed))"
  shows "(\<forall>e\<in>set (norm_edges (from_blocks bs)). is_strong (e_source e) \<longrightarrow> e \<in> set (kept_edges bs removed)) \<and>
    (greedy_reading bs (kept_edges bs removed) ids \<longleftrightarrow> ids = map bk_id out)"
proof -
  from order_blocks_cases [of bs] assms obtain out_ids where dist: "distinct (map bk_id bs)"
    and out: "out = placed_blocks bs out_ids" and res: "resolved (from_blocks bs) out_ids removed"
    by (auto split: if_splits)
  from res from_blocks_props(2) have out_set: "distinct out_ids" "set out_ids = bk_id ` set bs" by (simp_all add: resolved_def)
  have out_ids: "map bk_id out = out_ids" unfolding out by (rule placed_props(1) [OF dist out_set])
  from res obtain kept dropped where split: "mset kept + mset dropped = mset (norm_edges (from_blocks bs))"
      "mset removed = mset (map removed_of dropped)" "\<forall>e\<in>set kept. before out_ids (e_from e) (e_to e)"
      "\<forall>e\<in>set dropped. \<not> is_strong (e_source e)" "greedy_ids (nodes (from_blocks bs)) kept out_ids"
    unfolding resolved_def by blast
  have kept: "set (kept_edges bs removed) = set kept" by (rule kept_edges_split [OF split(1,2)])
  have "greedy_reading bs (kept_edges bs removed) out_ids"
    by (rule greedy_ids_reading [OF dist out_set, of kept]) (use split(3,5) kept in simp_all)
  moreover have "e \<in> set kept" if "e \<in> set (norm_edges (from_blocks bs))" "is_strong (e_source e)" for e
    using that split(1,4) by (metis set_mset_mset set_mset_union UnE)
  ultimately show ?thesis using greedy_reading_unique kept by (metis out_ids)
qed

lemma two_columns_ordered:
  "case order_blocks two_columns of
     Some (Inr (out, removed)) \<Rightarrow> map bk_id out = [lit ''a'', lit ''b'', lit ''c''] \<and> removed = []
   | _ \<Rightarrow> False"
  by code_simp

lemma two_columns_result:
  obtains out where "order_blocks two_columns = Some (Inr (out, []))" "map bk_id out = [lit ''a'', lit ''b'', lit ''c'']"
  using two_columns_ordered by (auto split: option.splits sum.splits prod.splits)

theorem reading_order_is_sound_witness:
  "\<exists>out. order_blocks two_columns = Some (Inr (out, [])) \<and> map bk_id out = [lit ''a'', lit ''b'', lit ''c''] \<and>
     mset (map unplaced out) = mset (map unplaced two_columns)"
proof -
  obtain out where out: "order_blocks two_columns = Some (Inr (out, []))" "map bk_id out = [lit ''a'', lit ''b'', lit ''c'']"
    by (rule two_columns_result)
  from reading_order_is_sound [OF out(1)] have "mset (map unplaced out) = mset (map unplaced two_columns)" ..
  with out show ?thesis by (intro exI conjI)
qed

theorem well_formed_pages_are_ordered_witness:
  "\<exists>out removed. order_blocks two_columns = Some (Inr (out, removed)) \<and>
    (\<forall>e\<in>set (norm_edges (from_blocks two_columns)). is_strong (e_source e) \<longrightarrow> before (map bk_id out) (e_from e) (e_to e))"
proof (rule well_formed_pages_are_ordered)
  show "distinct (map bk_id two_columns)" by code_simp
  show "\<forall>b\<in>set two_columns. bbox_ok (bk_bbox b)" by code_simp
  show "uniform_regions two_columns" by (simp add: uniform_regions_def two_columns_def page_block_def)
qed

theorem reading_order_is_greedy_witness:
  "\<exists>out. order_blocks two_columns = Some (Inr (out, [])) \<and>
     greedy_reading two_columns (kept_edges two_columns []) [lit ''a'', lit ''b'', lit ''c'']"
proof -
  obtain out where out: "order_blocks two_columns = Some (Inr (out, []))" "map bk_id out = [lit ''a'', lit ''b'', lit ''c'']"
    by (rule two_columns_result)
  with reading_order_is_greedy [OF out(1), of "map bk_id out"] show ?thesis by auto
qed

section \<open>The cycle search\<close>

text \<open>
  C20: The cycle search is exact. For the index of any graph and any set of active edges, the
  components it reports are precisely the strongly connected components that contain a cycle,
  each once and in increasing node order: two linear passes find what the definition of strong
  connectivity asks for.
\<close>

theorem cycle_search_is_exact:
  assumes "index_edges g = Inr ix"
  shows "set ` set (cyclic_components ix active) =
      {{w. (w, v) \<in> (live (endpoints ix) active)\<^sup>* \<and> (v, w) \<in> (live (endpoints ix) active)\<^sup>*} | v.
        (v, v) \<in> (live (endpoints ix) active)\<^sup>+} \<and>
    distinct (cyclic_components ix active) \<and>
    (\<forall>c\<in>set (cyclic_components ix active). sorted c \<and> distinct c)"
proof -
  note built = index_edges_built [OF assms]
  show ?thesis
    using cyclic_components_spec [OF built(2), of active]
    unfolding built(1) built_sel(1) [OF built(2)] cyclic_sccs_def scc_def by blast
qed

definition ring :: order_graph where
  "ring = (let n = \<lambda>i. \<lparr>nd_id = i, nd_bbox = \<lparr>left = Fin 0, top_of = Fin 0, right = Fin 1, bottom = Fin 1\<rparr>,
       xy_path = None, source_priority = 0\<rparr>
     in push_edge (lit ''b'') (lit ''a'') ModelOrder [] (Some (Fin 1)) (push_edge (lit ''a'') (lit ''b'') XyCut [] None
       (insert_node (n (lit ''a'')) (insert_node (n (lit ''b'')) empty_graph))))"

lemma ring_index:
  "case index_edges ring of Inr ix \<Rightarrow> endpoints ix = [(0, 1), (1, 0)] \<and> cyclic_components ix [True, True] = [[0, 1]] | Inl _ \<Rightarrow> False"
  by code_simp

theorem cycle_search_is_exact_witness:
  "\<exists>ix. index_edges ring = Inr ix \<and> cyclic_components ix [True, True] = [[0, 1]] \<and>
     distinct (cyclic_components ix [True, True])"
proof -
  from ring_index obtain ix where ix: "index_edges ring = Inr ix" "cyclic_components ix [True, True] = [[0, 1]]"
    by (auto split: sum.splits)
  from cycle_search_is_exact [OF ix(1), of "[True, True]"] ix show ?thesis by blast
qed

text \<open>
  C21: A round gives up as little as it can. From every cyclic component it removes exactly one
  edge, a weak one that is least by preservation weight, source rank and key among the weak
  edges inside that component; it changes and reports nothing else.
\<close>

theorem rounds_remove_weakest_edges:
  assumes "index_edges g = Inr ix" and "length active = length (edges g)"
    and "break_cycles (edges g) ix (cyclic_components ix active) (active, removed) = Inr (active', removed')"
  shows "\<exists>is. list_all2 (weakest (edges g) (endpoints ix) active) (cyclic_components ix active) is \<and>
    removed' = removed @ map (\<lambda>i. removed_of (edges g ! i)) is \<and>
    (\<forall>i. is_active active' i \<longleftrightarrow> is_active active i \<and> i \<notin> set is)"
proof -
  note built = index_edges_built [OF assms(1)]
  have len: "length (ends_of (map fst (nodes g)) (edges g)) = length (edges g)" by (simp add: ends_of_def)
  from break_cycles_spec [OF components_apart(1,2) [OF built(2)] len assms(2) built(2), of active removed] assms(3)
  obtain "is" where "list_all2 (weakest (edges g) (endpoints ix) active) (cyclic_components ix active) is"
      "active' = deactivate is active" "removed' = removed @ map (\<lambda>i. removed_of (edges g ! i)) is"
    unfolding built(1) built_sel(1) [OF built(2)] by auto
  then show ?thesis by (auto simp: deactivate_spec)
qed

lemma ring_round:
  "case index_edges ring of
     Inr ix \<Rightarrow> break_cycles (edges ring) ix (cyclic_components ix [True, True]) ([True, True], []) =
       Inr ([False, True], [removed_of (edges ring ! 0)])
   | Inl _ \<Rightarrow> False"
  by code_simp

theorem rounds_remove_weakest_edges_witness:
  "\<exists>ix is. index_edges ring = Inr ix \<and>
     list_all2 (weakest (edges ring) (endpoints ix) [True, True]) (cyclic_components ix [True, True]) is"
proof -
  from ring_round obtain ix where ix: "index_edges ring = Inr ix"
      "break_cycles (edges ring) ix (cyclic_components ix [True, True]) ([True, True], []) =
         Inr ([False, True], [removed_of (edges ring ! 0)])"
    by (auto split: sum.splits)
  have "length [True, True] = length (edges ring)" by code_simp
  from rounds_remove_weakest_edges [OF ix(1) this ix(2)] ix(1) show ?thesis by blast
qed

section \<open>A region that mixes a rotated margin with main text\<close>

definition mixed_region :: "block list" where
  "mixed_region =
    [(page_block (lit ''side'') 0 0 10 100)\<lparr>label := AsideText, model_region_id := Some (lit ''r'')\<rparr>,
     (page_block (lit ''body'') 20 10 100 90)\<lparr>model_region_id := Some (lit ''r'')\<rparr>]"

text \<open>
  The condition on regions is needed: when one model region holds a tall aside and, below its top, a
  main-flow block, the order inside the region and the rule that puts main flow before the margin are
  both strong and contradict each other. The body of a page has one block per region.
\<close>

lemma mixed_region_page_fails:
  "order_blocks mixed_region = Some (Inl InternalOrderConflict) \<and> distinct (map bk_id mixed_region) \<and>
   list_all (\<lambda>b. bbox_ok (bk_bbox b)) mixed_region"
proof (intro conjI)
  show "order_blocks mixed_region = Some (Inl InternalOrderConflict)" by code_simp
  show "distinct (map bk_id mixed_region)" by code_simp
  show "list_all (\<lambda>b. bbox_ok (bk_bbox b)) mixed_region" by code_simp
qed

end
