(* ===== verification/Stable_Ids.thy ===== *)
theory Stable_Ids
  imports Order_Graph
begin

text \<open>
  Stable identifiers and the schema version of \<open>crates/core/src/types.rs\<close>: how they are
  printed, how the page number, the detection index and the version are read back, and that
  different facts never get the same identifier.
\<close>

section \<open>Identifiers\<close>

definition id_page :: "rstr \<Rightarrow> nat option" where
  "id_page s = (case strip_prefix (lit ''p'') s of None \<Rightarrow> None
     | Some v \<Rightarrow> parse_unsigned u32_limit (before_colon v))"

text \<open>\<open>Deserialize\<close>: blank identifiers are refused, others keep their text.\<close>

definition read_id :: "rstr \<Rightarrow> rstr option" where
  "read_id s = (if trim s = [] then None else Some s)"

definition page_id :: "nat \<Rightarrow> rstr \<Rightarrow> rstr" where
  "page_id p rest = lit ''p'' @ show_nat p @ lit '':'' @ rest"

definition native_id :: "nat \<Rightarrow> nat \<Rightarrow> rstr" where
  "native_id p i = page_id p (lit ''t'' @ show_nat i)"

definition ocr_id :: "nat \<Rightarrow> nat \<Rightarrow> rstr" where
  "ocr_id p i = page_id p (lit ''o'' @ show_nat i)"

definition ocr_fragment :: "rstr \<Rightarrow> nat \<Rightarrow> rstr" where
  "ocr_fragment s i = (if i = 0 then s else s @ lit '':s'' @ show_nat i)"

definition detected_id :: "nat \<Rightarrow> nat \<Rightarrow> rstr" where
  "detected_id p i = page_id p (lit ''m'' @ show_nat i)"

text \<open>A path of the residual segmentation.\<close>

definition path_root :: rstr where
  "path_root = lit ''r''"

definition horizontal_child :: "rstr \<Rightarrow> nat \<Rightarrow> rstr" where
  "horizontal_child s i = s @ lit ''.h'' @ show_nat i"

definition vertical_child :: "rstr \<Rightarrow> nat \<Rightarrow> rstr" where
  "vertical_child s i = s @ lit ''.v'' @ show_nat i"

inductive region_path :: "rstr \<Rightarrow> bool" where
  root: "region_path path_root"
| horizontal: "region_path s \<Longrightarrow> region_path (horizontal_child s i)"
| vertical: "region_path s \<Longrightarrow> region_path (vertical_child s i)"

definition fallback_region_id :: "nat \<Rightarrow> rstr \<Rightarrow> rstr" where
  "fallback_region_id p path = page_id p (lit ''f'' @ path)"

definition watermark_id :: "nat \<Rightarrow> nat \<Rightarrow> bool \<Rightarrow> rstr" where
  "watermark_id p i annotation =
     page_id p (lit ''b:w'' @ (if annotation then lit ''a'' else lit ''t'') @ lit '':'' @ show_nat i)"

definition model_block_id :: "nat \<Rightarrow> nat \<Rightarrow> nat \<Rightarrow> rstr" where
  "model_block_id p i k = page_id p (lit ''b:m'' @ show_nat i @ lit '':s'' @ show_nat k)"

definition fallback_block_id :: "nat \<Rightarrow> rstr \<Rightarrow> nat \<Rightarrow> rstr" where
  "fallback_block_id p path k = page_id p (lit ''b:f'' @ path @ lit '':s'' @ show_nat k)"

definition line_id_of :: "rstr \<Rightarrow> nat \<Rightarrow> rstr" where
  "line_id_of b i = b @ lit '':l'' @ show_nat i"

section \<open>The schema version\<close>

record schema_version =
  major :: nat
  minor :: nat

definition u16_limit :: int where
  "u16_limit = 65536"

definition show_version :: "schema_version \<Rightarrow> rstr" where
  "show_version v = show_nat (major v) @ lit ''.'' @ show_nat (minor v)"

datatype version_error = NoDot | InvalidMajor | InvalidMinor | UnsupportedMajor nat

definition read_version :: "rstr \<Rightarrow> version_error + schema_version" where
  "read_version s =
     (case split_once (lit ''.'') s of None \<Rightarrow> Inl NoDot
      | Some (a, b) \<Rightarrow>
          rbind (ok_or InvalidMajor (parse_unsigned u16_limit a)) (\<lambda>x.
          rbind (ok_or InvalidMinor (parse_unsigned u16_limit b)) (\<lambda>y.
          if x \<noteq> 2 then Inl (UnsupportedMajor x) else Inr \<lparr>major = x, minor = y\<rparr>)))"

section \<open>Reading back\<close>

lemma lit_simps [simp]: "lit [] = []" "lit (c # s) = of_char c # lit s"
  by (simp_all add: lit_def)

lemma show_nat_no: "\<not> is_ascii_digit c \<Longrightarrow> c \<notin> set (show_nat n)"
  using show_nat_digits by blast

lemma no_colon [simp]: "58 \<notin> set (show_nat n)"
  by (rule show_nat_no) (simp add: is_ascii_digit_def)

lemma no_dot [simp]: "46 \<notin> set (show_nat n)"
  by (rule show_nat_no) (simp add: is_ascii_digit_def)

lemma show_nat_inject [simp]: "show_nat m = show_nat n \<longleftrightarrow> m = n"
  using digits_value_show_nat by (metis option.inject)

lemma split_sep:
  "c \<notin> set a \<Longrightarrow> c \<notin> set b \<Longrightarrow> a @ c # r = b @ c # s \<longleftrightarrow> a = b \<and> r = s"
proof (induction a arbitrary: b)
  case Nil
  then show ?case by (cases b) auto
next
  case (Cons x a)
  then show ?case by (cases b) auto
qed

lemma before_colon_split: "58 \<notin> set a \<Longrightarrow> before_colon (a @ 58 # r) = a"
  unfolding before_colon_def by (subst takeWhile_append2) auto

lemma split_once_here:
  "c \<notin> set a \<Longrightarrow> split_once (c # t) (a @ c # t @ r) = Some (a, r)"
proof (induction a)
  case (Cons x a)
  then show ?case by auto
qed simp

lemma id_page_page_id: "int p < u32_limit \<Longrightarrow> id_page (page_id p rest) = Some p"
  by (simp add: id_page_def page_id_def strip_prefix_def before_colon_split parse_show_nat)

lemma page_id_inject: "page_id p r = page_id q s \<longleftrightarrow> p = q \<and> r = s"
  by (auto simp: page_id_def split_sep)

lemma region_path_chars: "region_path s \<Longrightarrow> 58 \<notin> set s"
  by (induction rule: region_path.induct) (auto simp: path_root_def horizontal_child_def vertical_child_def)

lemma detected_index: "int i < u32_limit \<Longrightarrow> model_region_index (detected_id p i) = int i"
proof -
  assume i: "int i < u32_limit"
  have "split_once (58 # lit ''m'') ((112 # show_nat p) @ 58 # lit ''m'' @ show_nat i) = Some (112 # show_nat p, show_nat i)"
    by (rule split_once_here) simp
  with i show ?thesis by (simp add: model_region_index_def detected_id_def page_id_def parse_show_nat)
qed

text \<open>The origin of a block, and the identifier it gets.\<close>

datatype block_origin = ModelOrigin nat nat nat | FallbackOrigin nat rstr nat | WatermarkOrigin nat nat bool

fun block_id :: "block_origin \<Rightarrow> rstr" where
  "block_id (ModelOrigin p i k) = model_block_id p i k"
| "block_id (FallbackOrigin p path k) = fallback_block_id p path k"
| "block_id (WatermarkOrigin p i a) = watermark_id p i a"

fun origin_page :: "block_origin \<Rightarrow> nat" where
  "origin_page (ModelOrigin p i k) = p"
| "origin_page (FallbackOrigin p path k) = p"
| "origin_page (WatermarkOrigin p i a) = p"

fun origin_ok :: "block_origin \<Rightarrow> bool" where
  "origin_ok (FallbackOrigin p path k) = region_path path"
| "origin_ok _ = True"

lemma block_id_inject:
  assumes "origin_ok a" "origin_ok b"
  shows "block_id a = block_id b \<longleftrightarrow> a = b"
  using assms
  by (cases a; cases b)
    (auto simp: model_block_id_def fallback_block_id_def watermark_id_def page_id_inject split_sep region_path_chars)

section \<open>Properties\<close>

text \<open>
  C39: Identifiers are faithful. Every block identifier names its page, blocks of different
  origin get different identifiers, the lines of a block get different identifiers that name
  the same page, and the reading-order code recovers a detection's index from its region
  identifier.
\<close>

theorem identifiers_are_faithful:
  assumes "origin_ok a" and "origin_ok b" and "int (origin_page a) < u32_limit" and "int i < u32_limit"
  shows "(block_id a = block_id b \<longleftrightarrow> a = b) \<and>
    id_page (block_id a) = Some (origin_page a) \<and>
    id_page (line_id_of (block_id a) n) = Some (origin_page a) \<and>
    (line_id_of (block_id a) n = line_id_of (block_id a) m \<longleftrightarrow> n = m) \<and>
    model_region_index (detected_id p i) = int i"
proof -
  have page: "\<exists>rest. block_id a = page_id (origin_page a) rest"
    by (cases a) (auto simp: model_block_id_def fallback_block_id_def watermark_id_def)
  then obtain rest where rest: "block_id a = page_id (origin_page a) rest" ..
  then have "line_id_of (block_id a) n = page_id (origin_page a) (rest @ lit '':l'' @ show_nat n)"
    by (simp add: line_id_of_def page_id_def)
  then have "id_page (block_id a) = Some (origin_page a)" "id_page (line_id_of (block_id a) n) = Some (origin_page a)"
    using rest assms(3) by (simp_all add: id_page_page_id)
  moreover have "line_id_of (block_id a) n = line_id_of (block_id a) m \<longleftrightarrow> n = m" by (simp add: line_id_of_def)
  ultimately show ?thesis
    using block_id_inject [OF assms(1,2)] detected_index [OF assms(4)] by blast
qed

theorem identifiers_are_faithful_witness:
  "(block_id (FallbackOrigin 3 (vertical_child path_root 2) 0) = block_id (ModelOrigin 3 7 0) \<longleftrightarrow>
     FallbackOrigin 3 (vertical_child path_root 2) 0 = ModelOrigin 3 7 0) \<and>
   model_region_index (detected_id 3 7) = 7"
proof -
  have "origin_ok (FallbackOrigin 3 (vertical_child path_root 2) 0)" by (simp add: region_path.intros)
  moreover have "origin_ok (ModelOrigin 3 7 0)" by simp
  ultimately show ?thesis
    using identifiers_are_faithful [of "FallbackOrigin 3 (vertical_child path_root 2) 0" "ModelOrigin 3 7 0" 7 0 0 3]
    by (simp add: u32_limit_def)
qed

text \<open>
  The schema version survives printing and reading: exactly the versions with major number
  two come back, unchanged, and any other major is refused by number.
\<close>

lemma schema_version_roundtrip:
  assumes "int (major v) < u16_limit" and "int (minor v) < u16_limit"
  shows "read_version (show_version v) = (if major v = 2 then Inr v else Inl (UnsupportedMajor (major v)))"
proof -
  have "split_once (46 # []) (show_nat (major v) @ 46 # [] @ show_nat (minor v)) = Some (show_nat (major v), show_nat (minor v))"
    by (rule split_once_here) simp
  then have "split_once (lit ''.'') (show_version v) = Some (show_nat (major v), show_nat (minor v))"
    by (simp add: show_version_def)
  then show ?thesis using assms by (simp add: read_version_def parse_show_nat)
qed

lemma schema_version_roundtrip_demo:
  "read_version (show_version \<lparr>major = 2, minor = 41\<rparr>) = Inr \<lparr>major = 2, minor = 41\<rparr>"
  using schema_version_roundtrip [of "\<lparr>major = 2, minor = 41\<rparr>"] by (simp add: u16_limit_def)

end
