(* ===== verification/Block_Text.thy ===== *)
theory Block_Text
  imports Table_Check
begin

text \<open>
  The canonical text of a block: \<open>Block::derive_text\<close> and \<open>text_matches_lines\<close> of
  \<open>crates/core/src/types.rs\<close> with the whitespace projection of
  \<open>crates/core/src/line/projection.rs\<close> and the text axes of \<open>crates/core/src/line/axes.rs\<close>.

  Two things of the Rust library are parameters: \<open>trig\<close>, the sine and cosine of an angle in
  degrees (\<open>to_radians().sin_cos()\<close>, whose precision Rust leaves to the platform), and
  \<open>alphabetic\<close>, the Unicode table behind \<open>char::is_alphabetic\<close>.
\<close>

section \<open>More of the float operations\<close>

text \<open>The remainder \<open>%\<close> has the sign of the dividend; it is exact.\<close>

definition frem :: "f64 \<Rightarrow> f64 \<Rightarrow> f64" where
  "frem a b =
     (if a = Nan \<or> b = Nan \<or> is_inf a \<or> is_finite b \<and> fval b = 0 then Nan
      else if is_inf b then a
      else let q = fval a / fval b; t = (if 0 \<le> q then \<lfloor>q\<rfloor> else \<lceil>q\<rceil>);
               r = fval a - of_int t * fval b
           in if r = 0 then signed_zero (sign_negative a) else Fin r)"

definition rem_euclid :: "f64 \<Rightarrow> f64 \<Rightarrow> f64" where
  "rem_euclid a b = (let r = frem a b in if flt r (Fin 0) then fadd r (fabs b) else r)"

text \<open>\<open>round\<close>: to the nearest integer, ties away from zero.\<close>

definition fround :: "f64 \<Rightarrow> f64" where
  "fround a = (case a of
     Fin r \<Rightarrow> if r = 0 then a
       else let n = (if 0 \<le> r then \<lfloor>r + 1 / 2\<rfloor> else \<lceil>r - 1 / 2\<rceil>)
            in if n = 0 then signed_zero (r < 0) else Fin (of_int n)
   | _ \<Rightarrow> a)"

text \<open>The cast to \<open>usize\<close> saturates; here its argument is clamped before.\<close>

definition as_usize :: "f64 \<Rightarrow> nat" where
  "as_usize a = (case a of Fin r \<Rightarrow> nat (min \<lfloor>r\<rfloor> (usize_limit - 1)) | Inf n \<Rightarrow> if n then 0 else nat (usize_limit - 1) | _ \<Rightarrow> 0)"

section \<open>Text axes\<close>

record text_axes =
  ax_rotation :: f64
  cosine :: f64
  sine :: f64

definition axes_of :: "(f64 \<Rightarrow> f64 \<times> f64) \<Rightarrow> f64 \<Rightarrow> text_axes" where
  "axes_of trig rotation =
     (let r = rem_euclid rotation (Fin 360); (s, c) = trig r in \<lparr>ax_rotation = r, cosine = c, sine = s\<rparr>)"

definition is_oblique :: "text_axes \<Rightarrow> bool" where
  "is_oblique a \<longleftrightarrow> (let r = rem_euclid (ax_rotation a) (Fin 90) in flt (Fin 2) r \<and> flt r (Fin 88))"

definition project :: "text_axes \<Rightarrow> point \<Rightarrow> point" where
  "project a p = \<lparr>px = fadd (fmul (cosine a) (px p)) (fmul (sine a) (py p)),
     py = fadd (fmul (fneg (sine a)) (px p)) (fmul (cosine a) (py p))\<rparr>"

definition unproject :: "text_axes \<Rightarrow> point \<Rightarrow> point" where
  "unproject a p = \<lparr>px = fsub (fmul (cosine a) (px p)) (fmul (sine a) (py p)),
     py = fadd (fmul (sine a) (px p)) (fmul (cosine a) (py p))\<rparr>"

definition center :: "bbox \<Rightarrow> point" where
  "center b = \<lparr>px = fdiv (fadd (left b) (right b)) (Fin 2), py = fdiv (fadd (top_of b) (bottom b)) (Fin 2)\<rparr>"

definition project_bbox :: "text_axes \<Rightarrow> bbox \<Rightarrow> geometry_error + bbox" where
  "project_bbox a b =
     (let c = project a (center b);
          hw = fmul (fadd (fmul (fabs (cosine a)) (width b)) (fmul (fabs (sine a)) (height b))) (Fin (1 / 2));
          hh = fmul (fadd (fmul (fabs (sine a)) (width b)) (fmul (fabs (cosine a)) (height b))) (Fin (1 / 2))
      in bbox_try_from (fsub (px c) hw) (fsub (py c) hh) (fadd (px c) hw) (fadd (py c) hh))"

section \<open>Whitespace projection\<close>

definition ok_of :: "'e + 'a \<Rightarrow> 'a option" where
  "ok_of r = (case r of Inl _ \<Rightarrow> None | Inr x \<Rightarrow> Some x)"

definition of_count :: "nat \<Rightarrow> f64" where
  "of_count n = rnd (of_nat n)"

definition item_width :: "text_axes \<Rightarrow> text_item \<Rightarrow> f64 option" where
  "item_width a it =
     (case ok_of (project_bbox a (it_bbox it)) of None \<Rightarrow> None
      | Some b \<Rightarrow> if raw_text it \<noteq> [] \<and> flt (Fin 0) (width b)
                  then Some (fdiv (width b) (of_count (max 1 (length (raw_text it))))) else None)"

text \<open>The median of the widths: \<open>select_nth_unstable\<close> leaves the lower half before the middle.\<close>

definition median_width :: "f64 \<Rightarrow> f64 list \<Rightarrow> f64" where
  "median_width dflt ws =
     (let s = sort ws; n = length ws
      in if n = 0 then dflt
         else if even n then fmul (fadd (s ! (n div 2 - 1)) (s ! (n div 2))) (Fin (1 / 2))
         else s ! (n div 2))"

definition rtl_of :: "line list \<Rightarrow> bool" where
  "rtl_of ls \<longleftrightarrow> direction (hd ls) = RightToLeft"

definition inline_start :: "bool \<Rightarrow> bbox \<Rightarrow> f64" where
  "inline_start rtl b = (if rtl then fneg (right b) else left b)"

definition freduce_min :: "f64 list \<Rightarrow> f64 option" where
  "freduce_min xs = (case xs of [] \<Rightarrow> None | x # xs \<Rightarrow> Some (fold (\<lambda>y acc. fmin acc y) xs x))"

record layout_frame =
  fr_axes :: text_axes
  fr_rtl :: bool
  char_width :: f64
  origin :: f64

definition frame_of :: "(f64 \<Rightarrow> f64 \<times> f64) \<Rightarrow> line list \<Rightarrow> layout_frame" where
  "frame_of trig ls =
     (let axes = axes_of trig (ln_rotation (hd ls)); rtl = rtl_of ls;
          ws = List.map_filter (item_width axes) (concat (map text_items ls));
          starts = map (inline_start rtl) (List.map_filter (\<lambda>l. ok_of (project_bbox axes (ln_bbox l)))
            (filter (\<lambda>l. trim (ln_text l) \<noteq> [] \<or> inline_spans l \<noteq> []) ls))
      in \<lparr>fr_axes = axes, fr_rtl = rtl,
          char_width = fmax (median_width (fmul (height (ln_bbox (hd ls))) (Fin (1 / 2))) ws) (rnd (1 / 10)),
          origin = (case freduce_min starts of None \<Rightarrow> Fin 0 | Some o' \<Rightarrow> o')\<rparr>)"

text \<open>The loop's state: the previous visible line with its box and baseline, and the columns used.\<close>

type_synonym row_state = "(line \<times> bbox \<times> f64) option \<times> nat"

definition same_row :: "layout_frame \<Rightarrow> line \<Rightarrow> bbox \<Rightarrow> f64 \<Rightarrow> (line \<times> bbox \<times> f64) option \<Rightarrow> bool" where
  "same_row fr l b base prev \<longleftrightarrow>
     (case prev of None \<Rightarrow> False
      | Some (prior, bounds, base') \<Rightarrow>
          direction prior = direction l \<and>
          flt (fabs (fsub (ln_rotation prior) (ln_rotation l))) (Fin 2) \<and>
          fle (fabs (fsub base base')) (fmul (fmin (height b) (height bounds)) (rnd (35 / 100))) \<and>
          (if fr_rtl fr then fle (right b) (fadd (left bounds) (char_width fr))
           else fle (fsub (right bounds) (char_width fr)) (left b)))"

type_synonym segment = "bool \<times> nat \<times> rstr"

definition trim_start_spaces :: "rstr \<Rightarrow> rstr" where
  "trim_start_spaces s = dropWhile (\<lambda>c. c = 32) s"

definition emit_line :: "layout_frame \<Rightarrow> (line \<Rightarrow> rstr) \<Rightarrow> line \<Rightarrow> segment list \<times> row_state \<Rightarrow> segment list \<times> row_state" where
  "emit_line fr render l st =
     (let (out, prev, columns) = st; rendered = render l
      in if trim rendered = [] then st
         else case ok_of (project_bbox (fr_axes fr) (ln_bbox l)) of
           None \<Rightarrow> st
         | Some b \<Rightarrow>
             let base = (case ln_baseline l of None \<Rightarrow> bottom b | Some bl \<Rightarrow> py (project (fr_axes fr) (base_start bl)));
                 same = same_row fr l b base prev;
                 columns = (if same then columns else 0);
                 target = as_usize (fclamp (fround (fdiv (fsub (inline_start (fr_rtl fr) b) (origin fr)) (char_width fr)))
                            (Fin 0) (Fin 4096));
                 leading = length (takeWhile (\<lambda>c. c = 32) rendered);
                 spaces = max (target - columns) leading;
                 spaces = (case prev of
                     Some (_, bounds, _) \<Rightarrow>
                       let gap = (if fr_rtl fr then fsub (left bounds) (right b) else fsub (left b) (right bounds))
                       in if same \<and> flt (fmul (char_width fr) (Fin (1 / 2))) gap then max 1 spaces else spaces
                   | None \<Rightarrow> spaces)
             in (out @ [(\<not> same \<and> prev \<noteq> None, spaces, trim_start_spaces (trim_end rendered))],
                 Some (l, b, base), columns + spaces + length (trim (ln_text l))))"

definition project_layout :: "(f64 \<Rightarrow> f64 \<times> f64) \<Rightarrow> (line \<Rightarrow> rstr) \<Rightarrow> line list \<Rightarrow> segment list" where
  "project_layout trig render ls =
     (if ls = [] then [] else fst (fold (emit_line (frame_of trig ls) render) ls ([], None, 0)))"

section \<open>Boundaries between lines\<close>

datatype boundary = Space | Newline | PreserveHyphen

definition ends_with_encoded_hyphen :: "line \<Rightarrow> bool" where
  "ends_with_encoded_hyphen l \<longleftrightarrow>
     (let t = trim_end (ln_text l) in t \<noteq> [] \<and> last t = 45) \<and>
     (case find (\<lambda>i. trim (raw_text i) \<noteq> []) (rev (text_items l)) of
        None \<Rightarrow> False | Some i \<Rightarrow> raw_text i = [45] \<and> EncodedHyphen \<in> set (repair_actions i))"

definition boundary_between :: "(uchar \<Rightarrow> bool) \<Rightarrow> label_policy \<Rightarrow> line \<Rightarrow> line \<Rightarrow> boundary" where
  "boundary_between alphabetic policy prev nxt =
     (if preserves_line_breaks policy then Newline
      else if \<not> joins_encoded_hyphens policy then Space
      else
        let line_height = fmax (fmax (height (ln_bbox prev)) (height (ln_bbox nxt))) (Fin 1);
            enters_next_row = fle (fmul line_height (Fin (1 / 2))) (fsub (top_of (ln_bbox nxt)) (top_of (ln_bbox prev)));
            continues = ends_with_encoded_hyphen prev \<and> direction prev = direction nxt \<and>
              direction prev \<noteq> Vertical \<and>
              fle (fabs (fsub (ln_rotation prev) (ln_rotation nxt))) (Fin 2) \<and> enters_next_row \<and>
              (case trim (ln_text nxt) of [] \<Rightarrow> False | c # _ \<Rightarrow> alphabetic c)
        in if continues then PreserveHyphen else Space)"

fun separator :: "boundary \<Rightarrow> rstr" where
  "separator Space = [32]"
| "separator Newline = [10]"
| "separator PreserveHyphen = []"

section \<open>Deriving the text\<close>

definition visible_lines :: "label_policy \<Rightarrow> line list \<Rightarrow> (line \<times> rstr) list" where
  "visible_lines policy ls =
     List.map_filter (\<lambda>l. let t = line_text policy (ln_text l) in if t = [] then None else Some (l, t)) ls"

fun append_segments :: "segment list \<Rightarrow> rstr \<Rightarrow> rstr" where
  "append_segments [] text = text"
| "append_segments ((new_row, spaces, body) # segs) text =
     append_segments segs (text @ (if new_row then [10] else []) @ replicate spaces 32 @ body)"

fun append_lines :: "(uchar \<Rightarrow> bool) \<Rightarrow> label_policy \<Rightarrow> line \<Rightarrow> (line \<times> rstr) list \<Rightarrow> rstr \<Rightarrow> rstr" where
  "append_lines alphabetic policy prev [] text = text"
| "append_lines alphabetic policy prev ((l, t) # ls) text =
     append_lines alphabetic policy l ls (text @ separator (boundary_between alphabetic policy prev l) @ t)"

definition derive_block_text ::
  "(f64 \<Rightarrow> f64 \<times> f64) \<Rightarrow> (uchar \<Rightarrow> bool) \<Rightarrow> layout_label \<Rightarrow> line list \<Rightarrow> rstr" where
  "derive_block_text trig alphabetic lab ls =
     (let policy = policy_of lab
      in if preserves_line_breaks policy then append_segments (project_layout trig ln_text ls) []
         else case visible_lines policy ls of [] \<Rightarrow> []
           | (l, t) # rest \<Rightarrow> append_lines alphabetic policy l rest t)"

section \<open>Checking the text\<close>

text \<open>The borrowed comparison: what is left of the text after each segment.\<close>

definition consume :: "segment \<Rightarrow> rstr option \<Rightarrow> rstr option" where
  "consume seg rem =
     (case rem of None \<Rightarrow> None
      | Some tail \<Rightarrow> (case seg of (new_row, spaces, body) \<Rightarrow>
          (case (if new_row then strip_prefix [10] tail else Some tail) of None \<Rightarrow> None
           | Some tail \<Rightarrow>
               (case str_split tail spaces of None \<Rightarrow> None
                | Some (padding, tail) \<Rightarrow> if \<forall>c\<in>set padding. c = 32 then strip_prefix body tail else None))))"

definition legacy_text :: "(rstr \<Rightarrow> rstr) \<Rightarrow> rstr \<Rightarrow> line list \<Rightarrow> rstr" where
  "legacy_text trimmed sep ls = join sep (filter (\<lambda>t. t \<noteq> []) (map (\<lambda>l. trimmed (ln_text l)) ls))"

fun match_lines :: "(uchar \<Rightarrow> bool) \<Rightarrow> label_policy \<Rightarrow> rstr \<Rightarrow> (line \<times> rstr) list \<Rightarrow> nat \<Rightarrow> bool" where
  "match_lines alphabetic policy text [] offset \<longleftrightarrow> offset = str_len text"
| "match_lines alphabetic policy text ((l, t) # ls) offset \<longleftrightarrow>
     (case checked_add offset (str_len t) of None \<Rightarrow> False
      | Some e \<Rightarrow>
          get_range text offset e = Some t \<and>
          (let sep = (case ls of [] \<Rightarrow> [] | (nxt, _) # _ \<Rightarrow> separator (boundary_between alphabetic policy l nxt))
           in if sep = [] then match_lines alphabetic policy text ls e
              else case checked_add e (str_len sep) of None \<Rightarrow> False
                | Some e' \<Rightarrow> get_range text e e' = Some sep \<and> match_lines alphabetic policy text ls e'))"

definition text_matches_lines :: "(f64 \<Rightarrow> f64 \<times> f64) \<Rightarrow> (uchar \<Rightarrow> bool) \<Rightarrow> block \<Rightarrow> bool" where
  "text_matches_lines trig alphabetic b \<longleftrightarrow>
     (case table_of b of Some t \<Rightarrow> label b = Table \<and> bk_text b = to_text t
      | None \<Rightarrow>
         let policy = policy_of (label b)
         in if preserves_line_breaks policy then
              fold consume (project_layout trig ln_text (lines_of b)) (Some (bk_text b)) = Some [] \<or>
              bk_text b = legacy_text trim_end [10] (lines_of b) \<or>
              (label b = Content \<or> label b = Table \<or> policy = Atomic) \<and> bk_text b = legacy_text trim [32] (lines_of b)
            else match_lines alphabetic policy (bk_text b) (visible_lines policy (lines_of b)) 0)"

section \<open>The checker accepts what the builder makes\<close>

fun segments_text :: "segment list \<Rightarrow> rstr" where
  "segments_text [] = []"
| "segments_text ((new_row, spaces, body) # segs) =
     (if new_row then [10] else []) @ replicate spaces 32 @ body @ segments_text segs"

lemma append_segments_text: "append_segments segs text = text @ segments_text segs"
  by (induction segs "text" rule: append_segments.induct) auto

lemma strip_prefix_Some: "strip_prefix p s = Some r \<longleftrightarrow> s = p @ r"
  unfolding strip_prefix_def by (metis append_eq_conv_conj option.inject option.distinct(1))

lemma strip_prefix_None: "strip_prefix p s = None \<longleftrightarrow> (\<forall>r. s \<noteq> p @ r)"
  using strip_prefix_Some [of p s] by (cases "strip_prefix p s") auto

lemma padding_split:
  "str_split s n = Some (p, r) \<and> (\<forall>c\<in>set p. c = 32) \<longleftrightarrow> s = p @ r \<and> p = replicate n 32"
proof -
  have "str_len p = length p" if "\<forall>c\<in>set p. c = 32"
    using that by (induction p) (simp_all add: utf8_len_def)
  moreover have "(\<forall>c\<in>set p. c = 32) \<longleftrightarrow> p = replicate (length p) 32"
    by (metis in_set_replicate replicate_length_same)
  ultimately show ?thesis unfolding str_split_Some by (metis in_set_replicate length_replicate)
qed

lemma consume_None: "fold consume segs None = None"
  by (induction segs) (simp_all add: consume_def)

lemma consume_one: "consume (new_row, spaces, body) (Some text) = Some rest \<longleftrightarrow>
    text = (if new_row then [10] else []) @ replicate spaces 32 @ body @ rest"
proof -
  have "(case str_split tail spaces of None \<Rightarrow> None
      | Some (padding, tail) \<Rightarrow> if \<forall>c\<in>set padding. c = 32 then strip_prefix body tail else None) = Some rest \<longleftrightarrow>
      tail = replicate spaces 32 @ body @ rest" for tail
  proof -
    have "(case str_split tail spaces of None \<Rightarrow> None
      | Some (padding, tail) \<Rightarrow> if \<forall>c\<in>set padding. c = 32 then strip_prefix body tail else None) = Some rest \<longleftrightarrow>
      (\<exists>p r. (str_split tail spaces = Some (p, r) \<and> (\<forall>c\<in>set p. c = 32)) \<and> r = body @ rest)"
      by (auto simp: strip_prefix_Some split: option.splits)
    then show ?thesis unfolding padding_split by auto
  qed
  then show ?thesis by (auto simp: consume_def strip_prefix_Some strip_prefix_None split: option.split)
qed

lemma consume_all: "fold consume segs (Some text) = Some rest \<longleftrightarrow> text = segments_text segs @ rest"
proof (induction segs arbitrary: "text")
  case (Cons seg segs)
  obtain new_row spaces body where seg: "seg = (new_row, spaces, body)" by (cases seg)
  show ?case
  proof (cases "consume seg (Some text)")
    case None
    then have "text \<noteq> segments_text (seg # segs) @ rest" using consume_one [of new_row spaces body "text"] seg by force
    with None show ?thesis by (simp add: consume_None)
  next
    case (Some t)
    then have "text = (if new_row then [10] else []) @ replicate spaces 32 @ body @ t" using seg consume_one by metis
    with Some Cons.IH [of t] show ?thesis by (simp add: seg)
  qed
qed auto

fun lines_text :: "(uchar \<Rightarrow> bool) \<Rightarrow> label_policy \<Rightarrow> (line \<times> rstr) list \<Rightarrow> rstr" where
  "lines_text alphabetic policy [] = []"
| "lines_text alphabetic policy [(l, t)] = t"
| "lines_text alphabetic policy ((l, t) # (m, u) # ls) =
     t @ separator (boundary_between alphabetic policy l m) @ lines_text alphabetic policy ((m, u) # ls)"

lemma append_lines_text:
  "append_lines alphabetic policy l ls text = text @ drop (length t) (lines_text alphabetic policy ((l, t) # ls))"
proof (induction ls arbitrary: l t "text")
  case (Cons a ls)
  obtain m u where a: "a = (m, u)" by (cases a)
  have "\<exists>r. lines_text alphabetic policy ((m, u) # ls) = u @ r" by (cases ls) auto
  with Cons.IH [of m "text @ separator (boundary_between alphabetic policy l m) @ u" u] show ?case
    by (auto simp: a)
qed simp

lemma get_range_at:
  "get_range (pre @ rest) (str_len pre) (str_len pre + str_len t) = Some t \<longleftrightarrow> (\<exists>r. rest = t @ r)"
proof -
  have "a = pre \<and> t @ b = rest" if "pre @ rest = a @ t @ b" "str_len a = str_len pre" for a b
  proof -
    have "str_split (pre @ rest) (str_len pre) = Some (a, t @ b)" "str_split (pre @ rest) (str_len pre) = Some (pre, rest)"
      using that unfolding str_split_Some by simp_all
    then show ?thesis by simp
  qed
  then show ?thesis unfolding get_range_Some by auto
qed

lemma take_text:
  assumes "int (str_len (pre @ rest)) < usize_limit"
  shows "(case checked_add (str_len pre) (str_len t) of None \<Rightarrow> False
      | Some e \<Rightarrow> get_range (pre @ rest) (str_len pre) e = Some t \<and> P e) \<longleftrightarrow>
    (\<exists>r. rest = t @ r \<and> P (str_len (pre @ t)))"
proof (cases "\<exists>r. rest = t @ r")
  case True
  then have "int (str_len pre + str_len t) < usize_limit" using assms by auto
  with True show ?thesis by (auto simp: checked_add_def get_range_at)
next
  case False
  then show ?thesis by (auto simp: checked_add_def get_range_at)
qed

lemma match_lines_more:
  "match_lines alphabetic policy text ((l, t) # (m, u) # ls) offset \<longleftrightarrow>
    (case checked_add offset (str_len t) of None \<Rightarrow> False
     | Some e \<Rightarrow> get_range text offset e = Some t \<and>
        (let sep = separator (boundary_between alphabetic policy l m)
         in if sep = [] then match_lines alphabetic policy text ((m, u) # ls) e
            else case checked_add e (str_len sep) of None \<Rightarrow> False
              | Some e' \<Rightarrow> get_range text e e' = Some sep \<and> match_lines alphabetic policy text ((m, u) # ls) e'))"
  by (subst match_lines.simps(2)) (simp only: list.case prod.case)

lemma match_lines_text:
  assumes "int (str_len (pre @ rest)) < usize_limit"
  shows "match_lines alphabetic policy (pre @ rest) ls (str_len pre) \<longleftrightarrow> rest = lines_text alphabetic policy ls"
  using assms
proof (induction alphabetic policy "ls" arbitrary: pre rest rule: lines_text.induct)
  case (1 alphabetic policy)
  then show ?case by auto
next
  case (2 alphabetic policy l t)
  show ?case unfolding match_lines.simps take_text [OF 2] by auto
next
  case (3 alphabetic policy l t m u ls)
  let ?sep = "separator (boundary_between alphabetic policy l m)"
  have rest: "match_lines alphabetic policy (pre @ t @ r) ((m, u) # ls) (str_len (pre @ t @ s)) \<longleftrightarrow>
      q = lines_text alphabetic policy ((m, u) # ls)" if "r = s @ q" "rest = t @ r" for r s q
    using 3(1) [of "pre @ t @ s" q] 3(2) that by simp
  have sep: "(if ?sep = [] then match_lines alphabetic policy (pre @ t @ r) ((m, u) # ls) (str_len (pre @ t))
      else case checked_add (str_len (pre @ t)) (str_len ?sep) of None \<Rightarrow> False
        | Some e' \<Rightarrow> get_range (pre @ t @ r) (str_len (pre @ t)) e' = Some ?sep \<and>
            match_lines alphabetic policy (pre @ t @ r) ((m, u) # ls) e') \<longleftrightarrow>
      r = ?sep @ lines_text alphabetic policy ((m, u) # ls)" if r: "rest = t @ r" for r
  proof (cases "?sep = []")
    case True
    with rest [of r "[]" r] r show ?thesis by simp
  next
    case False
    have "int (str_len ((pre @ t) @ r)) < usize_limit" using 3(2) r by simp
    from take_text [OF this, of ?sep "match_lines alphabetic policy (pre @ t @ r) ((m, u) # ls)"]
    have "(case checked_add (str_len (pre @ t)) (str_len ?sep) of None \<Rightarrow> False
        | Some e' \<Rightarrow> get_range (pre @ t @ r) (str_len (pre @ t)) e' = Some ?sep \<and>
            match_lines alphabetic policy (pre @ t @ r) ((m, u) # ls) e') \<longleftrightarrow>
        (\<exists>q. r = ?sep @ q \<and> match_lines alphabetic policy (pre @ t @ r) ((m, u) # ls) (str_len (pre @ t @ ?sep)))"
      by (simp only: append_assoc)
    also have "\<dots> \<longleftrightarrow> (\<exists>q. r = ?sep @ q \<and> q = lines_text alphabetic policy ((m, u) # ls))"
      using rest [of r ?sep] r by blast
    finally show ?thesis using False by simp
  qed
  show ?case unfolding match_lines_more Let_def take_text [OF 3(2)] lines_text.simps
  proof (intro iffI)
    assume "\<exists>r. rest = t @ r \<and> (if ?sep = [] then match_lines alphabetic policy (pre @ rest) ((m, u) # ls) (str_len (pre @ t))
      else case checked_add (str_len (pre @ t)) (str_len ?sep) of None \<Rightarrow> False
        | Some e' \<Rightarrow> get_range (pre @ rest) (str_len (pre @ t)) e' = Some ?sep \<and>
            match_lines alphabetic policy (pre @ rest) ((m, u) # ls) e')"
    then obtain r where r: "rest = t @ r" and "if ?sep = [] then match_lines alphabetic policy (pre @ rest) ((m, u) # ls) (str_len (pre @ t))
      else case checked_add (str_len (pre @ t)) (str_len ?sep) of None \<Rightarrow> False
        | Some e' \<Rightarrow> get_range (pre @ rest) (str_len (pre @ t)) e' = Some ?sep \<and>
            match_lines alphabetic policy (pre @ rest) ((m, u) # ls) e'" by blast
    with sep [OF r] show "rest = t @ ?sep @ lines_text alphabetic policy ((m, u) # ls)" unfolding r by blast
  next
    assume r: "rest = t @ ?sep @ lines_text alphabetic policy ((m, u) # ls)"
    with sep [OF r] show "\<exists>r. rest = t @ r \<and> (if ?sep = [] then match_lines alphabetic policy (pre @ rest) ((m, u) # ls) (str_len (pre @ t))
      else case checked_add (str_len (pre @ t)) (str_len ?sep) of None \<Rightarrow> False
        | Some e' \<Rightarrow> get_range (pre @ rest) (str_len (pre @ t)) e' = Some ?sep \<and>
            match_lines alphabetic policy (pre @ rest) ((m, u) # ls) e')" by (intro exI conjI) (assumption, blast)
  qed
qed

lemma derive_lines:
  "\<not> preserves_line_breaks (policy_of lab) \<Longrightarrow>
    derive_block_text trig alphabetic lab ls = lines_text alphabetic (policy_of lab) (visible_lines (policy_of lab) ls)"
proof (cases "visible_lines (policy_of lab) ls")
  case (Cons a rest)
  obtain l t where a: "a = (l, t)" by (cases a)
  have "\<exists>r. lines_text alphabetic (policy_of lab) ((l, t) # rest) = t @ r" by (cases rest) auto
  moreover assume "\<not> preserves_line_breaks (policy_of lab)"
  ultimately show ?thesis using Cons
    by (auto simp: derive_block_text_def a append_lines_text [where t = t])
qed (simp add: derive_block_text_def)

lemma text_matches_iff:
  assumes "table_of b = None" and "int (str_len (bk_text b)) < usize_limit"
  shows "text_matches_lines trig alphabetic b \<longleftrightarrow>
    bk_text b = derive_block_text trig alphabetic (label b) (lines_of b) \<or>
    preserves_line_breaks (policy_of (label b)) \<and>
      (bk_text b = legacy_text trim_end [10] (lines_of b) \<or>
       (label b = Content \<or> label b = Table \<or> policy_of (label b) = Atomic) \<and>
       bk_text b = legacy_text trim [32] (lines_of b))"
proof (cases "preserves_line_breaks (policy_of (label b))")
  case True
  then have "derive_block_text trig alphabetic (label b) (lines_of b) =
      segments_text (project_layout trig ln_text (lines_of b))"
    by (simp add: derive_block_text_def append_segments_text)
  with True assms(1) consume_all [of "project_layout trig ln_text (lines_of b)" "bk_text b" "[]"] show ?thesis
    by (simp add: text_matches_lines_def)
next
  case False
  with match_lines_text [of "[]" "bk_text b"] assms show ?thesis
    by (simp add: text_matches_lines_def derive_lines Let_def)
qed

lemma derived_text_matches:
  assumes "table_of b = None" and "bk_text b = derive_block_text trig alphabetic (label b) (lines_of b)" and "int (str_len (bk_text b)) < usize_limit"
  shows "text_matches_lines trig alphabetic b"
  using text_matches_iff [OF assms(1,3)] assms(2) by blast

section \<open>Properties\<close>

text \<open>
  C17: The checker and the builder of block text agree. For a block without a table, the streamed
  comparison accepts exactly the text that the builder makes from the label and the lines; for
  labels that keep line breaks it also accepts the two older forms of stored text, and nothing
  else. The length bound is that of every string in memory.
\<close>

theorem block_text_is_canonical:
  assumes "table_of b = None" and "int (str_len (bk_text b)) < usize_limit"
  shows "text_matches_lines trig alphabetic b \<longleftrightarrow>
    bk_text b = derive_block_text trig alphabetic (label b) (lines_of b) \<or>
    preserves_line_breaks (policy_of (label b)) \<and>
      (bk_text b = legacy_text trim_end [10] (lines_of b) \<or>
       (label b = Content \<or> label b = Table \<or> policy_of (label b) = Atomic) \<and>
       bk_text b = legacy_text trim [32] (lines_of b))"
  by (rule text_matches_iff [OF assms])

definition hyphen_block :: block where
  "hyphen_block = plain_block (lit ''p1:b:m0:s0'') Text (lit ''exam-ple'') (box 0 0 50 30)
     [plain_line (lit ''p1:b:m0:s0:l0'') [plain_item (lit ''p1:t0'') (lit ''exam'') (box 0 0 30 10),
        (plain_item (lit ''p1:t1'') (lit ''-'') (box 30 0 34 10))\<lparr>repair_actions := [EncodedHyphen]\<rparr>] (box 0 0 34 10),
      plain_line (lit ''p1:b:m0:s0:l1'') [plain_item (lit ''p1:t2'') (lit ''ple'') (box 0 12 20 22)] (box 0 12 20 22)] 0"

definition ascii_letter :: "uchar \<Rightarrow> bool" where
  "ascii_letter c \<longleftrightarrow> 65 \<le> c \<and> c \<le> 90 \<or> 97 \<le> c \<and> c \<le> 122"

definition level_trig :: "f64 \<Rightarrow> f64 \<times> f64" where
  "level_trig r = (Fin 0, Fin 1)"

theorem block_text_is_canonical_witness:
  "text_matches_lines level_trig ascii_letter hyphen_block \<and> bk_text hyphen_block = lit ''exam-ple''"
proof -
  have built: "bk_text hyphen_block = derive_block_text level_trig ascii_letter (label hyphen_block) (lines_of hyphen_block)"
    by code_simp
  have "table_of hyphen_block = None" "int (str_len (bk_text hyphen_block)) < usize_limit" by code_simp+
  from block_text_is_canonical [OF this] built show ?thesis by (simp add: hyphen_block_def plain_block_def)
qed

end
