(* ===== verification/List_Marker.thy ===== *)
theory List_Marker
  imports Document
begin

text \<open>
  List markers at the start of a line: \<open>Marker\<close> and the classification methods of \<open>Line\<close> in
  \<open>crates/core/src/semantic/list.rs\<close>. Byte offsets are those of the code; a token is ASCII, so
  its bytes are its characters. The Unicode letter test \<open>char::is_alphabetic\<close> is the parameter
  \<open>alphabetic\<close>.
\<close>

section \<open>ASCII classes\<close>

definition is_ascii_lowercase :: "uchar \<Rightarrow> bool" where
  "is_ascii_lowercase c \<longleftrightarrow> 97 \<le> c \<and> c \<le> 122"

definition is_ascii_uppercase :: "uchar \<Rightarrow> bool" where
  "is_ascii_uppercase c \<longleftrightarrow> 65 \<le> c \<and> c \<le> 90"

definition is_ascii_alphabetic :: "uchar \<Rightarrow> bool" where
  "is_ascii_alphabetic c \<longleftrightarrow> is_ascii_lowercase c \<or> is_ascii_uppercase c"

definition ascii_upper :: "uchar \<Rightarrow> uchar" where
  "ascii_upper c = (if is_ascii_lowercase c then c - 32 else c)"

definition ascii_lower :: "uchar \<Rightarrow> uchar" where
  "ascii_lower c = (if is_ascii_uppercase c then c + 32 else c)"

text \<open>\<open>str::trim_matches\<close> with a set of characters.\<close>

definition trim_matches :: "uchar list \<Rightarrow> rstr \<Rightarrow> rstr" where
  "trim_matches cs s = rev (dropWhile (\<lambda>c. c \<in> set cs) (rev (dropWhile (\<lambda>c. c \<in> set cs) s)))"

section \<open>Roman numerals\<close>

definition roman_digits :: "(rstr \<times> nat) list" where
  "roman_digits =
     [(lit ''M'', 1000), (lit ''CM'', 900), (lit ''D'', 500), (lit ''CD'', 400), (lit ''C'', 100),
      (lit ''XC'', 90), (lit ''L'', 50), (lit ''XL'', 40), (lit ''X'', 10), (lit ''IX'', 9),
      (lit ''V'', 5), (lit ''IV'', 4), (lit ''I'', 1)]"

definition roman_repeat :: "rstr \<Rightarrow> nat" where
  "roman_repeat t = (if length t = 2 \<or> t \<in> {lit ''D'', lit ''L'', lit ''V''} then 1 else 3)"

text \<open>The inner loop for one token, with how many more repetitions are allowed.\<close>

fun take_tokens :: "rstr \<Rightarrow> nat \<Rightarrow> nat \<Rightarrow> rstr \<times> nat \<Rightarrow> (rstr \<times> nat) option" where
  "take_tokens t amount 0 (rest, v) = (case strip_prefix t rest of None \<Rightarrow> Some (rest, v) | Some _ \<Rightarrow> None)"
| "take_tokens t amount (Suc n) (rest, v) =
     (case strip_prefix t rest of None \<Rightarrow> Some (rest, v)
      | Some suffix \<Rightarrow> take_tokens t amount n (suffix, v + amount))"

fun roman_scan :: "(rstr \<times> nat) list \<Rightarrow> rstr \<times> nat \<Rightarrow> (rstr \<times> nat) option" where
  "roman_scan [] st = Some st"
| "roman_scan ((t, amount) # ds) st =
     (case take_tokens t amount (roman_repeat t) st of None \<Rightarrow> None | Some st' \<Rightarrow> roman_scan ds st')"

text \<open>\<open>while number >= amount\<close>: the loop that writes one token.\<close>

function push_tokens :: "rstr \<Rightarrow> nat \<Rightarrow> nat \<times> rstr \<Rightarrow> nat \<times> rstr" where
  "push_tokens t amount (n, s) =
     (if 0 < amount \<and> amount \<le> n then push_tokens t amount (n - amount, s @ t) else (n, s))"
  by pat_completeness auto
termination by (relation "measure (\<lambda>(t, amount, n, s). n)") auto

declare push_tokens.simps [simp del]

definition roman_text :: "nat \<Rightarrow> rstr" where
  "roman_text n = snd (fold (\<lambda>(t, amount). push_tokens t amount) roman_digits (n, []))"

definition roman_value :: "rstr \<Rightarrow> nat option" where
  "roman_value s =
     (let t = map ascii_upper s
      in case roman_scan roman_digits (t, 0) of None \<Rightarrow> None
         | Some (rest, v) \<Rightarrow>
             if rest \<noteq> [] \<or> v = 0 \<or> 4000 \<le> v then None
             else if roman_text v = t then Some v else None)"

section \<open>Markers\<close>

record list_mark =
  mk_kind :: list_kind
  mk_text :: rstr
  mk_end :: nat
  mk_ordinal :: "nat option"

definition value_as :: "list_mark \<Rightarrow> list_kind \<Rightarrow> nat option" where
  "value_as m k =
     (if mk_kind m = k then mk_ordinal m
      else if mk_kind m = AlphaLower \<and> k = RomanLower \<or> mk_kind m = AlphaUpper \<and> k = RomanUpper
      then roman_value (trim_matches [40, 41, 46] (mk_text m)) else None)"

definition list_bullets :: "uchar list" where
  "list_bullets = [45, 42, 8211, 8226, 183, 9702, 9642, 9656, 9654, 9679, 9675, 9632, 9633, 61623]"

text \<open>The kind and ordinal of a token; \<open>None\<close> where the code returns early.\<close>

definition token_value :: "rstr \<Rightarrow> bool \<Rightarrow> (list_kind \<times> nat) option" where
  "token_value t explicit =
     (if list_all is_ascii_digit t then
        if 3 < length t then None
        else map_option (\<lambda>n. (if explicit then Decimal else BareDecimal, n)) (parse_unsigned u32_limit t)
      else if length t = 1 then
        if \<not> is_ascii_alphabetic (hd t) then None
        else Some (if is_ascii_lowercase (hd t) then AlphaLower else AlphaUpper, nat (ascii_lower (hd t) - 97 + 1))
      else if \<not> (list_all is_ascii_lowercase t \<or> list_all is_ascii_uppercase t) then None
      else map_option (\<lambda>n. (if is_ascii_lowercase (hd t) then RomanLower else RomanUpper, n)) (roman_value t))"

text \<open>A token that starts with a digit has only digits, any other only letters.\<close>

definition token_class :: "rstr \<Rightarrow> uchar \<Rightarrow> bool" where
  "token_class body =
     (if (case body of [] \<Rightarrow> False | d # _ \<Rightarrow> is_ascii_digit d) then is_ascii_digit else is_ascii_alphabetic)"

text \<open>The prefix of a trimmed line: kind, ordinal and the byte where the marker ends.\<close>

definition marker_prefix :: "rstr \<Rightarrow> (list_kind \<times> nat option \<times> nat) option" where
  "marker_prefix source =
     (case source of [] \<Rightarrow> None
      | c # _ \<Rightarrow>
          if c \<in> set list_bullets then Some (Unordered, None, utf8_len c)
          else
            let enclosed = (c = 40); start = (if enclosed then 1 else 0)
            in case get_from source start of None \<Rightarrow> None
               | Some body \<Rightarrow>
                   let len = length (takeWhile (token_class body) body)
                   in case get_to body len of None \<Rightarrow> None
                      | Some token \<Rightarrow>
                          if token = [] then None
                          else case get_from body len of None \<Rightarrow> None | Some [] \<Rightarrow> None
                             | Some (p # _) \<Rightarrow>
                                 let explicit = (p = 46 \<or> p = 41 \<or> p = 12289)
                                 in if enclosed \<and> p \<noteq> 41 then None
                                    else case token_value token explicit of None \<Rightarrow> None
                                       | Some (k, n) \<Rightarrow>
                                           if \<not> explicit \<and> (enclosed \<or> k \<noteq> BareDecimal) then None
                                           else Some (k, Some n, start + len + (if explicit then utf8_len p else 0)))"

text \<open>A run boundary at the marker's end with a measured gap.\<close>

fun separated :: "f64 \<Rightarrow> nat \<Rightarrow> nat \<Rightarrow> text_item list \<Rightarrow> bool" where
  "separated font stop offset (a # b # its) =
     (let offset = offset + str_len (raw_text a)
      in offset = stop \<and> fle (fmul font (rnd (2 / 10))) (fsub (left (it_bbox b)) (right (it_bbox a))) \<or>
         separated font stop offset (b # its))"
| "separated font stop offset _ = False"

definition list_marker :: "(uchar \<Rightarrow> bool) \<Rightarrow> line \<Rightarrow> list_mark option" where
  "list_marker alphabetic l =
     (if direction l \<noteq> LeftToRight \<or> flt (Fin 2) (fabs (ln_rotation l)) then None
      else
        let source = trim_start (ln_text l); leading = str_len (ln_text l) - str_len source
        in case marker_prefix source of None \<Rightarrow> None
           | Some (k, n, stop) \<Rightarrow>
               (case str_split source stop of None \<Rightarrow> None
                | Some (mark, rest) \<Rightarrow>
                    if \<not> (rest \<noteq> [] \<and> is_whitespace (hd rest)) \<and>
                       \<not> separated (dominant_font_size l) (leading + stop) 0 (text_items l) \<and>
                       \<not> (mark \<noteq> [] \<and> last mark = 12289)
                    then None
                    else
                      let body = trim_start rest
                      in if body = [] \<or> k = BareDecimal \<and> \<not> alphabetic (hd body) then None
                         else Some \<lparr>mk_kind = k, mk_text = mark, mk_end = str_len (ln_text l) - str_len body,
                                    mk_ordinal = n\<rparr>))"

section \<open>Where a body starts, and what may continue it\<close>

fun body_x_from :: "nat \<Rightarrow> nat \<Rightarrow> text_item list \<Rightarrow> f64 option" where
  "body_x_from prefix offset [] = None"
| "body_x_from prefix offset (it # its) =
     (let stop = offset + str_len (raw_text it)
      in if prefix < stop then
           let chars_before = length (case get_to (raw_text it) (prefix - offset) of None \<Rightarrow> [] | Some s \<Rightarrow> s)
           in Some (fadd (left (it_bbox it))
                (fdiv (fmul (width (it_bbox it)) (rnd (of_nat chars_before))) (rnd (of_nat (max 1 (length (raw_text it)))))))
         else body_x_from prefix stop its)"

definition list_body_x :: "line \<Rightarrow> nat \<Rightarrow> f64" where
  "list_body_x l prefix = (case body_x_from prefix 0 (text_items l) of None \<Rightarrow> left (ln_bbox l) | Some x \<Rightarrow> x)"

definition line_size :: "line \<Rightarrow> f64" where
  "line_size l = fmax (dominant_font_size l) (Fin 1)"

definition follows_list_line :: "line \<Rightarrow> line \<Rightarrow> nat \<Rightarrow> bool" where
  "follows_list_line l previous distance \<longleftrightarrow>
     (let font = line_size l; pfont = line_size previous; gap = fsub (top_of (ln_bbox l)) (bottom (ln_bbox previous))
      in direction l = LeftToRight \<and> fle (fabs (ln_rotation l)) (Fin 2) \<and>
         fle (fabs (fsub font pfont)) (fmul (fmax font pfont) (rnd (2 / 10))) \<and>
         fle (fmul (fneg font) (Fin (1 / 4))) gap \<and>
         fle gap (fmul (fmul (fmax font pfont) (Fin 2)) (rnd (of_nat (max 1 distance)))))"

section \<open>What a marker says of its line\<close>

lemma trim_start_split: "\<exists>a. s = a @ trim_start s \<and> (\<forall>c\<in>set a. is_whitespace c)"
  by (rule exI [of _ "takeWhile is_whitespace s"]) (auto simp: trim_start_def dest: set_takeWhileD)

lemma trim_start_hd: "trim_start s \<noteq> [] \<Longrightarrow> \<not> is_whitespace (hd (trim_start s))"
  unfolding trim_start_def by (rule hd_dropWhile)

lemma trim_start_Cons: "trim_start s = c # r \<Longrightarrow> \<not> is_whitespace c"
  using trim_start_hd [of s] by simp

lemma trim_start_white: "\<forall>c\<in>set a. is_whitespace c \<Longrightarrow> trim_start (a @ b) = trim_start b"
  by (simp add: trim_start_def dropWhile_append2)

lemma trim_start_id: "b \<noteq> [] \<Longrightarrow> \<not> is_whitespace (hd b) \<Longrightarrow> trim_start (b @ c) = b @ c"
  by (cases b) (auto simp: trim_start_def)

lemma trim_end_white: "\<forall>c\<in>set b. is_whitespace c \<Longrightarrow> trim_end (a @ b) = trim_end a"
  by (simp add: trim_end_def) (subst dropWhile_append2, auto)

lemma trim_end_id: "b \<noteq> [] \<Longrightarrow> \<not> is_whitespace (last b) \<Longrightarrow> trim_end b = b"
  by (cases b rule: rev_cases) (auto simp: trim_end_def)

lemma trim_padded:
  assumes "\<forall>c\<in>set a. is_whitespace c" "\<forall>c\<in>set b. is_whitespace c" "m \<noteq> []"
    "\<not> is_whitespace (hd m)" "\<not> is_whitespace (last m)"
  shows "trim (a @ m @ b) = m"
  using assms by (simp add: trim_def trim_start_white trim_start_id trim_end_white trim_end_id)

lemma bullet_dark: "c \<in> set list_bullets \<Longrightarrow> \<not> is_whitespace c"
  by (auto simp: list_bullets_def is_whitespace_def)

lemma ascii_one: "c < 128 \<Longrightarrow> utf8_len c = 1"
  by (simp add: utf8_len_def)

text \<open>A marker prefix ends on a character boundary, and its last character is not a space.\<close>

lemma str_len_ascii: "\<forall>c\<in>set s. c < 128 \<Longrightarrow> str_len s = length s"
  by (induction s) (simp_all add: ascii_one)

lemma str_split_prefix: "str_split (a @ b) (str_len a) = Some (a, b)"
  by (simp add: str_split_Some)

lemma token_class_ascii: "token_class body c \<Longrightarrow> c < 128 \<and> \<not> is_whitespace c"
  by (auto simp: token_class_def is_ascii_digit_def is_ascii_alphabetic_def is_ascii_lowercase_def
      is_ascii_uppercase_def is_whitespace_def split: if_splits)

lemma token_value_kind: "token_value t e = Some (k, n) \<Longrightarrow> k \<noteq> Unordered"
  by (auto simp: token_value_def split: if_splits)

text \<open>What a numbered prefix consists of.\<close>

lemma numbered_prefix:
  assumes "marker_prefix source = Some (k, n, stop)" and "hd source \<notin> set list_bullets"
  shows "\<exists>bra token p tail. source = bra @ token @ p # tail \<and> (bra = [] \<or> bra = [40]) \<and> token \<noteq> [] \<and>
    (\<forall>c\<in>set token. c < 128 \<and> \<not> is_whitespace c) \<and> k \<noteq> Unordered \<and> n \<noteq> None \<and>
    (p = 46 \<or> p = 41 \<or> p = 12289) \<and> stop = str_len (bra @ token @ [p]) \<or>
    source = bra @ token @ p # tail \<and> bra = [] \<and> token \<noteq> [] \<and>
    (\<forall>c\<in>set token. c < 128 \<and> \<not> is_whitespace c) \<and> k \<noteq> Unordered \<and> n \<noteq> None \<and> stop = str_len token"
proof -
  define bra where "bra = (if hd source = 40 then [40 :: int] else [])"
  obtain c r where source: "source = c # r" using assms(1) by (cases source) (auto simp: marker_prefix_def)
  define body where "body = (if c = 40 then r else source)"
  have ob: "source = bra @ body" "get_from source (if c = 40 then 1 else 0) = Some body"
    by (auto simp: source bra_def body_def get_from_def ascii_one str_split_Cons)
  define token where "token = takeWhile (token_class body) body"
  have t: "\<forall>c\<in>set token. c < 128 \<and> \<not> is_whitespace c"
    unfolding token_def by (auto dest!: set_takeWhileD token_class_ascii)
  then have len: "length token = str_len token" by (simp add: str_len_ascii)
  define rest where "rest = dropWhile (token_class body) body"
  have body: "body = token @ rest" by (simp add: token_def rest_def)
  have g: "get_to body (length token) = Some token" "get_from body (length token) = Some rest"
    by (auto simp: get_to_Some get_from_Some len body)
  note unf = marker_prefix_def source list.case Let_def
  have "marker_prefix source =
      (if token = [] then None
       else case rest of [] \<Rightarrow> None
       | p # _ \<Rightarrow> if c = 40 \<and> p \<noteq> 41 then None
         else case token_value token (p = 46 \<or> p = 41 \<or> p = 12289) of None \<Rightarrow> None
         | Some (k, n) \<Rightarrow>
           if \<not> (p = 46 \<or> p = 41 \<or> p = 12289) \<and> (c = 40 \<or> k \<noteq> BareDecimal) then None
           else Some (k, Some n, (if c = 40 then 1 else 0) + length token + (if p = 46 \<or> p = 41 \<or> p = 12289 then utf8_len p else 0)))"
    using assms(2) unfolding unf
    by (simp add: ob(2) [unfolded source] token_def [symmetric] g del: One_nat_def cong: list.case_cong option.case_cong prod.case_cong if_cong)
  with assms(1) obtain p tail v where rest: "rest = p # tail" and "token \<noteq> []" and "c = 40 \<longrightarrow> p = 41"
    and v: "token_value token (p = 46 \<or> p = 41 \<or> p = 12289) = Some (k, v)"
    and bare: "p = 46 \<or> p = 41 \<or> p = 12289 \<or> c \<noteq> 40 \<and> k = BareDecimal" and n: "n = Some v"
    and stop: "stop = (if c = 40 then 1 else 0) + length token + (if p = 46 \<or> p = 41 \<or> p = 12289 then utf8_len p else 0)"
    by (auto split: if_splits list.splits option.splits)
  have src: "source = bra @ token @ p # tail" using ob(1) body rest by simp
  have o_len: "str_len bra = (if c = 40 then 1 else 0)" by (simp add: bra_def source ascii_one)
  show ?thesis
  proof (cases "p = 46 \<or> p = 41 \<or> p = 12289")
    case True
    then have "stop = str_len (bra @ token @ [p])" using stop o_len len by simp
    with True src t n \<open>token \<noteq> []\<close> token_value_kind [OF v] show ?thesis
      by (intro exI [of _ bra] exI [of _ token] exI [of _ p] exI [of _ tail]) (auto simp: bra_def)
  next
    case False
    with bare have "bra = []" by (auto simp: bra_def source)
    moreover have "stop = str_len token" using stop False bare len by auto
    ultimately show ?thesis using src t n \<open>token \<noteq> []\<close> token_value_kind [OF v]
      by (intro exI [of _ bra] exI [of _ token] exI [of _ p] exI [of _ tail]) auto
  qed
qed

lemma marker_prefix_split:
  assumes "marker_prefix source = Some (k, n, stop)" "str_split source stop = Some (mark, rest)"
    and "source \<noteq> []" "\<not> is_whitespace (hd source)"
  shows "mark \<noteq> [] \<and> \<not> is_whitespace (hd mark) \<and> \<not> is_whitespace (last mark) \<and> (k = Unordered \<longleftrightarrow> n = None)"
proof (cases "hd source \<in> set list_bullets")
  case True
  then obtain c r where source: "source = c # r" using assms(3) by (cases source) auto
  with True assms(1) have "k = Unordered" "n = None" "stop = str_len [c]" by (auto simp: marker_prefix_def)
  moreover from this have "mark = [c]" using assms(2) str_split_prefix [of "[c]" r] source by simp
  ultimately show ?thesis using assms(4) source by simp
next
  case False
  have dark: "\<not> is_whitespace 46" "\<not> is_whitespace 41" "\<not> is_whitespace 12289" "\<not> is_whitespace 40"
    by (simp_all add: is_whitespace_def)
  from numbered_prefix [OF assms(1) False] obtain bra token p tail
    where src: "source = bra @ token @ p # tail" and o: "bra = [] \<or> bra = [40]" and t: "token \<noteq> []"
      "\<forall>c\<in>set token. c < 128 \<and> \<not> is_whitespace c" and k: "k \<noteq> Unordered" "n \<noteq> None"
      and stop: "(p = 46 \<or> p = 41 \<or> p = 12289) \<and> stop = str_len (bra @ token @ [p]) \<or> bra = [] \<and> stop = str_len token"
    by blast
  have hd: "\<not> is_whitespace (hd (bra @ token @ x))" for x using o t dark by (cases token) auto
  from stop show ?thesis
  proof
    assume p: "(p = 46 \<or> p = 41 \<or> p = 12289) \<and> stop = str_len (bra @ token @ [p])"
    then have "mark = bra @ token @ [p]"
      using assms(2) str_split_prefix [of "bra @ token @ [p]" tail] src by simp
    then show ?thesis using hd [of "[p]"] p dark k by auto
  next
    assume p: "bra = [] \<and> stop = str_len token"
    then have "mark = token" using assms(2) str_split_prefix [of token "p # tail"] src by simp
    then show ?thesis using hd [of "[]"] p t k by auto
  qed
qed

lemma list_marker_facts:
  assumes "list_marker alphabetic l = Some m"
  shows "\<exists>p. get_to (ln_text l) (mk_end m) = Some p \<and> trim p = mk_text m \<and> mk_text m \<noteq> [] \<and>
    trim (mk_text m) \<noteq> [] \<and> mk_end m < str_len (ln_text l) \<and> (mk_kind m = Unordered \<longleftrightarrow> mk_ordinal m = None)"
proof -
  let ?s = "trim_start (ln_text l)"
  from assms obtain k n stop mark rest where pre: "marker_prefix ?s = Some (k, n, stop)"
    and sp: "str_split ?s stop = Some (mark, rest)" and body: "trim_start rest \<noteq> []"
    and m: "m = \<lparr>mk_kind = k, mk_text = mark, mk_end = str_len (ln_text l) - str_len (trim_start rest), mk_ordinal = n\<rparr>"
    by (auto simp: list_marker_def Let_def split: if_splits option.splits prod.splits)
  from pre have ne: "?s \<noteq> []" by (auto simp: marker_prefix_def)
  note facts = marker_prefix_split [OF pre sp ne trim_start_hd [OF ne]]
  obtain a where a: "ln_text l = a @ ?s" "\<forall>c\<in>set a. is_whitespace c" using trim_start_split by blast
  obtain b where b: "rest = b @ trim_start rest" "\<forall>c\<in>set b. is_whitespace c" using trim_start_split by blast
  from sp have "?s = mark @ rest" by (simp add: str_split_Some)
  with a(1) b(1) have t: "ln_text l = (a @ mark @ b) @ trim_start rest" by (metis append.assoc)
  then have e: "mk_end m = str_len (a @ mark @ b)" using m by (metis add_diff_cancel_right' list_mark.select_convs(3) str_len_append)
  have "get_to (ln_text l) (mk_end m) = Some (a @ mark @ b)" using t e by (auto simp: get_to_Some)
  moreover have "trim (a @ mark @ b) = mark" using a(2) b(2) facts by (intro trim_padded) auto
  moreover have "trim mark = mark" using trim_padded [of "[]" "[]" mark] facts by simp
  moreover have "mk_end m < str_len (ln_text l)" using body unfolding e by (subst t) (simp add: neq0_conv [symmetric] del: neq0_conv)
  ultimately show ?thesis using facts m by auto
qed

section \<open>Canonical numerals\<close>

lemma push_tokens_skip: "n < amount \<Longrightarrow> push_tokens t amount (n, s) = (n, s)"
  by (simp add: push_tokens.simps)
lemma push_tokens_step: "0 < amount \<Longrightarrow> amount \<le> n \<Longrightarrow> push_tokens t amount (n, s) = push_tokens t amount (n - amount, s @ t)"
  by (subst push_tokens.simps) simp

text \<open>One decimal digit, written with the letters for one, five and ten units.\<close>

definition digit_text :: "uchar \<Rightarrow> uchar \<Rightarrow> uchar \<Rightarrow> nat \<Rightarrow> rstr" where
  "digit_text i v x d =
     [[], [i], [i, i], [i, i, i], [i, v], [v], [v, i], [v, i, i], [v, i, i, i], [i, x]] ! d"

definition digit_tokens :: "uchar \<Rightarrow> uchar \<Rightarrow> uchar \<Rightarrow> nat \<Rightarrow> (rstr \<times> nat) list" where
  "digit_tokens i v x u = [([i, x], 9 * u), ([v], 5 * u), ([i, v], 4 * u), ([i], u)]"

lemma digit_cases: "d < 10 \<Longrightarrow> d \<in> {0, 1, 2, 3, 4, 5, 6, 7, 8, 9 :: nat}"
  by auto

lemma push_digit:
  assumes "d < 10" "r < u"
  shows "fold (\<lambda>(t, amount). push_tokens t amount) (digit_tokens i v x u) (d * u + r, s) = (r, s @ digit_text i v x d)"
  using digit_cases [OF assms(1)] assms(2)
  by (auto simp: digit_tokens_def digit_text_def push_tokens_skip push_tokens_step)

lemma strip_prefix_two [simp]: "strip_prefix [a, b] (c # d # r) = (if a = c \<and> b = d then Some r else None)"
  "strip_prefix [a, b] [c] = None" "strip_prefix [a, b] [] = None"
  "strip_prefix [a] (c # r) = (if a = c then Some r else None)" "strip_prefix [a] [] = None"
  "a \<noteq> c \<Longrightarrow> strip_prefix [a, b] (c # r) = None"
  by (auto simp: strip_prefix_def)

lemma strip_prefix_two_other: "r = [] \<or> hd r \<noteq> a \<Longrightarrow> strip_prefix [a, b] r = None"
  by (cases r; cases "tl r") auto

lemma strip_prefix_one_other: "r = [] \<or> hd r \<noteq> a \<Longrightarrow> strip_prefix [a] r = None"
  by (cases r) auto

lemma strip_prefix_second: "r = [] \<or> hd r \<noteq> b \<Longrightarrow> strip_prefix [a, b] (a # r) = None"
  by (cases r) auto

lemma take_tokens_one: "take_tokens t u (Suc 0) (r, n) = (case strip_prefix t r of None \<Rightarrow> Some (r, n)
    | Some s \<Rightarrow> (case strip_prefix t s of None \<Rightarrow> Some (s, n + u) | Some _ \<Rightarrow> None))"
  by (simp split: option.split)

lemma take_tokens_three: "take_tokens t u 3 (r, n) = (case strip_prefix t r of None \<Rightarrow> Some (r, n)
    | Some s \<Rightarrow> (case strip_prefix t s of None \<Rightarrow> Some (s, n + u)
    | Some s \<Rightarrow> (case strip_prefix t s of None \<Rightarrow> Some (s, n + u + u)
    | Some s \<Rightarrow> (case strip_prefix t s of None \<Rightarrow> Some (s, n + u + u + u) | Some _ \<Rightarrow> None))))"
  by (simp add: numeral_3_eq_3 split: option.split)

lemma roman_repeat_two [simp]: "roman_repeat [a, b] = Suc 0"
  by (simp add: roman_repeat_def)

lemma scan_digit:
  assumes "d < 10" "distinct [i, v, x]" "r = [] \<or> hd r \<notin> {i, v, x}"
    "roman_repeat [i] = 3" "roman_repeat [v] = Suc 0"
  shows "roman_scan (digit_tokens i v x u @ ds) (digit_text i v x d @ r, n) = roman_scan ds (r, n + d * u)"
proof -
  have ne: "i \<noteq> v" "v \<noteq> i" "i \<noteq> x" "x \<noteq> i" "v \<noteq> x" "x \<noteq> v" using assms(2) by auto
  have rs: "strip_prefix [i, x] r = None" "strip_prefix [v] r = None" "strip_prefix [i, v] r = None" "strip_prefix [i] r = None"
    "strip_prefix [i, x] (i # r) = None" "strip_prefix [i, v] (i # r) = None"
    using assms(3) by (auto intro!: strip_prefix_two_other strip_prefix_one_other strip_prefix_second)
  note unf = digit_tokens_def append_Cons append_Nil roman_scan.simps roman_repeat_two assms(4,5) take_tokens_one take_tokens_three
  have m: "u + u = u * 2" "u + (u + u) = u * 3" by simp_all
  show ?thesis using digit_cases [OF assms(1)] ne
    by (elim insertE emptyE; simp only: digit_text_def unf; simp add: rs assms(4,5) take_tokens_one take_tokens_three ac_simps m del: take_tokens.simps)
qed


definition numeral_text :: "nat \<Rightarrow> nat \<Rightarrow> nat \<Rightarrow> nat \<Rightarrow> rstr" where
  "numeral_text a b c d = replicate a 77 @ digit_text 67 68 77 b @ digit_text 88 76 67 c @ digit_text 73 86 88 d"

lemma roman_digits_split:
  "roman_digits = ([77], 1000) # digit_tokens 67 68 77 100 @ digit_tokens 88 76 67 10 @ digit_tokens 73 86 88 1"
  by (simp add: roman_digits_def digit_tokens_def lit_def)

lemma push_thousands: "a < 4 \<Longrightarrow> r < 1000 \<Longrightarrow> push_tokens [77] 1000 (a * 1000 + r, s) = (r, s @ replicate a 77)"
proof -
  assume "a < 4" "r < 1000"
  moreover from this have "a = 0 \<or> a = 1 \<or> a = 2 \<or> a = 3" by auto
  ultimately show ?thesis by (auto simp: push_tokens_skip push_tokens_step numeral_3_eq_3 numeral_2_eq_2)
qed

lemma roman_text_digits:
  assumes "a < 4" "b < 10" "c < 10" "d < 10"
  shows "roman_text (a * 1000 + (b * 100 + (c * 10 + d))) = numeral_text a b c d"
proof -
  have lt: "b * 100 + (c * 10 + d) < 1000" "c * 10 + d < 100" using assms by auto
  have d: "fold (\<lambda>(t, amount). push_tokens t amount) (digit_tokens i v x (Suc 0)) (d, s) = (0, s @ digit_text i v x d)" for i v x s
    using push_digit [OF assms(4), of 0 1 i v x s] by simp
  note push = push_thousands [OF assms(1) lt(1)] push_digit [OF assms(2) lt(2)] push_digit [OF assms(3), of d 10] d
  show ?thesis using assms(4) by (simp add: roman_text_def roman_digits_split numeral_text_def push)
qed

lemma digit_text_hd: "d < 10 \<Longrightarrow> digit_text i v x d = [] \<or> hd (digit_text i v x d) \<in> {i, v}"
  using digit_cases [of d] by (auto simp: digit_text_def)

lemma hd_append_or:
  "a = [] \<or> hd a \<in> A \<Longrightarrow> b = [] \<or> hd b \<in> B \<Longrightarrow> a @ b = [] \<or> hd (a @ b) \<in> A \<union> B"
  by (cases a) auto

lemma scan_thousands:
  assumes "a < 4" "r = [] \<or> hd r \<noteq> 77"
  shows "take_tokens [77] 1000 3 (replicate a 77 @ r, 0) = Some (r, a * 1000)"
proof -
  have "a = 0 \<or> a = 1 \<or> a = 2 \<or> a = 3" using assms(1) by auto
  with assms(2) show ?thesis
    by (cases r) (auto simp: take_tokens_three numeral_3_eq_3 numeral_2_eq_2)
qed

lemma roman_repeat_values: "roman_repeat [77] = 3" "roman_repeat [67] = 3" "roman_repeat [88] = 3" "roman_repeat [73] = 3"
  "roman_repeat [68] = Suc 0" "roman_repeat [76] = Suc 0" "roman_repeat [86] = Suc 0"
  by (simp_all add: roman_repeat_def lit_def)

lemma roman_scan_digits:
  assumes "a < 4" "b < 10" "c < 10" "d < 10"
  shows "roman_scan roman_digits (numeral_text a b c d, 0) = Some ([], a * 1000 + (b * 100 + (c * 10 + d)))"
proof -
  let ?D = "digit_text 73 86 88 d" and ?C = "digit_text 88 76 67 c" and ?B = "digit_text 67 68 77 b"
  have D: "?D = [] \<or> hd ?D \<in> {73, 86}" by (rule digit_text_hd [OF assms(4)])
  have CD: "?C @ ?D = [] \<or> hd (?C @ ?D) \<in> {88, 76, 73, 86}"
    using hd_append_or [OF digit_text_hd [OF assms(3), of 88 76 67] D] by auto
  have BCD: "?B @ ?C @ ?D = [] \<or> hd (?B @ ?C @ ?D) \<in> {67, 68, 88, 76, 73, 86}"
    using hd_append_or [OF digit_text_hd [OF assms(2), of 67 68 77] CD] by auto
  have 1: "take_tokens [77] 1000 3 (numeral_text a b c d, 0) = Some (?B @ ?C @ ?D, a * 1000)"
    unfolding numeral_text_def using BCD by (intro scan_thousands [OF assms(1)]) auto
  have 2: "roman_scan (digit_tokens 67 68 77 100 @ ds) (?B @ ?C @ ?D, n) = roman_scan ds (?C @ ?D, n + b * 100)" for n ds
    using CD by (intro scan_digit assms) (auto simp: roman_repeat_values)
  have 3: "roman_scan (digit_tokens 88 76 67 10 @ ds) (?C @ ?D, n) = roman_scan ds (?D, n + c * 10)" for n ds
    using D by (intro scan_digit assms) (auto simp: roman_repeat_values)
  have 4: "roman_scan (digit_tokens 73 86 88 1 @ []) (?D @ [], n) = roman_scan [] ([], n + d * 1)" for n
    by (intro scan_digit assms) (auto simp: roman_repeat_values)
  show ?thesis using 4 by (simp add: roman_digits_split roman_repeat_values 1 2 3)
qed

lemma digits_of: "n < 4000 \<Longrightarrow> \<exists>a b c d. n = a * 1000 + (b * 100 + (c * 10 + d)) \<and> a < 4 \<and> b < 10 \<and> c < 10 \<and> d < (10 :: nat)"
proof (intro exI conjI)
  assume "n < 4000"
  have "n mod 1000 div 100 * 100 + n mod 1000 mod 100 = n mod 1000" "n mod 1000 mod 100 div 10 * 10 + n mod 1000 mod 100 mod 10 = n mod 1000 mod 100" by (rule div_mult_mod_eq)+
  then show "n = n div 1000 * 1000 + (n mod 1000 div 100 * 100 + (n mod 1000 mod 100 div 10 * 10 + n mod 1000 mod 100 mod 10))"
    by (metis div_mult_mod_eq)
  show "n div 1000 < 4" "n mod 1000 div 100 < 10" "n mod 1000 mod 100 div 10 < 10" "n mod 1000 mod 100 mod 10 < 10"
    using \<open>n < 4000\<close> by (auto simp: less_mult_imp_div_less)
qed

lemma roman_scan_text: "n < 4000 \<Longrightarrow> roman_scan roman_digits (roman_text n, 0) = Some ([], n)"
  using digits_of [of n] by (auto simp: roman_text_digits roman_scan_digits)

lemma digit_text_letters: "d < 10 \<Longrightarrow> set (digit_text i v x d) \<subseteq> {i, v, x}"
  using digit_cases [of d] by (auto simp: digit_text_def)

lemma roman_text_upper:
  assumes "n < 4000"
  shows "map ascii_upper (roman_text n) = roman_text n"
proof -
  obtain a b c d where n: "n = a * 1000 + (b * 100 + (c * 10 + d))" "a < 4" "b < 10" "c < 10" "d < 10"
    using digits_of [OF assms] by blast
  have "set (numeral_text a b c d) \<subseteq> {77, 67, 68, 88, 76, 73, 86}"
    using digit_text_letters [OF n(3), of 67 68 77] digit_text_letters [OF n(4), of 88 76 67]
      digit_text_letters [OF n(5), of 73 86 88] by (auto simp: numeral_text_def)
  then have "\<forall>x\<in>set (numeral_text a b c d). ascii_upper x = x"
    by (auto simp: ascii_upper_def is_ascii_lowercase_def)
  with n show ?thesis by (simp add: roman_text_digits map_idI)
qed

text \<open>
  C38: Exactly the canonical numerals of 1 to 3999, in any letter case, have a value, and it is the
  number that writes back as that numeral. The greedy scan with its repetition limits never loses
  one of them.
\<close>

theorem roman_numerals_are_canonical:
  "roman_value s = Some n \<longleftrightarrow> 0 < n \<and> n < 4000 \<and> map ascii_upper s = roman_text n"
proof
  assume "roman_value s = Some n"
  then show "0 < n \<and> n < 4000 \<and> map ascii_upper s = roman_text n"
    by (auto simp: roman_value_def Let_def split: option.splits if_splits)
next
  assume *: "0 < n \<and> n < 4000 \<and> map ascii_upper s = roman_text n"
  then show "roman_value s = Some n"
    using roman_scan_text [of n] by (simp add: roman_value_def)
qed

end
