(* ===== verification/List_Recovery.thy ===== *)
theory List_Recovery
  imports List_Marker
begin

text \<open>
  Recovering list items from a run of lines: \<open>Sequence\<close>, \<open>RecoveredItem\<close> and
  \<open>RecoveredItem::recover\<close> in \<open>crates/core/src/semantic/list.rs\<close>. Ambiguous markers are first
  confirmed, family by family, by runs that count up; then one pass over the lines builds the
  items under the active indents. The two \<open>expect\<close>s of the second pass are the value \<open>None\<close>.
\<close>

section \<open>Confirming ambiguous markers\<close>

record sequence =
  sq_indices :: "nat list"
  sq_next :: nat
  sq_indent :: f64

type_synonym confirmations = "(list_kind \<times> nat) option list"

definition run_alive :: "nat \<Rightarrow> sequence \<Rightarrow> bool" where
  "run_alive i r \<longleftrightarrow> sq_indices r \<noteq> [] \<and> i - last (sq_indices r) \<le> 12"

definition continues_run :: "line list \<Rightarrow> nat \<Rightarrow> line \<Rightarrow> nat \<Rightarrow> sequence \<Rightarrow> bool" where
  "continues_run ls i l v r \<longleftrightarrow>
     sq_next r = v \<and>
     fle (fabs (fsub (sq_indent r) (left (ln_bbox l)))) (fmul (line_size l) (rnd (6 / 10))) \<and>
     (if sq_indices r = [] then False
      else case get_at ls (last (sq_indices r)) of None \<Rightarrow> False
           | Some previous \<Rightarrow> follows_list_line l previous (i - last (sq_indices r)))"

definition run_minimum :: "list_kind \<Rightarrow> nat" where
  "run_minimum k = (if k = BareDecimal then 3 else 2)"

definition confirm_member :: "list_kind \<Rightarrow> nat \<times> nat \<Rightarrow> confirmations \<Rightarrow> confirmations" where
  "confirm_member k x conf = (case x of (n, member) \<Rightarrow> conf[member := Some (k, n + 1)])"

definition confirm_line ::
  "line list \<Rightarrow> list_kind \<Rightarrow> nat \<times> line \<times> list_mark option \<Rightarrow> sequence list \<times> confirmations \<Rightarrow> sequence list \<times> confirmations" where
  "confirm_line ls k x st =
     (case (x, st) of ((i, l, m), (runs, conf)) \<Rightarrow>
        case (case m of None \<Rightarrow> None | Some m \<Rightarrow> value_as m k) of
          None \<Rightarrow> (runs, conf)
        | Some v \<Rightarrow>
            let runs = filter (run_alive i) runs
            in case rposition (continues_run ls i l v) runs of
                 Some j \<Rightarrow>
                   let r = runs ! j; members = sq_indices r @ [i];
                       r' = r\<lparr>sq_indices := members, sq_next := sq_next r + 1\<rparr>
                   in (runs[j := r'],
                       if length members = run_minimum k then fold (confirm_member k) (List.enumerate 0 members) conf
                       else if run_minimum k < length members then conf[i := Some (k, v)] else conf)
               | None \<Rightarrow>
                   if v = 1 then (runs @ [\<lparr>sq_indices = [i], sq_next = 2, sq_indent = left (ln_bbox l)\<rparr>], conf)
                   else (runs, conf))"

definition tagged :: "line list \<Rightarrow> list_mark option list \<Rightarrow> (nat \<times> line \<times> list_mark option) list" where
  "tagged ls ms = List.enumerate 0 (zip ls ms)"

definition confirm_family :: "line list \<Rightarrow> list_mark option list \<Rightarrow> list_kind \<Rightarrow> confirmations \<Rightarrow> confirmations" where
  "confirm_family ls ms k conf = snd (fold (confirm_line ls k) (tagged ls ms) ([], conf))"

definition confirmed_markers :: "line list \<Rightarrow> list_mark option list \<Rightarrow> confirmations" where
  "confirmed_markers ls ms =
     fold (confirm_family ls ms) [BareDecimal, AlphaLower, AlphaUpper, RomanLower, RomanUpper]
       (replicate (length ls) None)"

definition keep_marker :: "list_mark option \<Rightarrow> (list_kind \<times> nat) option \<Rightarrow> list_mark option" where
  "keep_marker m c =
     (case m of None \<Rightarrow> None
      | Some m \<Rightarrow>
          if mk_kind m = Unordered \<or> mk_kind m = Decimal then Some m
          else case c of None \<Rightarrow> None
               | Some (k, n) \<Rightarrow> Some (m\<lparr>mk_kind := k, mk_ordinal := Some n\<rparr>))"

section \<open>Building the items\<close>

record recovered_item =
  rc_group :: nat
  rc_level :: nat
  rc_marker :: list_mark
  rc_lines :: "nat list"

record recovery =
  rv_items :: "recovered_item list"
  rv_indents :: "f64 list"
  rv_previous :: "nat option"
  rv_active :: "(nat \<times> nat) list"
  rv_group :: nat

definition connected_to :: "line list \<Rightarrow> line \<Rightarrow> nat option \<Rightarrow> bool" where
  "connected_to ls l p \<longleftrightarrow>
     is_some_and (case p of None \<Rightarrow> None | Some i \<Rightarrow> get_at ls i) (\<lambda>previous. follows_list_line l previous 1)"

text \<open>The outermost item has the same indent but another family, or the numbering restarts.\<close>

definition root_changed :: "line \<Rightarrow> list_mark \<Rightarrow> f64 \<Rightarrow> recovery \<Rightarrow> bool" where
  "root_changed l m tolerance s \<longleftrightarrow>
     is_some_and (hd_opt (rv_indents s)) (\<lambda>indent. fle (fabs (fsub (left (ln_bbox l)) indent)) tolerance) \<and>
     is_some_and (case hd_opt (rv_active s) of None \<Rightarrow> None | Some (i, _) \<Rightarrow> get_at (rv_items s) i)
       (\<lambda>item. mk_kind (rc_marker item) \<noteq> mk_kind m \<or>
          mk_ordinal m = Some 1 \<and> is_some_and (mk_ordinal (rc_marker item)) (\<lambda>v. 1 < v))"

definition starts_group :: "line list \<Rightarrow> line \<Rightarrow> list_mark \<Rightarrow> f64 \<Rightarrow> recovery \<Rightarrow> bool" where
  "starts_group ls l m tolerance s \<longleftrightarrow>
     rv_active s = [] \<or> \<not> connected_to ls l (rv_previous s) \<or> root_changed l m tolerance s \<or>
     is_some_and (hd_opt (rv_indents s)) (\<lambda>indent. flt (left (ln_bbox l)) (fsub indent tolerance))"

definition add_item :: "line list \<Rightarrow> nat \<Rightarrow> line \<Rightarrow> list_mark \<Rightarrow> recovery \<Rightarrow> recovery" where
  "add_item ls i l m s =
     (let x = left (ln_bbox l); tolerance = fmul (line_size l) (rnd (6 / 10));
          fresh = starts_group ls l m tolerance s;
          group = (if fresh \<and> rv_items s \<noteq> [] then rv_group s + 1 else rv_group s);
          active = (if fresh then [] else rv_active s);
          indents = (if fresh then [] else rv_indents s);
          indents = rev (dropWhile (\<lambda>indent. flt x (fsub indent tolerance)) (rev indents));
          indents = (if indents = [] \<or> flt (fadd (last indents) tolerance) x then indents @ [x] else indents);
          level = length indents - 1
      in \<lparr>rv_items = rv_items s @ [\<lparr>rc_group = group, rc_level = level, rc_marker = m, rc_lines = [i]\<rparr>],
          rv_indents = indents, rv_previous = Some i,
          rv_active = take level active @ [(length (rv_items s), i)], rv_group = group\<rparr>)"

definition sentence_ends :: "uchar list" where
  "sentence_ends = [46, 33, 63, 12290, 65281, 65311, 58, 65306, 59, 65307]"

definition continues_item :: "line list \<Rightarrow> line \<Rightarrow> recovery \<Rightarrow> nat \<times> nat \<Rightarrow> bool" where
  "continues_item ls l s a \<longleftrightarrow>
     (case (get_at (rv_items s) (fst a), get_at ls (snd a),
            case rv_previous s of None \<Rightarrow> None | Some p \<Rightarrow> get_at ls p) of
        (Some item, Some first, Some previous) \<Rightarrow>
          let font = line_size l; body_x = list_body_x first (mk_end (rc_marker item));
              hanging = fle (fabs (fsub (left (ln_bbox l)) body_x)) (fmul font (rnd (6 / 10)));
              previous_text = trim_end (ln_text previous);
              flush_wrap = fle (fabs (fsub (left (ln_bbox l)) (left (ln_bbox first)))) (fmul font (rnd (4 / 10))) \<and>
                \<not> (previous_text \<noteq> [] \<and> last previous_text \<in> set sentence_ends)
          in follows_list_line l previous 1 \<and> (hanging \<or> flush_wrap) \<and> \<not> list_all item_is_bold (text_items l)
      | _ \<Rightarrow> False)"

definition continue_item :: "line list \<Rightarrow> nat \<Rightarrow> line \<Rightarrow> recovery \<Rightarrow> recovery option" where
  "continue_item ls i l s =
     (case rposition (continues_item ls l s) (rv_active s) of
        None \<Rightarrow> Some (s\<lparr>rv_active := [], rv_previous := None, rv_indents := []\<rparr>)
      | Some n \<Rightarrow>
          let active = take (n + 1) (rv_active s)
          in case last_opt active of None \<Rightarrow> None
             | Some (item, _) \<Rightarrow>
                 (case get_at (rv_items s) item of None \<Rightarrow> None
                  | Some it \<Rightarrow>
                      Some (s\<lparr>rv_items := (rv_items s)[item := it\<lparr>rc_lines := rc_lines it @ [i]\<rparr>],
                             rv_indents := take (n + 1) (rv_indents s), rv_previous := Some i, rv_active := active\<rparr>)))"

definition recover_step :: "line list \<Rightarrow> nat \<times> line \<times> list_mark option \<Rightarrow> recovery \<Rightarrow> recovery option" where
  "recover_step ls x s =
     (case x of (i, l, m) \<Rightarrow> case m of Some m \<Rightarrow> Some (add_item ls i l m s) | None \<Rightarrow> continue_item ls i l s)"

fun recover_loop :: "line list \<Rightarrow> (nat \<times> line \<times> list_mark option) list \<Rightarrow> recovery \<Rightarrow> recovery option" where
  "recover_loop ls [] s = Some s"
| "recover_loop ls (x # xs) s = (case recover_step ls x s of None \<Rightarrow> None | Some s' \<Rightarrow> recover_loop ls xs s')"

definition no_recovery :: recovery where
  "no_recovery = \<lparr>rv_items = [], rv_indents = [], rv_previous = None, rv_active = [], rv_group = 0\<rparr>"

definition final_markers :: "(uchar \<Rightarrow> bool) \<Rightarrow> line list \<Rightarrow> list_mark option list" where
  "final_markers alphabetic ls =
     (let ms = map (list_marker alphabetic) ls in map2 keep_marker ms (confirmed_markers ls ms))"

definition recover :: "(uchar \<Rightarrow> bool) \<Rightarrow> line list \<Rightarrow> recovered_item list option" where
  "recover alphabetic ls =
     map_option rv_items (recover_loop ls (tagged ls (final_markers alphabetic ls)) no_recovery)"

end
