(* ===== verification/List_Check.thy ===== *)
theory List_Check
  imports List_Marker BTree_Map
begin

text \<open>
  The check of recovered lists: \<open>ListItem::matches_source\<close> of
  \<open>crates/core/src/semantic/list.rs\<close> and \<open>ResultValidator::validate_block_lists\<close> of
  \<open>crates/core/src/validate.rs\<close>. A \<open>ValidationError::InvalidNode\<close> is the pair of its path and
  its reason.
\<close>

type_synonym invalid_node = "rstr \<times> rstr"

definition list_error :: "rstr \<Rightarrow> string \<Rightarrow> invalid_node" where
  "list_error path reason = (path @ lit ''.list_items'', lit reason)"

definition matches_source :: "(uchar \<Rightarrow> bool) \<Rightarrow> list_item \<Rightarrow> line \<Rightarrow> bool" where
  "matches_source alphabetic item l \<longleftrightarrow>
     is_some_and (list_marker alphabetic l) (\<lambda>m.
       mk_text m = marker item \<and> mk_end m = marker_end item \<and>
       (if kind item = Unordered then mk_kind m = Unordered \<and> ordinal item = None
        else ordinal item \<noteq> None \<and> value_as m (kind item) = ordinal item))"

type_synonym owners = "(nat \<times> nat) option list"

definition lines_by_id :: "line list \<Rightarrow> (rstr \<times> nat \<times> line) list" where
  "lines_by_id ls = bt_collect (map (\<lambda>(i, l). (ln_id l, i, l)) (List.enumerate 0 ls))"

definition check_part ::
  "(rstr \<Rightarrow> (nat \<times> line) option) \<Rightarrow> rstr \<Rightarrow> nat \<Rightarrow> nat \<times> rstr \<Rightarrow>
   nat option \<times> nat option \<times> owners \<Rightarrow> invalid_node + (nat option \<times> nat option \<times> owners)" where
  "check_part find_line path k x st =
     (case (x, st) of ((part, i), (previous_line, previous_start, owns)) \<Rightarrow>
        rbind (ok_or (list_error path ''list line belongs to a different block'') (find_line i)) (\<lambda>(index, _).
        if is_some_and previous_line (\<lambda>p. index \<le> p) \<or> part = 0 \<and> is_some_and previous_start (\<lambda>p. index \<le> p)
        then Inl (list_error path ''list items and their lines must follow source order'')
        else if owns ! index \<noteq> None then Inl (list_error path ''list lines must be uniquely referenced'')
        else Inr (Some index, if part = 0 then Some index else previous_start, owns[index := Some (k, part)])))"

definition check_list_item ::
  "(uchar \<Rightarrow> bool) \<Rightarrow> (rstr \<Rightarrow> (nat \<times> line) option) \<Rightarrow> rstr \<Rightarrow> nat \<times> list_item \<Rightarrow>
   nat option \<times> nat option \<times> owners \<Rightarrow> invalid_node + (nat option \<times> nat option \<times> owners)" where
  "check_list_item alphabetic find_line path x st =
     (case (x, st) of ((k, item), (previous_group, previous_start, owns)) \<Rightarrow>
        if previous_group \<noteq> Some (group_of item) \<and>
           (level item \<noteq> 0 \<or> is_some_and previous_group (\<lambda>g. group_of item \<le> g))
        then Inl (list_error path ''list groups must be ordered and start at level zero'')
        else if (kind item = Unordered) \<noteq> (ordinal item = None)
        then Inl (list_error path ''ordered markers need an ordinal; unordered markers must not have one'')
        else rbind (ok_or (list_error path ''list item needs a source line in its own block'')
               (map_option snd (case hd_opt (line_ids item) of None \<Rightarrow> None | Some i \<Rightarrow> find_line i))) (\<lambda>first.
          case get_to (ln_text first) (marker_end item) of
            None \<Rightarrow> Inl (list_error path ''marker prefix must end on a valid UTF-8 source boundary'')
          | Some prefix \<Rightarrow>
              if trim (marker item) = [] \<or> trim prefix \<noteq> marker item \<or> str_len (ln_text first) \<le> marker_end item \<or>
                 \<not> matches_source alphabetic item first
              then Inl (list_error path ''marker prefix must match the source and leave a nonempty body'')
              else rbind (rfold (check_part find_line path k) (List.enumerate 0 (line_ids item)) (None, previous_start, owns))
                (\<lambda>(_, previous_start, owns). Inr (Some (group_of item), previous_start, owns))))"

text \<open>The second pass: a continuation may skip descendants, but not cross a sibling or prose.\<close>

definition nest_step ::
  "rstr \<Rightarrow> list_item list \<Rightarrow> (nat \<times> nat) option \<Rightarrow> nat list \<times> nat option \<Rightarrow> invalid_node + (nat list \<times> nat option)" where
  "nest_step path items owner st =
     (case st of (active, grp) \<Rightarrow>
        case owner of None \<Rightarrow> Inr ([], grp)
        | Some (k, part) \<Rightarrow>
            let item = items ! k
            in if part = 0 then
                 let fresh = (grp \<noteq> Some (group_of item)); active' = (if fresh then [] else active)
                 in if \<not> fresh \<and> active = [] then Inl (list_error path ''a list group cannot cross unrelated prose'')
                    else if length active' < level item then Inl (list_error path ''list nesting cannot skip an active parent'')
                    else Inr (take (level item) active' @ [k], Some (group_of item))
               else case iter_position (\<lambda>a. a = k) active of
                 None \<Rightarrow> Inl (list_error path ''list continuation must belong to an active ancestor'')
               | Some n \<Rightarrow> Inr (take (n + 1) active, grp))"

definition validate_block_lists :: "(uchar \<Rightarrow> bool) \<Rightarrow> block \<Rightarrow> rstr \<Rightarrow> invalid_node + unit" where
  "validate_block_lists alphabetic b path =
     (if list_items b = [] then Inr ()
      else if label b \<noteq> Text \<or> table_of b \<noteq> None
      then Inl (list_error path ''only body Text layouts may contain recovered lists'')
      else
        let find_line = map_of (lines_by_id (lines_of b))
        in rbind (rfold (check_list_item alphabetic find_line path) (List.enumerate 0 (list_items b))
                   (None, None, replicate (length (lines_of b)) None)) (\<lambda>(_, _, owns).
           rbind (rfold (nest_step path (list_items b)) owns ([], None)) (\<lambda>_. Inr ())))"

end
