(* ===== verification/List_Nesting.thy ===== *)
theory List_Nesting
  imports List_Recovery List_Check
begin

text \<open>
  What the recovery of list items guarantees: confirmed markers count up, every item owns its
  lines alone and in order, and the second pass of the final check accepts the nesting. The
  recovery's own stack of active items is the checker's stack.
\<close>

section \<open>Confirmed markers\<close>

text \<open>The member of a run at place \<open>q\<close> reads as \<open>q + 1\<close> in the run's family.\<close>

definition reads_as :: "list_mark option list \<Rightarrow> nat \<Rightarrow> list_kind \<Rightarrow> nat \<Rightarrow> bool" where
  "reads_as ms j k n \<longleftrightarrow> (\<exists>m. get_at ms j = Some (Some m) \<and> value_as m k = Some n)"

definition run_counts :: "list_mark option list \<Rightarrow> list_kind \<Rightarrow> sequence \<Rightarrow> bool" where
  "run_counts ms k r \<longleftrightarrow> sq_next r = length (sq_indices r) + 1 \<and>
     (\<forall>q<length (sq_indices r). reads_as ms (sq_indices r ! q) k (q + 1))"

definition conf_reads :: "list_mark option list \<Rightarrow> confirmations \<Rightarrow> bool" where
  "conf_reads ms conf \<longleftrightarrow> (\<forall>j<length conf. \<forall>k n. conf ! j = Some (k, n) \<longrightarrow>
     k \<noteq> Unordered \<and> k \<noteq> Decimal \<and> reads_as ms j k n)"

lemma conf_reads_update:
  "conf_reads ms conf \<Longrightarrow> reads_as ms j k n \<Longrightarrow> k \<noteq> Unordered \<Longrightarrow> k \<noteq> Decimal \<Longrightarrow> conf_reads ms (conf[j := Some (k, n)])"
  by (cases "j < length conf") (auto simp: conf_reads_def nth_list_update split: if_splits)

lemma confirm_members_reads:
  assumes "\<forall>(n, j)\<in>set xs. reads_as ms j k (n + 1)" "conf_reads ms conf" "k \<noteq> Unordered" "k \<noteq> Decimal"
  shows "conf_reads ms (fold (confirm_member k) xs conf)"
  using assms
proof (induction xs arbitrary: conf)
  case (Cons x xs)
  then show ?case by (cases x) (auto simp: confirm_member_def conf_reads_update)
qed simp

lemma enumerate_mem: "(n, j) \<in> set (List.enumerate 0 xs) \<longleftrightarrow> n < length xs \<and> xs ! n = j"
  by (auto simp: in_set_enumerate_eq)

lemma confirm_line_reads:
  assumes "case x of (i, l, m) \<Rightarrow> get_at ms i = Some m" "k \<noteq> Unordered" "k \<noteq> Decimal"
    "\<forall>r\<in>set (fst st). run_counts ms k r" "conf_reads ms (snd st)"
  shows "(\<forall>r\<in>set (fst (confirm_line ls k x st)). run_counts ms k r) \<and> conf_reads ms (snd (confirm_line ls k x st))"
proof -
  obtain i l m runs conf where x: "x = (i, l, m)" and st: "st = (runs, conf)" by (cases x, cases st)
  show ?thesis
  proof (cases "case m of None \<Rightarrow> None | Some m \<Rightarrow> value_as m k")
    case None
    with assms show ?thesis by (simp add: confirm_line_def x st)
  next
    case (Some v)
    then have v: "reads_as ms i k v" using assms(1) by (auto simp: reads_as_def x split: option.splits)
    let ?runs = "filter (run_alive i) runs"
    have runs: "\<forall>r\<in>set ?runs. run_counts ms k r" using assms(4) by (simp add: st)
    show ?thesis
    proof (cases "rposition (continues_run ls i l v) ?runs")
      case None
      with Some v assms runs show ?thesis
        by (auto simp: confirm_line_def x st Let_def run_counts_def)
    next
      case (Some j)
      from rposition_Some [OF this] have j: "j < length ?runs" "sq_next (?runs ! j) = v"
        by (simp_all add: continues_run_def)
      let ?r = "?runs ! j"
      let ?members = "sq_indices ?r @ [i]"
      have r: "run_counts ms k ?r" using runs j(1) nth_mem by blast
      have members: "reads_as ms (?members ! q) k (q + 1)" if "q < length ?members" for q
        using that r v j(2) by (cases "q = length (sq_indices ?r)") (auto simp: run_counts_def nth_append)
      then have r': "run_counts ms k (?r\<lparr>sq_indices := ?members, sq_next := sq_next ?r + 1\<rparr>)"
        using r by (simp add: run_counts_def)
      have "conf_reads ms (fold (confirm_member k) (List.enumerate 0 ?members) conf)"
        using members assms by (intro confirm_members_reads) (auto simp: enumerate_mem st simp del: enumerate_append_eq)
      moreover have "conf_reads ms (conf[i := Some (k, v)])"
        using conf_reads_update [OF _ v assms(2,3)] assms(5) by (simp add: st)
      moreover have "\<forall>r\<in>set (?runs[j := ?r\<lparr>sq_indices := ?members, sq_next := sq_next ?r + 1\<rparr>]). run_counts ms k r"
        using runs r' by (auto dest!: set_update_subset_insert [THEN subsetD])
      ultimately show ?thesis using Some \<open>(case m of None \<Rightarrow> None | Some m \<Rightarrow> value_as m k) = Some v\<close> assms(5)
        by (simp add: confirm_line_def x st Let_def)
    qed
  qed
qed

lemma confirm_lines_reads:
  assumes "\<forall>(i, l, m)\<in>set xs. get_at ms i = Some m" "k \<noteq> Unordered" "k \<noteq> Decimal"
    "\<forall>r\<in>set (fst st). run_counts ms k r" "conf_reads ms (snd st)"
  shows "conf_reads ms (snd (fold (confirm_line ls k) xs st))"
  using assms(1,4,5)
proof (induction xs arbitrary: st)
  case (Cons x xs)
  have "\<forall>r\<in>set (fst (confirm_line ls k x st)). run_counts ms k r" "conf_reads ms (snd (confirm_line ls k x st))"
    using confirm_line_reads [where x = x and ms = ms and k = k and st = st and ls = ls] Cons.prems assms(2,3) by auto
  with Cons show ?case by simp
qed simp

lemma tagged_mem: "length ls = length ms \<Longrightarrow> (i, l, m) \<in> set (tagged ls ms) \<longleftrightarrow> i < length ls \<and> ls ! i = l \<and> ms ! i = m"
  by (auto simp: tagged_def in_set_enumerate_eq)

lemma confirm_family_reads:
  assumes "length ls = length ms" "k \<noteq> Unordered" "k \<noteq> Decimal" "conf_reads ms conf"
  shows "conf_reads ms (confirm_family ls ms k conf)"
  unfolding confirm_family_def using assms
  by (intro confirm_lines_reads) (auto simp: tagged_mem)

lemma confirmed_markers_reads: "length ls = length ms \<Longrightarrow> conf_reads ms (confirmed_markers ls ms)"
proof -
  assume len: "length ls = length ms"
  have "conf_reads ms (replicate (length ls) None)" by (simp add: conf_reads_def)
  then show ?thesis unfolding confirmed_markers_def by (simp add: confirm_family_reads [OF len])
qed


section \<open>Final markers\<close>

text \<open>A final marker still describes the prefix of its line.\<close>

definition marker_of_line :: "(uchar \<Rightarrow> bool) \<Rightarrow> line \<Rightarrow> list_mark \<Rightarrow> bool" where
  "marker_of_line alphabetic l m \<longleftrightarrow> (\<exists>m'. list_marker alphabetic l = Some m' \<and> mk_text m' = mk_text m \<and>
     mk_end m' = mk_end m \<and>
     (if mk_kind m = Unordered then mk_kind m' = Unordered \<and> mk_ordinal m = None
      else mk_ordinal m \<noteq> None \<and> value_as m' (mk_kind m) = mk_ordinal m))"

lemma length_confirm: "length (snd (fold (confirm_line ls k) xs st)) = length (snd st)"
proof (induction xs arbitrary: st)
  case (Cons x xs)
  have members: "length (fold (confirm_member k) ys conf) = length conf" for ys conf
    by (induction ys arbitrary: conf) (auto simp: confirm_member_def)
  have "length (snd (confirm_line ls k x st)) = length (snd st)"
    by (auto simp: confirm_line_def Let_def members split: prod.splits option.splits)
  with Cons show ?case by simp
qed simp

lemma length_confirmed: "length (confirmed_markers ls ms) = length ls"
  by (simp add: confirmed_markers_def confirm_family_def length_confirm)

lemma final_marker_describes:
  assumes "j < length ls" "final_markers alphabetic ls ! j = Some m"
  shows "marker_of_line alphabetic (ls ! j) m"
proof -
  let ?ms = "map (list_marker alphabetic) ls"
  let ?conf = "confirmed_markers ls ?ms"
  from assms have keep: "keep_marker (?ms ! j) (?conf ! j) = Some m"
    by (simp add: final_markers_def length_confirmed Let_def)
  then obtain m' where m': "list_marker alphabetic (ls ! j) = Some m'"
    using assms(1) by (auto simp: keep_marker_def split: option.splits)
  have reads: "conf_reads ?ms ?conf" by (rule confirmed_markers_reads) simp
  obtain p where "mk_kind m' = Unordered \<longleftrightarrow> mk_ordinal m' = None" using list_marker_facts [OF m'] by blast
  show ?thesis
  proof (cases "mk_kind m' = Unordered \<or> mk_kind m' = Decimal")
    case True
    then have "m = m'" using keep m' assms(1) by (auto simp: keep_marker_def)
    with m' True \<open>mk_kind m' = Unordered \<longleftrightarrow> mk_ordinal m' = None\<close> show ?thesis
      by (auto simp: marker_of_line_def value_as_def)
  next
    case False
    then obtain k n where c: "?conf ! j = Some (k, n)" and m: "m = m'\<lparr>mk_kind := k, mk_ordinal := Some n\<rparr>"
      using keep m' assms(1) by (auto simp: keep_marker_def split: option.splits)
    with reads assms(1) have "k \<noteq> Unordered" "reads_as ?ms j k n"
      by (auto simp: conf_reads_def length_confirmed)
    with m m' assms(1) show ?thesis by (auto simp: marker_of_line_def reads_as_def)
  qed
qed

section \<open>The invariant of the second pass\<close>

definition plain_list_item :: "recovered_item \<Rightarrow> list_item" where
  "plain_list_item r = \<lparr>group_of = rc_group r, level = rc_level r, kind = mk_kind (rc_marker r),
     marker = mk_text (rc_marker r), ordinal = mk_ordinal (rc_marker r), line_ids = [], marker_end = mk_end (rc_marker r)\<rparr>"

text \<open>The table that names, for every line, the item that owns it and at which place.\<close>

definition owned_at :: "recovered_item list \<Rightarrow> nat \<Rightarrow> nat \<Rightarrow> nat \<Rightarrow> bool" where
  "owned_at items j k p \<longleftrightarrow> k < length items \<and> p < length (rc_lines (items ! k)) \<and> rc_lines (items ! k) ! p = j"

definition owner_table :: "recovered_item list \<Rightarrow> owners \<Rightarrow> bool" where
  "owner_table items T \<longleftrightarrow> (\<forall>j<length T. \<forall>k p. T ! j = Some (k, p) \<longleftrightarrow> owned_at items j k p)"

definition item_ok :: "(uchar \<Rightarrow> bool) \<Rightarrow> line list \<Rightarrow> nat \<Rightarrow> recovered_item \<Rightarrow> bool" where
  "item_ok alphabetic ls i r \<longleftrightarrow> rc_lines r \<noteq> [] \<and> sorted_wrt (<) (rc_lines r) \<and> (\<forall>j\<in>set (rc_lines r). j < i) \<and>
     marker_of_line alphabetic (ls ! hd (rc_lines r)) (rc_marker r)"

definition groups_ok :: "recovered_item list \<Rightarrow> bool" where
  "groups_ok items \<longleftrightarrow>
     (\<forall>k. Suc k < length items \<longrightarrow> rc_group (items ! k) \<le> rc_group (items ! Suc k) \<and>
        (rc_group (items ! k) \<noteq> rc_group (items ! Suc k) \<longrightarrow> rc_level (items ! Suc k) = 0)) \<and>
     (items \<noteq> [] \<longrightarrow> rc_level (hd items) = 0)"

definition nest_run :: "recovered_item list \<Rightarrow> owners \<Rightarrow> nat list \<times> nat option \<Rightarrow> invalid_node + (nat list \<times> nat option)" where
  "nest_run items T st = rfold (nest_step [] (map plain_list_item items)) T st"

definition items_ok :: "(uchar \<Rightarrow> bool) \<Rightarrow> line list \<Rightarrow> nat \<Rightarrow> recovered_item list \<Rightarrow> bool" where
  "items_ok alphabetic ls i items \<longleftrightarrow>
     (\<forall>r\<in>set items. item_ok alphabetic ls i r) \<and> sorted_wrt (<) (map (hd \<circ> rc_lines) items) \<and> groups_ok items"

definition recovery_inv :: "(uchar \<Rightarrow> bool) \<Rightarrow> line list \<Rightarrow> nat \<Rightarrow> recovery \<Rightarrow> bool" where
  "recovery_inv alphabetic ls i s \<longleftrightarrow>
     items_ok alphabetic ls i (rv_items s) \<and>
     length (rv_indents s) = length (rv_active s) \<and>
     (\<forall>a\<in>set (rv_active s). fst a < length (rv_items s)) \<and> distinct (map fst (rv_active s)) \<and>
     (rv_items s \<noteq> [] \<longrightarrow> rc_group (last (rv_items s)) = rv_group s) \<and>
     (\<exists>T. length T = i \<and> owner_table (rv_items s) T \<and>
        nest_run (rv_items s) T ([], None) =
          Inr (map fst (rv_active s), if rv_items s = [] then None else Some (rv_group s)))"

lemma nest_run_cong:
  assumes "\<forall>x\<in>set T. \<forall>k p. x = Some (k, p) \<longrightarrow> k < length items \<and> k < length items' \<and>
      rc_group (items' ! k) = rc_group (items ! k) \<and> rc_level (items' ! k) = rc_level (items ! k)"
  shows "nest_run items' T st = nest_run items T st"
  unfolding nest_run_def
proof (rule rfold_cong [OF refl refl], goal_cases)
  case (1 x s)
  show ?case
  proof (cases x)
    case None
    then show ?thesis by (simp add: nest_step_def)
  next
    case (Some kp)
    obtain k p where kp: "kp = (k, p)" by (cases kp)
    with Some 1 assms have "k < length items \<and> k < length items' \<and>
        rc_group (items' ! k) = rc_group (items ! k) \<and> rc_level (items' ! k) = rc_level (items ! k)" by blast
    then have "group_of (map plain_list_item items' ! k) = group_of (map plain_list_item items ! k)"
        "level (map plain_list_item items' ! k) = level (map plain_list_item items ! k)"
      by (simp_all add: plain_list_item_def)
    with Some kp show ?thesis by (cases s) (simp only: nest_step_def Let_def prod.case option.case)
  qed
qed

lemma owner_table_bound: "owner_table items T \<Longrightarrow> Some (k, p) \<in> set T \<Longrightarrow> k < length items"
  by (auto simp: owner_table_def owned_at_def in_set_conv_nth)

lemma item_ok_mono: "item_ok alphabetic ls i r \<Longrightarrow> i \<le> i' \<Longrightarrow> item_ok alphabetic ls i' r"
  by (auto simp: item_ok_def)


lemma add_item_shape:
  obtains n fresh ind where
    "add_item ls i l m s = \<lparr>rv_items = rv_items s @ [\<lparr>rc_group = (if fresh \<and> rv_items s \<noteq> [] then rv_group s + 1 else rv_group s),
        rc_level = n, rc_marker = m, rc_lines = [i]\<rparr>],
      rv_indents = ind, rv_previous = Some i,
      rv_active = take n (if fresh then [] else rv_active s) @ [(length (rv_items s), i)],
      rv_group = (if fresh \<and> rv_items s \<noteq> [] then rv_group s + 1 else rv_group s)\<rparr>"
    "length ind = n + 1" "n \<le> length (if fresh then [] else rv_indents s)" "rv_active s = [] \<longrightarrow> fresh"
proof -
  let ?x = "left (ln_bbox l)" and ?t = "fmul (line_size l) (rnd (6 / 10))"
  define fresh where "fresh = starts_group ls l m ?t s"
  define base where "base = (if fresh then [] else rv_indents s)"
  define kept where "kept = rev (dropWhile (\<lambda>indent. flt ?x (fsub indent ?t)) (rev base))"
  define ind where "ind = (if kept = [] \<or> flt (fadd (last kept) ?t) ?x then kept @ [?x] else kept)"
  have "length kept \<le> length base" by (simp add: kept_def) (metis length_dropWhile_le length_rev)
  then have len: "length ind - 1 \<le> length base" "length ind = length ind - 1 + 1" by (auto simp: ind_def)
  have active: "rv_active s = [] \<longrightarrow> fresh" by (simp add: fresh_def starts_group_def)
  show thesis
  proof (rule that)
    show "add_item ls i l m s = \<lparr>rv_items = rv_items s @ [\<lparr>rc_group = (if fresh \<and> rv_items s \<noteq> [] then rv_group s + 1 else rv_group s),
        rc_level = length ind - 1, rc_marker = m, rc_lines = [i]\<rparr>],
      rv_indents = ind, rv_previous = Some i,
      rv_active = take (length ind - 1) (if fresh then [] else rv_active s) @ [(length (rv_items s), i)],
      rv_group = (if fresh \<and> rv_items s \<noteq> [] then rv_group s + 1 else rv_group s)\<rparr>"
      unfolding add_item_def Let_def fresh_def [symmetric] base_def [symmetric] kept_def [symmetric] ind_def [symmetric] ..
  qed (use len active in \<open>auto simp: base_def split: if_splits\<close>)
qed

lemma owner_table_add:
  assumes "owner_table items T" "length T = i" "\<forall>r\<in>set items. \<forall>j\<in>set (rc_lines r). j < i" "rc_lines r = [i]"
  shows "owner_table (items @ [r]) (T @ [Some (length items, 0)])"
  unfolding owner_table_def
proof (intro allI impI)
  fix j k p assume j: "j < length (T @ [Some (length items, 0 :: nat)])"
  have old: "owned_at items j k p \<Longrightarrow> j < i" using assms(3) nth_mem by (fastforce simp: owned_at_def)
  have "owned_at (items @ [r]) j k p \<longleftrightarrow> owned_at items j k p \<or> k = length items \<and> p = 0 \<and> j = i"
    using assms(4) by (auto simp: owned_at_def nth_append)
  moreover have "j < i \<or> j = i" using j assms(2) by auto
  ultimately show "(T @ [Some (length items, 0)]) ! j = Some (k, p) \<longleftrightarrow> owned_at (items @ [r]) j k p"
    using assms(1,2) old by (auto simp: owner_table_def nth_append)
qed

lemma nest_run_append: "nest_run items (T @ [x]) st = rbind (nest_run items T st) (nest_step [] (map plain_list_item items) x)"
  by (simp only: nest_run_def rfold_append rfold_one)

lemma groups_ok_add:
  assumes "groups_ok items" "items \<noteq> [] \<longrightarrow> rc_group (last items) \<le> rc_group r \<and> (rc_group (last items) \<noteq> rc_group r \<longrightarrow> rc_level r = 0)"
    "items = [] \<longrightarrow> rc_level r = 0"
  shows "groups_ok (items @ [r])"
proof (cases "items = []")
  case True
  with assms show ?thesis by (simp add: groups_ok_def)
next
  case False
  then have last: "items ! (length items - 1) = last items" by (simp add: last_conv_nth)
  have "rc_group ((items @ [r]) ! k) \<le> rc_group ((items @ [r]) ! Suc k) \<and>
      (rc_group ((items @ [r]) ! k) \<noteq> rc_group ((items @ [r]) ! Suc k) \<longrightarrow> rc_level ((items @ [r]) ! Suc k) = 0)"
    if k: "Suc k < length (items @ [r])" for k
  proof (cases "Suc k < length items")
    case True
    then show ?thesis using assms(1) by (simp add: groups_ok_def nth_append)
  next
    case False
    with k have "k = length items - 1" "Suc k = length items" by auto
    then show ?thesis using assms(2) \<open>items \<noteq> []\<close> last by (simp add: nth_append)
  qed
  then show ?thesis using assms(1) False by (auto simp: groups_ok_def)
qed

lemma add_item_inv:
  assumes inv: "recovery_inv alphabetic ls i s" and m: "marker_of_line alphabetic (ls ! i) m"
  shows "recovery_inv alphabetic ls (Suc i) (add_item ls i l m s)"
proof -
  obtain n fresh ind where s': "add_item ls i l m s = \<lparr>rv_items = rv_items s @ [\<lparr>rc_group = (if fresh \<and> rv_items s \<noteq> [] then rv_group s + 1 else rv_group s),
        rc_level = n, rc_marker = m, rc_lines = [i]\<rparr>],
      rv_indents = ind, rv_previous = Some i,
      rv_active = take n (if fresh then [] else rv_active s) @ [(length (rv_items s), i)],
      rv_group = (if fresh \<and> rv_items s \<noteq> [] then rv_group s + 1 else rv_group s)\<rparr>"
    and ind: "length ind = n + 1" "n \<le> length (if fresh then [] else rv_indents s)" "rv_active s = [] \<longrightarrow> fresh"
    by (rule add_item_shape)
  define items where "items = rv_items s"
  define g where "g = (if fresh \<and> items \<noteq> [] then rv_group s + 1 else rv_group s)"
  define r where "r = \<lparr>rc_group = g, rc_level = n, rc_marker = m, rc_lines = [i]\<rparr>"
  define act where "act = (if fresh then [] else rv_active s)"
  have s: "add_item ls i l m s = \<lparr>rv_items = items @ [r], rv_indents = ind, rv_previous = Some i,
      rv_active = take n act @ [(length items, i)], rv_group = g\<rparr>"
    unfolding s' r_def g_def items_def act_def ..
  from inv obtain T where ok: "items_ok alphabetic ls i items" and len: "length (rv_indents s) = length (rv_active s)"
    and act: "\<forall>a\<in>set (rv_active s). fst a < length items" "distinct (map fst (rv_active s))"
    and grp: "items \<noteq> [] \<longrightarrow> rc_group (last items) = rv_group s"
    and T: "length T = i" "owner_table items T"
      "nest_run items T ([], None) = Inr (map fst (rv_active s), if items = [] then None else Some (rv_group s))"
    unfolding recovery_inv_def items_def by blast
  have n: "n \<le> length act" "fresh \<longrightarrow> n = 0" using ind(2) len by (auto simp: act_def split: if_splits)
  have empty: "items = [] \<longrightarrow> fresh" using act(1) ind(3) by (cases "rv_active s") auto
  have lines: "\<forall>r\<in>set items. \<forall>j\<in>set (rc_lines r). j < i" using ok by (auto simp: items_ok_def item_ok_def)
  have actm: "set act \<subseteq> set (rv_active s)" "distinct (map fst act)" using act by (auto simp: act_def)
  have "nest_run (items @ [r]) T ([], None) = nest_run items T ([], None)"
    by (rule nest_run_cong) (auto dest: owner_table_bound [OF T(2)] simp: nth_append)
  then have nest: "nest_run (items @ [r]) (T @ [Some (length items, 0)]) ([], None) =
      nest_step [] (map plain_list_item (items @ [r])) (Some (length items, 0)) (map fst (rv_active s), if items = [] then None else Some (rv_group s))"
    by (simp add: nest_run_append T(3))
  have fresh: "fresh \<longleftrightarrow> (if items = [] then None else Some (rv_group s)) \<noteq> Some g"
    using empty by (auto simp: g_def)
  have step: "nest_step [] (map plain_list_item (items @ [r])) (Some (length items, 0)) (map fst (rv_active s), if items = [] then None else Some (rv_group s))
      = Inr (take n (map fst act) @ [length items], Some g)"
    using n ind(3) by (auto simp: nest_step_def nth_append plain_list_item_def r_def Let_def fresh [symmetric] act_def)
  have "items_ok alphabetic ls (Suc i) (items @ [r])"
    unfolding items_ok_def
  proof (intro conjI)
    show "\<forall>r\<in>set (items @ [r]). item_ok alphabetic ls (Suc i) r"
      using ok m by (auto simp: items_ok_def item_ok_mono) (simp add: item_ok_def r_def)
    have "\<forall>r\<in>set items. hd (rc_lines r) < i" using ok by (auto simp: items_ok_def item_ok_def)
    then show "sorted_wrt (<) (map (hd \<circ> rc_lines) (items @ [r]))"
      using ok by (auto simp: items_ok_def sorted_wrt_append r_def)
    show "groups_ok (items @ [r])"
      using ok grp n(2) empty by (intro groups_ok_add) (auto simp: items_ok_def r_def g_def)
  qed
  moreover have "owner_table (items @ [r]) (T @ [Some (length items, 0)])"
    by (rule owner_table_add [OF T(2,1) lines]) (simp add: r_def)
  moreover have "\<forall>a\<in>set (take n act @ [(length items, i)]). fst a < length (items @ [r])"
    using actm(1) act(1) by (fastforce dest: in_set_takeD)
  moreover have "distinct (map fst (take n act @ [(length items, i)]))"
    using actm act(1) by (fastforce simp: take_map [symmetric] dest: in_set_takeD)
  ultimately show ?thesis
    unfolding recovery_inv_def s using T(1) n(1) ind(1) nest step
    by (auto simp: r_def take_map intro!: exI [of _ "T @ [Some (length items, 0)]"])
qed


lemma owner_table_skip:
  assumes "owner_table items T" "length T = i" "\<forall>r\<in>set items. \<forall>j\<in>set (rc_lines r). j < i"
  shows "owner_table items (T @ [None])"
  unfolding owner_table_def
proof (intro allI impI)
  fix j k p assume j: "j < length (T @ [None :: (nat \<times> nat) option])"
  have old: "owned_at items j k p \<Longrightarrow> j < i" using assms(3) nth_mem by (fastforce simp: owned_at_def)
  have "j < i \<or> j = i" using j assms(2) by auto
  then show "(T @ [None]) ! j = Some (k, p) \<longleftrightarrow> owned_at items j k p"
    using assms(1,2) old by (auto simp: owner_table_def nth_append)
qed

lemma owner_table_grow:
  assumes "owner_table items T" "length T = i" "\<forall>r\<in>set items. \<forall>j\<in>set (rc_lines r). j < i" "q < length items"
  shows "owner_table (items[q := (items ! q)\<lparr>rc_lines := rc_lines (items ! q) @ [i]\<rparr>])
    (T @ [Some (q, length (rc_lines (items ! q)))])" (is "owner_table ?items _")
  unfolding owner_table_def
proof (intro allI impI)
  fix j k p assume j: "j < length (T @ [Some (q, length (rc_lines (items ! q)))])"
  have old: "owned_at items j k p \<Longrightarrow> j < i" using assms(3) nth_mem by (fastforce simp: owned_at_def)
  have "owned_at ?items j k p \<longleftrightarrow> owned_at items j k p \<or> k = q \<and> p = length (rc_lines (items ! q)) \<and> j = i"
    using assms(4) by (auto simp: owned_at_def nth_append nth_list_update)
  moreover have "j < i \<or> j = i" using j assms(2) by auto
  ultimately show "(T @ [Some (q, length (rc_lines (items ! q)))]) ! j = Some (k, p) \<longleftrightarrow> owned_at ?items j k p"
    using assms(1,2) old by (auto simp: owner_table_def nth_append)
qed

lemma items_ok_grow:
  assumes "items_ok alphabetic ls i items" "q < length items"
  shows "items_ok alphabetic ls (Suc i) (items[q := (items ! q)\<lparr>rc_lines := rc_lines (items ! q) @ [i]\<rparr>])"
    (is "items_ok _ _ _ ?items")
proof -
  have q: "item_ok alphabetic ls i (items ! q)" using assms by (auto simp: items_ok_def)
  then have new: "item_ok alphabetic ls (Suc i) ((items ! q)\<lparr>rc_lines := rc_lines (items ! q) @ [i]\<rparr>)"
    by (auto simp: item_ok_def sorted_wrt_append)
  have "\<forall>r\<in>set ?items. item_ok alphabetic ls (Suc i) r"
    using assms(1) new by (auto simp: items_ok_def item_ok_mono dest!: set_update_subset_insert [THEN subsetD])
  moreover have "map (hd \<circ> rc_lines) ?items = map (hd \<circ> rc_lines) items"
    using q assms(2) by (intro nth_equalityI) (auto simp: nth_list_update item_ok_def)
  moreover have "groups_ok ?items"
  proof -
    have "rc_group (?items ! k) = rc_group (items ! k)" "rc_level (?items ! k) = rc_level (items ! k)" for k
      using assms(2) by (auto simp: nth_list_update)
    moreover have "rc_level (hd ?items) = rc_level (hd items)"
      using assms(2) by (cases items; cases q) auto
    ultimately show ?thesis using assms(1) by (auto simp: items_ok_def groups_ok_def)
  qed
  ultimately show ?thesis using assms(1) by (simp add: items_ok_def)
qed

lemma continue_item_inv:
  assumes inv: "recovery_inv alphabetic ls i s"
  shows "\<exists>s'. continue_item ls i l s = Some s' \<and> recovery_inv alphabetic ls (Suc i) s'"
proof -
  define items where "items = rv_items s"
  from inv obtain T where ok: "items_ok alphabetic ls i items" and len: "length (rv_indents s) = length (rv_active s)"
    and act: "\<forall>a\<in>set (rv_active s). fst a < length items" "distinct (map fst (rv_active s))"
    and grp: "items \<noteq> [] \<longrightarrow> rc_group (last items) = rv_group s"
    and T: "length T = i" "owner_table items T"
      "nest_run items T ([], None) = Inr (map fst (rv_active s), if items = [] then None else Some (rv_group s))"
    unfolding recovery_inv_def items_def by blast
  have lines: "\<forall>r\<in>set items. \<forall>j\<in>set (rc_lines r). j < i" using ok by (auto simp: items_ok_def item_ok_def)
  show ?thesis
  proof (cases "rposition (continues_item ls l s) (rv_active s)")
    case None
    have "items_ok alphabetic ls (Suc i) items" using ok by (auto simp: items_ok_def item_ok_mono)
    moreover have "nest_run items (T @ [None]) ([], None) = Inr ([], if items = [] then None else Some (rv_group s))"
      by (simp add: nest_run_append T(3) nest_step_def)
    ultimately show ?thesis using None owner_table_skip [OF T(2,1) lines] T(1) grp
      by (auto simp: continue_item_def recovery_inv_def items_def intro!: exI [of _ "T @ [None]"])
  next
    case (Some n)
    then have n: "n < length (rv_active s)" by (auto dest: rposition_Some)
    obtain q first where a: "rv_active s ! n = (q, first)" by fastforce
    have q: "q < length items" using act(1) n a nth_mem by fastforce
    define grown where "grown = items[q := (items ! q)\<lparr>rc_lines := rc_lines (items ! q) @ [i]\<rparr>]"
    have last: "last_opt (take (n + 1) (rv_active s)) = Some (q, first)"
      using n a by (auto simp: last_opt_def last_conv_nth)
    have step: "continue_item ls i l s = Some (s\<lparr>rv_items := grown, rv_indents := take (n + 1) (rv_indents s),
        rv_previous := Some i, rv_active := take (n + 1) (rv_active s)\<rparr>)"
      using Some last q by (simp add: continue_item_def grown_def items_def get_at_def del: take_Suc_conv_app_nth)
    have same: "rc_group (grown ! k) = rc_group (items ! k)" "rc_level (grown ! k) = rc_level (items ! k)" for k
      using q by (auto simp: grown_def nth_list_update)
    have "rc_lines (items ! q) \<noteq> []" using ok q by (auto simp: items_ok_def item_ok_def)
    moreover have "iter_position (\<lambda>a. a = q) (map fst (rv_active s)) = Some n"
      using position_distinct [OF act(2), of n] n a by simp
    moreover have "nest_run grown T ([], None) = nest_run items T ([], None)"
      using same by (intro nest_run_cong) (auto dest: owner_table_bound [OF T(2)] simp: grown_def)
    ultimately have nest: "nest_run grown (T @ [Some (q, length (rc_lines (items ! q)))]) ([], None) =
        Inr (map fst (take (n + 1) (rv_active s)), if items = [] then None else Some (rv_group s))"
      by (simp add: nest_run_append T(3) nest_step_def take_map)
    have "rc_group (last grown) = rc_group (last items)" "grown = [] \<longleftrightarrow> items = []"
      using same(1) [of "length items - 1"] q last_conv_nth [of items] last_conv_nth [of grown]
      by (fastforce simp: grown_def)+
    moreover have "\<forall>a\<in>set (take (n + 1) (rv_active s)). fst a < length grown"
      using act(1) by (auto simp: grown_def dest: in_set_takeD)
    moreover have "distinct (map fst (take (n + 1) (rv_active s)))" using act(2) by (simp add: take_map [symmetric] del: take_Suc)
    moreover have "items_ok alphabetic ls (Suc i) grown" unfolding grown_def by (rule items_ok_grow [OF ok q])
    moreover have "owner_table grown (T @ [Some (q, length (rc_lines (items ! q)))])"
      unfolding grown_def by (rule owner_table_grow [OF T(2,1) lines q])
    ultimately have "recovery_inv alphabetic ls (Suc i) (s\<lparr>rv_items := grown, rv_indents := take (n + 1) (rv_indents s),
        rv_previous := Some i, rv_active := take (n + 1) (rv_active s)\<rparr>)"
      unfolding recovery_inv_def using nest T(1) grp len
      by (intro conjI exI [of _ "T @ [Some (q, length (rc_lines (items ! q)))]"]) auto
    then show ?thesis using step by blast
  qed
qed

lemma recover_loop_inv:
  assumes "recovery_inv alphabetic ls i s" and "length ms = length ls"
    and "\<forall>j<length ls. \<forall>m. ms ! j = Some m \<longrightarrow> marker_of_line alphabetic (ls ! j) m"
    and "xs = drop i (tagged ls ms)"
  shows "\<exists>s'. recover_loop ls xs s = Some s' \<and> recovery_inv alphabetic ls (max i (length ls)) s'"
  using assms(1,4)
proof (induction xs arbitrary: i s)
  case Nil
  then have "length ls \<le> i" using assms(2) by (simp add: tagged_def)
  with Nil show ?case by (simp add: max_def)
next
  case (Cons x xs)
  have len: "length (tagged ls ms) = length ls" using assms(2) by (simp add: tagged_def)
  have i: "i < length ls"
  proof (rule ccontr)
    assume "\<not> i < length ls"
    then have "drop i (tagged ls ms) = []" using len by simp
    with Cons.prems(2) show False by simp
  qed
  then have "drop i (tagged ls ms) = tagged ls ms ! i # drop (Suc i) (tagged ls ms)"
    using len by (simp add: Cons_nth_drop_Suc)
  moreover have "tagged ls ms ! i = (i, ls ! i, ms ! i)"
    using i assms(2) by (simp add: tagged_def nth_enumerate_eq)
  ultimately have x: "x = (i, ls ! i, ms ! i)" and xs: "xs = drop (Suc i) (tagged ls ms)"
    using Cons.prems(2) by simp_all
  have "\<exists>s'. recover_step ls x s = Some s' \<and> recovery_inv alphabetic ls (Suc i) s'"
  proof (cases "ms ! i")
    case None
    then show ?thesis using continue_item_inv [OF Cons.prems(1)] by (simp add: recover_step_def x)
  next
    case (Some m)
    then show ?thesis using add_item_inv [OF Cons.prems(1), of m] assms(3) i by (simp add: recover_step_def x)
  qed
  then obtain s' where s': "recover_step ls x s = Some s'" "recovery_inv alphabetic ls (Suc i) s'" by blast
  from Cons.IH [OF s'(2) xs] s'(1) i show ?case by (simp add: max_def)
qed

text \<open>The recovery never panics, and its items are well formed and well nested.\<close>

lemma recover_facts:
  obtains items T where "recover alphabetic ls = Some items" "items_ok alphabetic ls (length ls) items"
    "length T = length ls" "owner_table items T" "\<exists>st. nest_run items T ([], None) = Inr st"
proof -
  have len: "length (final_markers alphabetic ls) = length ls" by (simp add: final_markers_def length_confirmed Let_def)
  have start: "recovery_inv alphabetic ls 0 no_recovery"
    by (auto simp: recovery_inv_def no_recovery_def items_ok_def groups_ok_def owner_table_def nest_run_def)
  from recover_loop_inv [OF start len] final_marker_describes obtain s where
      "recover_loop ls (tagged ls (final_markers alphabetic ls)) no_recovery = Some s"
      "recovery_inv alphabetic ls (length ls) s" by fastforce
  then show thesis using that by (auto simp: recover_def recovery_inv_def)
qed

end
