(* ===== verification/List_Layout.thy ===== *)
theory List_Layout
  imports List_Recovery Block_Text Stable_Ids
begin

text \<open>
  Merging the body layouts that one list spans: \<open>SemanticAssembler::recover_list_layouts\<close> in
  \<open>crates/core/src/semantic/list.rs\<close>. A run of connected text blocks is scanned once; blocks
  that share a list group are merged into the first of them; the items are attached to the
  blocks that own their lines.

  Every \<open>expect\<close> and every unsigned subtraction that could underflow is the error \<open>Panicked\<close>.
  The smallest enclosing polygon (\<open>Polygon::enclosing\<close>, on the external geometry crate) is the
  parameter \<open>enclosing\<close>.
\<close>

datatype layout_failure = Panicked | BadGeometry geometry_error

text \<open>\<open>BTreeMap::entry(k).or_insert(v)\<close>.\<close>

definition bt_or_insert :: "'k :: linorder \<Rightarrow> 'v \<Rightarrow> ('k \<times> 'v) list \<Rightarrow> ('k \<times> 'v) list" where
  "bt_or_insert k v m = (if map_of m k = None then bt_insert k v m else m)"

section \<open>Runs of connected body blocks\<close>

definition is_body :: "block \<Rightarrow> bool" where
  "is_body b \<longleftrightarrow> label b = Text \<and> table_of b = None"

definition joins_run :: "block \<Rightarrow> block \<Rightarrow> bool" where
  "joins_run previous next_block \<longleftrightarrow>
     is_body next_block \<and> embedded_image_index previous = None \<and> bk_image previous = None \<and>
     embedded_image_index next_block = None \<and> bk_image next_block = None \<and>
     (case (last_opt (lines_of previous), hd_opt (lines_of next_block)) of
        (Some p, Some n) \<Rightarrow>
          let overlap = fsub (fmin (right (ln_bbox p)) (right (ln_bbox n))) (fmax (left (ln_bbox p)) (left (ln_bbox n)))
          in follows_list_line n p 1 \<and>
             (flt (Fin 0) overlap \<or>
              fle (fabs (fsub (left (ln_bbox n)) (left (ln_bbox p)))) (fmul (line_size n) (Fin 3)))
      | _ \<Rightarrow> False)"

fun grow_run :: "block list \<Rightarrow> block list \<Rightarrow> block list \<times> block list" where
  "grow_run run [] = (run, [])"
| "grow_run run (b # bs) = (if joins_run (last run) b then grow_run (run @ [b]) bs else (run, b # bs))"

lemma grow_run_length: "grow_run run bs = (r, rest) \<Longrightarrow> length rest \<le> length bs"
  by (induction run bs rule: grow_run.induct) (auto split: if_splits)

section \<open>Which blocks a list group spans\<close>

definition owners_of :: "block list \<Rightarrow> nat list" where
  "owners_of run = concat (map (\<lambda>(i, b). replicate (length (lines_of b)) i) (List.enumerate 0 run))"

definition group_bounds ::
  "nat list \<Rightarrow> recovered_item \<Rightarrow> (nat \<times> nat) list \<times> nat option \<Rightarrow> layout_failure + ((nat \<times> nat) list \<times> nat option)" where
  "group_bounds tab item st =
     (case st of (groups, grp) \<Rightarrow>
        rbind (ok_or Panicked (case hd_opt (rc_lines item) of None \<Rightarrow> None | Some l \<Rightarrow> get_at tab l)) (\<lambda>first.
        rbind (ok_or Panicked (case last_opt (rc_lines item) of None \<Rightarrow> None | Some l \<Rightarrow> get_at tab l)) (\<lambda>final.
        if grp = Some (rc_group item) then
          rbind (ok_or Panicked (last_opt groups)) (\<lambda>(s, e). Inr (butlast groups @ [(s, max e final)], grp))
        else Inr (groups @ [(first, final)], Some (rc_group item)))))"

definition merge_range :: "nat \<times> nat \<Rightarrow> (nat \<times> nat) list \<Rightarrow> (nat \<times> nat) list" where
  "merge_range r ranges =
     (case (r, last_opt ranges) of
        ((start, stop), Some (s, e)) \<Rightarrow> if start \<le> e then butlast ranges @ [(s, max e stop)] else ranges @ [(start, stop)]
      | (_, None) \<Rightarrow> ranges @ [r])"

section \<open>Merging blocks\<close>

definition absorb :: "block \<Rightarrow> block \<times> source_region list \<Rightarrow> layout_failure + (block \<times> source_region list)" where
  "absorb other st =
     (case st of (b, sources) \<Rightarrow>
        case bbox_try_from (fmin (left (bk_bbox b)) (left (bk_bbox other))) (fmin (top_of (bk_bbox b)) (top_of (bk_bbox other)))
               (fmax (right (bk_bbox b)) (right (bk_bbox other))) (fmax (bottom (bk_bbox b)) (bottom (bk_bbox other))) of
          Inl e \<Rightarrow> Inl (BadGeometry e)
        | Inr bb \<Rightarrow>
            Inr (b\<lparr>bk_bbox := bb, lines_of := lines_of b @ lines_of other, evidence_of := evidence_of b @ evidence_of other,
                   semantic_hints := fold (\<lambda>(k, v). bt_or_insert k v) (semantic_hints other) (semantic_hints b)\<rparr>,
                 fold (\<lambda>s acc. if \<exists>t\<in>set acc. source_region_eq t s then acc else acc @ [s]) (all_source_regions other) sources))"

definition content_polygon :: "(point list \<Rightarrow> polygon option) \<Rightarrow> line list \<Rightarrow> polygon option" where
  "content_polygon enclosing ls =
     (let items = concat (map text_items ls)
      in if items = [] \<or> (\<exists>it\<in>set items. it_polygon it = None) then None
         else enclosing (concat (List.map_filter it_polygon items)))"

definition renumber_lines :: "rstr \<Rightarrow> line list \<Rightarrow> line list" where
  "renumber_lines i ls = map (\<lambda>(n, l). l\<lparr>ln_id := line_id_of i n\<rparr>) (List.enumerate 0 ls)"

definition min_order :: "source_region list \<Rightarrow> int option" where
  "min_order sources =
     (case List.map_filter sr_model_order sources of [] \<Rightarrow> None | x # xs \<Rightarrow> Some (fold min xs x))"

definition merge_blocks ::
  "(f64 \<Rightarrow> f64 \<times> f64) \<Rightarrow> (uchar \<Rightarrow> bool) \<Rightarrow> (point list \<Rightarrow> polygon option) \<Rightarrow> block \<Rightarrow> block list \<Rightarrow> layout_failure + block" where
  "merge_blocks trig alphabetic enclosing b others =
     rbind (rfold absorb others (b, all_source_regions b)) (\<lambda>(b, sources).
       let ls = renumber_lines (bk_id b) (lines_of b)
       in Inr (b\<lparr>lines_of := ls, bk_text := derive_block_text trig alphabetic (label b) ls,
                 bk_polygon := content_polygon enclosing ls, label_source := Heuristic,
                 model_order := min_order sources, source_regions := sources,
                 semantic_hints := bt_insert sparse_layout_hint (lit ''true'') (semantic_hints b),
                 evidence_of := evidence_of b @ [\<lparr>ev_kind = lit ''body_list_layout_merge'', ev_score = None, ev_details = []\<rparr>]\<rparr>))"

section \<open>Attaching the items\<close>

definition checked_sub :: "nat \<Rightarrow> nat \<Rightarrow> nat option" where
  "checked_sub a b = (if b \<le> a then Some (a - b) else None)"

definition owned_line :: "line list \<Rightarrow> nat \<Rightarrow> nat \<Rightarrow> layout_failure + rstr" where
  "owned_line ls offset l =
     rbind (ok_or Panicked (checked_sub l offset)) (\<lambda>j. rbind (ok_or Panicked (get_at ls j)) (\<lambda>x. Inr (ln_id x)))"

definition attach_item :: "line list \<Rightarrow> nat \<Rightarrow> nat \<Rightarrow> recovered_item \<Rightarrow> layout_failure + list_item" where
  "attach_item ls offset first_group item =
     rbind (ok_or Panicked (checked_sub (rc_group item) first_group)) (\<lambda>g.
     rbind (rmap (owned_line ls offset) (rc_lines item)) (\<lambda>ids.
     Inr \<lparr>group_of = g, level = rc_level item, kind = mk_kind (rc_marker item), marker = mk_text (rc_marker item),
          ordinal = mk_ordinal (rc_marker item), line_ids = ids, marker_end = mk_end (rc_marker item)\<rparr>))"

definition starts_before :: "nat \<Rightarrow> recovered_item \<Rightarrow> bool" where
  "starts_before n item \<longleftrightarrow> is_some_and (hd_opt (rc_lines item)) (\<lambda>l. l < n)"

definition attach_items :: "block \<Rightarrow> nat \<Rightarrow> recovered_item list \<Rightarrow> layout_failure + block" where
  "attach_items b offset mine =
     rbind (rmap (attach_item (lines_of b) offset (case mine of [] \<Rightarrow> 0 | item # _ \<Rightarrow> rc_group item)) mine)
       (\<lambda>items. Inr (b\<lparr>list_items := items\<rparr>))"

text \<open>
  The loop over the blocks of a run: the blocks that are left, the ranges and the items that
  are left, the number of lines before, and the output.
\<close>

function emit_blocks ::
  "(f64 \<Rightarrow> f64 \<times> f64) \<Rightarrow> (uchar \<Rightarrow> bool) \<Rightarrow> (point list \<Rightarrow> polygon option) \<Rightarrow> (nat \<times> block) list \<Rightarrow> (nat \<times> nat) list \<Rightarrow>
   recovered_item list \<Rightarrow> nat \<Rightarrow> block list \<Rightarrow> layout_failure + block list" where
  "emit_blocks trig alphabetic enclosing [] ranges items offset out = Inr out"
| "emit_blocks trig alphabetic enclosing ((i, b) # bs) ranges items offset out =
     (let here = (case ranges of [] \<Rightarrow> None | (s, e) # _ \<Rightarrow> if s = i then Some e else None);
          stop = (case here of None \<Rightarrow> i | Some e \<Rightarrow> e);
          ranges = (if here = None then ranges else tl ranges);
          others = take (stop - i) bs
      in rbind (if i < stop then merge_blocks trig alphabetic enclosing b (map snd others) else Inr b) (\<lambda>b.
           let mine = takeWhile (starts_before (offset + length (lines_of b))) items
           in rbind (attach_items b offset mine) (\<lambda>b.
              emit_blocks trig alphabetic enclosing (drop (stop - i) bs) ranges (drop (length mine) items)
                (offset + length (lines_of b)) (out @ [b\<lparr>final_order := length out\<rparr>]))))"
  by pat_completeness auto
termination
  by (relation "measure (\<lambda>(trig, alphabetic, enclosing, bs, ranges, items, offset, out). length bs)") auto

definition recover_run ::
  "(f64 \<Rightarrow> f64 \<times> f64) \<Rightarrow> (uchar \<Rightarrow> bool) \<Rightarrow> (point list \<Rightarrow> polygon option) \<Rightarrow> block list \<Rightarrow> block list \<Rightarrow> layout_failure + block list" where
  "recover_run trig alphabetic enclosing run out =
     rbind (ok_or Panicked (recover alphabetic (concat (map lines_of run)))) (\<lambda>items.
     rbind (rfold (group_bounds (if items = [] then [] else owners_of run)) items ([], None)) (\<lambda>(groups, _).
     emit_blocks trig alphabetic enclosing (List.enumerate 0 run) (fold merge_range groups []) items 0 out))"

function recover_blocks ::
  "(f64 \<Rightarrow> f64 \<times> f64) \<Rightarrow> (uchar \<Rightarrow> bool) \<Rightarrow> (point list \<Rightarrow> polygon option) \<Rightarrow> block list \<Rightarrow> block list \<Rightarrow> layout_failure + block list" where
  "recover_blocks trig alphabetic enclosing [] out = Inr out"
| "recover_blocks trig alphabetic enclosing (b # bs) out =
     (let first = b\<lparr>list_items := []\<rparr>
      in if \<not> is_body first
         then recover_blocks trig alphabetic enclosing bs (out @ [first\<lparr>final_order := length out\<rparr>])
         else case grow_run [first] bs of (run, rest) \<Rightarrow>
           rbind (recover_run trig alphabetic enclosing run out) (recover_blocks trig alphabetic enclosing rest))"
  by pat_completeness auto
termination
  by (relation "measure (\<lambda>(trig, alphabetic, enclosing, bs, out). length bs)")
     (auto dest!: grow_run_length [OF sym])

definition recover_list_layouts ::
  "(f64 \<Rightarrow> f64 \<times> f64) \<Rightarrow> (uchar \<Rightarrow> bool) \<Rightarrow> (point list \<Rightarrow> polygon option) \<Rightarrow> block list \<Rightarrow> layout_failure + block list" where
  "recover_list_layouts trig alphabetic enclosing bs = recover_blocks trig alphabetic enclosing bs []"

end
