(* ===== verification/List_Slice.thy ===== *)
theory List_Slice
  imports List_Nesting List_Layout
begin

text \<open>
  Cutting the items of a run into the items of its output blocks: the lines that one output block
  takes over and the items that own them form a slice, and a slice of well-formed, well-nested
  items, counted from its own start, is well formed and well nested.
\<close>

section \<open>A slice of a run\<close>

text \<open>The items of one output block, with lines and groups counted from the block's start.\<close>

definition shift_item :: "nat \<Rightarrow> nat \<Rightarrow> recovered_item \<Rightarrow> recovered_item" where
  "shift_item lo g r = r\<lparr>rc_lines := map (\<lambda>l. l - lo) (rc_lines r), rc_group := rc_group r - g\<rparr>"

definition shift_owner :: "nat \<Rightarrow> (nat \<times> nat) option \<Rightarrow> (nat \<times> nat) option" where
  "shift_owner k0 x = map_option (\<lambda>(k, p). (k - k0, p)) x"

text \<open>The items \<open>k0\<close> up to \<open>k1\<close> are those that own the lines \<open>lo\<close> up to \<open>hi\<close>.\<close>

definition is_slice :: "recovered_item list \<Rightarrow> nat \<Rightarrow> nat \<Rightarrow> nat \<Rightarrow> nat \<Rightarrow> bool" where
  "is_slice items k0 k1 lo hi \<longleftrightarrow> k0 \<le> k1 \<and> k1 \<le> length items \<and>
     (\<forall>k<length items. \<forall>l\<in>set (rc_lines (items ! k)). k0 \<le> k \<and> k < k1 \<longleftrightarrow> lo \<le> l \<and> l < hi) \<and>
     (\<forall>k<k0. \<forall>k'<k1. k0 \<le> k' \<longrightarrow> rc_group (items ! k) \<noteq> rc_group (items ! k'))"

definition slice :: "nat \<Rightarrow> nat \<Rightarrow> 'a list \<Rightarrow> 'a list" where
  "slice a b xs = take (b - a) (drop a xs)"

lemma slice_simps [simp]: "b \<le> length xs \<Longrightarrow> length (slice a b xs) = b - a"
  "b \<le> length xs \<Longrightarrow> i < b - a \<Longrightarrow> slice a b xs ! i = xs ! (a + i)"
  by (auto simp: slice_def)

lemma position_map: "(\<And>a. q (f a) = p a) \<Longrightarrow> iter_position q (map f xs) = iter_position p xs"
proof -
  assume "\<And>a. q (f a) = p a"
  then have "List.find (\<lambda>i. q (map f xs ! i)) is = List.find (\<lambda>i. p (xs ! i)) is" if "set is \<subseteq> {0..<length xs}" for "is"
    using that by (induction "is") auto
  then show ?thesis by (simp add: iter_position_def)
qed

lemma groups_mono:
  assumes "groups_ok items" "k \<le> k'" "k' < length items"
  shows "rc_group (items ! k) \<le> rc_group (items ! k')"
  using assms(2,3)
proof (induction k' rule: dec_induct)
  case (step n)
  then have "rc_group (items ! k) \<le> rc_group (items ! n)" "Suc n < length items" by simp_all
  moreover have "rc_group (items ! n) \<le> rc_group (items ! Suc n)"
    using assms(1) \<open>Suc n < length items\<close> by (simp add: groups_ok_def)
  ultimately show ?case by simp
qed simp

lemma is_slice_lines:
  assumes "is_slice items k0 k1 lo hi" "k < length items" "l \<in> set (rc_lines (items ! k))"
  shows "k0 \<le> k \<and> k < k1 \<longleftrightarrow> lo \<le> l \<and> l < hi"
  using assms by (simp add: is_slice_def)

lemma is_slice_line:
  assumes "is_slice items k0 k1 lo hi" "k < k1 - k0" "l \<in> set (rc_lines (items ! (k0 + k)))"
  shows "lo \<le> l \<and> l < hi"
proof -
  have "k0 + k < length items" "k0 + k < k1" using assms(1,2) by (auto simp: is_slice_def)
  then show ?thesis using is_slice_lines [OF assms(1) _ assms(3)] by simp
qed

lemma list_marker_id: "list_marker alphabetic (l\<lparr>ln_id := i\<rparr>) = list_marker alphabetic l"
proof -
  have "ln_text (l\<lparr>ln_id := i\<rparr>) = ln_text l" "text_items (l\<lparr>ln_id := i\<rparr>) = text_items l"
    "direction (l\<lparr>ln_id := i\<rparr>) = direction l" "ln_rotation (l\<lparr>ln_id := i\<rparr>) = ln_rotation l" by simp_all
  then show ?thesis by (simp only: list_marker_def dominant_font_size_def)
qed

lemma slice_items_ok:
  assumes ok: "items_ok alphabetic ls (length ls) items" and sl: "is_slice items k0 k1 lo hi" and "k0 < k1" "hi \<le> length ls"
    and lsb: "length lsb = hi - lo" "\<forall>j<hi - lo. \<exists>i. lsb ! j = (ls ! (lo + j))\<lparr>ln_id := i\<rparr>"
    and g: "g = rc_group (items ! k0)"
  shows "items_ok alphabetic lsb (length lsb) (map (shift_item lo g) (slice k0 k1 items))"
proof -
  define sh where "sh = map (shift_item lo g) (slice k0 k1 items)"
  have k1: "k1 \<le> length items" using sl by (simp add: is_slice_def)
  have len: "length sh = k1 - k0" using k1 by (simp add: sh_def)
  have nth: "sh ! k = shift_item lo g (items ! (k0 + k))" if "k < k1 - k0" for k
    using that k1 by (simp add: sh_def)
  have lines: "lo \<le> l \<and> l < hi" if "k < k1 - k0" "l \<in> set (rc_lines (items ! (k0 + k)))" for k l
    using is_slice_line [OF sl] that by blast
  have iok: "item_ok alphabetic ls (length ls) (items ! (k0 + k))" if "k < k1 - k0" for k
    using ok k1 that by (auto simp: items_ok_def)
  have hds: "hd (rc_lines (items ! (k0 + k))) \<in> set (rc_lines (items ! (k0 + k)))" if "k < k1 - k0" for k
    using iok [OF that] by (simp add: item_ok_def)
  have one: "item_ok alphabetic lsb (length lsb) (sh ! k)" if k: "k < k1 - k0" for k
  proof -
    let ?r = "items ! (k0 + k)"
    have sorted: "sorted_wrt (<) (map (\<lambda>l. l - lo) (rc_lines ?r))"
      unfolding sorted_wrt_map
    proof (rule sorted_wrt_mono_rel [of _ "(<)"])
      show "sorted_wrt (<) (rc_lines ?r)" using iok [OF k] by (simp add: item_ok_def)
    qed (use lines [OF k] in fastforce)
    have "hd (map (\<lambda>l. l - lo) (rc_lines ?r)) = hd (rc_lines ?r) - lo"
      using iok [OF k] by (simp add: item_ok_def hd_map)
    moreover have "\<exists>i. lsb ! (hd (rc_lines ?r) - lo) = (ls ! hd (rc_lines ?r))\<lparr>ln_id := i\<rparr>"
    proof -
      have "hd (rc_lines ?r) - lo < hi - lo" "lo + (hd (rc_lines ?r) - lo) = hd (rc_lines ?r)"
        using lines [OF k hds [OF k]] by auto
      with lsb(2) show ?thesis by metis
    qed
    ultimately have "marker_of_line alphabetic (lsb ! hd (map (\<lambda>l. l - lo) (rc_lines ?r))) (rc_marker ?r)"
      using iok [OF k] by (auto simp: item_ok_def marker_of_line_def list_marker_id)
    moreover have "\<forall>l\<in>set (rc_lines ?r). l - lo < hi - lo" using lines [OF k] by fastforce
    ultimately show ?thesis using sorted iok [OF k] lsb(1)
      by (auto simp: item_ok_def nth [OF k] shift_item_def)
  qed
  have "\<forall>r\<in>set sh. item_ok alphabetic lsb (length lsb) r"
    using one len by (auto simp: in_set_conv_nth)
  moreover have "sorted_wrt (<) (map (hd \<circ> rc_lines) sh)"
    unfolding sorted_wrt_iff_nth_less
  proof (intro allI impI)
    fix i j assume ij: "i < j" "j < length (map (hd \<circ> rc_lines) sh)"
    then have j: "j < k1 - k0" "i < k1 - k0" using len by auto
    have "hd (rc_lines (items ! (k0 + i))) < hd (rc_lines (items ! (k0 + j)))"
      using ok ij j k1 sorted_wrt_nth_less [of "(<)" "map (hd \<circ> rc_lines) items" "k0 + i" "k0 + j"]
      by (auto simp: items_ok_def)
    moreover have "lo \<le> hd (rc_lines (items ! (k0 + i)))" using lines [OF j(2) hds [OF j(2)]] by simp
    ultimately show "map (hd \<circ> rc_lines) sh ! i < map (hd \<circ> rc_lines) sh ! j"
      using iok [OF j(1)] iok [OF j(2)] j len by (simp add: nth shift_item_def hd_map item_ok_def)
  qed
  moreover have "groups_ok sh"
  proof -
    have gr: "groups_ok items" using ok by (simp add: items_ok_def)
    have ge: "g \<le> rc_group (items ! (k0 + k))" if "k < k1 - k0" for k
      using groups_mono [OF gr, of k0 "k0 + k"] that k1 by (simp add: g)
    have "rc_level (items ! k0) = 0"
    proof (cases k0)
      case 0
      then show ?thesis using gr k1 \<open>k0 < k1\<close> by (cases items) (auto simp: groups_ok_def)
    next
      case (Suc k)
      then have "rc_group (items ! k) \<noteq> rc_group (items ! k0)" using sl \<open>k0 < k1\<close> by (auto simp: is_slice_def)
      then show ?thesis using gr k1 \<open>k0 < k1\<close> Suc by (auto simp: groups_ok_def)
    qed
    then have "rc_level (hd sh) = 0" using nth [of 0] \<open>k0 < k1\<close> len by (cases sh) (auto simp: shift_item_def)
    moreover have "rc_group (sh ! k) \<le> rc_group (sh ! Suc k) \<and>
        (rc_group (sh ! k) \<noteq> rc_group (sh ! Suc k) \<longrightarrow> rc_level (sh ! Suc k) = 0)" if k: "Suc k < length sh" for k
    proof -
      have "Suc (k0 + k) < length items" using k len k1 by simp
      then have "rc_group (items ! (k0 + k)) \<le> rc_group (items ! Suc (k0 + k)) \<and>
          (rc_group (items ! (k0 + k)) \<noteq> rc_group (items ! Suc (k0 + k)) \<longrightarrow> rc_level (items ! Suc (k0 + k)) = 0)"
        using gr by (simp add: groups_ok_def)
      then show ?thesis using k len nth [of k] nth [of "Suc k"] by (auto simp: shift_item_def)
    qed
    ultimately show ?thesis by (simp add: groups_ok_def)
  qed
  ultimately show ?thesis by (simp add: items_ok_def sh_def)
qed

lemma slice_owner_table:
  assumes T: "owner_table items T" "length T = n" and sl: "is_slice items k0 k1 lo hi" and "hi \<le> n"
    and pos: "\<forall>r\<in>set items. \<forall>l\<in>set (rc_lines r). l < n"
  shows "owner_table (map (shift_item lo g) (slice k0 k1 items)) (map (shift_owner k0) (slice lo hi T))"
  unfolding owner_table_def
proof (intro allI impI)
  fix j k p assume "j < length (map (shift_owner k0) (slice lo hi T))"
  then have j: "lo + j < hi" using assms(2,4) by simp
  have k1: "k0 \<le> k1" "k1 \<le> length items" using sl by (simp_all add: is_slice_def)
  have "map (shift_owner k0) (slice lo hi T) ! j = Some (k, p) \<longleftrightarrow> (\<exists>q. T ! (lo + j) = Some (q, p) \<and> q - k0 = k)"
    using j assms(2,4) by (auto simp: shift_owner_def)
  also have "\<dots> \<longleftrightarrow> (\<exists>q. owned_at items (lo + j) q p \<and> q - k0 = k)"
    using T j \<open>hi \<le> n\<close> by (auto simp: owner_table_def)
  also have "\<dots> \<longleftrightarrow> owned_at items (lo + j) (k0 + k) p \<and> k < k1 - k0"
  proof
    assume "\<exists>q. owned_at items (lo + j) q p \<and> q - k0 = k"
    then obtain q where q: "owned_at items (lo + j) q p" "q - k0 = k" by blast
    then have "lo + j \<in> set (rc_lines (items ! q))" "q < length items"
      using nth_mem [of p "rc_lines (items ! q)"] by (auto simp: owned_at_def)
    then have "k0 \<le> q" "q < k1" using is_slice_lines [OF sl, of q "lo + j"] j by auto
    with q show "owned_at items (lo + j) (k0 + k) p \<and> k < k1 - k0" by auto
  next
    assume "owned_at items (lo + j) (k0 + k) p \<and> k < k1 - k0"
    then show "\<exists>q. owned_at items (lo + j) q p \<and> q - k0 = k" by (auto intro!: exI [of _ "k0 + k"])
  qed
  also have "\<dots> \<longleftrightarrow> owned_at (map (shift_item lo g) (slice k0 k1 items)) j k p"
  proof -
    have "lo \<le> l" if "k < k1 - k0" "l \<in> set (rc_lines (items ! (k0 + k)))" for l
      using is_slice_line [OF sl that] by auto
    from this [OF _ nth_mem] have "rc_lines (items ! (k0 + k)) ! p - lo = j \<longleftrightarrow> rc_lines (items ! (k0 + k)) ! p = lo + j"
      if "k < k1 - k0" "p < length (rc_lines (items ! (k0 + k)))" using that by fastforce
    then show ?thesis using k1 by (auto simp: owned_at_def shift_item_def)
  qed
  finally show "map (shift_owner k0) (slice lo hi T) ! j = Some (k, p) \<longleftrightarrow>
      owned_at (map (shift_item lo g) (slice k0 k1 items)) j k p" .
qed


lemma nest_group:
  assumes "nest_run items T ([], None) = Inr (a, Some x)" "\<forall>k p. Some (k, p) \<in> set T \<longrightarrow> k < length items"
  shows "\<exists>j<length T. \<exists>k. T ! j = Some (k, 0) \<and> x = rc_group (items ! k)"
  using assms
proof (induction T arbitrary: a x rule: rev_induct)
  case Nil
  then show ?case by (simp add: nest_run_def)
next
  case (snoc o' T)
  from snoc.prems obtain a' g' where g': "nest_run items T ([], None) = Inr (a', g')"
    and step: "nest_step [] (map plain_list_item items) o' (a', g') = Inr (a, Some x)"
    by (auto simp: nest_run_append rbind_eq_Inr)
  show ?case
  proof (cases "g' = Some x")
    case True
    with snoc.IH [of a' x] g' snoc.prems(2) obtain j k where "j < length T" "T ! j = Some (k, 0)" "x = rc_group (items ! k)"
      by auto
    then show ?thesis by (intro exI [of _ j] conjI exI [of _ k]) (simp_all add: nth_append)
  next
    case False
    with step obtain k where k: "o' = Some (k, 0)" and "x = group_of (map plain_list_item items ! k)"
      by (auto simp: nest_step_def Let_def split: option.splits if_splits)
    moreover have "k < length items" using snoc.prems(2) k by auto
    ultimately show ?thesis by (intro exI [of _ "length T"] conjI exI [of _ k]) (simp_all add: plain_list_item_def)
  qed
qed

lemma nest_run_prefix: "nest_run items T st = Inr st' \<Longrightarrow> \<exists>st''. nest_run items (take n T) st = Inr st''"
  using rfold_append [of "nest_step [] (map plain_list_item items)" "take n T" "drop n T" st]
  by (cases "rfold (nest_step [] (map plain_list_item items)) (take n T) st") (auto simp: nest_run_def)

lemma slice_nest:
  assumes ok: "items_ok alphabetic ls n items" and T: "owner_table items T" "length T = n"
    and sl: "is_slice items k0 k1 lo hi" and "k0 < k1" "lo \<le> hi" "hi \<le> n"
    and run: "nest_run items T ([], None) = Inr st" and g: "g = rc_group (items ! k0)"
  shows "\<exists>st'. nest_run (map (shift_item lo g) (slice k0 k1 items)) (map (shift_owner k0) (slice lo hi T)) ([], None) = Inr st'"
proof -
  define sh where "sh = map (shift_item lo g) (slice k0 k1 items)"
  define S where "S = map (shift_owner k0) (slice lo hi T)"
  have k1: "k1 \<le> length items" using sl by (simp add: is_slice_def)
  have S: "length S = hi - lo" "\<And>d. d < hi - lo \<Longrightarrow> S ! d = shift_owner k0 (T ! (lo + d))"
    using \<open>hi \<le> n\<close> T(2) by (auto simp: S_def)
  have gr: "groups_ok items" using ok by (simp add: items_ok_def)
  have bound: "\<forall>k p. Some (k, p) \<in> set T \<longrightarrow> k < length items" using owner_table_bound [OF T(1)] by blast
  have owner: "k0 \<le> k \<and> k < k1" if "T ! (lo + d) = Some (k, p)" "lo + d < hi" for d k p
  proof -
    have "owned_at items (lo + d) k p" using T that \<open>hi \<le> n\<close> by (auto simp: owner_table_def)
    then have "k < length items" "lo + d \<in> set (rc_lines (items ! k))"
      using nth_mem [of p "rc_lines (items ! k)"] by (auto simp: owned_at_def)
    then show ?thesis using is_slice_lines [OF sl, of k "lo + d"] that(2) by auto
  qed
  have plain: "group_of (map plain_list_item sh ! (k - k0)) = rc_group (items ! k) - g"
      "level (map plain_list_item sh ! (k - k0)) = rc_level (items ! k)"
      "group_of (map plain_list_item items ! k) = rc_group (items ! k)" "level (map plain_list_item items ! k) = rc_level (items ! k)"
      "g \<le> rc_group (items ! k)" if "k0 \<le> k" "k < k1" for k
    using that k1 groups_mono [OF gr, of k0 k] by (auto simp: sh_def plain_list_item_def shift_item_def g)
  have claim: "\<exists>aG gG aL gL. nest_run items (take (lo + d) T) ([], None) = Inr (aG, gG) \<and>
      nest_run sh (take d S) ([], None) = Inr (aL, gL) \<and>
      (case gL of Some x \<Rightarrow> gG = Some (x + g) \<and> aG = map (\<lambda>k. k0 + k) aL
       | None \<Rightarrow> aL = [] \<and> (\<forall>k. k0 \<le> k \<and> k < k1 \<longrightarrow> gG \<noteq> Some (rc_group (items ! k)))) \<and>
      ((\<exists>j k. lo \<le> j \<and> j < lo + d \<and> T ! j = Some (k, 0)) \<longrightarrow> gL \<noteq> None)" if "d \<le> hi - lo" for d
    using that
  proof (induction d)
    case 0
    obtain aG gG where G: "nest_run items (take lo T) ([], None) = Inr (aG, gG)"
      using nest_run_prefix [OF run, of lo] by fastforce
    have "gG \<noteq> Some (rc_group (items ! k))" if k: "k0 \<le> k" "k < k1" for k
    proof
      assume "gG = Some (rc_group (items ! k))"
      with G nest_group [of items "take lo T" aG] bound obtain j q where j: "j < lo" "j < n" "T ! j = Some (q, 0)"
        and same: "rc_group (items ! k) = rc_group (items ! q)" using T(2)
        by (fastforce dest: in_set_takeD)
      have q: "q < length items" "j \<in> set (rc_lines (items ! q))" "hd (rc_lines (items ! q)) = j"
        using j T nth_mem [of 0 "rc_lines (items ! q)"] by (auto simp: owner_table_def owned_at_def hd_conv_nth)
      have "\<not> (k0 \<le> q \<and> q < k1)" using is_slice_lines [OF sl q(1,2)] j(1) by simp
      moreover have "\<not> k1 \<le> q"
      proof
        assume "k1 \<le> q"
        have "rc_lines (items ! k0) \<noteq> []" using ok k1 \<open>k0 < k1\<close> by (simp add: items_ok_def item_ok_def)
        then have "lo \<le> hd (rc_lines (items ! k0))" using is_slice_line [OF sl, of 0] \<open>k0 < k1\<close> by simp
        moreover have "hd (rc_lines (items ! k0)) < hd (rc_lines (items ! q))"
          using ok \<open>k1 \<le> q\<close> \<open>k0 < k1\<close> q(1) sorted_wrt_nth_less [of "(<)" "map (hd \<circ> rc_lines) items" k0 q]
          by (auto simp: items_ok_def)
        ultimately show False using q(3) j(1) by simp
      qed
      ultimately have "q < k0" by auto
      then have "rc_group (items ! q) \<noteq> rc_group (items ! k)" using sl k by (simp add: is_slice_def)
      with same show False by simp
    qed
    with G show ?case by (auto simp: nest_run_def)
  next
    case (Suc d)
    then obtain aG gG aL gL where G: "nest_run items (take (lo + d) T) ([], None) = Inr (aG, gG)"
      and L: "nest_run sh (take d S) ([], None) = Inr (aL, gL)"
      and sim: "case gL of Some x \<Rightarrow> gG = Some (x + g) \<and> aG = map (\<lambda>k. k0 + k) aL
         | None \<Rightarrow> aL = [] \<and> (\<forall>k. k0 \<le> k \<and> k < k1 \<longrightarrow> gG \<noteq> Some (rc_group (items ! k)))"
      and seen: "(\<exists>j k. lo \<le> j \<and> j < lo + d \<and> T ! j = Some (k, 0)) \<longrightarrow> gL \<noteq> None" by auto
    have d: "lo + d < hi" "lo + d < n" "d < hi - lo" using Suc.prems \<open>hi \<le> n\<close> by auto
    have G': "nest_run items (take (lo + Suc d) T) ([], None) = nest_step [] (map plain_list_item items) (T ! (lo + d)) (aG, gG)"
      using d T(2) by (simp add: take_Suc_conv_app_nth nest_run_append G)
    have L': "nest_run sh (take (Suc d) S) ([], None) = nest_step [] (map plain_list_item sh) (S ! d) (aL, gL)"
      using d S(1) by (simp add: take_Suc_conv_app_nth nest_run_append L)
    obtain aG' gG' where okG: "nest_step [] (map plain_list_item items) (T ! (lo + d)) (aG, gG) = Inr (aG', gG')"
      using nest_run_prefix [OF run, of "lo + Suc d"] G' by fastforce
    have G2: "nest_run items (take (Suc (lo + d)) T) ([], None) = Inr (aG', gG')" using G' okG by simp
    show ?case
    proof (cases "T ! (lo + d)")
      case None
      then have "nest_step [] (map plain_list_item sh) (S ! d) (aL, gL) = Inr ([], gL)" "aG' = []" "gG' = gG"
        using okG S(2) [OF d(3)] by (auto simp: nest_step_def shift_owner_def)
      moreover have "(\<exists>j k. lo \<le> j \<and> j < lo + Suc d \<and> T ! j = Some (k, 0)) \<longrightarrow> gL \<noteq> None"
        using seen None by (auto simp: less_Suc_eq)
      ultimately show ?thesis using sim by (simp add: G2 L' split: option.splits)
    next
      case (Some kp)
      obtain k p where kp: "kp = (k, p)" by (cases kp)
      with Some owner [of d k p] d have k: "k0 \<le> k" "k < k1" by auto
      note pl = plain [OF k]
      have Sd: "S ! d = Some (k - k0, p)" using S(2) [OF d(3)] Some kp by (simp add: shift_owner_def)
      show ?thesis
      proof (cases "p = 0")
        case True
        have fresh: "gG \<noteq> Some (rc_group (items ! k)) \<longleftrightarrow> gL \<noteq> Some (rc_group (items ! k) - g)"
          using sim k pl(5) by (cases gL) auto
        have len: "length aL = length aG" if "gL = Some (rc_group (items ! k) - g)" using sim that by simp
        have "gL = Some (rc_group (items ! k) - g) \<Longrightarrow> aL = [] \<longleftrightarrow> aG = []" using len by fastforce
        with okG have "nest_step [] (map plain_list_item sh) (S ! d) (aL, gL) =
            Inr (take (rc_level (items ! k)) (if gL \<noteq> Some (rc_group (items ! k) - g) then [] else aL) @ [k - k0], Some (rc_group (items ! k) - g))"
          "aG' = take (rc_level (items ! k)) (if gL \<noteq> Some (rc_group (items ! k) - g) then [] else aG) @ [k]"
          "gG' = Some (rc_group (items ! k))"
          using True len by (auto simp: Some kp Sd nest_step_def pl Let_def fresh split: if_splits)
        then show ?thesis using sim k pl(5) by (auto simp: G2 L' take_map)
      next
        case False
        have "owned_at items (lo + d) k p" using T Some kp d by (auto simp: owner_table_def)
        then have h: "k < length items" "0 < length (rc_lines (items ! k))" "rc_lines (items ! k) ! 0 \<in> set (rc_lines (items ! k))"
          and lt: "rc_lines (items ! k) ! 0 < lo + d"
          using False ok sorted_wrt_nth_less [of "(<)" "rc_lines (items ! k)" 0 p]
          by (auto simp: owned_at_def items_ok_def item_ok_def)
        let ?j = "rc_lines (items ! k) ! 0"
        have "lo \<le> ?j" using is_slice_lines [OF sl h(1,3)] k by simp
        moreover have "T ! ?j = Some (k, 0)" using T lt d h by (auto simp: owner_table_def owned_at_def)
        ultimately have "gL \<noteq> None" using seen lt by blast
        then obtain x where x: "gL = Some x" "gG = Some (x + g)" "aG = map (\<lambda>k. k0 + k) aL" using sim by auto
        have "iter_position (\<lambda>a. a = k) (map (\<lambda>k. k0 + k) aL) = iter_position (\<lambda>a. a = k - k0) aL"
          using k by (intro position_map) auto
        then obtain m where m: "iter_position (\<lambda>a. a = k - k0) aL = Some m" "aG' = take (m + 1) aG" "gG' = gG"
          using okG False by (auto simp: Some kp nest_step_def x Let_def split: option.splits)
        then have "nest_step [] (map plain_list_item sh) (S ! d) (aL, gL) = Inr (take (m + 1) aL, gL)"
          using False by (simp add: Sd nest_step_def)
        then show ?thesis using m x by (simp add: G2 L' take_map)
      qed
    qed
  qed
  from claim [of "hi - lo"] S(1) show ?thesis by (auto simp: sh_def [symmetric] S_def [symmetric])
qed

end
