(* ===== verification/List_Pass.thy ===== *)
theory List_Pass
  imports List_Slice
begin

text \<open>
  Well-formed, well-nested items of a block pass \<open>validate_block_lists\<close>: the checker's owner
  table is the items' own, and its stack is the one under which the items were built.
\<close>

section \<open>Well-formed items pass the check\<close>

text \<open>The list item that a recovered item becomes in a block with these lines.\<close>

definition attached :: "line list \<Rightarrow> recovered_item \<Rightarrow> list_item" where
  "attached ls r = (plain_list_item r)\<lparr>line_ids := map (\<lambda>j. ln_id (ls ! j)) (rc_lines r)\<rparr>"

lemma lines_by_id_lookup:
  assumes "distinct (map ln_id ls)" "j < length ls"
  shows "map_of (lines_by_id ls) (ln_id (ls ! j)) = Some (j, ls ! j)"
proof -
  let ?kvs = "map (\<lambda>(i, l). (ln_id l, i, l)) (List.enumerate 0 ls)"
  have keys: "map fst ?kvs = map ln_id ls" by (rule nth_equalityI) (simp_all add: nth_enumerate_eq)
  have "(ln_id (ls ! j), j, ls ! j) \<in> set ?kvs"
    using assms(2) by (force simp: in_set_enumerate_eq)
  moreover have "distinct (map fst (rev ?kvs))" using assms(1) by (simp only: rev_map [symmetric] keys distinct_rev)
  ultimately show ?thesis by (simp add: lines_by_id_def bt_collect_lookup map_of_is_SomeI del: map_map)
qed

fun mark_lines :: "nat \<Rightarrow> nat \<Rightarrow> nat list \<Rightarrow> owners \<Rightarrow> owners" where
  "mark_lines k p [] T = T"
| "mark_lines k p (j # js) T = mark_lines k (Suc p) js (T[j := Some (k, p)])"

lemma length_mark [simp]: "length (mark_lines k p js T) = length T"
  by (induction k p js T rule: mark_lines.induct) auto

lemma mark_lines_other: "i \<notin> set js \<Longrightarrow> mark_lines k p js T ! i = T ! i"
  by (induction k p js T rule: mark_lines.induct) auto

lemma mark_lines_own:
  "distinct js \<Longrightarrow> \<forall>j\<in>set js. j < length T \<Longrightarrow> q < length js \<Longrightarrow> mark_lines k p js T ! (js ! q) = Some (k, p + q)"
proof (induction k p js T arbitrary: q rule: mark_lines.induct)
  case (2 k p j js T)
  then show ?case by (cases q) (auto simp: mark_lines_other)
qed simp

lemma check_parts_pass:
  assumes "distinct (map ln_id ls)" "sorted_wrt (<) js" "\<forall>j\<in>set js. j < length ls \<and> T ! j = None" "length T = length ls"
    "\<forall>p. prev = Some p \<longrightarrow> (\<forall>j\<in>set js. p < j)"
    "n = 0 \<longrightarrow> (\<forall>p. start = Some p \<longrightarrow> (\<forall>j\<in>set js. p < j))" "js \<noteq> []"
  shows "rfold (check_part (map_of (lines_by_id ls)) path k) (List.enumerate n (map (\<lambda>j. ln_id (ls ! j)) js)) (prev, start, T) =
    Inr (Some (last js), if n = 0 then Some (hd js) else start, mark_lines k n js T)"
  using assms(2-)
proof (induction js arbitrary: n prev start T)
  case (Cons j js)
  have look: "map_of (lines_by_id ls) (ln_id (ls ! j)) = Some (j, ls ! j)"
    using lines_by_id_lookup [OF assms(1)] Cons.prems(2) by simp
  let ?start = "if n = 0 then Some j else start"
  have one: "check_part (map_of (lines_by_id ls)) path k (n, ln_id (ls ! j)) (prev, start, T) =
      Inr (Some j, ?start, T[j := Some (k, n)])"
    using Cons.prems by (cases prev; cases start) (auto simp: check_part_def look)
  show ?case
  proof (cases "js = []")
    case True
    then show ?thesis using one by simp
  next
    case False
    have free: "\<forall>x\<in>set js. T[j := Some (k, n)] ! x = None"
    proof
      fix x assume "x \<in> set js"
      moreover from this have "j \<noteq> x" using Cons.prems(1) by auto
      ultimately show "T[j := Some (k, n)] ! x = None" using Cons.prems(2) by (simp add: nth_list_update_neq)
    qed
    have "rfold (check_part (map_of (lines_by_id ls)) path k) (List.enumerate (Suc n) (map (\<lambda>j. ln_id (ls ! j)) js))
        (Some j, ?start, T[j := Some (k, n)]) = Inr (Some (last js), ?start, mark_lines k (Suc n) js (T[j := Some (k, n)]))"
      using Cons.IH [of "T[j := Some (k, n)]" "Some j" "Suc n" ?start] Cons.prems False free by auto
    then show ?thesis using one False by simp
  qed
qed simp

text \<open>The table after the first \<open>m\<close> items.\<close>

definition partial_table :: "recovered_item list \<Rightarrow> nat \<Rightarrow> owners \<Rightarrow> bool" where
  "partial_table items m T \<longleftrightarrow> (\<forall>j<length T. \<forall>k p. T ! j = Some (k, p) \<longleftrightarrow> k < m \<and> owned_at items j k p)"

lemma partial_table_step:
  assumes "partial_table items m T" "owner_table items F" "length F = length T" "m < length items"
    "\<forall>j\<in>set (rc_lines (items ! m)). j < length T" "sorted_wrt (<) (rc_lines (items ! m))"
  shows "partial_table items (Suc m) (mark_lines m 0 (rc_lines (items ! m)) T)"
    "\<forall>j\<in>set (rc_lines (items ! m)). T ! j = None"
proof -
  let ?js = "rc_lines (items ! m)"
  have single: "owned_at items j k p \<Longrightarrow> owned_at items j k' p' \<Longrightarrow> j < length T \<Longrightarrow> k = k' \<and> p = p'" for j k p k' p'
    using assms(2,3) by (auto simp: owner_table_def) (metis option.inject prod.inject)+
  have own: "owned_at items (?js ! q) m q" if "q < length ?js" for q
    using that assms(4) by (simp add: owned_at_def)
  show "\<forall>j\<in>set ?js. T ! j = None"
  proof
    fix j assume "j \<in> set ?js"
    then obtain q where q: "q < length ?js" "j = ?js ! q" by (auto simp: in_set_conv_nth)
    then have lt: "j < length T" using assms(5) by auto
    show "T ! j = None"
    proof (rule ccontr)
      assume "T ! j \<noteq> None"
      then obtain k p where "T ! j = Some (k, p)" by auto
      with assms(1) lt have "k < m" "owned_at items j k p" by (auto simp: partial_table_def)
      with single [OF own [OF q(1)], of k p] q lt show False by auto
    qed
  qed
  show "partial_table items (Suc m) (mark_lines m 0 ?js T)"
    unfolding partial_table_def
  proof (intro allI impI)
    fix j k p assume "j < length (mark_lines m 0 ?js T)"
    then have lt: "j < length T" by simp
    show "mark_lines m 0 ?js T ! j = Some (k, p) \<longleftrightarrow> k < Suc m \<and> owned_at items j k p"
    proof (cases "j \<in> set ?js")
      case True
      then obtain q where q: "q < length ?js" "j = ?js ! q" by (auto simp: in_set_conv_nth)
      have "mark_lines m 0 ?js T ! j = Some (m, q)"
        using mark_lines_own [of ?js T q m 0] assms(5,6) q by (simp add: strict_sorted_iff)
      moreover have "owned_at items j m q" using own q by simp
      ultimately show ?thesis using single [of j m q k p] lt by auto
    next
      case False
      then have "\<not> owned_at items j m p" by (auto simp: owned_at_def)
      moreover have "T ! j = Some (k, p) \<longleftrightarrow> k < m \<and> owned_at items j k p" using assms(1) lt by (auto simp: partial_table_def)
      ultimately show ?thesis using False by (auto simp: mark_lines_other less_Suc_eq)
    qed
  qed
qed

lemma marker_passes:
  assumes "marker_of_line alphabetic l m" "\<not> (mk_kind m = Unordered \<longleftrightarrow> mk_ordinal m = None) \<Longrightarrow> False"
  shows "\<exists>prefix. get_to (ln_text l) (mk_end m) = Some prefix \<and> trim prefix = mk_text m \<and> trim (mk_text m) \<noteq> [] \<and>
    mk_end m < str_len (ln_text l)"
proof -
  from assms obtain m' where m': "list_marker alphabetic l = Some m'" "mk_text m' = mk_text m" "mk_end m' = mk_end m"
    by (auto simp: marker_of_line_def)
  from list_marker_facts [OF m'(1)] show ?thesis using m'(2,3) by auto
qed

lemma check_items_pass:
  assumes ids: "distinct (map ln_id ls)" and ok: "items_ok alphabetic ls (length ls) items"
    and F: "owner_table items F" "length F = length ls" and m: "m \<le> length items"
  shows "\<exists>T. rfold (check_list_item alphabetic (map_of (lines_by_id ls)) path)
      (take m (List.enumerate 0 (map (attached ls) items))) (None, None, replicate (length ls) None) =
      Inr (if m = 0 then None else Some (rc_group (items ! (m - 1))),
           if m = 0 then None else Some (hd (rc_lines (items ! (m - 1)))), T) \<and>
    length T = length ls \<and> partial_table items m T"
  using m
proof (induction m)
  case 0
  then show ?case by (simp add: partial_table_def)
next
  case (Suc m)
  let ?f = "check_list_item alphabetic (map_of (lines_by_id ls)) path"
  define g where "g = (if m = 0 then None else Some (rc_group (items ! (m - 1))))"
  define h where "h = (if m = 0 then None else Some (hd (rc_lines (items ! (m - 1)))))"
  from Suc obtain T where T: "rfold ?f (take m (List.enumerate 0 (map (attached ls) items))) (None, None, replicate (length ls) None) = Inr (g, h, T)"
      "length T = length ls" "partial_table items m T" by (auto simp: g_def h_def)
  let ?r = "items ! m"
  have lt: "m < length items" using Suc.prems by simp
  have r: "item_ok alphabetic ls (length ls) ?r" and gr: "groups_ok items" and hds: "sorted_wrt (<) (map (hd \<circ> rc_lines) items)"
    using ok lt by (auto simp: items_ok_def)
  note step = partial_table_step [OF T(3) F(1) _ lt]
  have none: "\<forall>j\<in>set (rc_lines ?r). j < length ls \<and> T ! j = None"
    using step(2) r F(2) T(2) by (auto simp: item_ok_def)
  have after: "\<forall>p. h = Some p \<longrightarrow> (\<forall>j\<in>set (rc_lines ?r). p < j)"
  proof (intro allI impI ballI)
    fix p j assume p: "h = Some p" and j: "j \<in> set (rc_lines ?r)"
    then have "p < hd (rc_lines ?r)"
      using sorted_wrt_nth_less [OF hds, of "m - 1" m] lt by (auto simp: h_def split: if_splits)
    moreover have "hd (rc_lines ?r) \<le> j" using r j by (cases "rc_lines ?r") (auto simp: item_ok_def)
    ultimately show "p < j" by simp
  qed
  have parts: "rfold (check_part (map_of (lines_by_id ls)) path m) (List.enumerate 0 (map (\<lambda>j. ln_id (ls ! j)) (rc_lines ?r))) (None, h, T) =
      Inr (Some (last (rc_lines ?r)), Some (hd (rc_lines ?r)), mark_lines m 0 (rc_lines ?r) T)"
  proof -
    have "sorted_wrt (<) (rc_lines ?r)" "rc_lines ?r \<noteq> []" using r by (simp_all add: item_ok_def)
    with check_parts_pass [OF ids _ none T(2), of None 0 h path m] after show ?thesis by simp
  qed
  have hd_ids: "hd_opt (map (\<lambda>j. ln_id (ls ! j)) (rc_lines ?r)) = Some (ln_id (ls ! hd (rc_lines ?r)))"
    using r by (cases "rc_lines ?r") (auto simp: item_ok_def hd_opt_def)
  have look: "map_of (lines_by_id ls) (ln_id (ls ! hd (rc_lines ?r))) = Some (hd (rc_lines ?r), ls ! hd (rc_lines ?r))"
    using r by (intro lines_by_id_lookup [OF ids]) (auto simp: item_ok_def)
  have mk: "marker_of_line alphabetic (ls ! hd (rc_lines ?r)) (rc_marker ?r)" using r by (simp add: item_ok_def)
  then have kind: "mk_kind (rc_marker ?r) = Unordered \<longleftrightarrow> mk_ordinal (rc_marker ?r) = None"
    by (auto simp: marker_of_line_def split: if_splits)
  from marker_passes [OF mk] kind obtain prefix where pre: "get_to (ln_text (ls ! hd (rc_lines ?r))) (mk_end (rc_marker ?r)) = Some prefix"
    "trim prefix = mk_text (rc_marker ?r)" "trim (mk_text (rc_marker ?r)) \<noteq> []"
    "mk_end (rc_marker ?r) < str_len (ln_text (ls ! hd (rc_lines ?r)))" by auto
  have src: "matches_source alphabetic (attached ls ?r) (ls ! hd (rc_lines ?r))"
    using mk kind by (auto simp: marker_of_line_def matches_source_def attached_def plain_list_item_def split: if_splits)
  have grp: "\<not> (g \<noteq> Some (rc_group ?r) \<and> (rc_level ?r \<noteq> 0 \<or> is_some_and g (\<lambda>g. rc_group ?r \<le> g)))"
  proof (cases m)
    case 0
    then show ?thesis using gr lt by (cases items) (auto simp: groups_ok_def g_def)
  next
    case (Suc q)
    then have "rc_group (items ! q) \<le> rc_group ?r \<and> (rc_group (items ! q) \<noteq> rc_group ?r \<longrightarrow> rc_level ?r = 0)"
      using gr lt by (simp add: groups_ok_def)
    then show ?thesis using Suc by (auto simp: g_def)
  qed
  have item: "?f (m, attached ls ?r) (g, h, T) = Inr (Some (rc_group ?r), Some (hd (rc_lines ?r)), mark_lines m 0 (rc_lines ?r) T)"
    unfolding check_list_item_def prod.case
    using grp kind pre parts src
    by (simp add: attached_def plain_list_item_def hd_ids look)
  have "take (Suc m) (List.enumerate 0 (map (attached ls) items)) = take m (List.enumerate 0 (map (attached ls) items)) @ [(m, attached ls ?r)]"
    using lt by (simp add: take_Suc_conv_app_nth nth_enumerate_eq)
  moreover have "partial_table items (Suc m) (mark_lines m 0 (rc_lines ?r) T)"
    using step(1) r F(2) T(2) by (auto simp: item_ok_def)
  ultimately show ?case using T item by (simp add: rfold_append rfold_one)
qed


lemma rfold_Inr_mono:
  assumes "rfold f xs s = Inr t" "\<And>x s t. x \<in> set xs \<Longrightarrow> f x s = Inr t \<Longrightarrow> g x s = Inr t"
  shows "rfold g xs s = Inr t"
  using assms by (induction xs arbitrary: s) (auto simp: rbind_eq_Inr)

lemma nest_attached:
  assumes "nest_step [] (map plain_list_item items) x st = Inr st'" "\<forall>k p. x = Some (k, p) \<longrightarrow> k < length items"
  shows "nest_step path (map (attached ls) items) x st = Inr st'"
proof (cases x)
  case None
  with assms(1) show ?thesis by (simp add: nest_step_def)
next
  case (Some kp)
  obtain k p where kp: "kp = (k, p)" by (cases kp)
  with Some assms(2) have "k < length items" by blast
  then have "group_of (map (attached ls) items ! k) = group_of (map plain_list_item items ! k)"
      "level (map (attached ls) items ! k) = level (map plain_list_item items ! k)"
    by (simp_all add: attached_def)
  with assms(1) show ?thesis
    by (cases st) (auto simp: nest_step_def Some kp Let_def split: if_splits option.splits)
qed

lemma lists_pass:
  assumes ids: "distinct (map ln_id (lines_of b))" and ok: "items_ok alphabetic (lines_of b) (length (lines_of b)) items"
    and F: "owner_table items F" "length F = length (lines_of b)" and nest: "nest_run items F ([], None) = Inr st"
    and b: "list_items b = map (attached (lines_of b)) items" "label b = Text" "table_of b = None"
  shows "validate_block_lists alphabetic b path = Inr ()"
proof -
  from check_items_pass [OF ids ok F, of "length items" path] obtain pg ps T where
    T: "rfold (check_list_item alphabetic (map_of (lines_by_id (lines_of b))) path)
      (List.enumerate 0 (map (attached (lines_of b)) items)) (None, None, replicate (length (lines_of b)) None) = Inr (pg, ps, T)"
      "length T = length (lines_of b)" "partial_table items (length items) T" by auto
  have "T ! j = F ! j" if "j < length T" for j
  proof (rule option_same)
    fix kp show "T ! j = Some kp \<longleftrightarrow> F ! j = Some kp"
      using T(2,3) F that by (cases kp) (auto simp: partial_table_def owner_table_def owned_at_def)
  qed
  then have "T = F" using T(2) F(2) by (simp add: list_eq_iff_nth_eq)
  moreover have "rfold (nest_step path (map (attached (lines_of b)) items)) F ([], None) = Inr st"
    using nest unfolding nest_run_def
    by (rule rfold_Inr_mono) (use nest_attached owner_table_bound [OF F(1)] in blast)
  ultimately show ?thesis using T(1) by (simp add: validate_block_lists_def b)
qed

end
