(* ===== verification/List_Ranges.thy ===== *)
theory List_Ranges
  imports List_Pass
begin

text \<open>
  The block ranges that lists span: which block owns which line, the intervals of the list
  groups, their merging into disjoint ranges, and what merging blocks and attaching items do.
\<close>

section \<open>Owners and line offsets\<close>

text \<open>The number of lines before block \<open>i\<close> of a run.\<close>

definition lines_before :: "block list \<Rightarrow> nat \<Rightarrow> nat" where
  "lines_before run i = length (concat (map lines_of (take i run)))"

lemma lines_before_mono: "i \<le> j \<Longrightarrow> lines_before run i \<le> lines_before run j"
proof -
  assume "i \<le> j"
  then have "take j run = take i run @ take (j - i) (drop i run)" by (metis add_diff_cancel_left' le_Suc_ex take_add)
  then show ?thesis by (simp add: lines_before_def)
qed

lemma lines_before_all: "lines_before run (length run) = length (concat (map lines_of run))"
  by (simp add: lines_before_def)

lemma lines_before_0 [simp]: "lines_before run 0 = 0"
  by (simp add: lines_before_def)

lemma owners_of_snoc: "owners_of (run @ [b]) = owners_of run @ replicate (length (lines_of b)) (length run)"
  by (simp add: owners_of_def enumerate_append_eq)

lemma length_owners: "length (owners_of run) = length (concat (map lines_of run))"
  by (induction run rule: rev_induct) (simp_all add: owners_of_snoc, simp add: owners_of_def)

lemma sorted_owners: "sorted (owners_of run) \<and> (\<forall>x\<in>set (owners_of run). x < length run)"
  by (induction run rule: rev_induct) (auto simp: owners_of_snoc sorted_append less_Suc_eq intro: less_imp_le, auto simp: owners_of_def)

lemma owners_nth:
  "l < length (owners_of run) \<Longrightarrow> lines_before run (owners_of run ! l) \<le> l \<and> l < lines_before run (Suc (owners_of run ! l))"
proof (induction run rule: rev_induct)
  case Nil
  then show ?case by (simp add: owners_of_def)
next
  case (snoc b run)
  have bef: "lines_before (run @ [b]) i = lines_before run i" if "i \<le> length run" for i
    using that by (simp add: lines_before_def)
  show ?case
  proof (cases "l < length (owners_of run)")
    case True
    then have "owners_of run ! l < length run" using sorted_owners nth_mem by blast
    with True snoc.IH show ?thesis by (simp add: owners_of_snoc nth_append bef)
  next
    case False
    then show ?thesis using snoc.prems
      by (simp add: owners_of_snoc nth_append bef lines_before_def length_owners)
  qed
qed

lemma owner_between:
  assumes "l < length (owners_of run)"
  shows "i \<le> owners_of run ! l \<longleftrightarrow> lines_before run i \<le> l"
    and "owners_of run ! l \<le> j \<longleftrightarrow> l < lines_before run (Suc j)"
proof -
  let ?b = "owners_of run ! l"
  note at = owners_nth [OF assms]
  show "i \<le> ?b \<longleftrightarrow> lines_before run i \<le> l"
    using at lines_before_mono [of i ?b run] lines_before_mono [of "Suc ?b" i run] by (cases "i \<le> ?b") auto
  show "?b \<le> j \<longleftrightarrow> l < lines_before run (Suc j)"
    using at lines_before_mono [of "Suc ?b" "Suc j" run] lines_before_mono [of "Suc j" ?b run] by (cases "?b \<le> j") auto
qed

section \<open>The ranges of blocks that lists span\<close>

definition covers :: "nat list \<Rightarrow> recovered_item \<Rightarrow> nat \<times> nat \<Rightarrow> bool" where
  "covers tab r x \<longleftrightarrow> (\<forall>l\<in>set (rc_lines r). fst x \<le> tab ! l \<and> tab ! l \<le> snd x)"

definition bounds_ok :: "nat list \<Rightarrow> recovered_item list \<Rightarrow> (nat \<times> nat) list \<Rightarrow> bool" where
  "bounds_ok tab items groups \<longleftrightarrow>
     sorted (map fst groups) \<and> (\<forall>x\<in>set groups. fst x \<le> snd x \<and> snd x \<in> set tab) \<and>
     (\<forall>x\<in>set groups. \<exists>r\<in>set items. fst x = tab ! hd (rc_lines r)) \<and>
     (\<forall>r\<in>set items. \<exists>x\<in>set groups. \<forall>r'\<in>set items. rc_group r' = rc_group r \<longrightarrow> covers tab r' x) \<and>
     (items \<noteq> [] \<longrightarrow> groups \<noteq> [] \<and> (\<forall>r'\<in>set items. rc_group r' = rc_group (last items) \<longrightarrow> covers tab r' (last groups)))"

lemma item_lines_between:
  assumes "item_ok alphabetic ls n r" "l \<in> set (rc_lines r)"
  shows "hd (rc_lines r) \<le> l \<and> l \<le> last (rc_lines r) \<and> last (rc_lines r) < n \<and> hd (rc_lines r) < n"
proof -
  have "rc_lines r \<noteq> []" and s: "sorted (rc_lines r)" and lt: "\<forall>j\<in>set (rc_lines r). j < n"
    using assms(1) by (auto simp: item_ok_def strict_sorted_iff)
  moreover from s assms(2) have "hd (rc_lines r) \<le> l" by (cases "rc_lines r") auto
  moreover have "l \<le> last (rc_lines r)" using s assms(2) \<open>rc_lines r \<noteq> []\<close>
    by (cases "rc_lines r" rule: rev_cases) (auto simp: sorted_append)
  ultimately show ?thesis by simp
qed

lemma group_bounds_ok:
  assumes "\<forall>r\<in>set items. item_ok alphabetic ls (length tab) r" "sorted_wrt (<) (map (hd \<circ> rc_lines) items)"
    "sorted (map rc_group items)" "sorted tab"
  shows "\<exists>groups. rfold (group_bounds tab) items ([], None) =
      Inr (groups, if items = [] then None else Some (rc_group (last items))) \<and> bounds_ok tab items groups"
  using assms(1-3)
proof (induction items rule: rev_induct)
  case Nil
  then show ?case by (simp add: bounds_ok_def)
next
  case (snoc r items)
  let ?grp = "if items = [] then None else Some (rc_group (last items))"
  from snoc obtain groups where fold: "rfold (group_bounds tab) items ([], None) = Inr (groups, ?grp)"
    and ok: "bounds_ok tab items groups"
    by (auto simp: sorted_wrt_append sorted_append)
  have r: "item_ok alphabetic ls (length tab) r" using snoc.prems(1) by simp
  then have ne: "rc_lines r \<noteq> []" by (simp add: item_ok_def)
  let ?f = "tab ! hd (rc_lines r)" and ?l = "tab ! last (rc_lines r)"
  have hdl: "hd (rc_lines r) < length tab" "last (rc_lines r) < length tab" "hd (rc_lines r) \<le> last (rc_lines r)"
    using item_lines_between [OF r] ne hd_in_set last_in_set by blast+
  have look: "(case hd_opt (rc_lines r) of None \<Rightarrow> None | Some l \<Rightarrow> get_at tab l) = Some ?f"
    "(case last_opt (rc_lines r) of None \<Rightarrow> None | Some l \<Rightarrow> get_at tab l) = Some ?l"
    using hdl ne by (auto simp: hd_opt_def last_opt_def split: list.splits)
  have fl: "?f \<le> ?l" using assms(4) hdl by (simp add: sorted_nth_mono)
  have self: "covers tab r (s, e)" if "s \<le> ?f" "?l \<le> e" for s e
    unfolding covers_def
  proof
    fix l assume "l \<in> set (rc_lines r)"
    from item_lines_between [OF r this] have "?f \<le> tab ! l" "tab ! l \<le> ?l"
      using assms(4) by (auto intro!: sorted_nth_mono)
    with that show "fst (s, e) \<le> tab ! l \<and> tab ! l \<le> snd (s, e)" by simp
  qed
  have before: "fst x \<le> ?f" if x: "x \<in> set groups" for x
  proof -
    from ok x obtain r' where r': "r' \<in> set items" "fst x = tab ! hd (rc_lines r')" by (auto simp: bounds_ok_def)
    then have "hd (rc_lines r') < hd (rc_lines r)" using snoc.prems(2) by (auto simp: sorted_wrt_append)
    with r'(2) hdl show ?thesis using assms(4) by (simp add: sorted_nth_mono)
  qed
  have le: "rc_group r' \<le> rc_group r" if "r' \<in> set items" for r'
    using snoc.prems(3) that by (auto simp: sorted_append)
  have more: "covers tab r' (s, e) \<Longrightarrow> e \<le> e' \<Longrightarrow> covers tab r' (s, e')" for r' s e e'
    by (auto simp: covers_def)
  show ?case
  proof (cases "?grp = Some (rc_group r)")
    case True
    then have items: "items \<noteq> []" and same: "rc_group (last items) = rc_group r" by (auto split: if_splits)
    with ok have "groups \<noteq> []" by (simp add: bounds_ok_def)
    then obtain gs s e where groups: "groups = gs @ [(s, e)]" by (metis prod.exhaust rev_exhaust)
    let ?groups = "gs @ [(s, max e ?l)]"
    have "group_bounds tab r (groups, ?grp) = Inr (?groups, ?grp)"
    proof -
      have "last_opt groups = Some (s, e)" "butlast groups = gs" by (simp_all add: groups last_opt_def)
      with True show ?thesis by (simp add: group_bounds_def look)
    qed
    then have "rfold (group_bounds tab) (items @ [r]) ([], None) = Inr (?groups, Some (rc_group r))"
      using fold True by (simp add: rfold_append rfold_one)
    moreover have "bounds_ok tab (items @ [r]) ?groups"
    proof -
      have last: "covers tab r' (s, max e ?l)" if "r' \<in> set (items @ [r])" "rc_group r' = rc_group r" for r'
        using that ok items same more [of r' s e] self [of s] before [of "(s, e)"]
        by (auto simp: bounds_ok_def groups)
      have "\<exists>x\<in>set ?groups. \<forall>r'\<in>set (items @ [r]). rc_group r' = rc_group q \<longrightarrow> covers tab r' x"
        if q: "q \<in> set (items @ [r])" for q
      proof (cases "rc_group q = rc_group r")
        case True
        then show ?thesis using last by auto
      next
        case False
        then have "q \<in> set items" using q by auto
        then obtain x where x: "x \<in> set groups" "\<forall>r'\<in>set items. rc_group r' = rc_group q \<longrightarrow> covers tab r' x"
          using ok by (auto simp: bounds_ok_def)
        show ?thesis
        proof (cases "x = (s, e)")
          case True
          then show ?thesis using x(2) more [of _ s e "max e ?l"] False by (intro bexI [of _ "(s, max e ?l)"]) auto
        next
          case False
          then show ?thesis using x \<open>rc_group q \<noteq> rc_group r\<close> by (intro bexI [of _ x]) (auto simp: groups)
        qed
      qed
      moreover have "max e ?l \<in> set tab" using ok hdl by (auto simp: bounds_ok_def groups max_def)
      ultimately show ?thesis using ok last fl
        by (auto simp: bounds_ok_def groups sorted_append)
    qed
    ultimately show ?thesis by (intro exI [of _ ?groups]) simp
  next
    case False
    let ?groups = "groups @ [(?f, ?l)]"
    have "group_bounds tab r (groups, ?grp) = Inr (?groups, Some (rc_group r))"
      using False by (simp add: group_bounds_def look)
    then have "rfold (group_bounds tab) (items @ [r]) ([], None) = Inr (?groups, Some (rc_group r))"
      using fold by (simp add: rfold_append rfold_one)
    moreover have "bounds_ok tab (items @ [r]) ?groups"
    proof -
      have new: "rc_group r' \<noteq> rc_group r" if "r' \<in> set items" for r'
      proof -
        have "items \<noteq> []" using that by auto
        then have "rc_group (last items) < rc_group r" using False le [of "last items"] by (auto simp: less_le)
        moreover have "rc_group r' \<le> rc_group (last items)"
          using snoc.prems(3) that by (cases items rule: rev_cases) (auto simp: sorted_append)
        ultimately show ?thesis by simp
      qed
      have "\<exists>x\<in>set ?groups. \<forall>r'\<in>set (items @ [r]). rc_group r' = rc_group q \<longrightarrow> covers tab r' x"
        if q: "q \<in> set (items @ [r])" for q
      proof (cases "q = r")
        case True
        then show ?thesis using new self by auto
      next
        case False
        then have "q \<in> set items" using q by auto
        then obtain x where "x \<in> set groups" "\<forall>r'\<in>set items. rc_group r' = rc_group q \<longrightarrow> covers tab r' x"
          using ok by (auto simp: bounds_ok_def)
        then show ?thesis using new [OF \<open>q \<in> set items\<close>] by (intro bexI [of _ x]) auto
      qed
      then show ?thesis using ok new self fl before hdl by (auto simp: bounds_ok_def sorted_append)
    qed
    ultimately show ?thesis by (intro exI [of _ ?groups]) simp
  qed
qed


definition ranges_ok :: "(nat \<times> nat) list \<Rightarrow> bool" where
  "ranges_ok ranges \<longleftrightarrow> (\<forall>x\<in>set ranges. fst x \<le> snd x) \<and> sorted_wrt (\<lambda>x y. snd x < fst y) ranges"

definition in_range_of :: "nat \<times> nat \<Rightarrow> nat \<times> nat \<Rightarrow> bool" where
  "in_range_of x y \<longleftrightarrow> fst y \<le> fst x \<and> snd x \<le> snd y"

lemma merge_ranges_ok:
  assumes "sorted (map fst groups)" "\<forall>x\<in>set groups. fst x \<le> snd x"
  shows "let ranges = fold merge_range groups [] in ranges_ok ranges \<and>
    (\<forall>x\<in>set groups. \<exists>y\<in>set ranges. in_range_of x y) \<and> (\<forall>y\<in>set ranges. fst y \<in> fst ` set groups \<and> snd y \<in> snd ` set groups)"
  using assms
proof (induction groups rule: rev_induct)
  case Nil
  then show ?case by (simp add: ranges_ok_def)
next
  case (snoc x groups)
  define R where "R = fold merge_range groups []"
  from snoc have R: "ranges_ok R" "\<forall>x\<in>set groups. \<exists>y\<in>set R. in_range_of x y"
    "\<forall>y\<in>set R. fst y \<in> fst ` set groups \<and> snd y \<in> snd ` set groups"
    by (auto simp: R_def [symmetric] Let_def sorted_append)
  obtain a z where x: "x = (a, z)" by (cases x)
  have az: "a \<le> z" and "\<forall>x\<in>set groups. fst x \<le> a" using snoc.prems by (auto simp: x sorted_append)
  then have starts: "\<forall>y\<in>set R. fst y \<le> a" using R(3) by fastforce
  have step: "fold merge_range (groups @ [x]) [] = merge_range (a, z) R" by (simp add: R_def x)
  show ?case
  proof (cases "R = []")
    case True
    then show ?thesis unfolding step using az R(2)
      by (cases groups) (auto simp: merge_range_def last_opt_def ranges_ok_def in_range_of_def x Let_def)
  next
    case False
    then obtain R' s e where RR: "R = R' @ [(s, e)]" by (metis prod.exhaust rev_exhaust)
    then have l: "last_opt R = Some (s, e)" "butlast R = R'" by (simp_all add: last_opt_def)
    show ?thesis
    proof (cases "a \<le> e")
      case True
      then have m: "merge_range (a, z) R = R' @ [(s, max e z)]" by (simp add: merge_range_def l)
      have "\<exists>y\<in>set (R' @ [(s, max e z)]). in_range_of q y" if q: "q \<in> set (groups @ [x])" for q
      proof (cases "q \<in> set groups")
        case True
        then obtain y where "y \<in> set R" "in_range_of q y" using R(2) by blast
        then show ?thesis by (cases "y = (s, e)") (auto simp: RR in_range_of_def le_max_iff_disj)
      next
        case False
        then show ?thesis using q starts by (auto simp: x RR in_range_of_def)
      qed
      moreover have "ranges_ok (R' @ [(s, max e z)])" using R(1) by (auto simp: ranges_ok_def RR sorted_wrt_append le_max_iff_disj)
      moreover have "max e z \<in> snd ` set (groups @ [x])" "s \<in> fst ` set (groups @ [x])" using R(3) by (auto simp: RR x max_def)
      ultimately show ?thesis unfolding step m Let_def using R(3) by (auto simp: RR)
    next
      case False
      then have m: "merge_range (a, z) R = R @ [(a, z)]" by (simp add: merge_range_def l)
      have "\<forall>y\<in>set R. snd y < a" using R(1) False by (fastforce simp: ranges_ok_def RR sorted_wrt_append)
      then have "ranges_ok (R @ [(a, z)])" using R(1) az by (auto simp: ranges_ok_def sorted_wrt_append)
      moreover have "in_range_of x (a, z)" by (simp add: in_range_of_def x)
      ultimately show ?thesis unfolding step m Let_def using R(2,3) by (auto simp: x)
    qed
  qed
qed

section \<open>Merging boxes\<close>

lemma absorb_ok:
  assumes "bbox_ok (bk_bbox b)" "bbox_ok (bk_bbox other)"
  shows "\<exists>b' sources'. absorb other (b, sources) = Inr (b', sources') \<and> bbox_ok (bk_bbox b') \<and>
    lines_of b' = lines_of b @ lines_of other \<and> bk_id b' = bk_id b \<and> label b' = label b \<and> table_of b' = table_of b"
  using union_box_ok [OF assms] by (auto simp: absorb_def)

lemma absorb_all_ok:
  assumes "bbox_ok (bk_bbox b)" "\<forall>x\<in>set others. bbox_ok (bk_bbox x)"
  shows "\<exists>b' sources'. rfold absorb others (b, sources) = Inr (b', sources') \<and>
    lines_of b' = lines_of b @ concat (map lines_of others) \<and> bk_id b' = bk_id b \<and> label b' = label b \<and> table_of b' = table_of b"
  using assms
proof (induction others arbitrary: b sources)
  case (Cons x others)
  then obtain b' sources' where one: "absorb x (b, sources) = Inr (b', sources')" "bbox_ok (bk_bbox b')"
      "lines_of b' = lines_of b @ lines_of x" "bk_id b' = bk_id b" "label b' = label b" "table_of b' = table_of b"
    using absorb_ok [of b x sources] by auto
  from Cons.IH [OF one(2), of sources'] Cons.prems obtain b'' sources'' where
      "rfold absorb others (b', sources') = Inr (b'', sources'')" "lines_of b'' = lines_of b' @ concat (map lines_of others)"
      "bk_id b'' = bk_id b'" "label b'' = label b'" "table_of b'' = table_of b'" by auto
  with one show ?case by simp
qed simp

lemma merge_blocks_ok:
  assumes "bbox_ok (bk_bbox b)" "\<forall>x\<in>set others. bbox_ok (bk_bbox x)"
  shows "\<exists>b'. merge_blocks trig alphabetic enclosing b others = Inr b' \<and>
    lines_of b' = renumber_lines (bk_id b) (lines_of b @ concat (map lines_of others)) \<and> label b' = label b \<and> table_of b' = table_of b"
  using absorb_all_ok [OF assms, of "all_source_regions b"] by (auto simp: merge_blocks_def Let_def)

lemma renumber_lines_facts:
  "length (renumber_lines i ls) = length ls"
  "j < length ls \<Longrightarrow> renumber_lines i ls ! j = (ls ! j)\<lparr>ln_id := line_id_of i j\<rparr>"
  by (simp_all add: renumber_lines_def nth_enumerate_eq)

lemma renumber_lines_distinct: "distinct (map ln_id (renumber_lines i ls))"
  by (auto simp: distinct_conv_nth renumber_lines_facts line_id_of_def)

section \<open>Attaching a slice\<close>

lemma rmap_Inr: "(\<And>x. x \<in> set xs \<Longrightarrow> f x = Inr (g x)) \<Longrightarrow> rmap f xs = Inr (map g xs)"
  by (induction xs) auto

lemma attach_item_ok:
  assumes "g \<le> rc_group r" "\<forall>l\<in>set (rc_lines r). lo \<le> l \<and> l < lo + length ls"
  shows "attach_item ls lo g r = Inr (attached ls (shift_item lo g r))"
proof -
  have "rmap (owned_line ls lo) (rc_lines r) = Inr (map (\<lambda>l. ln_id (ls ! (l - lo))) (rc_lines r))"
    using assms(2) by (intro rmap_Inr) (auto simp: owned_line_def checked_sub_def get_at_def)
  then show ?thesis using assms(1)
    by (simp add: attach_item_def checked_sub_def attached_def plain_list_item_def shift_item_def comp_def)
qed

end
