(* ===== verification/List_Emission.thy ===== *)
theory List_Emission
  imports List_Ranges
begin

text \<open>
  The output loop of the list merge: every output block takes over a slice of the run, its items
  attach, and the block passes the check; then the same for a whole page.
\<close>

section \<open>One run\<close>

text \<open>A line up to its identifier, which a merge renumbers.\<close>

definition line_facts :: "line \<Rightarrow> line" where
  "line_facts l = l\<lparr>ln_id := []\<rparr>"

definition run_ok :: "block list \<Rightarrow> bool" where
  "run_ok run \<longleftrightarrow> (\<forall>b\<in>set run. bbox_ok (bk_bbox b) \<and> is_body b \<and> distinct (map ln_id (lines_of b)))"

text \<open>What the ranges of a run say of its items.\<close>

definition spans_ok :: "block list \<Rightarrow> recovered_item list \<Rightarrow> (nat \<times> nat) list \<Rightarrow> bool" where
  "spans_ok run items ranges \<longleftrightarrow> ranges_ok ranges \<and> (\<forall>x\<in>set ranges. snd x < length run) \<and>
     (\<forall>r\<in>set items. \<exists>x\<in>set ranges. \<forall>r'\<in>set items. rc_group r' = rc_group r \<longrightarrow> covers (owners_of run) r' x)"

lemma joined_block:
  assumes "run_ok run" "i \<le> stop" "stop < length run" "others = take (stop - i) (drop (Suc i) run)"
  shows "\<exists>b. (if i < stop then merge_blocks trig alphabetic enclosing (run ! i) others else Inr (run ! i)) = Inr b \<and>
    is_body b \<and> distinct (map ln_id (lines_of b)) \<and>
    length (lines_of b) = lines_before run (Suc stop) - lines_before run i \<and>
    (\<forall>j<length (lines_of b). \<exists>n. lines_of b ! j = (concat (map lines_of run) ! (lines_before run i + j))\<lparr>ln_id := n\<rparr>) \<and>
    lines_before run i + length (lines_of b) = lines_before run (Suc stop)"
proof -
  have b: "bbox_ok (bk_bbox (run ! i))" "is_body (run ! i)" "distinct (map ln_id (lines_of (run ! i)))"
    using assms by (auto simp: run_ok_def)
  have all: "run ! i # others = take (Suc stop - i) (drop i run)"
    using assms(2-4) by (simp add: Cons_nth_drop_Suc [symmetric] Suc_diff_le)
  have "take (Suc stop) run = take i run @ run ! i # others"
    using assms(2) all take_add [of i "Suc stop - i" run] by simp
  then have upto: "concat (map lines_of (take (Suc stop) run)) =
      concat (map lines_of (take i run)) @ lines_of (run ! i) @ concat (map lines_of others)" by simp
  let ?ls = "lines_of (run ! i) @ concat (map lines_of others)"
  have len: "length ?ls = lines_before run (Suc stop) - lines_before run i"
    "lines_before run i + length ?ls = lines_before run (Suc stop)"
    by (simp_all add: lines_before_def upto)
  have at: "?ls ! j = concat (map lines_of run) ! (lines_before run i + j)" if "j < length ?ls" for j
  proof -
    have "concat (map lines_of run) = concat (map lines_of (take (Suc stop) run)) @ concat (map lines_of (drop (Suc stop) run))"
      by (metis append_take_drop_id concat_append map_append)
    then show ?thesis using that by (simp add: upto lines_before_def nth_append)
  qed
  show ?thesis
  proof (cases "i < stop")
    case True
    have "\<forall>x\<in>set others. bbox_ok (bk_bbox x)" using assms(1,4) by (auto simp: run_ok_def dest!: in_set_takeD in_set_dropD)
    from merge_blocks_ok [OF b(1) this] obtain b' where b': "merge_blocks trig alphabetic enclosing (run ! i) others = Inr b'"
      "lines_of b' = renumber_lines (bk_id (run ! i)) ?ls" "label b' = label (run ! i)" "table_of b' = table_of (run ! i)" by blast
    then show ?thesis using True b(2) len at
      by (intro exI [of _ b']) (auto simp: is_body_def renumber_lines_distinct renumber_lines_facts simp del: length_append)
  next
    case False
    then have "others = []" using assms(2,4) by simp
    then have "\<exists>n. lines_of (run ! i) ! j = (concat (map lines_of run) ! (lines_before run i + j))\<lparr>ln_id := n\<rparr>"
      if "j < length (lines_of (run ! i))" for j
      using at that by (intro exI [of _ "ln_id (lines_of (run ! i) ! j)"]) simp
    then show ?thesis using False b len \<open>others = []\<close> by (intro exI [of _ "run ! i"]) simp
  qed
qed

lemma hit_range:
  assumes ok: "ranges_ok (pre @ ranges)" "\<forall>x\<in>set pre. snd x < i" "\<forall>x\<in>set ranges. i \<le> fst x"
    and x: "x \<in> set (pre @ ranges)" "fst x \<le> o'" "o' \<le> snd x" "i \<le> o'" "o' \<le> stop"
    and stop: "stop = (case ranges of [] \<Rightarrow> i | (s, e) # _ \<Rightarrow> if s = i then e else i)"
  shows "x = (i, stop)"
proof -
  have "x \<in> set ranges" using assms(2) x by auto
  then obtain s e rest where ranges: "ranges = (s, e) # rest" by (cases ranges) auto
  have se: "i \<le> s" "s \<le> e" "\<forall>y\<in>set rest. e < fst y" using ok by (auto simp: ranges ranges_ok_def sorted_wrt_append)
  show ?thesis
  proof (cases "x = (s, e)")
    case True
    then show ?thesis using x stop se by (auto simp: ranges split: if_splits)
  next
    case False
    then have "e < fst x" using \<open>x \<in> set ranges\<close> se(3) by (auto simp: ranges)
    then show ?thesis using x stop se by (auto simp: ranges split: if_splits)
  qed
qed


lemma takeWhile_sorted:
  assumes "sorted_wrt (<) (map f xs)" "k < length xs"
  shows "k < length (takeWhile (\<lambda>x. f x < (B :: nat)) xs) \<longleftrightarrow> f (xs ! k) < B"
  using assms
proof (induction xs arbitrary: k)
  case (Cons x xs)
  show ?case
  proof (cases k)
    case (Suc q)
    then have "f x < f (xs ! q)" using Cons.prems by auto
    moreover have "q < length (takeWhile (\<lambda>x. f x < B) xs) \<longleftrightarrow> f (xs ! q) < B" using Cons Suc by simp
    ultimately show ?thesis using Suc by auto
  qed simp
qed simp

lemma starts_before_hd: "rc_lines r \<noteq> [] \<Longrightarrow> starts_before n r \<longleftrightarrow> hd (rc_lines r) < n"
  by (cases "rc_lines r") (auto simp: starts_before_def hd_opt_def)

text \<open>How many of the items that are left start before a line.\<close>

lemma items_upto:
  assumes "items_ok alphabetic ls n items" "k0 \<le> length items" "\<forall>k<length items. k < k0 \<longleftrightarrow> hd (rc_lines (items ! k)) < lo" "lo \<le> hi"
    and mine: "mine = takeWhile (starts_before hi) (drop k0 items)" and k1: "k1 = k0 + length mine"
  shows "k1 \<le> length items \<and> mine = slice k0 k1 items \<and> (\<forall>k<length items. k < k1 \<longleftrightarrow> hd (rc_lines (items ! k)) < hi)"
proof -
  let ?f = "\<lambda>r. hd (rc_lines r)"
  have ne: "\<forall>r\<in>set items. rc_lines r \<noteq> []" using assms(1) by (auto simp: items_ok_def item_ok_def)
  have mine': "mine = takeWhile (\<lambda>r. ?f r < hi) (drop k0 items)"
    unfolding mine by (rule takeWhile_cong) (use ne starts_before_hd in \<open>auto dest: in_set_dropD\<close>)
  have sorted: "sorted_wrt (<) (map ?f (drop k0 items))"
    using assms(1) by (simp add: items_ok_def comp_def drop_map [symmetric] sorted_wrt_drop)
  have len: "length mine \<le> length items - k0" unfolding mine using length_takeWhile_le [of _ "drop k0 items"] by simp
  have "k < k1 \<longleftrightarrow> ?f (items ! k) < hi" if k: "k < length items" for k
  proof (cases "k < k0")
    case True
    then show ?thesis using assms(3,4) k k1 by fastforce
  next
    case False
    then have "k - k0 < length mine \<longleftrightarrow> ?f (drop k0 items ! (k - k0)) < hi"
      unfolding mine' using k by (intro takeWhile_sorted [OF sorted]) simp
    then show ?thesis using False k k1 by (simp add: less_diff_conv2 add.commute)
  qed
  moreover have "mine = slice k0 k1 items"
    unfolding slice_def k1 using takeWhile_eq_take [of "starts_before hi" "drop k0 items"] by (simp add: mine)
  moreover have "k1 \<le> length items" using len assms(2) k1 by arith
  ultimately show ?thesis by blast
qed

text \<open>The items that start in the blocks of one output block are exactly those that touch its lines.\<close>

lemma slice_here:
  assumes items: "items_ok alphabetic ls (length ls) items" and ls: "ls = concat (map lines_of run)"
    and spans: "spans_ok run items (pre @ ranges)" and pre: "\<forall>x\<in>set pre. snd x < i" "\<forall>x\<in>set ranges. i \<le> fst x"
    and stop: "stop = (case ranges of [] \<Rightarrow> i | (s, e) # _ \<Rightarrow> if s = i then e else i)" "i \<le> stop"
    and k: "k0 \<le> k1" "k1 \<le> length items" "\<forall>k<length items. k < k0 \<longleftrightarrow> hd (rc_lines (items ! k)) < lines_before run i"
      "\<forall>k<length items. k < k1 \<longleftrightarrow> hd (rc_lines (items ! k)) < lines_before run (Suc stop)"
  shows "is_slice items k0 k1 (lines_before run i) (lines_before run (Suc stop))"
proof -
  let ?tab = "owners_of run" and ?lo = "lines_before run i" and ?hi = "lines_before run (Suc stop)"
  have ok: "ranges_ok (pre @ ranges)" using spans by (simp add: spans_ok_def)
  have len: "length ?tab = length ls" by (simp add: length_owners ls)
  have iok: "item_ok alphabetic ls (length ls) (items ! q)" if "q < length items" for q
    using items that by (auto simp: items_ok_def)
  have here: "?lo \<le> l \<and> l < ?hi \<longleftrightarrow> i \<le> ?tab ! l \<and> ?tab ! l \<le> stop" if "l < length ls" for l
    using owner_between [of l run i] owner_between [of l run stop] that len by auto
  have same: "\<forall>r'\<in>set items. rc_group r' = rc_group (items ! q) \<longrightarrow> covers ?tab r' (i, stop)"
    if q: "q < length items" "l \<in> set (rc_lines (items ! q))" "?lo \<le> l" "l < ?hi" for q l
  proof -
    from spans q(1) obtain x where x: "x \<in> set (pre @ ranges)"
      "\<forall>r'\<in>set items. rc_group r' = rc_group (items ! q) \<longrightarrow> covers ?tab r' x"
      unfolding spans_ok_def using nth_mem by blast
    then have "covers ?tab (items ! q) x" using q(1) by simp
    then have "fst x \<le> ?tab ! l" "?tab ! l \<le> snd x" using q(2) by (auto simp: covers_def)
    moreover have "l < length ls" using iok [OF q(1)] q(2) by (auto simp: item_ok_def)
    ultimately have "x = (i, stop)"
      using hit_range [OF ok pre x(1) _ _ _ _ stop(1), of "?tab ! l"] here [of l] q(3,4) by blast
    with x(2) show ?thesis by simp
  qed
  have inside: "\<forall>l\<in>set (rc_lines (items ! q)). ?lo \<le> l \<and> l < ?hi"
    if q: "q < length items" "l \<in> set (rc_lines (items ! q))" "?lo \<le> l" "l < ?hi" for q l
  proof
    fix l' assume l': "l' \<in> set (rc_lines (items ! q))"
    have "covers ?tab (items ! q) (i, stop)" using same [OF q] q(1) by simp
    then have "i \<le> ?tab ! l' \<and> ?tab ! l' \<le> stop" using l' by (auto simp: covers_def)
    then show "?lo \<le> l' \<and> l' < ?hi" using here [of l'] iok [OF q(1)] l' by (auto simp: item_ok_def)
  qed
  have heads: "hd (rc_lines (items ! q)) \<in> set (rc_lines (items ! q))" if "q < length items" for q
    using iok [OF that] by (simp add: item_ok_def)
  have between: "k0 \<le> q \<and> q < k1 \<longleftrightarrow> ?lo \<le> hd (rc_lines (items ! q)) \<and> hd (rc_lines (items ! q)) < ?hi"
    if "q < length items" for q using k(3,4) that by (meson not_le)
  show ?thesis
    unfolding is_slice_def
  proof (intro conjI allI impI ballI)
    fix q l assume q: "q < length items" "l \<in> set (rc_lines (items ! q))"
    show "k0 \<le> q \<and> q < k1 \<longleftrightarrow> ?lo \<le> l \<and> l < ?hi"
      using between [OF q(1)] inside [OF q(1) heads [OF q(1)]] inside [OF q] q heads [OF q(1)] by blast
  next
    fix q q' assume q: "q < k0" "q' < k1" "k0 \<le> q'"
    then have lt: "q < length items" "q' < length items" using k(1,2) by simp_all
    have q': "?lo \<le> hd (rc_lines (items ! q'))" "hd (rc_lines (items ! q')) < ?hi" using between [OF lt(2)] q by auto
    show "rc_group (items ! q) \<noteq> rc_group (items ! q')"
    proof
      assume "rc_group (items ! q) = rc_group (items ! q')"
      then have "covers ?tab (items ! q) (i, stop)" using same [OF lt(2) heads [OF lt(2)] q'] lt(1) by simp
      then have "i \<le> ?tab ! hd (rc_lines (items ! q))" "?tab ! hd (rc_lines (items ! q)) \<le> stop"
        using heads [OF lt(1)] by (auto simp: covers_def)
      then have "?lo \<le> hd (rc_lines (items ! q))" using here [of "hd (rc_lines (items ! q))"] iok [OF lt(1)] heads [OF lt(1)]
        by (simp add: item_ok_def)
      then show False using k(3) lt(1) q(1) by fastforce
    qed
  qed (use k in auto)
qed

text \<open>One output block: its items attach and pass the check.\<close>

lemma attach_slice:
  assumes items: "items_ok alphabetic ls (length ls) items" and T: "owner_table items T" "length T = length ls"
      "nest_run items T ([], None) = Inr st"
    and sl: "is_slice items k0 k1 lo hi" "lo \<le> hi" "hi \<le> length ls"
    and b: "is_body b" "distinct (map ln_id (lines_of b))" "length (lines_of b) = hi - lo"
      "\<forall>j<length (lines_of b). \<exists>n. lines_of b ! j = (ls ! (lo + j))\<lparr>ln_id := n\<rparr>"
  shows "\<exists>its. attach_items b lo (slice k0 k1 items) = Inr (b\<lparr>list_items := its\<rparr>) \<and>
    (\<forall>path n. validate_block_lists alphabetic (b\<lparr>list_items := its, final_order := n\<rparr>) path = Inr ())"
proof (cases "k0 < k1")
  case False
  then show ?thesis by (auto simp: attach_items_def slice_def validate_block_lists_def)
next
  case True
  have k1: "k1 \<le> length items" using sl by (simp add: is_slice_def)
  define g where "g = rc_group (items ! k0)"
  define sh where "sh = map (shift_item lo g) (slice k0 k1 items)"
  define its where "its = map (attached (lines_of b)) sh"
  have "slice k0 k1 items ! 0 = items ! k0" "length (slice k0 k1 items) = k1 - k0" using True k1 by simp_all
  then have first: "(case slice k0 k1 items of [] \<Rightarrow> 0 | item # _ \<Rightarrow> rc_group item) = g"
    using True by (cases "slice k0 k1 items") (auto simp: g_def)
  have "rmap (attach_item (lines_of b) lo g) (slice k0 k1 items) = Inr (map (\<lambda>r. attached (lines_of b) (shift_item lo g r)) (slice k0 k1 items))"
  proof (rule rmap_Inr, rule attach_item_ok)
    fix r assume "r \<in> set (slice k0 k1 items)"
    then obtain q where q: "q < k1 - k0" "r = items ! (k0 + q)" using k1 by (auto simp: in_set_conv_nth)
    show "g \<le> rc_group r" unfolding g_def q(2) using items q(1) k1 by (intro groups_mono) (auto simp: items_ok_def)
    show "\<forall>l\<in>set (rc_lines r). lo \<le> l \<and> l < lo + length (lines_of b)"
      using is_slice_line [OF sl(1) q(1)] sl(2) b(3) by (auto simp: q(2))
  qed
  then have "attach_items b lo (slice k0 k1 items) = Inr (b\<lparr>list_items := its\<rparr>)"
    unfolding attach_items_def first by (simp add: its_def sh_def comp_def)
  moreover have "validate_block_lists alphabetic (b\<lparr>list_items := its, final_order := n\<rparr>) path = Inr ()" for path n
  proof -
    let ?F = "map (shift_owner k0) (slice lo hi T)"
    have ok: "items_ok alphabetic (lines_of b) (length (lines_of b)) sh"
      unfolding sh_def by (rule slice_items_ok [OF items sl(1) True sl(3)]) (use b(3,4) in \<open>auto simp: g_def\<close>)
    have "owner_table sh ?F"
      unfolding sh_def by (rule slice_owner_table [OF T(1,2) sl(1,3)]) (use items in \<open>auto simp: items_ok_def item_ok_def\<close>)
    moreover obtain st' where "nest_run sh ?F ([], None) = Inr st'"
      using slice_nest [OF items T(1,2) sl(1) True sl(2,3) T(3) g_def] by (auto simp: sh_def)
    ultimately show ?thesis
      using lists_pass [of "b\<lparr>list_items := its, final_order := n\<rparr>" alphabetic sh ?F st' path] ok b T(2) sl(3)
      by (simp add: its_def is_body_def)
  qed
  ultimately show ?thesis by blast
qed


section \<open>The loop over the blocks\<close>

definition emitted_ok :: "(uchar \<Rightarrow> bool) \<Rightarrow> nat \<Rightarrow> line list \<Rightarrow> block list \<Rightarrow> bool" where
  "emitted_ok alphabetic n ls outs \<longleftrightarrow>
     (\<forall>b\<in>set outs. \<forall>path. validate_block_lists alphabetic b path = Inr ()) \<and>
     map final_order outs = [n..<n + length outs] \<and> map line_facts (concat (map lines_of outs)) = map line_facts ls"

lemma emitted_ok_Nil: "emitted_ok alphabetic n [] []"
  by (simp add: emitted_ok_def)

lemma emitted_ok_append:
  "emitted_ok alphabetic n ls outs \<Longrightarrow> emitted_ok alphabetic (n + length outs) ls' outs' \<Longrightarrow> emitted_ok alphabetic n (ls @ ls') (outs @ outs')"
  using upt_add_eq_append [of n "n + length outs" "length outs'"] by (auto simp: emitted_ok_def add.assoc)

lemma line_facts_slice:
  assumes "length xs = hi - lo" "hi \<le> length ls" "\<forall>j<length xs. \<exists>n. xs ! j = (ls ! (lo + j))\<lparr>ln_id := n\<rparr>"
  shows "map line_facts xs = map line_facts (slice lo hi ls)"
proof (rule nth_equalityI)
  fix j assume "j < length (map line_facts xs)"
  with assms obtain n where "xs ! j = (ls ! (lo + j))\<lparr>ln_id := n\<rparr>" "j < length xs" by auto
  with assms show "map line_facts xs ! j = map line_facts (slice lo hi ls) ! j" by (simp add: line_facts_def)
qed (use assms in simp)

lemma next_ranges:
  assumes "ranges_ok (pre @ ranges)" "\<forall>x\<in>set pre. snd x < i" "\<forall>x\<in>set ranges. i \<le> fst x"
    "here = (case ranges of [] \<Rightarrow> None | (s, e) # _ \<Rightarrow> if s = i then Some e else None)"
    "stop = (case here of None \<Rightarrow> i | Some e \<Rightarrow> e)"
  shows "i \<le> stop \<and> stop = (case ranges of [] \<Rightarrow> i | (s, e) # _ \<Rightarrow> if s = i then e else i) \<and>
    (\<exists>pre'. pre' @ (if here = None then ranges else tl ranges) = pre @ ranges \<and> (\<forall>x\<in>set pre'. snd x < Suc stop) \<and>
      (\<forall>x\<in>set (if here = None then ranges else tl ranges). Suc stop \<le> fst x))"
proof (cases ranges)
  case Nil
  then show ?thesis using assms by (auto simp: less_Suc_eq intro!: exI [of _ pre])
next
  case (Cons x rest)
  obtain s e where x: "x = (s, e)" by (cases x)
  have se: "i \<le> s" "s \<le> e" "\<forall>y\<in>set rest. e < fst y" using assms(1,3) by (auto simp: Cons x ranges_ok_def sorted_wrt_append)
  show ?thesis
  proof (cases "s = i")
    case True
    then show ?thesis using assms se by (auto simp: Cons x intro!: exI [of _ "pre @ [(i, e)]"])
  next
    case False
    then show ?thesis using assms se by (auto simp: Cons x less_Suc_eq intro!: exI [of _ pre])
  qed
qed

lemma emit_ok:
  assumes run: "run_ok run" and ls: "ls = concat (map lines_of run)" and items: "items_ok alphabetic ls (length ls) items"
    and T: "owner_table items T" "length T = length ls" "nest_run items T ([], None) = Inr st"
  shows "\<lbrakk>i \<le> length run; spans_ok run items (pre @ ranges); \<forall>x\<in>set pre. snd x < i; \<forall>x\<in>set ranges. i \<le> fst x;
      k0 \<le> length items; \<forall>k<length items. k < k0 \<longleftrightarrow> hd (rc_lines (items ! k)) < lines_before run i\<rbrakk> \<Longrightarrow>
    \<exists>outs. emit_blocks trig alphabetic enclosing (drop i (List.enumerate 0 run)) ranges (drop k0 items) (lines_before run i) out =
      Inr (out @ outs) \<and> emitted_ok alphabetic (length out) (drop (lines_before run i) ls) outs"
proof (induction "length run - i" arbitrary: i pre ranges k0 out rule: less_induct)
  case less
  show ?case
  proof (cases "i = length run")
    case True
    then show ?thesis by (auto simp: ls lines_before_all emitted_ok_Nil intro!: exI [of _ "[]"])
  next
    case False
    then have i: "i < length run" using less.prems(1) by simp
    let ?lo = "lines_before run i"
    define here where "here = (case ranges of [] \<Rightarrow> None | (s, e) # _ \<Rightarrow> if s = i then Some e else None)"
    define stop where "stop = (case here of None \<Rightarrow> i | Some e \<Rightarrow> e)"
    let ?hi = "lines_before run (Suc stop)"
    have rok: "ranges_ok (pre @ ranges)" "\<forall>x\<in>set (pre @ ranges). snd x < length run" using less.prems(2) by (simp_all add: spans_ok_def)
    from next_ranges [OF rok(1) less.prems(3,4) here_def stop_def] obtain pre' where stop: "i \<le> stop"
      "stop = (case ranges of [] \<Rightarrow> i | (s, e) # _ \<Rightarrow> if s = i then e else i)"
      and pre': "pre' @ (if here = None then ranges else tl ranges) = pre @ ranges" "\<forall>x\<in>set pre'. snd x < Suc stop"
      "\<forall>x\<in>set (if here = None then ranges else tl ranges). Suc stop \<le> fst x" by blast
    have "stop < length run" using stop(2) rok(2) i by (auto split: list.splits)
    define others where "others = take (stop - i) (drop (Suc i) (List.enumerate 0 run))"
    have others: "map snd others = take (stop - i) (drop (Suc i) run)"
      by (simp add: others_def take_map [symmetric] drop_map [symmetric])
    from joined_block [OF run stop(1) \<open>stop < length run\<close> others] obtain b where
      b: "(if i < stop then merge_blocks trig alphabetic enclosing (run ! i) (map snd others) else Inr (run ! i)) = Inr b"
      "is_body b" "distinct (map ln_id (lines_of b))" "length (lines_of b) = ?hi - ?lo"
      "\<forall>j<length (lines_of b). \<exists>n. lines_of b ! j = (ls ! (?lo + j))\<lparr>ln_id := n\<rparr>" "?lo + length (lines_of b) = ?hi"
      unfolding ls by blast
    have lohi: "?lo \<le> ?hi" "?hi \<le> length ls" using b(6) lines_before_mono [of "Suc stop" "length run" run] \<open>stop < length run\<close>
      by (simp_all add: ls lines_before_all [symmetric])
    define mine where "mine = takeWhile (starts_before ?hi) (drop k0 items)"
    define k1 where "k1 = k0 + length mine"
    from items_upto [OF items less.prems(5,6) lohi(1) mine_def k1_def] have k1: "k1 \<le> length items" "mine = slice k0 k1 items"
      "\<forall>k<length items. k < k1 \<longleftrightarrow> hd (rc_lines (items ! k)) < ?hi" by blast+
    have "k0 \<le> k1" by (simp add: k1_def)
    note sl = slice_here [OF items ls less.prems(2,3,4) stop(2,1) this k1(1) less.prems(6) k1(3)]
    from attach_slice [OF items T sl lohi b(2-5)] obtain its where its: "attach_items b ?lo mine = Inr (b\<lparr>list_items := its\<rparr>)"
      "\<forall>path n. validate_block_lists alphabetic (b\<lparr>list_items := its, final_order := n\<rparr>) path = Inr ()"
      unfolding k1(2) [symmetric] by blast
    let ?b = "b\<lparr>list_items := its, final_order := length out\<rparr>"
    have "length run - Suc stop < length run - i" using stop(1) \<open>stop < length run\<close> by simp
    from less.hyps [OF this, of pre' "if here = None then ranges else tl ranges" k1 "out @ [?b]"] obtain outs where
      outs: "emit_blocks trig alphabetic enclosing (drop (Suc stop) (List.enumerate 0 run)) (if here = None then ranges else tl ranges)
          (drop k1 items) ?hi (out @ [?b]) = Inr ((out @ [?b]) @ outs)"
        "emitted_ok alphabetic (length (out @ [?b])) (drop ?hi ls) outs"
      using stop(1) \<open>stop < length run\<close> less.prems(2) pre' k1(1,3) i by (auto simp del: append_assoc)
    have one: "emitted_ok alphabetic (length out) (slice ?lo ?hi ls) [?b]"
      using its(2) line_facts_slice [OF b(4) lohi(2) b(5)] by (simp add: emitted_ok_def)
    have "drop ?lo ls = slice ?lo ?hi ls @ drop ?hi ls"
      using lohi(1) append_take_drop_id [of "?hi - ?lo" "drop ?lo ls"] by (simp add: slice_def)
    then have all: "emitted_ok alphabetic (length out) (drop ?lo ls) ([?b] @ outs)"
      using emitted_ok_append [OF one, of "drop ?hi ls" outs] outs(2) by simp
    have split: "drop i (List.enumerate 0 run) = (i, run ! i) # drop (Suc i) (List.enumerate 0 run)"
      using i by (simp add: Cons_nth_drop_Suc [symmetric] nth_enumerate_eq)
    have tail: "drop (stop - i) (drop (Suc i) (List.enumerate 0 run)) = drop (Suc stop) (List.enumerate 0 run)"
      "drop (length mine) (drop k0 items) = drop k1 items"
      using stop(1) by (simp_all add: k1_def add.commute)
    have "emit_blocks trig alphabetic enclosing (drop i (List.enumerate 0 run)) ranges (drop k0 items) ?lo out = Inr (out @ [?b] @ outs)"
      unfolding split emit_blocks.simps Let_def here_def [symmetric] stop_def [symmetric] others_def [symmetric] b(1) rbind_simps b(6)
        mine_def [symmetric] its(1) tail using outs(1) b(6) by (simp split del: if_split)
    then show ?thesis using all by blast
  qed
qed

lemma recover_run_ok:
  assumes "run_ok run"
  shows "\<exists>outs. recover_run trig alphabetic enclosing run out = Inr (out @ outs) \<and>
    emitted_ok alphabetic (length out) (concat (map lines_of run)) outs"
proof -
  define ls where "ls = concat (map lines_of run)"
  obtain items T where rec: "recover alphabetic ls = Some items" and items: "items_ok alphabetic ls (length ls) items"
    and T: "length T = length ls" "owner_table items T" and nest: "\<exists>st. nest_run items T ([], None) = Inr st" by (rule recover_facts)
  obtain st where st: "nest_run items T ([], None) = Inr st" using nest by blast
  let ?tab = "owners_of run"
  have len: "length ?tab = length ls" by (simp add: length_owners ls_def)
  have gsort: "sorted (map rc_group items)"
    using items groups_mono [of items] by (auto simp: items_ok_def sorted_iff_nth_mono)
  have same: "rfold (group_bounds (if items = [] then [] else ?tab)) items ([], None) = rfold (group_bounds ?tab) items ([], None)"
    by (cases items) simp_all
  have iok: "\<forall>r\<in>set items. item_ok alphabetic ls (length ?tab) r" "sorted_wrt (<) (map (hd \<circ> rc_lines) items)"
    using items len by (simp_all add: items_ok_def)
  define grp where "grp = (if items = [] then None else Some (rc_group (last items)))"
  from group_bounds_ok [OF iok gsort conjunct1 [OF sorted_owners [of run]]] obtain groups where
      g: "rfold (group_bounds (if items = [] then [] else ?tab)) items ([], None) = Inr (groups, grp)"
      and b: "bounds_ok ?tab items groups"
    unfolding same grp_def [symmetric] by blast
  define ranges where "ranges = fold merge_range groups []"
  from b merge_ranges_ok [of groups] have R: "ranges_ok ranges" "\<forall>x\<in>set groups. \<exists>y\<in>set ranges. in_range_of x y"
    "\<forall>y\<in>set ranges. fst y \<in> fst ` set groups \<and> snd y \<in> snd ` set groups"
    unfolding bounds_ok_def ranges_def Let_def by blast+
  have "spans_ok run items ([] @ ranges)"
    unfolding spans_ok_def append_Nil
  proof (intro conjI ballI)
    fix x assume "x \<in> set ranges"
    with R(3) obtain z where "z \<in> set groups" "snd x = snd z" by blast
    moreover have "\<forall>z\<in>set groups. snd z \<in> set ?tab" using b unfolding bounds_ok_def by blast
    ultimately have "snd x \<in> set ?tab" by simp
    then show "snd x < length run" using sorted_owners by blast
  next
    fix r assume "r \<in> set items"
    with b obtain x where x: "x \<in> set groups" "\<forall>r'\<in>set items. rc_group r' = rc_group r \<longrightarrow> covers ?tab r' x"
      unfolding bounds_ok_def by blast
    with R(2) obtain y where y: "y \<in> set ranges" "in_range_of x y" by blast
    have "covers ?tab r' x \<Longrightarrow> covers ?tab r' y" for r'
      using y(2) unfolding covers_def in_range_of_def by (meson order_trans)
    then show "\<exists>x\<in>set ranges. \<forall>r'\<in>set items. rc_group r' = rc_group r \<longrightarrow> covers ?tab r' x"
      using x(2) y(1) by blast
  qed (rule R(1))
  then have "\<exists>outs. emit_blocks trig alphabetic enclosing (drop 0 (List.enumerate 0 run)) ranges (drop 0 items) (lines_before run 0) out =
      Inr (out @ outs) \<and> emitted_ok alphabetic (length out) (drop (lines_before run 0) ls) outs"
    by (intro emit_ok [OF assms ls_def items T(2,1) st, of 0 "[]" ranges 0]) simp_all
  then show ?thesis using rec g by (simp add: recover_run_def ls_def [symmetric] ranges_def [symmetric])
qed

section \<open>All blocks\<close>

definition body_input :: "block \<Rightarrow> bool" where
  "body_input b \<longleftrightarrow> bbox_ok (bk_bbox b) \<and> distinct (map ln_id (lines_of b))"

lemma grow_run_ok:
  assumes "grow_run run bs = (r, rest)" "\<forall>b\<in>set run. body_input b \<and> is_body b" "\<forall>b\<in>set bs. body_input b"
  shows "run_ok r \<and> r @ rest = run @ bs"
  using assms
proof (induction run bs rule: grow_run.induct)
  case (2 run b bs)
  then show ?case by (cases "joins_run (last run) b") (auto simp: joins_run_def run_ok_def body_input_def)
qed (auto simp: run_ok_def body_input_def)

lemma recover_blocks_ok:
  assumes "\<forall>b\<in>set bs. body_input b"
  shows "\<exists>outs. recover_blocks trig alphabetic enclosing bs out = Inr (out @ outs) \<and>
    emitted_ok alphabetic (length out) (concat (map lines_of bs)) outs"
  using assms
proof (induction "length bs" arbitrary: bs out rule: less_induct)
  case less
  show ?case
  proof (cases bs)
    case Nil
    then show ?thesis by (auto simp: emitted_ok_Nil)
  next
    case (Cons b bs')
    let ?first = "b\<lparr>list_items := []\<rparr>"
    show ?thesis
    proof (cases "is_body ?first")
      case False
      let ?b = "?first\<lparr>final_order := length out\<rparr>"
      from less.hyps [of bs' "out @ [?b]"] less.prems obtain outs where outs:
        "recover_blocks trig alphabetic enclosing bs' (out @ [?b]) = Inr ((out @ [?b]) @ outs)"
        "emitted_ok alphabetic (length (out @ [?b])) (concat (map lines_of bs')) outs"
        by (auto simp: Cons simp del: append_assoc)
      have "emitted_ok alphabetic (length out) (lines_of b) [?b]" by (simp add: emitted_ok_def validate_block_lists_def)
      from emitted_ok_append [OF this] outs show ?thesis
        using False by (intro exI [of _ "?b # outs"]) (simp add: Cons)
    next
      case True
      obtain run rest where gr: "grow_run [?first] bs' = (run, rest)" by fastforce
      have ok: "run_ok run \<and> run @ rest = [?first] @ bs'"
        using True less.prems by (intro grow_run_ok [OF gr]) (auto simp: Cons body_input_def)
      from recover_run_ok [of run trig alphabetic enclosing out] ok obtain outs1 where one:
        "recover_run trig alphabetic enclosing run out = Inr (out @ outs1)"
        "emitted_ok alphabetic (length out) (concat (map lines_of run)) outs1" by blast
      have "set rest \<subseteq> set ([?first] @ bs')" using ok by (metis Un_iff set_append subsetI)
      then have "\<forall>b\<in>set rest. body_input b" using less.prems by (auto simp: Cons body_input_def)
      moreover have "length rest < length bs" using grow_run_length [OF gr] by (simp add: Cons)
      ultimately obtain outs2 where two: "recover_blocks trig alphabetic enclosing rest (out @ outs1) = Inr ((out @ outs1) @ outs2)"
        "emitted_ok alphabetic (length (out @ outs1)) (concat (map lines_of rest)) outs2"
        using less.hyps [of rest "out @ outs1"] by blast
      have "concat (map lines_of bs) = concat (map lines_of run) @ concat (map lines_of rest)"
        using arg_cong [OF conjunct2 [OF ok], of "\<lambda>x. concat (map lines_of x)"] by (simp add: Cons)
      then show ?thesis using one two True gr emitted_ok_append [OF one(2)]
        by (intro exI [of _ "outs1 @ outs2"]) (simp add: Cons)
    qed
  qed
qed

end
