(* ===== verification/List_Properties.thy ===== *)
theory List_Properties
  imports List_Emission
begin

text \<open>
  The properties of list recovery as a whole, with the page on which they are exercised.
\<close>

section \<open>Recovered lists\<close>

text \<open>
  C10: List recovery and the final check agree. On a page whose boxes are proper and whose blocks
  do not repeat a line identifier, the recovery never panics and never fails; every block it
  returns passes the list check, the blocks are numbered by place, and every line of the page
  comes out once, in order, unchanged up to its identifier.
\<close>

theorem recovered_lists_pass_the_check:
  assumes "list_all body_input bs"
  shows "\<exists>out. recover_list_layouts trig alphabetic enclosing bs = Inr out \<and>
    list_all (\<lambda>b. validate_block_lists alphabetic b path = Inr ()) out \<and>
    map final_order out = [0..<length out] \<and>
    map line_facts (concat (map lines_of out)) = map line_facts (concat (map lines_of bs))"
  using recover_blocks_ok [of bs trig alphabetic enclosing "[]"] assms
  by (auto simp: list_all_iff emitted_ok_def recover_list_layouts_def)

section \<open>Examples\<close>

definition list_line :: "rstr \<Rightarrow> string \<Rightarrow> int \<Rightarrow> line" where
  "list_line i s y = plain_line i [plain_item i (lit s) (box 0 y 60 (y + 10))] (box 0 y 60 (y + 10))"

definition list_block :: "string \<Rightarrow> string \<Rightarrow> int \<Rightarrow> block" where
  "list_block i s y = plain_block (lit i) Text (lit s) (box 0 y 60 (y + 10)) [list_line (lit i @ lit '':l0'') s y] 0"

definition two_item_page :: "block list" where
  "two_item_page = [list_block ''p1:b:m0:s0'' ''1. one'' 0, list_block ''p1:b:m1:s0'' ''2. two'' 12]"

definition no_polygon :: "point list \<Rightarrow> polygon option" where
  "no_polygon ps = None"

theorem recovered_lists_pass_the_check_witness:
  "\<exists>out. recover_list_layouts level_trig ascii_letter no_polygon two_item_page = Inr out \<and>
    list_all (\<lambda>b. validate_block_lists ascii_letter b [] = Inr ()) out \<and> map final_order out = [0..<length out] \<and>
    map line_facts (concat (map lines_of out)) = map line_facts (concat (map lines_of two_item_page))"
proof (rule recovered_lists_pass_the_check)
  show "list_all body_input two_item_page"
    by (simp add: two_item_page_def list_block_def list_line_def plain_block_def plain_line_def body_input_def bbox_ok_def
        box_def flt_finite)
qed

section \<open>Roman numerals before an ideographic comma\<close>

text \<open>
  A line that starts with a canonical Roman numeral in one letter case, an ideographic comma and some
  text, and that is in a position to carry a marker.
\<close>

definition ideographic_roman :: "line \<Rightarrow> bool" where
  "ideographic_roman l \<longleftrightarrow>
     (let s = trim_start (ln_text l); numeral = takeWhile is_ascii_alphabetic s
      in direction l = LeftToRight \<and> \<not> flt (Fin 2) (fabs (ln_rotation l)) \<and> roman_value numeral \<noteq> None \<and>
         (list_all is_ascii_lowercase numeral \<or> list_all is_ascii_uppercase numeral) \<and>
         (case dropWhile is_ascii_alphabetic s of [] \<Rightarrow> False | c # rest \<Rightarrow> c = 12289 \<and> trim_start rest \<noteq> []))"

lemma roman_value_text: "roman_value s = Some v \<Longrightarrow> 0 < v \<and> v < 4000 \<and> map ascii_upper s = roman_text v"
  by (auto simp: roman_value_def Let_def split: option.splits if_splits)

lemma roman_value_letters:
  assumes "roman_value s = Some v"
  shows "set (map ascii_upper s) \<subseteq> {77, 67, 68, 88, 76, 73, 86}"
proof -
  note v = roman_value_text [OF assms]
  then obtain a b c d where n: "v = a * 1000 + (b * 100 + (c * 10 + d))" "a < 4" "b < 10" "c < 10" "d < 10"
    using digits_of by blast
  have "set (numeral_text a b c d) \<subseteq> {77, 67, 68, 88, 76, 73, 86}"
    using digit_text_letters [OF n(3), of 67 68 77] digit_text_letters [OF n(4), of 88 76 67]
      digit_text_letters [OF n(5), of 73 86 88] by (auto simp: numeral_text_def)
  with v n show ?thesis by (simp add: roman_text_digits)
qed

lemma roman_value_one: "roman_value s = Some 1 \<Longrightarrow> length s = 1"
proof -
  assume "roman_value s = Some 1"
  then have "map ascii_upper s = roman_text 1" using roman_value_text by blast
  moreover have "length (roman_text 1) = 1" by code_simp
  ultimately show ?thesis by (metis length_map)
qed

lemma comma_has_no_value: "roman_value (trim_matches [40, 41, 46] [c, 12289]) = None"
proof (rule ccontr)
  assume "roman_value (trim_matches [40, 41, 46] [c, 12289]) \<noteq> None"
  then obtain v where "roman_value (trim_matches [40, 41, 46] [c, 12289]) = Some v" by blast
  from roman_value_letters [OF this] show False by (auto simp: trim_matches_def ascii_upper_def is_ascii_lowercase_def split: if_splits)
qed

text \<open>What the classifier says of such a line, and why none of its readings counts as the first.\<close>

definition never_first :: "list_mark \<Rightarrow> bool" where
  "never_first m \<longleftrightarrow> mk_kind m \<noteq> Unordered \<and> mk_kind m \<noteq> Decimal \<and> (\<forall>k. value_as m k \<noteq> Some 1)"

lemma roman_prefix:
  assumes "ideographic_roman l"
  obtains numeral k n where "marker_prefix (trim_start (ln_text l)) = Some (k, Some n, str_len (numeral @ [12289]))"
    "\<exists>rest. trim_start (ln_text l) = (numeral @ [12289]) @ rest \<and> trim_start rest \<noteq> []"
    "k \<noteq> Unordered \<and> k \<noteq> Decimal \<and> k \<noteq> BareDecimal \<and> n \<noteq> 1"
    "k = AlphaLower \<or> k = AlphaUpper \<Longrightarrow> length numeral = 1"
proof -
  let ?s = "trim_start (ln_text l)"
  define numeral where "numeral = takeWhile is_ascii_alphabetic ?s"
  from assms obtain v rest where v: "roman_value numeral = Some v"
    and rest: "dropWhile is_ascii_alphabetic ?s = 12289 # rest" "trim_start rest \<noteq> []"
    and one_case: "list_all is_ascii_lowercase numeral \<or> list_all is_ascii_uppercase numeral"
    by (auto simp: ideographic_roman_def Let_def numeral_def split: list.splits)
  have src: "?s = numeral @ 12289 # rest" unfolding numeral_def using rest(1) by (metis takeWhile_dropWhile_id)
  have alpha: "\<forall>c\<in>set numeral. is_ascii_alphabetic c" by (auto simp: numeral_def dest: set_takeWhileD)
  have "roman_value [] = None" by code_simp
  with v have "numeral \<noteq> []" by auto
  then obtain c r where num: "numeral = c # r" by (cases numeral) auto
  have c: "is_ascii_alphabetic c" using alpha num by simp
  then have first: "c \<notin> set list_bullets" "c \<noteq> 40" "\<not> is_ascii_digit c"
    by (auto simp: is_ascii_alphabetic_def is_ascii_lowercase_def is_ascii_uppercase_def list_bullets_def is_ascii_digit_def)
  have digits: "\<not> list_all is_ascii_digit numeral" using num first by simp
  have upper: "ascii_upper c \<in> {77, 67, 68, 88, 76, 73, 86}" using roman_value_letters [OF v] num by simp
  have small: "str_len numeral = length numeral"
    using alpha by (intro str_len_ascii) (auto simp: is_ascii_alphabetic_def is_ascii_lowercase_def is_ascii_uppercase_def)
  obtain k n where val: "token_value numeral True = Some (k, n)" "k \<noteq> Unordered \<and> k \<noteq> Decimal \<and> k \<noteq> BareDecimal \<and> n \<noteq> 1"
    "k = AlphaLower \<or> k = AlphaUpper \<Longrightarrow> length numeral = 1"
  proof (cases "length numeral = 1")
    case True
    with upper c num digits that [of "if is_ascii_lowercase c then AlphaLower else AlphaUpper" "nat (ascii_lower c - 97 + 1)"] show ?thesis
      by (auto simp: token_value_def ascii_lower_def ascii_upper_def is_ascii_lowercase_def is_ascii_uppercase_def is_ascii_alphabetic_def split: if_splits)
  next
    case False
    with v roman_value_one have "v \<noteq> 1" by auto
    have "token_value numeral True = Some (if is_ascii_lowercase c then RomanLower else RomanUpper, v)"
      using False digits one_case v num by (auto simp: token_value_def)
    with \<open>v \<noteq> 1\<close> False show ?thesis by (intro that) (auto split: if_splits)
  qed
  have "takeWhile is_ascii_alphabetic ?s = numeral" by (simp add: numeral_def)
  moreover have "get_to ?s (length numeral) = Some numeral" "get_from ?s (length numeral) = Some (12289 # rest)"
    using str_split_prefix [of numeral "12289 # rest"] small src by (simp_all add: get_to_def get_from_def)
  moreover have "get_from ?s 0 = Some ?s" by (simp add: get_from_def)
  moreover have "token_class ?s = is_ascii_alphabetic" using first src num by (simp add: token_class_def)
  ultimately have "marker_prefix ?s = Some (k, Some n, str_len (numeral @ [12289]))"
    using first val(1,2) num src small by (simp add: marker_prefix_def Let_def)
  with src rest(2) val(2,3) show ?thesis by (intro that [of k n numeral]) auto
qed

lemma ideographic_marker:
  assumes "ideographic_roman l"
  shows "\<exists>m. list_marker alphabetic l = Some m \<and> never_first m"
proof -
  obtain numeral k n rest where pre: "marker_prefix (trim_start (ln_text l)) = Some (k, Some n, str_len (numeral @ [12289]))"
    and src: "trim_start (ln_text l) = (numeral @ [12289]) @ rest" "trim_start rest \<noteq> []"
    and k: "k \<noteq> Unordered \<and> k \<noteq> Decimal \<and> k \<noteq> BareDecimal \<and> n \<noteq> 1" "k = AlphaLower \<or> k = AlphaUpper \<Longrightarrow> length numeral = 1"
    by (rule roman_prefix [OF assms]) blast
  have side: "direction l = LeftToRight" "\<not> flt (Fin 2) (fabs (ln_rotation l))" using assms by (auto simp: ideographic_roman_def Let_def)
  have split: "str_split (trim_start (ln_text l)) (str_len (numeral @ [12289])) = Some (numeral @ [12289], rest)"
    unfolding src(1) by (rule str_split_prefix)
  define m where "m = \<lparr>mk_kind = k, mk_text = numeral @ [12289], mk_end = str_len (ln_text l) - str_len (trim_start rest), mk_ordinal = Some n\<rparr>"
  have "list_marker alphabetic l = Some m"
    using side pre split src(2) k by (simp add: list_marker_def Let_def m_def)
  moreover have "value_as m f \<noteq> Some 1" for f
  proof (cases "k = AlphaLower \<or> k = AlphaUpper")
    case True
    then obtain c where "numeral = [c]" using k(2) by (auto simp: length_Suc_conv)
    then show ?thesis using k comma_has_no_value [of c] by (auto simp: value_as_def m_def)
  qed (use k in \<open>auto simp: value_as_def m_def\<close>)
  ultimately show ?thesis using k by (auto simp: never_first_def m_def)
qed

text \<open>A run of lines is only counted from a line that can be the first.\<close>

lemma no_runs:
  assumes "\<forall>x\<in>set xs. \<forall>m. snd (snd x) = Some m \<longrightarrow> value_as m k \<noteq> Some 1"
  shows "fold (confirm_line ls k) xs ([], conf) = ([], conf)"
  using assms by (induction xs) (auto simp: confirm_line_def rposition_def split: option.split)

lemma tagged_marker: "x \<in> set (tagged ls ms) \<Longrightarrow> snd (snd x) \<in> set ms"
  by (cases x) (auto simp: tagged_def enumerate_eq_zip dest!: set_zip_rightD)

lemma unstarted_markers:
  assumes "\<forall>m\<in>set ms. \<forall>m'. m = Some m' \<longrightarrow> (\<forall>k. value_as m' k \<noteq> Some 1)"
  shows "confirmed_markers ls ms = replicate (length ls) None"
proof -
  have "fold (confirm_line ls k) (tagged ls ms) ([], conf) = ([], conf)" for k conf
    using assms(1) tagged_marker by (intro no_runs) fast
  then show ?thesis by (simp add: confirmed_markers_def confirm_family_def)
qed

lemma unmarked_loop:
  "\<forall>x\<in>set xs. snd (snd x) = None \<Longrightarrow> rv_active s = [] \<Longrightarrow> map_option rv_items (recover_loop ls xs s) = Some (rv_items s)"
proof (induction xs arbitrary: s)
  case (Cons x xs)
  let ?s = "s\<lparr>rv_active := [], rv_previous := None, rv_indents := []\<rparr>"
  have "recover_step ls x s = Some ?s" using Cons.prems by (cases x) (simp add: recover_step_def continue_item_def rposition_def)
  with Cons.IH [of ?s] Cons.prems(1) show ?case by simp
qed simp

lemma keep_unconfirmed: "map2 keep_marker ms (replicate (length ms) None) = map (\<lambda>m. keep_marker m None) ms"
  by (induction ms) simp_all

text \<open>
  C37: The classifier accepts the ideographic comma as a marker's punctuation for every family, yet
  recovery finds nothing in a list numbered with Roman numerals and this comma. However many such
  lines there are, wherever they stand and whichever numerals in either case they bear, each line
  carries a marker and no item is recovered: the single letter that has to start the count is read
  as a numeral only after trimming parentheses and full stops. The example has three lines that are
  recovered as the items of one list when a full stop takes the place of the comma.
\<close>

theorem ideographic_roman_lists_are_lost:
  assumes "list_all ideographic_roman ls"
  shows "list_all (\<lambda>l. list_marker alphabetic l \<noteq> None) ls \<and> recover alphabetic ls = Some []"
proof
  have marked: "\<forall>l\<in>set ls. \<exists>m. list_marker alphabetic l = Some m \<and> never_first m"
    using assms ideographic_marker by (auto simp: list_all_iff)
  then show "list_all (\<lambda>l. list_marker alphabetic l \<noteq> None) ls" by (force simp: list_all_iff)
  let ?ms = "map (list_marker alphabetic) ls"
  have "confirmed_markers ls ?ms = replicate (length ls) None"
    using marked by (intro unstarted_markers) (auto simp: never_first_def)
  then have "final_markers alphabetic ls = map (\<lambda>m. keep_marker m None) ?ms"
    using keep_unconfirmed [of ?ms] by (simp add: final_markers_def Let_def)
  moreover have "keep_marker m None = None" if "m \<in> set ?ms" for m
    using marked that by (auto simp: keep_marker_def never_first_def)
  ultimately have "\<forall>x\<in>set (tagged ls (final_markers alphabetic ls)). snd (snd x) = None"
    using tagged_marker by fastforce
  from unmarked_loop [OF this, of no_recovery] show "recover alphabetic ls = Some []"
    by (simp add: recover_def no_recovery_def)
qed

text \<open>Three lines numbered \<open>i\<close>, \<open>ii\<close>, \<open>iii\<close> with a given separator character.\<close>

definition roman_line :: "uchar \<Rightarrow> string \<Rightarrow> int \<Rightarrow> line" where
  "roman_line c s y = (let i = lit ''p1:l'' @ show_nat (nat y) in plain_line i
     [plain_item i (lit s @ c # lit '' item'') (box 0 y 60 (y + 10))] (box 0 y 60 (y + 10)))"
definition roman_lines :: "uchar \<Rightarrow> line list" where
  "roman_lines c = [roman_line c ''i'' 0, roman_line c ''ii'' 12, roman_line c ''iii'' 24]"

text \<open>With full stops the three lines are one list of three items.\<close>

definition roman_mark :: "nat \<Rightarrow> list_mark" where
  "roman_mark n = \<lparr>mk_kind = RomanLower, mk_text = replicate n 105 @ [46], mk_end = n + 2, mk_ordinal = Some n\<rparr>"

definition roman_items :: "recovered_item list" where
  "roman_items = map (\<lambda>n. \<lparr>rc_group = 0, rc_level = 0, rc_marker = roman_mark (n + 1), rc_lines = [n]\<rparr>) [0, 1, 2]"

lemma stopped_roman_markers: "final_markers ascii_letter (roman_lines 46) = map (Some \<circ> roman_mark) [1, 2, 3]"
  by code_simp

definition roman_state :: "nat \<Rightarrow> recovery" where
  "roman_state n = \<lparr>rv_items = take n roman_items, rv_indents = [Fin 0], rv_previous = Some (n - 1), rv_active = [(n - 1, n - 1)], rv_group = 0\<rparr>"

lemma stopped_roman_steps:
  "add_item (roman_lines 46) 0 (roman_line 46 ''i'' 0) (roman_mark 1) no_recovery = roman_state 1"
  "add_item (roman_lines 46) 1 (roman_line 46 ''ii'' 12) (roman_mark 2) (roman_state 1) = roman_state 2"
  "add_item (roman_lines 46) 2 (roman_line 46 ''iii'' 24) (roman_mark 3) (roman_state 2) = roman_state 3"
  by code_simp+

lemma stopped_roman_items: "recover ascii_letter (roman_lines 46) = Some roman_items"
proof -
  have "tagged (roman_lines 46) (map (Some \<circ> roman_mark) [1, 2, 3]) =
      [(0, roman_line 46 ''i'' 0, Some (roman_mark 1)), (1, roman_line 46 ''ii'' 12, Some (roman_mark 2)),
       (2, roman_line 46 ''iii'' 24, Some (roman_mark 3))]" by code_simp
  moreover have "rv_items (roman_state 3) = roman_items" by code_simp
  ultimately show ?thesis
    by (simp only: recover_def stopped_roman_markers recover_loop.simps recover_step_def prod.case option.case stopped_roman_steps option.map)
qed

theorem ideographic_roman_lists_are_lost_witness:
  "list_all (\<lambda>l. list_marker ascii_letter l \<noteq> None) (roman_lines 12289) \<and> recover ascii_letter (roman_lines 12289) = Some [] \<and>
   recover ascii_letter (roman_lines 46) = Some roman_items"
proof -
  have "list_all ideographic_roman (roman_lines 12289)" by code_simp
  from ideographic_roman_lists_are_lost [OF this] stopped_roman_items show ?thesis by blast
qed

end
