(* ===== verification/Page_Result.thy ===== *)
theory Page_Result
  imports Table_Check
begin

text \<open>
  The page and document aggregates of \<open>crates/core/src/types.rs\<close> that the final validation
  reads. Warnings, diagnostics and document metadata, which nothing here reads, are left out.
\<close>

record formula_result =
  engine :: rstr
  fr_id :: rstr
  fr_label :: layout_label
  fr_bbox :: bbox
  crop_bbox :: "bbox option"
  fr_block_id :: "rstr option"
  fr_line_id :: "rstr option"
  fr_text_item_range :: "text_item_range option"
  text_spans :: "table_text_span list"
  fr_table_cell :: "(nat \<times> nat) option"
  latex :: "rstr option"
  markdown :: "rstr option"
  fr_error :: "rstr option"

record page_result =
  page_number :: nat
  page_width :: f64
  page_height :: f64
  page_rotation :: int
  blocks :: "block list"
  images :: "page_image_asset list"
  formulas :: "formula_result list"
  replaced_native_text :: "text_item list"

definition page_lines :: "page_result \<Rightarrow> line list" where
  "page_lines p = concat (map lines_of (blocks p))"

definition page_items :: "page_result \<Rightarrow> text_item list" where
  "page_items p = concat (map text_items (page_lines p))"

record document_context =
  page_count :: nat
  body_font_size :: "f64 option"

record node_ref =
  nr_page :: nat
  nr_block_id :: rstr
  nr_line_id :: "rstr option"

datatype relation_kind = RepeatedChrome | ParagraphContinuation | HeadingHierarchy | TableContinuationCandidate

record document_relation =
  rel_kind :: relation_kind
  rel_source :: node_ref
  rel_target :: node_ref
  rel_score :: "f64 option"
  rel_evidence :: "evidence list"

record document_result =
  doc_context :: document_context
  pages :: "page_result list"
  relations :: "document_relation list"

end
