(* ===== verification/Validator.thy ===== *)
theory Validator
  imports Page_Result List_Check Block_Text Stable_Ids
begin

text \<open>
  The final validation of a document: \<open>ResultValidator\<close> of \<open>crates/core/src/validate.rs\<close>, check
  by check, in the order of the code. An error is the first failing node's path and the reason.
  The three \<open>BTreeSet\<close>s of identifiers seen so far are lists that an insertion must extend.

  Parameters: the bounds of a polygon (the external geometry crate) and, through the list and
  text checks, the letter test and the sine and cosine of an angle.
\<close>

section \<open>Paths and small checks\<close>

definition at_index :: "rstr \<Rightarrow> string \<Rightarrow> nat \<Rightarrow> rstr" where
  "at_index path field i = path @ lit field @ lit ''['' @ show_nat i @ lit '']''"

definition invalid :: "rstr \<Rightarrow> string \<Rightarrow> invalid_node" where
  "invalid path msg = (path, lit msg)"

text \<open>\<open>BTreeSet::insert\<close>, which must be new.\<close>

definition insert_new :: "invalid_node \<Rightarrow> rstr \<Rightarrow> rstr list \<Rightarrow> invalid_node + rstr list" where
  "insert_new e x seen = (if x \<in> set seen then Inl e else Inr (x # seen))"

definition geometry_tolerance :: f64 where
  "geometry_tolerance = rnd (1 / 100)"

definition bbox_contains :: "bbox \<Rightarrow> bbox \<Rightarrow> bool" where
  "bbox_contains outer inner \<longleftrightarrow>
     fle (fsub (left outer) geometry_tolerance) (left inner) \<and> fle (fsub (top_of outer) geometry_tolerance) (top_of inner) \<and>
     fle (right inner) (fadd (right outer) geometry_tolerance) \<and> fle (bottom inner) (fadd (bottom outer) geometry_tolerance)"

definition validate_bbox :: "bbox \<Rightarrow> rstr \<Rightarrow> invalid_node + unit" where
  "validate_bbox b path =
     ensure (is_finite (left b) \<and> is_finite (top_of b) \<and> is_finite (right b) \<and> is_finite (bottom b) \<and>
             flt (left b) (right b) \<and> flt (top_of b) (bottom b))
       (invalid path ''bbox must be finite with positive area'')"

definition validate_confidence :: "f64 option \<Rightarrow> rstr \<Rightarrow> invalid_node + unit" where
  "validate_confidence v path =
     ensure (case v of None \<Rightarrow> True | Some x \<Rightarrow> is_finite x \<and> fle (Fin 0) x \<and> fle x (Fin 1))
       (invalid path ''must be finite and within [0, 1]'')"

definition show_opt :: "nat option \<Rightarrow> rstr" where
  "show_opt v = (case v of None \<Rightarrow> lit ''None'' | Some n \<Rightarrow> lit ''Some('' @ show_nat n @ lit '')'')"

definition validate_id_page :: "rstr \<Rightarrow> nat \<Rightarrow> rstr \<Rightarrow> invalid_node + unit" where
  "validate_id_page i expected path =
     ensure (id_page i = Some expected)
       (path, lit ''ID page '' @ show_opt (id_page i) @ lit '' does not match owner page '' @ show_nat expected)"

definition validate_text_range :: "text_item_range \<Rightarrow> nat \<Rightarrow> rstr \<Rightarrow> invalid_node + unit" where
  "validate_text_range r n path =
     ensure (range_start r \<le> range_end r \<and> range_end r \<le> n)
       (path, lit ''range '' @ show_nat (range_start r) @ lit ''..'' @ show_nat (range_end r) @ lit '' exceeds '' @ show_nat n @ lit '' text items'')"

definition polygon_inside :: "(polygon \<Rightarrow> bbox) \<Rightarrow> bbox \<Rightarrow> polygon option \<Rightarrow> bool" where
  "polygon_inside bounds b p \<longleftrightarrow> (case p of None \<Rightarrow> True | Some q \<Rightarrow> bbox_contains b (bounds q))"

section \<open>Images\<close>

definition check_asset :: "rstr \<Rightarrow> nat \<times> page_image_asset \<Rightarrow> rstr list \<Rightarrow> invalid_node + rstr list" where
  "check_asset path x seen =
     (case x of (i, a) \<Rightarrow>
        let e = invalid (at_index path ''.images'' i) ''image IDs must be non-empty and unique''
        in rbind (ensure (as_id a \<noteq> []) e) (\<lambda>_.
           rbind (insert_new e (as_id a) seen) (\<lambda>seen.
           rbind (validate_bbox (as_bbox a) (at_index path ''.images'' i @ lit ''.bbox'')) (\<lambda>_. Inr seen))))"

definition check_image :: "rstr \<times> figure_image \<Rightarrow> invalid_node + unit" where
  "check_image x =
     (case x of (path, im) \<Rightarrow>
        rbind (ensure (im_width im \<noteq> 0 \<and> im_height im \<noteq> 0) (invalid path ''width and height must be positive'')) (\<lambda>_.
        case delivery im of
          File p \<Rightarrow> ensure (p \<noteq> [] \<and> hd p = 47) (invalid (path @ lit ''.delivery.path'') ''must be a non-empty absolute path'')
        | Inline d \<Rightarrow> ensure (d \<noteq> []) (invalid (path @ lit ''.delivery.data_base64'') ''must be non-empty'')))"

definition page_image_list :: "rstr \<Rightarrow> page_result \<Rightarrow> (rstr \<times> figure_image) list" where
  "page_image_list path p =
     map (\<lambda>(i, a). (at_index path ''.images'' i @ lit ''.image'', image a)) (List.enumerate 0 (images p)) @
     List.map_filter (\<lambda>(i, b). map_option (\<lambda>im. (at_index path ''.blocks'' i @ lit ''.image'', im)) (bk_image b))
       (List.enumerate 0 (blocks p))"

section \<open>Formulas\<close>

definition formula_text :: "layout_label \<Rightarrow> rstr \<Rightarrow> rstr" where
  "formula_text lab s =
     (if lab = InlineFormula then lit ''$'' @ s @ lit ''$'' else lit ''$$'' @ [10] @ s @ [10] @ lit ''$$'')"

definition check_formula_content :: "formula_result \<Rightarrow> rstr \<Rightarrow> invalid_node + unit" where
  "check_formula_content f loc =
     (case (latex f, markdown f, fr_error f) of
        (Some s, Some md, None) \<Rightarrow>
          if trim s \<noteq> [] then ensure (md = formula_text (fr_label f) s) (invalid loc ''formula LaTeX and Markdown disagree'')
          else Inl (invalid loc ''formula must contain both representations or an explicit failure'')
      | (None, None, Some e) \<Rightarrow> ensure (e \<noteq> []) (invalid loc ''formula must contain both representations or an explicit failure'')
      | _ \<Rightarrow> Inl (invalid loc ''formula must contain both representations or an explicit failure''))"

definition find_block :: "page_result \<Rightarrow> rstr \<Rightarrow> block option" where
  "find_block p i = List.find (\<lambda>b. bk_id b = i) (blocks p)"

definition check_formula_span :: "block option \<Rightarrow> rstr \<Rightarrow> table_text_span \<Rightarrow> invalid_node + unit" where
  "check_formula_span b loc sp =
     rbind (ok_or (invalid loc ''formula source item is missing'')
       (List.find (\<lambda>it. it_id it = text_item_id sp)
          (case b of None \<Rightarrow> [] | Some b \<Rightarrow> concat (map text_items (lines_of b))))) (\<lambda>it.
     rbind (ensure (byte_start sp < byte_end sp \<and> get_range (raw_text it) (byte_start sp) (byte_end sp) \<noteq> None)
       (invalid loc ''formula source bytes are invalid'')) (\<lambda>_.
     validate_bbox (ts_bbox sp) loc))"

definition check_formula_anchor :: "block option \<Rightarrow> formula_result \<Rightarrow> rstr \<Rightarrow> invalid_node + unit" where
  "check_formula_anchor b f loc =
     (case (fr_line_id f, fr_text_item_range f, fr_table_cell f) of
        (Some i, Some r, None) \<Rightarrow>
          rbind (ok_or (invalid loc ''formula line reference is missing'')
            (case b of None \<Rightarrow> None | Some b \<Rightarrow> List.find (\<lambda>l. ln_id l = i) (lines_of b))) (\<lambda>l.
          ensure (range_start r \<le> range_end r \<and> range_end r \<le> length (text_items l))
            (invalid loc ''formula text range exceeds its source line''))
      | (None, None, Some (r, c)) \<Rightarrow>
          ensure (case b of None \<Rightarrow> False
                  | Some b \<Rightarrow> is_some_and (table_of b) (\<lambda>t. \<exists>x\<in>set (cells t). row x = r \<and> column x = c))
            (invalid loc ''formula cell reference is missing'')
      | (None, None, None) \<Rightarrow> Inr ()
      | _ \<Rightarrow> Inl (invalid loc ''formula anchors are inconsistent''))"

definition check_formula :: "rstr \<Rightarrow> page_result \<Rightarrow> nat \<times> formula_result \<Rightarrow> rstr list \<Rightarrow> invalid_node + rstr list" where
  "check_formula path p x seen =
     (case x of (i, f) \<Rightarrow>
        let loc = at_index path ''.formulas'' i; e = invalid loc ''formula identity or label is invalid'';
            b = (case fr_block_id f of None \<Rightarrow> None | Some i \<Rightarrow> find_block p i)
        in rbind (validate_id_page (fr_id f) (page_number p) loc) (\<lambda>_.
           rbind (validate_bbox (fr_bbox f) loc) (\<lambda>_.
           rbind (case crop_bbox f of None \<Rightarrow> Inr ()
                  | Some crop \<Rightarrow> rbind (validate_bbox crop loc) (\<lambda>_.
                      ensure (contains_bbox crop (fr_bbox f)) (invalid loc ''formula crop must contain its original detection box''))) (\<lambda>_.
           rbind (insert_new e (fr_id f) seen) (\<lambda>seen.
           rbind (ensure (fr_label f = InlineFormula \<or> fr_label f = DisplayFormula) e) (\<lambda>_.
           rbind (check_formula_content f loc) (\<lambda>_.
           rbind (reach (check_formula_span b loc) (text_spans f)) (\<lambda>_.
           rbind (ensure (fr_block_id f = None \<or> b \<noteq> None) (invalid loc ''formula block reference is missing'')) (\<lambda>_.
           rbind (check_formula_anchor b f loc) (\<lambda>_. Inr seen))))))))))"

section \<open>Archived native text\<close>

definition check_archived ::
  "(polygon \<Rightarrow> bbox) \<Rightarrow> rstr \<Rightarrow> page_result \<Rightarrow> nat \<times> text_item \<Rightarrow> rstr list \<Rightarrow> invalid_node + rstr list" where
  "check_archived bounds path p x seen =
     (case x of (i, it) \<Rightarrow>
        let loc = at_index path ''.replaced_native_text'' i;
            e = invalid loc ''archive must uniquely own non-watermark native facts''
        in rbind (validate_id_page (it_id it) (page_number p) loc) (\<lambda>_.
           rbind (ensure (it_source it = Native \<and> it_watermark it = None) e) (\<lambda>_.
           rbind (insert_new e (it_id it) seen) (\<lambda>seen.
           rbind (validate_bbox (it_bbox it) loc) (\<lambda>_.
           rbind (validate_confidence (it_confidence it) loc) (\<lambda>_.
           rbind (ensure (is_finite (it_rotation it) \<and> polygon_inside bounds (it_bbox it) (it_polygon it))
             (invalid loc ''invalid archived text geometry'')) (\<lambda>_. Inr seen)))))))"


section \<open>Text items and lines\<close>

definition expected_order :: "rstr \<Rightarrow> nat \<Rightarrow> nat \<Rightarrow> invalid_node" where
  "expected_order path i n = (path, lit ''final_order must equal array index '' @ show_nat i @ lit '', got '' @ show_nat n)"

text \<open>One item, with the identifiers seen and the bytes of the line's text consumed.\<close>

definition check_item ::
  "(polygon \<Rightarrow> bbox) \<Rightarrow> page_result \<Rightarrow> block \<Rightarrow> line \<Rightarrow> rstr \<Rightarrow> nat \<times> text_item \<Rightarrow> rstr list \<times> nat \<Rightarrow> invalid_node + (rstr list \<times> nat)" where
  "check_item bounds p b l path x st =
     (case (x, st) of ((k, it), (seen, offset)) \<Rightarrow>
        let loc = at_index path ''.text_items'' k;
            text_error = invalid (path @ lit ''.text'') ''must concatenate ordered TextItem raw_text exactly''
        in rbind (ensure (it_final_order it = k) (expected_order loc k (it_final_order it))) (\<lambda>_.
           rbind (validate_id_page (it_id it) (page_number p) loc) (\<lambda>_.
           rbind (insert_new (invalid loc ''duplicate TextItemId ownership'') (it_id it) seen) (\<lambda>seen.
           rbind (validate_bbox (it_bbox it) (loc @ lit ''.bbox'')) (\<lambda>_.
           rbind (ensure ((it_watermark it \<noteq> None) = (label b = Watermark))
             (invalid loc ''watermark facts must belong exclusively to a watermark block'')) (\<lambda>_.
           rbind (ensure (polygon_inside bounds (it_bbox it) (it_polygon it)) (invalid loc ''text polygon must stay inside its bbox'')) (\<lambda>_.
           rbind (ensure (bbox_contains (ln_bbox l) (it_bbox it))
             (invalid (loc @ lit ''.bbox'') ''text item must be inside final Line bbox tolerance'')) (\<lambda>_.
           rbind (validate_confidence (it_confidence it) (loc @ lit ''.confidence'')) (\<lambda>_.
           rbind (ensure (is_finite (it_rotation it)) (invalid (loc @ lit ''.rotation'') ''must be finite'')) (\<lambda>_.
           rbind (ok_or (invalid (path @ lit ''.text'') ''raw text length overflow'') (checked_add offset (str_len (raw_text it)))) (\<lambda>stop.
           rbind (ensure (get_range (ln_text l) offset stop = Some (raw_text it)) text_error) (\<lambda>_. Inr (seen, stop)))))))))))))"

definition check_inline_span :: "rstr \<Rightarrow> nat \<Rightarrow> nat \<times> inline_span \<Rightarrow> invalid_node + unit" where
  "check_inline_span path n x =
     (case x of (k, sp) \<Rightarrow>
        let loc = at_index path ''.inline_spans'' k
        in rbind (validate_bbox (sp_bbox sp) (loc @ lit ''.bbox'')) (\<lambda>_.
           rbind (validate_text_range (text_item_range sp) n (loc @ lit ''.text_item_range'')) (\<lambda>_.
           validate_confidence (sp_confidence sp) (loc @ lit ''.confidence''))))"

definition check_line ::
  "(polygon \<Rightarrow> bbox) \<Rightarrow> page_result \<Rightarrow> block \<Rightarrow> rstr \<Rightarrow> nat \<times> line \<Rightarrow> rstr list \<times> rstr list \<Rightarrow> invalid_node + (rstr list \<times> rstr list)" where
  "check_line bounds p b path x st =
     (case (x, st) of ((i, l), (line_seen, item_seen)) \<Rightarrow>
        let loc = at_index path ''.lines'' i
        in rbind (validate_id_page (ln_id l) (page_number p) loc) (\<lambda>_.
           rbind (ensure (starts_with (ln_id l) (bk_id b)) (invalid loc ''LineId parent does not match BlockId'')) (\<lambda>_.
           rbind (insert_new (invalid loc ''duplicate LineId'') (ln_id l) line_seen) (\<lambda>line_seen.
           rbind (validate_bbox (ln_bbox l) (loc @ lit ''.bbox'')) (\<lambda>_.
           rbind (ensure (bbox_contains (bk_bbox b) (ln_bbox l))
             (invalid (loc @ lit ''.bbox'') ''line must be inside final Block bbox tolerance'')) (\<lambda>_.
           rbind (validate_confidence (model_region_coverage l) (loc @ lit ''.model_region_coverage'')) (\<lambda>_.
           rbind (rfold (check_item bounds p b l loc) (List.enumerate 0 (text_items l)) (item_seen, 0)) (\<lambda>(item_seen, offset).
           rbind (ensure (offset = str_len (ln_text l))
             (invalid (loc @ lit ''.text'') ''must concatenate ordered TextItem raw_text exactly'')) (\<lambda>_.
           rbind (reach (check_inline_span loc (length (text_items l))) (List.enumerate 0 (inline_spans l))) (\<lambda>_.
           Inr (line_seen, item_seen)))))))))))"

section \<open>Blocks\<close>

definition check_source ::
  "page_result \<Rightarrow> block \<Rightarrow> rstr \<Rightarrow> nat \<times> source_region \<Rightarrow> rstr list \<Rightarrow> invalid_node + rstr list" where
  "check_source p b path x seen =
     (case x of (k, s) \<Rightarrow>
        let loc = (if source_regions b = [] then path @ lit ''.source_region'' else at_index path ''.source_regions'' k)
        in rbind (validate_bbox (sr_bbox s) (loc @ lit ''.bbox'')) (\<lambda>_.
           rbind (ensure ((sr_model_region_id s \<noteq> None) \<noteq> (sr_fallback_region_id s \<noteq> None))
             (invalid loc ''must reference exactly one model or fallback region'')) (\<lambda>_.
           rbind (case sr_model_region_id s of None \<Rightarrow> Inr seen
                  | Some i \<Rightarrow> rbind (validate_id_page i (page_number p) loc) (\<lambda>_.
                      insert_new (invalid loc ''model source must contribute to exactly one final Block'') i seen)) (\<lambda>seen.
           rbind (case sr_fallback_region_id s of None \<Rightarrow> Inr () | Some i \<Rightarrow> validate_id_page i (page_number p) loc) (\<lambda>_.
           Inr seen)))))"

text \<open>The identifiers seen: blocks, lines and items of the document, regions and sources of the page.\<close>

record seen_ids =
  seen_blocks :: "rstr list"
  seen_lines :: "rstr list"
  seen_items :: "rstr list"

type_synonym page_state = "seen_ids \<times> rstr list \<times> rstr list"

definition check_block_header ::
  "(polygon \<Rightarrow> bbox) \<Rightarrow> page_result \<Rightarrow> rstr \<Rightarrow> nat \<Rightarrow> block \<Rightarrow> rstr list \<times> rstr list \<Rightarrow> invalid_node + (rstr list \<times> rstr list)" where
  "check_block_header bounds p loc i b st =
     (case st of (block_seen, regions) \<Rightarrow>
        rbind (ensure (final_order b = i) (expected_order loc i (final_order b))) (\<lambda>_.
        rbind (validate_id_page (bk_id b) (page_number p) loc) (\<lambda>_.
        rbind (insert_new (invalid loc ''duplicate BlockId'') (bk_id b) block_seen) (\<lambda>block_seen.
        rbind (validate_bbox (bk_bbox b) (loc @ lit ''.bbox'')) (\<lambda>_.
        rbind (ensure (\<not> (label b = Reference \<and> (bk_text b \<noteq> [] \<or> lines_of b \<noteq> [] \<or> source_regions b \<noteq> [])))
          (invalid loc ''reference annotations must not own text or merged layouts'')) (\<lambda>_.
        rbind (ensure (polygon_inside bounds (bk_bbox b) (bk_polygon b))
          (invalid (loc @ lit ''.polygon'') ''polygon must stay inside the conservative Block bbox'')) (\<lambda>_.
        rbind (ensure (\<not> (label b = Watermark \<and> model_region_id b \<noteq> None)) (invalid loc ''watermark must not own a model region'')) (\<lambda>_.
        rbind (validate_confidence (bk_confidence b) (loc @ lit ''.confidence'')) (\<lambda>_.
        rbind (case model_region_id b of None \<Rightarrow> Inr regions
               | Some r \<Rightarrow> rbind (validate_id_page r (page_number p) (loc @ lit ''.model_region_id'')) (\<lambda>_.
                   insert_new (invalid (loc @ lit ''.model_region_id'') ''must identify exactly one final model Block'') r regions)) (\<lambda>regions.
        rbind (ensure (\<not> (source_regions b \<noteq> [] \<and>
            (case source_region b of None \<Rightarrow> True | Some s \<Rightarrow> \<not> (\<exists>t\<in>set (source_regions b). source_region_eq t s))))
          (invalid (loc @ lit ''.source_regions'') ''merged regions must retain the primary source'')) (\<lambda>_.
        Inr (block_seen, regions))))))))))))"

definition check_block ::
  "(f64 \<Rightarrow> f64 \<times> f64) \<Rightarrow> (uchar \<Rightarrow> bool) \<Rightarrow> (polygon \<Rightarrow> bbox) \<Rightarrow> page_result \<Rightarrow> rstr \<Rightarrow> nat \<times> block \<Rightarrow> page_state \<Rightarrow> invalid_node + page_state" where
  "check_block trig alphabetic bounds p path x st =
     (case (x, st) of ((i, b), (ids, regions, sources)) \<Rightarrow>
        let loc = at_index path ''.blocks'' i
        in rbind (check_block_header bounds p loc i b (seen_blocks ids, regions)) (\<lambda>(block_seen, regions).
           rbind (rfold (check_source p b loc) (List.enumerate 0 (all_source_regions b)) sources) (\<lambda>sources.
           rbind (validate_block_lists alphabetic b loc) (\<lambda>_.
           rbind (rfold (check_line bounds p b loc) (List.enumerate 0 (lines_of b)) (seen_lines ids, seen_items ids)) (\<lambda>(line_seen, item_seen).
           rbind (case table_of b of None \<Rightarrow> Inr ()
                  | Some t \<Rightarrow> (case table_validate t b of Inl e \<Rightarrow> Inl (invalid (loc @ lit ''.table'') e) | Inr u \<Rightarrow> Inr u)) (\<lambda>_.
           rbind (ensure (text_matches_lines trig alphabetic b)
             (invalid (loc @ lit ''.text'') ''must match the label-aware ordered Line projection'')) (\<lambda>_.
           Inr (\<lparr>seen_blocks = block_seen, seen_lines = line_seen, seen_items = item_seen\<rparr>, regions, sources))))))))"

text \<open>Content blocks must not contain one another, unless one is a sparse union.\<close>

definition is_sparse :: "block \<Rightarrow> bool" where
  "is_sparse b \<longleftrightarrow> map_of (semantic_hints b) sparse_layout_hint = Some (lit ''true'')"

definition check_overlap :: "rstr \<Rightarrow> nat \<times> block \<times> block \<Rightarrow> invalid_node + unit" where
  "check_overlap path x =
     (case x of (i, b, other) \<Rightarrow>
        ensure (\<not> ((contains_bbox (bk_bbox b) (bk_bbox other) \<or> contains_bbox (bk_bbox other) (bk_bbox b)) \<and>
                   \<not> is_sparse b \<and> \<not> is_sparse other))
          (at_index path ''.blocks'' i @ lit ''.bbox'', lit ''content layout must be merged with '' @ bk_id other))"

definition content_pairs :: "block list \<Rightarrow> (nat \<times> block \<times> block) list" where
  "content_pairs bs =
     concat (map (\<lambda>(i, b). map (\<lambda>other. (i, b, other)) (filter (\<lambda>o'. \<not> is_detached o') (drop (i + 1) bs)))
       (filter (\<lambda>(i, b). \<not> is_detached b) (List.enumerate 0 bs)))"

section \<open>Pages and documents\<close>

definition check_page_size :: "page_result \<Rightarrow> rstr \<Rightarrow> invalid_node + unit" where
  "check_page_size p path =
     rbind (ensure (is_finite (page_width p) \<and> flt (Fin 0) (page_width p))
       (invalid (path @ lit ''.width'') ''must be finite and greater than zero'')) (\<lambda>_.
     rbind (ensure (is_finite (page_height p) \<and> flt (Fin 0) (page_height p))
       (invalid (path @ lit ''.height'') ''must be finite and greater than zero'')) (\<lambda>_.
     ensure (page_rotation p \<in> {0, 90, 180, 270}) (invalid (path @ lit ''.rotation'') ''must be 0, 90, 180, or 270 degrees'')))"

definition validate_page_node ::
  "(f64 \<Rightarrow> f64 \<times> f64) \<Rightarrow> (uchar \<Rightarrow> bool) \<Rightarrow> (polygon \<Rightarrow> bbox) \<Rightarrow> page_result \<Rightarrow> rstr \<Rightarrow> seen_ids \<Rightarrow> invalid_node + seen_ids" where
  "validate_page_node trig alphabetic bounds p path ids =
     rbind (check_page_size p path) (\<lambda>_.
     rbind (rfold (check_asset path) (List.enumerate 0 (images p)) []) (\<lambda>_.
     rbind (reach check_image (page_image_list path p)) (\<lambda>_.
     rbind (rfold (check_formula path p) (List.enumerate 0 (formulas p)) []) (\<lambda>_.
     rbind (rfold (check_archived bounds path p) (List.enumerate 0 (replaced_native_text p)) (seen_items ids)) (\<lambda>items.
     rbind (rfold (check_block trig alphabetic bounds p path) (List.enumerate 0 (blocks p)) (ids\<lparr>seen_items := items\<rparr>, [], [])) (\<lambda>(ids, _, _).
     rbind (reach (check_overlap path) (content_pairs (blocks p))) (\<lambda>_.
     Inr ids)))))))"

definition no_ids :: seen_ids where
  "no_ids = \<lparr>seen_blocks = [], seen_lines = [], seen_items = []\<rparr>"

definition validate_page ::
  "(f64 \<Rightarrow> f64 \<times> f64) \<Rightarrow> (uchar \<Rightarrow> bool) \<Rightarrow> (polygon \<Rightarrow> bbox) \<Rightarrow> page_result \<Rightarrow> invalid_node + unit" where
  "validate_page trig alphabetic bounds p =
     rbind (validate_page_node trig alphabetic bounds p (lit ''page'') no_ids) (\<lambda>_. Inr ())"

definition validate_node_ref :: "node_ref \<Rightarrow> rstr \<Rightarrow> seen_ids \<Rightarrow> invalid_node + unit" where
  "validate_node_ref r path ids =
     rbind (validate_id_page (nr_block_id r) (nr_page r) path) (\<lambda>_.
     rbind (ensure (nr_block_id r \<in> set (seen_blocks ids)) (invalid path ''relation references an unknown BlockId'')) (\<lambda>_.
     case nr_line_id r of None \<Rightarrow> Inr ()
     | Some i \<Rightarrow> rbind (validate_id_page i (nr_page r) path) (\<lambda>_.
         ensure (i \<in> set (seen_lines ids)) (invalid path ''relation references an unknown LineId''))))"

definition validate_relation :: "seen_ids \<Rightarrow> nat \<times> document_relation \<Rightarrow> invalid_node + unit" where
  "validate_relation ids x =
     (case x of (i, r) \<Rightarrow>
        let path = at_index [] ''relations'' i
        in rbind (validate_node_ref (rel_source r) (path @ lit ''.source'') ids) (\<lambda>_.
           rbind (validate_node_ref (rel_target r) (path @ lit ''.target'') ids) (\<lambda>_.
           validate_confidence (rel_score r) (path @ lit ''.score''))))"

definition check_document_page ::
  "(f64 \<Rightarrow> f64 \<times> f64) \<Rightarrow> (uchar \<Rightarrow> bool) \<Rightarrow> (polygon \<Rightarrow> bbox) \<Rightarrow> nat \<times> page_result \<Rightarrow> seen_ids \<Rightarrow> invalid_node + seen_ids" where
  "check_document_page trig alphabetic bounds x ids =
     (case x of (i, p) \<Rightarrow>
        let path = at_index [] ''pages'' i
        in rbind (ensure (int (i + 1) < u32_limit) (invalid (path @ lit ''.page_number'') ''page index exceeds u32'')) (\<lambda>_.
           rbind (ensure (page_number p = i + 1)
             (path @ lit ''.page_number'', lit ''expected '' @ show_nat (i + 1) @ lit '', got '' @ show_nat (page_number p))) (\<lambda>_.
           validate_page_node trig alphabetic bounds p path ids)))"

definition validate ::
  "(f64 \<Rightarrow> f64 \<times> f64) \<Rightarrow> (uchar \<Rightarrow> bool) \<Rightarrow> (polygon \<Rightarrow> bbox) \<Rightarrow> document_result \<Rightarrow> invalid_node + unit" where
  "validate trig alphabetic bounds d =
     rbind (ensure (page_count (doc_context d) = length (pages d))
       (lit ''context.page_count'', lit ''expected '' @ show_nat (length (pages d)) @ lit '', got '' @ show_nat (page_count (doc_context d)))) (\<lambda>_.
     rbind (ensure (case body_font_size (doc_context d) of None \<Rightarrow> True | Some v \<Rightarrow> is_finite v \<and> flt (Fin 0) v)
       (invalid (lit ''context.body_font_size'') ''must be finite and greater than zero'')) (\<lambda>_.
     rbind (rfold (check_document_page trig alphabetic bounds) (List.enumerate 0 (pages d)) no_ids) (\<lambda>ids.
     reach (validate_relation ids) (List.enumerate 0 (relations d)))))"

end
