(* ===== verification/Validator_Spec.thy ===== *)
theory Validator_Spec
  imports Validator
begin

text \<open>
  What the validator of \<open>Validator\<close> decides. The specification is declarative: no order of
  checks, no paths, no sets of identifiers carried along, only what an accepted page and
  document look like. Every loop of the validator that collects identifiers is an instance of
  the locale \<open>collector\<close>, which turns the loop into a condition on each element and
  one statement on the identifiers of all of them.
\<close>

section \<open>Loops that collect new identifiers\<close>

definition adds :: "'i list \<Rightarrow> 'i list \<Rightarrow> 'i list \<Rightarrow> bool" where
  "adds xs s t \<longleftrightarrow> distinct xs \<and> set xs \<inter> set s = {} \<and> t = rev xs @ s"

lemma adds_Nil [simp]: "adds [] s t \<longleftrightarrow> t = s"
  by (auto simp: adds_def)

lemma adds_append: "adds (xs @ ys) s t \<longleftrightarrow> (\<exists>u. adds xs s u \<and> adds ys u t)"
  by (auto simp: adds_def)

lemma adds_Cons: "adds (x # xs) s t \<longleftrightarrow> x \<notin> set s \<and> adds xs (x # s) t"
  by (auto simp: adds_def)

lemma adds_empty: "adds xs [] t \<longleftrightarrow> distinct xs \<and> t = rev xs"
  by (auto simp: adds_def)

lemma insert_new_Inr [simp, result_simps]: "insert_new e x s = Inr t \<longleftrightarrow> x \<notin> set s \<and> t = x # s"
  by (auto simp: insert_new_def)

text \<open>Accepting in sequence: a check that returns nothing, an insertion, an optional check.\<close>

lemma rbind_unit: "rbind (m :: 'e + unit) f = Inr y \<longleftrightarrow> m = Inr () \<and> f () = Inr y"
  by (cases m) simp_all

lemma rbind_insert: "rbind (insert_new e x s) f = Inr y \<longleftrightarrow> x \<notin> set s \<and> f (x # s) = Inr y"
  by (auto simp: rbind_eq_Inr)

lemma optional_ok: "(case x of None \<Rightarrow> Inr u | Some y \<Rightarrow> f y) = Inr v \<longleftrightarrow> (case x of None \<Rightarrow> u = v | Some y \<Rightarrow> f y = Inr v)"
  by (cases x) simp_all

lemma reach_all: "reach f xs = Inr u \<longleftrightarrow> list_all (\<lambda>x. f x = Inr ()) xs"
  by (simp add: reach_ok list_all_iff)

lemma adds_one: "adds [x] s t \<longleftrightarrow> x \<notin> set s \<and> t = x # s"
  by (auto simp: adds_def)

locale collector =
  fixes step :: "'a \<Rightarrow> 's \<Rightarrow> 'e + 's" and ok :: "'a \<Rightarrow> bool" and act :: "'a list \<Rightarrow> 's \<Rightarrow> 's \<Rightarrow> bool"
  assumes act_Nil: "act [] s t \<longleftrightarrow> t = s"
    and act_Cons: "act (x # xs) s t \<longleftrightarrow> (\<exists>u. act [x] s u \<and> act xs u t)"
    and step_ok: "step x s = Inr t \<longleftrightarrow> ok x \<and> act [x] s t"
begin

lemma fold_ok: "rfold step xs s = Inr t \<longleftrightarrow> list_all ok xs \<and> act xs s t"
proof (induction xs arbitrary: s)
  case Nil
  then show ?case by (auto simp: act_Nil)
next
  case (Cons x xs)
  then show ?case by (auto simp: rbind_eq_Inr step_ok act_Cons [of x xs])
qed

end

lemma list_all_enumerate: "list_all (\<lambda>(i, x). P x) (List.enumerate n xs) \<longleftrightarrow> list_all P xs"
  by (induction xs arbitrary: n) auto

lemma map_enumerate: "map (\<lambda>(i, x). f x) (List.enumerate n xs) = map f xs"
  by (induction xs arbitrary: n) auto

lemma enumerate_order: "list_all (\<lambda>(i, x). f x = i) (List.enumerate n xs) \<longleftrightarrow> map f xs = [n..<n + length xs]"
proof (induction xs arbitrary: n)
  case (Cons x xs)
  have "[n..<n + length (x # xs)] = n # [Suc n..<Suc n + length xs]" by (subst upt_conv_Cons) auto
  with Cons show ?case by (auto simp del: upt_Suc)
qed simp

lemma list_all_both: "list_all (\<lambda>x. P x \<and> Q x) xs \<longleftrightarrow> list_all P xs \<and> list_all Q xs"
  by (induction xs) auto

section \<open>Small checks\<close>

definition good_confidence :: "f64 option \<Rightarrow> bool" where
  "good_confidence v \<longleftrightarrow> (case v of None \<Rightarrow> True | Some x \<Rightarrow> is_finite x \<and> fle (Fin 0) x \<and> fle x (Fin 1))"

lemma small_checks [result_simps]:
  "validate_bbox b path = Inr u \<longleftrightarrow> bbox_ok b"
  "validate_confidence v path = Inr u \<longleftrightarrow> good_confidence v"
  "validate_id_page i n path = Inr u \<longleftrightarrow> id_page i = Some n"
  "validate_text_range r n path = Inr u \<longleftrightarrow> range_start r \<le> range_end r \<and> range_end r \<le> n"
  by (simp_all add: validate_bbox_def bbox_ok_def validate_confidence_def good_confidence_def validate_id_page_def validate_text_range_def)

section \<open>Images, formulas and archived text\<close>

interpretation asset_fold: collector "check_asset path" "\<lambda>(i, a). as_id a \<noteq> [] \<and> bbox_ok (as_bbox a)"
  "\<lambda>xs. adds (map (\<lambda>(i, a). as_id a) xs)" for path
  by unfold_locales (auto simp: check_asset_def Let_def result_simps adds_Cons)

definition good_image :: "figure_image \<Rightarrow> bool" where
  "good_image im \<longleftrightarrow> im_width im \<noteq> 0 \<and> im_height im \<noteq> 0 \<and>
     (case delivery im of File p \<Rightarrow> p \<noteq> [] \<and> hd p = 47 | Inline d \<Rightarrow> d \<noteq> [])"

lemma check_image_ok: "check_image x = Inr u \<longleftrightarrow> good_image (snd x)"
  by (cases x) (auto simp: check_image_def good_image_def result_simps split: figure_delivery.splits)

lemma map_filter_enumerate:
  "map snd (List.map_filter (\<lambda>(i, b). map_option (\<lambda>im. (g i b, im)) (f b)) (List.enumerate n bs)) = List.map_filter f bs"
  by (induction bs arbitrary: n) (auto simp: List.map_filter_simps split: option.splits)

lemma page_images: "map snd (page_image_list path p) = map image (images p) @ List.map_filter bk_image (blocks p)"
proof -
  have "map snd (map (\<lambda>(i, a). (at_index path ''.images'' i @ lit ''.image'', image a)) (List.enumerate 0 (images p))) =
      map (\<lambda>(i, a). image a) (List.enumerate 0 (images p))" by (simp add: comp_def case_prod_beta)
  then show ?thesis by (simp only: page_image_list_def map_append map_filter_enumerate map_enumerate)
qed

text \<open>A formula has both representations, or neither and a failure.\<close>

definition formula_content_ok :: "formula_result \<Rightarrow> bool" where
  "formula_content_ok f \<longleftrightarrow>
     is_some_and (latex f) (\<lambda>s. trim s \<noteq> [] \<and> markdown f = Some (formula_text (fr_label f) s) \<and> fr_error f = None) \<or>
     latex f = None \<and> markdown f = None \<and> is_some_and (fr_error f) (\<lambda>e. e \<noteq> [])"

definition formula_span_ok :: "block option \<Rightarrow> table_text_span \<Rightarrow> bool" where
  "formula_span_ok b sp \<longleftrightarrow>
     is_some_and (List.find (\<lambda>it. it_id it = text_item_id sp)
         (case b of None \<Rightarrow> [] | Some b \<Rightarrow> concat (map text_items (lines_of b))))
       (\<lambda>it. byte_start sp < byte_end sp \<and> get_range (raw_text it) (byte_start sp) (byte_end sp) \<noteq> None) \<and>
     bbox_ok (ts_bbox sp)"

definition formula_anchor_ok :: "block option \<Rightarrow> formula_result \<Rightarrow> bool" where
  "formula_anchor_ok b f \<longleftrightarrow>
     (case fr_table_cell f of
        Some (r, c) \<Rightarrow> fr_line_id f = None \<and> fr_text_item_range f = None \<and>
          is_some_and b (\<lambda>b. is_some_and (table_of b) (\<lambda>t. \<exists>x\<in>set (cells t). row x = r \<and> column x = c))
      | None \<Rightarrow> fr_line_id f = None \<and> fr_text_item_range f = None \<or>
          is_some_and (fr_line_id f) (\<lambda>i. is_some_and (fr_text_item_range f) (\<lambda>r.
            is_some_and b (\<lambda>b. is_some_and (List.find (\<lambda>l. ln_id l = i) (lines_of b)) (\<lambda>l.
              range_start r \<le> range_end r \<and> range_end r \<le> length (text_items l))))))"

lemma formula_checks:
  "check_formula_content f loc = Inr u \<longleftrightarrow> formula_content_ok f"
  "check_formula_span b loc sp = Inr u \<longleftrightarrow> formula_span_ok b sp"
  "check_formula_anchor b f loc = Inr u \<longleftrightarrow> formula_anchor_ok b f"
  unfolding check_formula_content_def check_formula_span_def check_formula_anchor_def
    formula_content_ok_def formula_span_ok_def formula_anchor_ok_def is_some_and_def
  by (auto simp: result_simps ok_or_def split: option.splits)

definition good_formula :: "page_result \<Rightarrow> formula_result \<Rightarrow> bool" where
  "good_formula p f \<longleftrightarrow>
     (let b = (case fr_block_id f of None \<Rightarrow> None | Some i \<Rightarrow> find_block p i)
      in id_page (fr_id f) = Some (page_number p) \<and> bbox_ok (fr_bbox f) \<and>
         (case crop_bbox f of None \<Rightarrow> True | Some crop \<Rightarrow> bbox_ok crop \<and> contains_bbox crop (fr_bbox f)) \<and>
         (fr_label f = InlineFormula \<or> fr_label f = DisplayFormula) \<and>
         formula_content_ok f \<and> list_all (formula_span_ok b) (text_spans f) \<and>
         (fr_block_id f = None \<or> b \<noteq> None) \<and> formula_anchor_ok b f)"

interpretation formula_fold: collector "check_formula path p" "\<lambda>(i, f). good_formula p f"
  "\<lambda>xs. adds (map (\<lambda>(i, f). fr_id f) xs)" for path p
proof unfold_locales
  fix x s t
  show "check_formula path p x s = Inr t \<longleftrightarrow> (case x of (i, f) \<Rightarrow> good_formula p f) \<and> adds (map (\<lambda>(i, f). fr_id f) [x]) s t"
    unfolding check_formula_def good_formula_def Let_def
    by (cases x, hypsubst, simp only: prod.case rbind_unit rbind_insert small_checks ensure_eq_Inr optional_ok
        reach_all formula_checks list.map adds_one sum.inject simp_thms) blast
qed (auto simp: adds_Cons)

definition good_archived :: "(polygon \<Rightarrow> bbox) \<Rightarrow> page_result \<Rightarrow> text_item \<Rightarrow> bool" where
  "good_archived bounds p it \<longleftrightarrow>
     id_page (it_id it) = Some (page_number p) \<and> it_source it = Native \<and> it_watermark it = None \<and> bbox_ok (it_bbox it) \<and>
     good_confidence (it_confidence it) \<and> is_finite (it_rotation it) \<and> polygon_inside bounds (it_bbox it) (it_polygon it)"

interpretation archived_fold: collector "check_archived bounds path p" "\<lambda>(i, it). good_archived bounds p it"
  "\<lambda>xs. adds (map (\<lambda>(i, it). it_id it) xs)" for bounds path p
  by unfold_locales (auto simp: check_archived_def good_archived_def Let_def result_simps adds_Cons)

section \<open>Text items and lines\<close>

text \<open>\<open>reads T o raws o'\<close>: the items' texts follow one another in \<open>T\<close> from byte \<open>o\<close> to byte \<open>o'\<close>.\<close>

fun reads :: "rstr \<Rightarrow> nat \<Rightarrow> rstr list \<Rightarrow> nat \<Rightarrow> bool" where
  "reads T n [] m \<longleftrightarrow> m = n"
| "reads T n (r # rs) m \<longleftrightarrow>
     int (n + str_len r) < usize_limit \<and> get_range T n (n + str_len r) = Some r \<and> reads T (n + str_len r) rs m"

lemma reads_text:
  "reads (pre @ T) (str_len pre) rs (str_len (pre @ T)) \<longleftrightarrow>
     T = concat rs \<and> (rs = [] \<or> int (str_len (pre @ T)) < usize_limit)"
proof (induction rs arbitrary: pre T)
  case Nil
  then show ?case by simp
next
  case (Cons r rs)
  show ?case
  proof (cases "\<exists>rest. T = r @ rest")
    case True
    then obtain rest where T: "T = r @ rest" ..
    have "get_range (pre @ T) (str_len pre) (str_len pre + str_len r) = Some r"
      by (auto simp: get_range_Some T)
    moreover have "reads (pre @ T) (str_len pre + str_len r) rs (str_len (pre @ T)) \<longleftrightarrow>
        rest = concat rs \<and> (rs = [] \<or> int (str_len (pre @ T)) < usize_limit)"
      using Cons.IH [of "pre @ r" rest] by (simp add: T)
    ultimately show ?thesis by (auto simp: T)
  next
    case False
    have "get_range (pre @ T) (str_len pre) (str_len pre + str_len r) \<noteq> Some r"
    proof
      assume "get_range (pre @ T) (str_len pre) (str_len pre + str_len r) = Some r"
      then obtain b where "pre @ T = pre @ r @ b" by (auto simp: get_range_at)
      with False show False by simp
    qed
    with False show ?thesis by auto
  qed
qed

definition good_item :: "(polygon \<Rightarrow> bbox) \<Rightarrow> page_result \<Rightarrow> block \<Rightarrow> line \<Rightarrow> text_item \<Rightarrow> bool" where
  "good_item bounds p b l it \<longleftrightarrow>
     id_page (it_id it) = Some (page_number p) \<and> bbox_ok (it_bbox it) \<and>
     (it_watermark it \<noteq> None \<longleftrightarrow> label b = Watermark) \<and> polygon_inside bounds (it_bbox it) (it_polygon it) \<and>
     bbox_contains (ln_bbox l) (it_bbox it) \<and> good_confidence (it_confidence it) \<and> is_finite (it_rotation it)"

definition item_act :: "rstr \<Rightarrow> (nat \<times> text_item) list \<Rightarrow> rstr list \<times> nat \<Rightarrow> rstr list \<times> nat \<Rightarrow> bool" where
  "item_act T xs s t \<longleftrightarrow>
     adds (map (\<lambda>(k, it). it_id it) xs) (fst s) (fst t) \<and> reads T (snd s) (map (\<lambda>(k, it). raw_text it) xs) (snd t)"

interpretation item_fold: collector "check_item bounds p b l path"
  "\<lambda>(k, it). it_final_order it = k \<and> good_item bounds p b l it" "item_act (ln_text l)" for bounds p b l path
proof unfold_locales
  fix x s t
  show "check_item bounds p b l path x s = Inr t \<longleftrightarrow>
      (case x of (k, it) \<Rightarrow> it_final_order it = k \<and> good_item bounds p b l it) \<and> item_act (ln_text l) [x] s t"
    unfolding check_item_def good_item_def item_act_def Let_def
    by (cases x, cases s, cases t, hypsubst) (auto simp: rbind_unit rbind_insert small_checks adds_one rbind_eq_Inr)
qed (auto simp: item_act_def adds_Cons prod_eq_iff)

definition good_span :: "nat \<Rightarrow> inline_span \<Rightarrow> bool" where
  "good_span n sp \<longleftrightarrow> bbox_ok (sp_bbox sp) \<and>
     (range_start (text_item_range sp) \<le> range_end (text_item_range sp) \<and> range_end (text_item_range sp) \<le> n) \<and>
     good_confidence (sp_confidence sp)"

lemma check_inline_span_ok: "check_inline_span path n x = Inr u \<longleftrightarrow> (case x of (k, sp) \<Rightarrow> good_span n sp)"
  by (cases x) (simp add: check_inline_span_def good_span_def Let_def rbind_unit small_checks)

definition good_line :: "(polygon \<Rightarrow> bbox) \<Rightarrow> page_result \<Rightarrow> block \<Rightarrow> line \<Rightarrow> bool" where
  "good_line bounds p b l \<longleftrightarrow>
     id_page (ln_id l) = Some (page_number p) \<and> starts_with (ln_id l) (bk_id b) \<and> bbox_ok (ln_bbox l) \<and>
     bbox_contains (bk_bbox b) (ln_bbox l) \<and> good_confidence (model_region_coverage l) \<and>
     map it_final_order (text_items l) = [0..<length (text_items l)] \<and> list_all (good_item bounds p b l) (text_items l) \<and>
     ln_text l = derive_line_text (text_items l) \<and> (text_items l = [] \<or> int (str_len (ln_text l)) < usize_limit) \<and>
     list_all (good_span (length (text_items l))) (inline_spans l)"

definition line_items_ids :: "line \<Rightarrow> rstr list" where
  "line_items_ids l = map it_id (text_items l)"

definition line_act :: "(nat \<times> line) list \<Rightarrow> rstr list \<times> rstr list \<Rightarrow> rstr list \<times> rstr list \<Rightarrow> bool" where
  "line_act xs s t \<longleftrightarrow>
     adds (map (\<lambda>(i, l). ln_id l) xs) (fst s) (fst t) \<and> adds (concat (map (\<lambda>(i, l). line_items_ids l) xs)) (snd s) (snd t)"

lemma line_items_fold:
  "(\<exists>stop. rfold (check_item bounds p b l path) (List.enumerate 0 (text_items l)) (s, 0) = Inr (t, stop) \<and>
       stop = str_len (ln_text l)) \<longleftrightarrow>
     map it_final_order (text_items l) = [0..<length (text_items l)] \<and> list_all (good_item bounds p b l) (text_items l) \<and>
     ln_text l = derive_line_text (text_items l) \<and> (text_items l = [] \<or> int (str_len (ln_text l)) < usize_limit) \<and>
     adds (line_items_ids l) s t"
  using reads_text [of "[]" "ln_text l" "map raw_text (text_items l)"]
  by (auto simp: item_fold.fold_ok item_act_def map_enumerate list_all_enumerate line_items_ids_def derive_line_text_def
      case_prod_unfold list_all_both enumerate_order [unfolded case_prod_unfold]
      list_all_enumerate [unfolded case_prod_unfold] map_enumerate [unfolded case_prod_unfold])

interpretation line_fold: collector "check_line bounds p b path" "\<lambda>(i, l). good_line bounds p b l" line_act for bounds p b path
proof unfold_locales
  fix x :: "nat \<times> line" and s t :: "rstr list \<times> rstr list"
  obtain i l where x: "x = (i, l)" by (cases x)
  obtain ls its where s: "s = (ls, its)" by (cases s)
  obtain ls' its' where t: "t = (ls', its')" by (cases t)
  show "check_line bounds p b path x s = Inr t \<longleftrightarrow> (case x of (i, l) \<Rightarrow> good_line bounds p b l) \<and> line_act [x] s t"
    using line_items_fold [of bounds p b l "at_index path ''.lines'' i" its its']
    by (auto simp: x s t check_line_def good_line_def line_act_def Let_def rbind_unit rbind_insert small_checks adds_one
        rbind_eq_Inr reach_all check_inline_span_ok list_all_enumerate)
qed (auto simp: line_act_def adds_Cons adds_append prod_eq_iff)

section \<open>Blocks\<close>

definition good_source :: "page_result \<Rightarrow> source_region \<Rightarrow> bool" where
  "good_source p s \<longleftrightarrow>
     bbox_ok (sr_bbox s) \<and> (sr_model_region_id s \<noteq> None) \<noteq> (sr_fallback_region_id s \<noteq> None) \<and>
     (case sr_model_region_id s of None \<Rightarrow> True | Some i \<Rightarrow> id_page i = Some (page_number p)) \<and>
     (case sr_fallback_region_id s of None \<Rightarrow> True | Some i \<Rightarrow> id_page i = Some (page_number p))"

definition opt_list :: "'a option \<Rightarrow> 'a list" where
  "opt_list x = (case x of None \<Rightarrow> [] | Some y \<Rightarrow> [y])"

lemma opt_list_simps [simp]: "opt_list None = []" "opt_list (Some y) = [y]"
  by (simp_all add: opt_list_def)

definition source_models :: "block \<Rightarrow> rstr list" where
  "source_models b = concat (map (\<lambda>s. opt_list (sr_model_region_id s)) (all_source_regions b))"

interpretation source_fold: collector "check_source p b path" "\<lambda>(k, s). good_source p s"
  "\<lambda>xs. adds (concat (map (\<lambda>(k, s). opt_list (sr_model_region_id s)) xs))" for p b path
proof unfold_locales
  fix x s t
  show "check_source p b path x s = Inr t \<longleftrightarrow>
      (case x of (k, s) \<Rightarrow> good_source p s) \<and> adds (concat (map (\<lambda>(k, s). opt_list (sr_model_region_id s)) [x])) s t"
    by (cases x; cases "sr_model_region_id (snd x)"; cases "sr_fallback_region_id (snd x)")
      (auto simp: check_source_def good_source_def Let_def rbind_unit rbind_insert rbind_eq_Inr small_checks adds_one)
qed (auto simp: adds_append)

definition good_header :: "(polygon \<Rightarrow> bbox) \<Rightarrow> page_result \<Rightarrow> block \<Rightarrow> bool" where
  "good_header bounds p b \<longleftrightarrow>
     id_page (bk_id b) = Some (page_number p) \<and> bbox_ok (bk_bbox b) \<and>
     \<not> (label b = Reference \<and> (bk_text b \<noteq> [] \<or> lines_of b \<noteq> [] \<or> source_regions b \<noteq> [])) \<and>
     polygon_inside bounds (bk_bbox b) (bk_polygon b) \<and> \<not> (label b = Watermark \<and> model_region_id b \<noteq> None) \<and>
     good_confidence (bk_confidence b) \<and>
     (case model_region_id b of None \<Rightarrow> True | Some r \<Rightarrow> id_page r = Some (page_number p)) \<and>
     (source_regions b = [] \<or> is_some_and (source_region b) (\<lambda>s. \<exists>t\<in>set (source_regions b). source_region_eq t s))"

lemma check_block_header_ok:
  "check_block_header bounds p loc i b (bs, rs) = Inr (bs', rs') \<longleftrightarrow>
     final_order b = i \<and> good_header bounds p b \<and> adds [bk_id b] bs bs' \<and> adds (opt_list (model_region_id b)) rs rs'"
  by (cases "model_region_id b"; cases "source_region b")
    (auto simp: check_block_header_def good_header_def rbind_unit rbind_insert rbind_eq_Inr small_checks adds_one)

text \<open>Paths only occur in errors.\<close>

definition same_ok :: "'e + 'a \<Rightarrow> 'e + 'a \<Rightarrow> bool" where
  "same_ok m m' \<longleftrightarrow> (\<forall>t. m = Inr t \<longleftrightarrow> m' = Inr t)"

lemma same_ok_refl: "same_ok m m"
  by (simp add: same_ok_def)

lemma same_ok_errors: "same_ok (Inl e) (Inl e')"
  by (simp add: same_ok_def)

lemma same_ok_or: "same_ok (ok_or e m) (ok_or e' m)"
  by (simp add: same_ok_def)

lemma same_ok_rbind: "same_ok m m' \<Longrightarrow> (\<And>x. same_ok (f x) (g x)) \<Longrightarrow> same_ok (rbind m f) (rbind m' g)"
  by (simp add: same_ok_def rbind_eq_Inr)

lemma same_ok_rfold: "(\<And>x s. same_ok (f x s) (g x s)) \<Longrightarrow> same_ok (rfold f xs s) (rfold g xs s)"
  by (induction xs arbitrary: s) (simp_all add: same_ok_refl same_ok_rbind)

lemma same_ok_if: "same_ok m m' \<Longrightarrow> same_ok n n' \<Longrightarrow> same_ok (if c then m else n) (if c then m' else n')"
  by simp

lemma same_ok_option:
  "same_ok m m' \<Longrightarrow> (\<And>y. same_ok (f y) (g y)) \<Longrightarrow>
    same_ok (case x of None \<Rightarrow> m | Some y \<Rightarrow> f y) (case x of None \<Rightarrow> m' | Some y \<Rightarrow> g y)"
  by (cases x) simp_all

lemma same_ok_prod: "(\<And>a b. same_ok (f a b) (g a b)) \<Longrightarrow> same_ok (case x of (a, b) \<Rightarrow> f a b) (case x of (a, b) \<Rightarrow> g a b)"
  by (cases x) simp

lemmas same_ok_intros = same_ok_errors same_ok_refl same_ok_or same_ok_rbind same_ok_rfold same_ok_if same_ok_option same_ok_prod

lemma check_part_path: "same_ok (check_part find_line path k x s) (check_part find_line path' k x s)"
  unfolding check_part_def by (intro same_ok_intros)

lemma check_list_item_path:
  "same_ok (check_list_item alphabetic find_line path x s) (check_list_item alphabetic find_line path' x s)"
  unfolding check_list_item_def by (intro same_ok_intros check_part_path)

lemma nest_step_path: "same_ok (nest_step path items x s) (nest_step path' items x s)"
  unfolding nest_step_def Let_def by (intro same_ok_intros)

definition lists_ok :: "(uchar \<Rightarrow> bool) \<Rightarrow> block \<Rightarrow> bool" where
  "lists_ok alphabetic b \<longleftrightarrow> validate_block_lists alphabetic b [] = Inr ()"

lemma block_lists_path: "validate_block_lists alphabetic b path = Inr u \<longleftrightarrow> lists_ok alphabetic b"
proof -
  have "same_ok (validate_block_lists alphabetic b path) (validate_block_lists alphabetic b [])"
    unfolding validate_block_lists_def Let_def by (intro same_ok_intros check_list_item_path nest_step_path)
  then show ?thesis by (simp add: same_ok_def lists_ok_def)
qed

definition good_block ::
  "(f64 \<Rightarrow> f64 \<times> f64) \<Rightarrow> (uchar \<Rightarrow> bool) \<Rightarrow> (polygon \<Rightarrow> bbox) \<Rightarrow> page_result \<Rightarrow> block \<Rightarrow> bool" where
  "good_block trig alphabetic bounds p b \<longleftrightarrow>
     good_header bounds p b \<and> list_all (good_source p) (all_source_regions b) \<and>
     lists_ok alphabetic b \<and> list_all (good_line bounds p b) (lines_of b) \<and>
     (case table_of b of None \<Rightarrow> True | Some t \<Rightarrow> table_validate t b = Inr ()) \<and> text_matches_lines trig alphabetic b"

definition block_items_ids :: "block \<Rightarrow> rstr list" where
  "block_items_ids b = concat (map line_items_ids (lines_of b))"

definition block_act :: "(nat \<times> block) list \<Rightarrow> page_state \<Rightarrow> page_state \<Rightarrow> bool" where
  "block_act xs s t \<longleftrightarrow> (case (s, t) of ((ids, rs, ss), (ids', rs', ss')) \<Rightarrow>
     adds (map (\<lambda>(i, b). bk_id b) xs) (seen_blocks ids) (seen_blocks ids') \<and>
     adds (concat (map (\<lambda>(i, b). map ln_id (lines_of b)) xs)) (seen_lines ids) (seen_lines ids') \<and>
     adds (concat (map (\<lambda>(i, b). block_items_ids b) xs)) (seen_items ids) (seen_items ids') \<and>
     adds (concat (map (\<lambda>(i, b). opt_list (model_region_id b)) xs)) rs rs' \<and>
     adds (concat (map (\<lambda>(i, b). source_models b) xs)) ss ss')"

lemma block_act_Cons: "block_act (x # xs) s t \<longleftrightarrow> (\<exists>u. block_act [x] s u \<and> block_act xs u t)"
proof
  obtain i b where x: "x = (i, b)" by (cases x)
  obtain ids rs ss where s: "s = (ids, rs, ss)" by (cases s)
  obtain ids' rs' ss' where t: "t = (ids', rs', ss')" by (cases t)
  assume "block_act (x # xs) s t"
  then obtain bs ls its rs2 ss2 where "block_act [x] s (\<lparr>seen_blocks = bs, seen_lines = ls, seen_items = its\<rparr>, rs2, ss2)"
    "block_act xs (\<lparr>seen_blocks = bs, seen_lines = ls, seen_items = its\<rparr>, rs2, ss2) t"
    unfolding block_act_def x s t
    by (simp add: adds_append adds_Cons) (metis seen_ids.select_convs)
  then show "\<exists>u. block_act [x] s u \<and> block_act xs u t" by blast
next
  assume "\<exists>u. block_act [x] s u \<and> block_act xs u t"
  then show "block_act (x # xs) s t"
    by (auto simp: block_act_def adds_append adds_Cons split: prod.splits)
qed

lemma check_block_lines:
  "rfold (check_line bounds p b loc) (List.enumerate 0 (lines_of b)) (ls, its) = Inr (ls', its') \<longleftrightarrow>
     list_all (good_line bounds p b) (lines_of b) \<and> adds (map ln_id (lines_of b)) ls ls' \<and> adds (block_items_ids b) its its'"
  by (simp add: line_fold.fold_ok line_act_def list_all_enumerate map_enumerate block_items_ids_def)

lemma check_block_sources:
  "rfold (check_source p b loc) (List.enumerate 0 (all_source_regions b)) ss = Inr ss' \<longleftrightarrow>
     list_all (good_source p) (all_source_regions b) \<and> adds (source_models b) ss ss'"
  by (simp add: source_fold.fold_ok list_all_enumerate map_enumerate source_models_def)

lemma check_block_table:
  "(case x of None \<Rightarrow> Inr () | Some t \<Rightarrow> (case table_validate t b of Inl e \<Rightarrow> Inl (f e) | Inr u \<Rightarrow> Inr u)) = Inr u \<longleftrightarrow>
     (case x of None \<Rightarrow> True | Some t \<Rightarrow> table_validate t b = Inr ())"
  by (auto split: option.splits sum.splits)

interpretation block_fold: collector "check_block trig alphabetic bounds p path"
  "\<lambda>(i, b). final_order b = i \<and> good_block trig alphabetic bounds p b" block_act for trig alphabetic bounds p path
proof unfold_locales
  fix x :: "nat \<times> block" and s t :: page_state
  obtain i b where x: "x = (i, b)" by (cases x)
  obtain ids rs ss where s: "s = (ids, rs, ss)" by (cases s)
  obtain bs' ls' its' rs' ss' where t: "t = (\<lparr>seen_blocks = bs', seen_lines = ls', seen_items = its'\<rparr>, rs', ss')"
    by (metis prod.exhaust seen_ids.cases)
  show "check_block trig alphabetic bounds p path x s = Inr t \<longleftrightarrow>
      (case x of (i, b) \<Rightarrow> final_order b = i \<and> good_block trig alphabetic bounds p b) \<and> block_act [x] s t"
    by (auto simp: x s t check_block_def good_block_def block_act_def Let_def rbind_unit rbind_eq_Inr check_block_header_ok
      check_block_sources check_block_lines check_block_table block_lists_path)
next
  fix s t :: page_state
  show "block_act [] s t \<longleftrightarrow> t = s" by (cases s; cases t) (auto simp: block_act_def)
qed (rule block_act_Cons)

section \<open>Pages\<close>

text \<open>Of two content blocks of a page neither contains the other, unless one is a sparse union.\<close>

definition not_nested :: "block \<Rightarrow> block \<Rightarrow> bool" where
  "not_nested b c \<longleftrightarrow> is_sparse b \<or> is_sparse c \<or>
     \<not> contains_bbox (bk_bbox b) (bk_bbox c) \<and> \<not> contains_bbox (bk_bbox c) (bk_bbox b)"

definition content_blocks :: "page_result \<Rightarrow> block list" where
  "content_blocks p = filter (\<lambda>b. \<not> is_detached b) (blocks p)"

definition pairs_from :: "('a \<Rightarrow> bool) \<Rightarrow> nat \<Rightarrow> 'a list \<Rightarrow> nat \<times> 'a \<Rightarrow> (nat \<times> 'a \<times> 'a) list" where
  "pairs_from P n bs x = (case x of (i, b) \<Rightarrow> map (\<lambda>c. (i, b, c)) (filter P (drop (i + 1 - n) bs)))"

lemma overlap_pairs:
  "list_all (\<lambda>(i, b, c). Q b c) (concat (map (pairs_from P n bs) (filter (\<lambda>(i, b). P b) (List.enumerate n bs)))) \<longleftrightarrow>
   sorted_wrt Q (filter P bs)"
proof (induction bs arbitrary: n)
  case (Cons b bs)
  have "map (pairs_from P n (b # bs)) (filter (\<lambda>(i, b). P b) (List.enumerate (Suc n) bs)) =
      map (pairs_from P (Suc n) bs) (filter (\<lambda>(i, b). P b) (List.enumerate (Suc n) bs))"
    by (rule map_cong) (auto simp: pairs_from_def in_set_enumerate_eq Suc_diff_le)
  moreover have "pairs_from P n (b # bs) (n, b) = map (\<lambda>c. (n, b, c)) (filter P bs)" by (simp add: pairs_from_def)
  ultimately show ?case using Cons.IH [of "Suc n"] by (simp add: list.pred_map comp_def) (simp add: list_all_iff)
qed simp

lemma check_overlaps:
  "reach (check_overlap path) (content_pairs (blocks p)) = Inr u \<longleftrightarrow> sorted_wrt not_nested (content_blocks p)"
proof -
  have "(\<lambda>x. check_overlap path x = Inr ()) = (\<lambda>(i, b, c). not_nested b c)"
    by (auto simp: fun_eq_iff check_overlap_def not_nested_def)
  with overlap_pairs [of not_nested "\<lambda>b. \<not> is_detached b" 0 "blocks p"] show ?thesis
    by (simp add: reach_all content_pairs_def content_blocks_def pairs_from_def [abs_def] case_prod_unfold)
qed

definition good_page ::
  "(f64 \<Rightarrow> f64 \<times> f64) \<Rightarrow> (uchar \<Rightarrow> bool) \<Rightarrow> (polygon \<Rightarrow> bbox) \<Rightarrow> page_result \<Rightarrow> bool" where
  "good_page trig alphabetic bounds p \<longleftrightarrow>
     (is_finite (page_width p) \<and> flt (Fin 0) (page_width p) \<and> is_finite (page_height p) \<and> flt (Fin 0) (page_height p) \<and>
      page_rotation p \<in> {0, 90, 180, 270}) \<and>
     (list_all (\<lambda>a. as_id a \<noteq> [] \<and> bbox_ok (as_bbox a)) (images p) \<and> distinct (map as_id (images p))) \<and>
     (list_all good_image (map image (images p)) \<and> list_all good_image (List.map_filter bk_image (blocks p))) \<and>
     (list_all (good_formula p) (formulas p) \<and> distinct (map fr_id (formulas p))) \<and>
     list_all (good_archived bounds p) (replaced_native_text p) \<and>
     (map final_order (blocks p) = [0..<length (blocks p)] \<and> list_all (good_block trig alphabetic bounds p) (blocks p) \<and>
      distinct (List.map_filter model_region_id (blocks p)) \<and> distinct (concat (map source_models (blocks p)))) \<and>
     sorted_wrt not_nested (content_blocks p)"

definition page_item_ids :: "page_result \<Rightarrow> rstr list" where
  "page_item_ids p = map it_id (replaced_native_text p @ page_items p)"

definition page_act :: "(nat \<times> page_result) list \<Rightarrow> seen_ids \<Rightarrow> seen_ids \<Rightarrow> bool" where
  "page_act xs s t \<longleftrightarrow>
     adds (concat (map (\<lambda>(i, p). map bk_id (blocks p)) xs)) (seen_blocks s) (seen_blocks t) \<and>
     adds (concat (map (\<lambda>(i, p). map ln_id (page_lines p)) xs)) (seen_lines s) (seen_lines t) \<and>
     adds (concat (map (\<lambda>(i, p). page_item_ids p) xs)) (seen_items s) (seen_items t)"

lemma opt_lists: "concat (map (\<lambda>x. opt_list (f x)) xs) = List.map_filter f xs"
  by (induction xs) (auto simp: List.map_filter_simps split: option.split)

lemma page_line_names: "concat (map (\<lambda>b. map ln_id (lines_of b)) (blocks p)) = map ln_id (page_lines p)"
  by (simp add: page_lines_def map_concat comp_def)

lemma page_item_names: "concat (map block_items_ids (blocks p)) = map it_id (page_items p)"
proof -
  have "concat (map block_items_ids bs) = map it_id (concat (map text_items (concat (map lines_of bs))))" for bs
    by (induction bs) (simp_all add: block_items_ids_def line_items_ids_def [abs_def] map_concat comp_def)
  then show ?thesis by (simp add: page_items_def page_lines_def)
qed

lemma blocks_fold:
  "rfold (check_block trig alphabetic bounds p path) (List.enumerate 0 (blocks p)) (s, [], []) = Inr (t, rs, ss) \<longleftrightarrow>
     map final_order (blocks p) = [0..<length (blocks p)] \<and> list_all (good_block trig alphabetic bounds p) (blocks p) \<and>
     adds (map bk_id (blocks p)) (seen_blocks s) (seen_blocks t) \<and> adds (map ln_id (page_lines p)) (seen_lines s) (seen_lines t) \<and>
     adds (map it_id (page_items p)) (seen_items s) (seen_items t) \<and>
     adds (List.map_filter model_region_id (blocks p)) [] rs \<and> adds (concat (map source_models (blocks p))) [] ss"
proof -
  have "block_act (List.enumerate 0 (blocks p)) (s, [], []) (t, rs, ss) \<longleftrightarrow>
     adds (map bk_id (blocks p)) (seen_blocks s) (seen_blocks t) \<and> adds (map ln_id (page_lines p)) (seen_lines s) (seen_lines t) \<and>
     adds (map it_id (page_items p)) (seen_items s) (seen_items t) \<and>
     adds (List.map_filter model_region_id (blocks p)) [] rs \<and> adds (concat (map source_models (blocks p))) [] ss"
    by (simp add: block_act_def map_enumerate opt_lists page_item_names page_line_names)
  moreover have "list_all (\<lambda>(i, b). final_order b = i \<and> good_block trig alphabetic bounds p b) (List.enumerate 0 (blocks p)) \<longleftrightarrow>
      map final_order (blocks p) = [0..<length (blocks p)] \<and> list_all (good_block trig alphabetic bounds p) (blocks p)"
    using enumerate_order [of final_order 0 "blocks p"] list_all_enumerate [of "good_block trig alphabetic bounds p" 0 "blocks p"]
    by (simp add: case_prod_unfold list_all_both)
  ultimately show ?thesis by (simp add: block_fold.fold_ok)
qed

lemma validate_page_node_ok:
  "validate_page_node trig alphabetic bounds p path s = Inr t \<longleftrightarrow> good_page trig alphabetic bounds p \<and> page_act [(i, p)] s t"
proof -
  have size: "check_page_size p path = Inr () \<longleftrightarrow>
      is_finite (page_width p) \<and> flt (Fin 0) (page_width p) \<and> is_finite (page_height p) \<and> flt (Fin 0) (page_height p) \<and>
      page_rotation p \<in> {0, 90, 180, 270}"
    by (auto simp: check_page_size_def rbind_unit)
  have images: "list_all (\<lambda>x. check_image x = Inr ()) (page_image_list path p) \<longleftrightarrow>
      list_all good_image (map image (images p)) \<and> list_all good_image (List.map_filter bk_image (blocks p))"
  proof -
    have "list_all (\<lambda>x. check_image x = Inr ()) (page_image_list path p) \<longleftrightarrow> list_all good_image (map snd (page_image_list path p))"
      by (simp add: check_image_ok list.pred_map comp_def)
    then show ?thesis by (simp only: page_images list_all_append)
  qed
  show ?thesis
    unfolding validate_page_node_def good_page_def page_act_def page_item_ids_def
    by (auto simp: rbind_unit rbind_eq_Inr size reach_all images asset_fold.fold_ok formula_fold.fold_ok archived_fold.fold_ok
      blocks_fold list_all_enumerate map_enumerate adds_empty adds_append check_overlaps [unfolded reach_all])
qed

section \<open>Documents\<close>

interpretation page_fold: collector "check_document_page trig alphabetic bounds"
  "\<lambda>(i, p). (int (i + 1) < u32_limit \<and> page_number p = i + 1) \<and> good_page trig alphabetic bounds p" page_act
  for trig alphabetic bounds
proof unfold_locales
  fix x s t
  show "check_document_page trig alphabetic bounds x s = Inr t \<longleftrightarrow>
      (case x of (i, p) \<Rightarrow> (int (i + 1) < u32_limit \<and> page_number p = i + 1) \<and> good_page trig alphabetic bounds p) \<and> page_act [x] s t"
    by (cases x) (simp add: check_document_page_def Let_def rbind_unit validate_page_node_ok [where i = "fst x"])
next
  fix x xs and s t :: seen_ids
  show "page_act (x # xs) s t \<longleftrightarrow> (\<exists>u. page_act [x] s u \<and> page_act xs u t)"
  proof
    assume "page_act (x # xs) s t"
    then obtain bs ls its where "page_act [x] s \<lparr>seen_blocks = bs, seen_lines = ls, seen_items = its\<rparr>"
        "page_act xs \<lparr>seen_blocks = bs, seen_lines = ls, seen_items = its\<rparr> t"
      by (auto simp: page_act_def adds_append)
    then show "\<exists>u. page_act [x] s u \<and> page_act xs u t" by blast
  qed (auto simp: page_act_def adds_append)
qed (auto simp: page_act_def)

definition document_block_ids :: "document_result \<Rightarrow> rstr list" where
  "document_block_ids d = concat (map (\<lambda>p. map bk_id (blocks p)) (pages d))"

definition document_line_ids :: "document_result \<Rightarrow> rstr list" where
  "document_line_ids d = concat (map (\<lambda>p. map ln_id (page_lines p)) (pages d))"

definition document_item_ids :: "document_result \<Rightarrow> rstr list" where
  "document_item_ids d = concat (map page_item_ids (pages d))"

text \<open>The end of a relation names a block, and perhaps a line, of the page that it gives.\<close>

definition resolves :: "document_result \<Rightarrow> node_ref \<Rightarrow> bool" where
  "resolves d r \<longleftrightarrow> (\<exists>p\<in>set (pages d). page_number p = nr_page r \<and> nr_block_id r \<in> set (map bk_id (blocks p)) \<and>
     (case nr_line_id r of None \<Rightarrow> True | Some i \<Rightarrow> i \<in> set (map ln_id (page_lines p))))"

definition good_relation :: "document_result \<Rightarrow> document_relation \<Rightarrow> bool" where
  "good_relation d r \<longleftrightarrow> resolves d (rel_source r) \<and> resolves d (rel_target r) \<and> good_confidence (rel_score r)"

definition good_document ::
  "(f64 \<Rightarrow> f64 \<times> f64) \<Rightarrow> (uchar \<Rightarrow> bool) \<Rightarrow> (polygon \<Rightarrow> bbox) \<Rightarrow> document_result \<Rightarrow> bool" where
  "good_document trig alphabetic bounds d \<longleftrightarrow>
     page_count (doc_context d) = length (pages d) \<and> int (length (pages d)) < u32_limit \<and>
     (case body_font_size (doc_context d) of None \<Rightarrow> True | Some v \<Rightarrow> is_finite v \<and> flt (Fin 0) v) \<and>
     map page_number (pages d) = [1..<length (pages d) + 1] \<and> list_all (good_page trig alphabetic bounds) (pages d) \<and>
     distinct (document_block_ids d) \<and> distinct (document_line_ids d) \<and> distinct (document_item_ids d) \<and>
     list_all (good_relation d) (relations d)"

lemma good_page_ids:
  assumes "good_page trig alphabetic bounds p"
  shows "i \<in> set (map bk_id (blocks p)) \<Longrightarrow> id_page i = Some (page_number p)"
    and "i \<in> set (map ln_id (page_lines p)) \<Longrightarrow> id_page i = Some (page_number p)"
    and "i \<in> set (page_item_ids p) \<Longrightarrow> id_page i = Some (page_number p)"
  using assms by (auto simp: good_page_def list_all_iff good_block_def good_header_def good_line_def good_item_def
      good_archived_def page_lines_def page_items_def page_item_ids_def)

lemma page_numbers_differ:
  assumes "map page_number ps = [m..<n]" and "p \<in> set ps" and "q \<in> set ps" and "page_number p = page_number q"
  shows "p = q"
proof (rule distinct_map_same [of page_number])
  show "distinct (map page_number ps)" by (simp add: assms(1))
qed (fact assms)+

lemma same_witness:
  assumes "\<And>p q. p \<in> S \<Longrightarrow> q \<in> S \<Longrightarrow> f p = f q \<Longrightarrow> p = q"
  shows "(\<exists>p\<in>S. f p = k \<and> P p) \<and> (\<exists>p\<in>S. f p = k \<and> Q p) \<longleftrightarrow> (\<exists>p\<in>S. f p = k \<and> P p \<and> Q p)"
  using assms by metis

lemma known_ids:
  assumes "list_all (good_page trig alphabetic bounds) (pages d)" and "map page_number (pages d) = [m..<n]"
    and "set (seen_blocks ids) = set (document_block_ids d)" and "set (seen_lines ids) = set (document_line_ids d)"
  shows "validate_node_ref r path ids = Inr u \<longleftrightarrow> resolves d r"
proof -
  have good: "good_page trig alphabetic bounds p" if "p \<in> set (pages d)" for p
    using assms(1) that by (auto simp: list_all_iff)
  have same: "p = q" if "p \<in> set (pages d)" "q \<in> set (pages d)" "page_number p = page_number q" for p q
    using page_numbers_differ [OF assms(2) that] .
  have block: "i \<in> set (seen_blocks ids) \<and> id_page i = Some k \<longleftrightarrow>
      (\<exists>p\<in>set (pages d). page_number p = k \<and> i \<in> set (map bk_id (blocks p)))" for i k
    using good_page_ids(1) [OF good] by (force simp: assms(3) document_block_ids_def)
  have line: "i \<in> set (seen_lines ids) \<and> id_page i = Some k \<longleftrightarrow>
      (\<exists>p\<in>set (pages d). page_number p = k \<and> i \<in> set (map ln_id (page_lines p)))" for i k
    using good_page_ids(2) [OF good] by (force simp: assms(4) document_line_ids_def)
  have "validate_node_ref r path ids = Inr u \<longleftrightarrow>
      (nr_block_id r \<in> set (seen_blocks ids) \<and> id_page (nr_block_id r) = Some (nr_page r)) \<and>
      (case nr_line_id r of None \<Rightarrow> True | Some i \<Rightarrow> i \<in> set (seen_lines ids) \<and> id_page i = Some (nr_page r))"
    by (cases "nr_line_id r") (auto simp: validate_node_ref_def rbind_unit small_checks)
  then have ends: "validate_node_ref r path ids = Inr u \<longleftrightarrow>
      (\<exists>p\<in>set (pages d). page_number p = nr_page r \<and> nr_block_id r \<in> set (map bk_id (blocks p))) \<and>
      (case nr_line_id r of None \<Rightarrow> True
       | Some i \<Rightarrow> \<exists>p\<in>set (pages d). page_number p = nr_page r \<and> i \<in> set (map ln_id (page_lines p)))"
    by (simp only: block line)
  show ?thesis
  proof (cases "nr_line_id r")
    case (Some i)
    show ?thesis unfolding ends resolves_def Some option.case by (rule same_witness) (rule same)
  qed (simp only: ends resolves_def option.case simp_thms)
qed

lemma enumerate_below:
  "list_all (\<lambda>(i, x). int (i + 1) < L) (List.enumerate n xs) \<longleftrightarrow> xs = [] \<or> int (n + length xs) < L"
  by (induction xs arbitrary: n) auto

lemma enumerate_next: "list_all (\<lambda>(i, x). f x = i + 1) (List.enumerate n xs) \<longleftrightarrow> map f xs = [n + 1..<n + length xs + 1]"
proof (induction xs arbitrary: n)
  case (Cons x xs)
  have "[n + 1..<n + length (x # xs) + 1] = (n + 1) # [Suc n + 1..<Suc n + length xs + 1]" by (subst upt_conv_Cons) auto
  with Cons show ?case by (auto simp del: upt_Suc)
qed simp

lemma page_numbers:
  "list_all (\<lambda>(i, p). (int (i + 1) < u32_limit \<and> page_number p = i + 1) \<and> good p) (List.enumerate 0 ps) \<longleftrightarrow>
     int (length ps) < u32_limit \<and> map page_number ps = [1..<length ps + 1] \<and> list_all good ps"
proof -
  have "ps = [] \<or> int (0 + length ps) < u32_limit \<longleftrightarrow> int (length ps) < u32_limit" by (auto simp: u32_limit_def)
  moreover have "[0 + 1..<0 + length ps + 1] = [1..<length ps + 1]" by simp
  ultimately show ?thesis
    using enumerate_below [of u32_limit 0 ps] enumerate_next [of page_number 0 ps] list_all_enumerate [of good 0 ps]
    by (simp only: case_prod_unfold list_all_both) blast
qed

lemma validate_ok: "validate trig alphabetic bounds d = Inr () \<longleftrightarrow> good_document trig alphabetic bounds d"
proof -
  have page_fold: "rfold (check_document_page trig alphabetic bounds) (List.enumerate 0 (pages d)) no_ids = Inr ids \<longleftrightarrow>
      int (length (pages d)) < u32_limit \<and> map page_number (pages d) = [1..<length (pages d) + 1] \<and>
      list_all (good_page trig alphabetic bounds) (pages d) \<and>
      distinct (document_block_ids d) \<and> distinct (document_line_ids d) \<and> distinct (document_item_ids d) \<and>
      ids = \<lparr>seen_blocks = rev (document_block_ids d), seen_lines = rev (document_line_ids d), seen_items = rev (document_item_ids d)\<rparr>" for ids
  proof -
    have "page_act (List.enumerate 0 (pages d)) no_ids ids \<longleftrightarrow>
        distinct (document_block_ids d) \<and> distinct (document_line_ids d) \<and> distinct (document_item_ids d) \<and>
        seen_blocks ids = rev (document_block_ids d) \<and> seen_lines ids = rev (document_line_ids d) \<and>
        seen_items ids = rev (document_item_ids d)"
      by (auto simp: page_act_def no_ids_def map_enumerate adds_empty document_block_ids_def document_line_ids_def document_item_ids_def)
    then show ?thesis by (cases ids) (simp only: page_fold.fold_ok page_numbers seen_ids.simps, blast)
  qed
  have relations: "reach (validate_relation ids) (List.enumerate 0 (relations d)) = Inr () \<longleftrightarrow> list_all (good_relation d) (relations d)"
    if "list_all (good_page trig alphabetic bounds) (pages d)" "map page_number (pages d) = [1..<length (pages d) + 1]"
      "ids = \<lparr>seen_blocks = rev (document_block_ids d), seen_lines = rev (document_line_ids d), seen_items = its\<rparr>" for ids its
  proof -
    have "validate_relation ids (i, r) = Inr () \<longleftrightarrow> good_relation d r" for i r
      using known_ids [OF that(1,2), of ids] that(3)
      by (simp add: validate_relation_def good_relation_def Let_def rbind_unit small_checks)
    then have "(\<lambda>x. validate_relation ids x = Inr ()) = (\<lambda>(i, r). good_relation d r)" by auto
    then show ?thesis by (simp add: reach_all list_all_enumerate)
  qed
  show ?thesis
    unfolding validate_def good_document_def by (auto simp: rbind_unit rbind_eq_Inr page_fold relations)
qed

end
