(* ===== verification/Validator_Properties.thy ===== *)
theory Validator_Properties
  imports Table_Properties Validator_Spec
begin

text \<open>
  What an accepted document guarantees to its readers, from the specification that the
  validator decides (\<open>Validator_Spec.validate_ok\<close>).
\<close>

lemma valid_page:
  assumes "validate trig alphabetic bounds d = Inr ()" and "p \<in> set (pages d)"
  shows "good_page trig alphabetic bounds p"
  using assms by (auto simp: validate_ok good_document_def list_all_iff)

lemma valid_block:
  assumes "validate trig alphabetic bounds d = Inr ()" and "p \<in> set (pages d)" and "b \<in> set (blocks p)"
  shows "good_block trig alphabetic bounds p b"
  using valid_page [OF assms(1,2)] assms(3) by (auto simp: good_page_def list_all_iff)

lemma block_items_distinct:
  assumes "distinct (document_item_ids d)" and "p \<in> set (pages d)" and "b \<in> set (blocks p)"
  shows "distinct (map it_id (concat (map text_items (lines_of b))))"
proof -
  from assms(1,2) have "distinct (page_item_ids p)" by (auto simp: document_item_ids_def distinct_concat_iff)
  then have "distinct (concat (map block_items_ids (blocks p)))" by (simp add: page_item_ids_def page_item_names)
  with assms(3) have "distinct (block_items_ids b)" by (auto simp: distinct_concat_iff)
  then show ?thesis by (simp add: block_items_ids_def line_items_ids_def [abs_def] map_concat comp_def)
qed

section \<open>An example document\<close>

definition pair_block :: block where
  "pair_block = plain_block (lit ''p1:b:m0:s0'') Text (lit ''ab'') (box 0 0 50 20)
     [plain_line (lit ''p1:b:m0:s0:l0'') [plain_item (lit ''p1:t0'') (lit ''a'') (box 0 0 10 10),
        (plain_item (lit ''p1:t1'') (lit ''b'') (box 10 0 20 10))\<lparr>it_final_order := 1\<rparr>] (box 0 0 20 10)] 0"

definition grid_block :: block where
  "grid_block = (plain_block (lit ''p1:b:m1:s0'') Table [] (box 0 30 30 40)
     [plain_line (lit ''p1:b:m1:s0:l0'') [plain_item (lit ''p1:t2'') (lit ''c d'') (box 0 30 30 40)] (box 0 30 30 40)] 1)
     \<lparr>table_of := Some \<lparr>row_count = 1, column_count = 1, cells = [\<lparr>row = 0, column = 0, row_span = 1, column_span = 1,
          tc_bbox = Some (box 0 30 30 40), is_header = False, tc_text = lit ''c d'', tc_markdown = None,
          tc_lines = [\<lparr>cl_text = lit ''c d'', cl_bbox = box 0 30 30 40,
            spans = [\<lparr>text_item_id = lit ''p1:t2'', byte_start = 0, byte_end = 3, ts_bbox = box 0 30 30 40\<rparr>]\<rparr>]\<rparr>],
        tb_source = Ruled\<rparr>\<rparr>"

definition example_page :: page_result where
  "example_page = \<lparr>page_number = 1, page_width = Fin 100, page_height = Fin 100, page_rotation = 0,
     blocks = [pair_block, grid_block\<lparr>bk_text := to_text (the (table_of grid_block))\<rparr>], images = [], formulas = [], replaced_native_text = []\<rparr>"

definition example_document :: document_result where
  "example_document = \<lparr>doc_context = \<lparr>page_count = 1, body_font_size = None\<rparr>, pages = [example_page],
     relations = [\<lparr>rel_kind = ParagraphContinuation,
        rel_source = \<lparr>nr_page = 1, nr_block_id = lit ''p1:b:m0:s0'', nr_line_id = Some (lit ''p1:b:m0:s0:l0'')\<rparr>,
        rel_target = \<lparr>nr_page = 1, nr_block_id = lit ''p1:b:m1:s0'', nr_line_id = None\<rparr>, rel_score = None, rel_evidence = []\<rparr>]\<rparr>"

definition whole_box :: "polygon \<Rightarrow> bbox" where
  "whole_box q = box 0 0 100 100"

lemma example_valid: "validate level_trig ascii_letter whole_box example_document = Inr ()"
  by code_simp

section \<open>Properties\<close>

text \<open>
  C1: The validator decides a declarative specification: it accepts a document exactly when its
  pages are numbered from one, every page, block, line, item, formula, image and source region
  is well formed on its own, no identifier is used twice in the document, content blocks do not
  contain one another, and every relation resolves. The order of the checks, the paths and the
  sets of identifiers seen so far have no effect on the verdict.
\<close>

theorem validation_decides_good_documents:
  "validate trig alphabetic bounds d = Inr () \<longleftrightarrow> good_document trig alphabetic bounds d"
  by (rule validate_ok)

text \<open>
  C16: Identifiers of an accepted document are global keys: no block, line or text item, archived
  or in reading order, shares its identifier with another of its kind anywhere in the document,
  and every identifier encodes the number of the page that holds it, the pages being numbered
  from one without gaps.
\<close>

theorem validated_identifiers_are_keys:
  assumes "validate trig alphabetic bounds d = Inr ()"
  shows "distinct (document_block_ids d) \<and> distinct (document_line_ids d) \<and> distinct (document_item_ids d) \<and>
    map page_number (pages d) = [1..<length (pages d) + 1] \<and>
    list_all (\<lambda>p. list_all (\<lambda>i. id_page i = Some (page_number p))
      (map bk_id (blocks p) @ map ln_id (page_lines p) @ page_item_ids p)) (pages d)"
proof -
  have "list_all (\<lambda>i. id_page i = Some (page_number p)) (map bk_id (blocks p) @ map ln_id (page_lines p) @ page_item_ids p)"
    if "p \<in> set (pages d)" for p
    using good_page_ids [OF valid_page [OF assms that]] unfolding list_all_iff set_append by blast
  moreover have "good_document trig alphabetic bounds d" using assms by (simp add: validate_ok)
  ultimately show ?thesis unfolding good_document_def list_all_iff by blast
qed

text \<open>
  Every line of an accepted document is the concatenation of its items: the line's text is
  their raw texts in order, the items are numbered by place, and the boxes nest, each item in
  its line and each line in its block up to the tolerance.
\<close>

lemma validated_lines_are_their_items:
  assumes "validate trig alphabetic bounds d = Inr ()" and "p \<in> set (pages d)" and "b \<in> set (blocks p)" and "l \<in> set (lines_of b)"
  shows "ln_text l = concat (map raw_text (text_items l)) \<and> map it_final_order (text_items l) = [0..<length (text_items l)] \<and>
    bbox_contains (bk_bbox b) (ln_bbox l) \<and> list_all (\<lambda>it. bbox_contains (ln_bbox l) (it_bbox it)) (text_items l)"
proof -
  from valid_block [OF assms(1-3)] assms(4) have "good_line bounds p b l" by (auto simp: good_block_def list_all_iff)
  then show ?thesis by (auto simp: good_line_def derive_line_text_def good_item_def list_all_iff)
qed

text \<open>
  C15: Tables of an accepted document conserve their text without further assumptions: because
  item identifiers are unique in the whole document, every non-whitespace character of every
  text item of the table's block is referenced by the cells exactly once and in order.
\<close>

theorem validated_document_tables_conserve_text:
  assumes "validate trig alphabetic bounds d = Inr ()" and "p \<in> set (pages d)" and "b \<in> set (blocks p)"
    and "table_of b = Some t" and "item \<in> set (concat (map text_items (lines_of b)))"
    and "rs = sort (ranges_of (it_id item) (map span_entry (table_spans t)))"
  shows "(\<exists>parts. slices (raw_text item) rs = map Some parts \<and>
      non_ws (raw_text item) = concat (map non_ws parts)) \<and>
    (\<forall>((s, e), (s', e'))\<in>set (windows2 rs). e \<le> s')"
proof (rule table_conserves)
  from valid_block [OF assms(1-3)] assms(4) show "table_validate t b = Inr ()" by (simp add: good_block_def)
  from assms(1) have "distinct (document_item_ids d)" by (simp add: validate_ok good_document_def)
  then show "distinct (map it_id (concat (map text_items (lines_of b))))" by (rule block_items_distinct) (fact assms)+
qed (fact assms)+

text \<open>
  Relations of an accepted document resolve: each end names the block, and the line if it
  gives one, of exactly one page.
\<close>

lemma validated_relations_resolve:
  assumes "validate trig alphabetic bounds d = Inr ()" and "r \<in> set (relations d)" and "e = rel_source r \<or> e = rel_target r"
  shows "\<exists>!p. p \<in> set (pages d) \<and> page_number p = nr_page e \<and> nr_block_id e \<in> set (map bk_id (blocks p)) \<and>
    (case nr_line_id e of None \<Rightarrow> True | Some i \<Rightarrow> i \<in> set (map ln_id (page_lines p)))"
proof -
  from assms have "resolves d e" and numbers: "map page_number (pages d) = [1..<length (pages d) + 1]"
    by (auto simp: validate_ok good_document_def list_all_iff good_relation_def)
  then show ?thesis unfolding resolves_def using page_numbers_differ [OF numbers] by (elim bexE) (intro ex1I, blast, metis)
qed

text \<open>
  The content layout of an accepted page is flat: of two blocks that are neither watermarks
  nor references nor sparse unions, neither contains the other, and the blocks are stored in
  their reading order.
\<close>

lemma validated_content_is_flat:
  assumes "validate trig alphabetic bounds d = Inr ()" and "p \<in> set (pages d)" and "i < j" and "j < length (content_blocks p)"
    and "\<not> is_sparse (content_blocks p ! i)" and "\<not> is_sparse (content_blocks p ! j)"
  shows "\<not> contains_bbox (bk_bbox (content_blocks p ! i)) (bk_bbox (content_blocks p ! j)) \<and>
    \<not> contains_bbox (bk_bbox (content_blocks p ! j)) (bk_bbox (content_blocks p ! i)) \<and>
    map final_order (blocks p) = [0..<length (blocks p)]"
proof -
  from valid_page [OF assms(1,2)] have flat: "sorted_wrt not_nested (content_blocks p)"
    and order: "map final_order (blocks p) = [0..<length (blocks p)]" by (auto simp: good_page_def)
  from flat assms(3,4) have "not_nested (content_blocks p ! i) (content_blocks p ! j)" by (rule sorted_wrt_nth_less)
  with order assms(5,6) show ?thesis by (simp add: not_nested_def)
qed

section \<open>Witnesses\<close>

theorem validated_identifiers_are_keys_witness: "distinct (document_block_ids example_document)"
  using validated_identifiers_are_keys [OF example_valid] by blast

lemma example_mem: "example_page \<in> set (pages example_document)" "pair_block \<in> set (blocks example_page)"
  "grid_block\<lparr>bk_text := to_text (the (table_of grid_block))\<rparr> \<in> set (blocks example_page)"
  by (simp_all add: example_document_def example_page_def)

lemma validated_lines_are_their_items_example: "ln_text (hd (lines_of pair_block)) = [97, 98]"
  using validated_lines_are_their_items [OF example_valid example_mem(1,2), of "hd (lines_of pair_block)"]
  by (simp add: pair_block_def plain_block_def plain_line_def plain_item_def of_char_def)

theorem validated_document_tables_conserve_text_witness:
  "\<exists>parts. slices (lit ''c d'') (sort (ranges_of (lit ''p1:t2'') (map span_entry (table_spans (the (table_of grid_block)))))) = map Some parts \<and>
     non_ws (lit ''c d'') = concat (map non_ws parts)"
  using validated_document_tables_conserve_text [OF example_valid example_mem(1,3) _ _ refl, of "the (table_of grid_block)"
      "plain_item (lit ''p1:t2'') (lit ''c d'') (box 0 30 30 40)"]
  by (simp add: grid_block_def plain_block_def plain_line_def plain_item_def)

lemma validated_relations_resolve_example:
  "\<exists>!p. p \<in> set (pages example_document) \<and> page_number p = 1 \<and> lit ''p1:b:m1:s0'' \<in> set (map bk_id (blocks p))"
  using validated_relations_resolve [OF example_valid, of "hd (relations example_document)" "rel_target (hd (relations example_document))"]
  by (simp add: example_document_def)

lemma validated_content_is_flat_example: "\<not> contains_bbox (bk_bbox pair_block) (bk_bbox grid_block)"
proof -
  have two: "content_blocks example_page = [pair_block, grid_block\<lparr>bk_text := to_text (the (table_of grid_block))\<rparr>]"
    by (simp add: content_blocks_def example_page_def is_detached_def pair_block_def grid_block_def plain_block_def)
  have sparse: "\<not> is_sparse pair_block" "\<not> is_sparse (grid_block\<lparr>bk_text := to_text (the (table_of grid_block))\<rparr>)"
    by (simp_all add: is_sparse_def pair_block_def grid_block_def plain_block_def)
  from validated_content_is_flat [OF example_valid example_mem(1), of 0 1] sparse show ?thesis by (simp add: two)
qed

end
