(* ===== verification/Line_Fragment.thy ===== *)
theory Line_Fragment
  imports Block_Text
begin

text \<open>
  Line fragments with their metrics: \<open>LineFragment\<close> of \<open>crates/core/src/line/assemble.rs\<close> and
  \<open>LineMetrics\<close> of \<open>crates/core/src/line/metrics.rs\<close>.
\<close>

datatype line_anchor = AnchorLeft | AnchorCenter | AnchorRight

record line_metrics =
  lm_font_size :: f64
  font_size_estimated :: bool
  bold_ratio :: f64
  italic_ratio :: f64
  lm_bbox :: bbox
  lm_baseline :: baseline
  anchor :: line_anchor
  indent :: f64

record line_fragment =
  lf_items :: "text_item list"
  lf_bbox :: bbox
  lf_baseline :: baseline
  lf_direction :: writing_direction
  metrics :: line_metrics
  lf_rotation :: f64

text \<open>Sorting keys: geometry, then the identifier of the first item.\<close>

definition first_id :: "line_fragment \<Rightarrow> rstr option" where
  "first_id f = map_option it_id (hd_opt (lf_items f))"

text \<open>The union of two boxes, with the check of its constructor.\<close>

definition union_bbox :: "bbox \<Rightarrow> bbox \<Rightarrow> geometry_error + bbox" where
  "union_bbox a b = bbox_try_from (fmin (left a) (left b)) (fmin (top_of a) (top_of b))
     (fmax (right a) (right b)) (fmax (bottom a) (bottom b))"

end
