(* ===== verification/Xy_Cut.thy ===== *)
theory Xy_Cut
  imports Line_Fragment Stable_Ids "HOL-Library.Option_ord" "HOL-Library.Multiset"
begin

text \<open>
  The recursive whitespace cut of the text that no model region owns:
  \<open>crates/core/src/fusion/fallback.rs\<close>. A region is cut below a wide banner, along a vertical
  gutter that no obstacle crosses, or along a wide horizontal gap, to a bounded depth; the
  leaves own the line fragments.
\<close>

definition max_depth :: nat where
  "max_depth = 8"

datatype cut_axis = HorizontalCut | VerticalCut

datatype region_tree =
    Leaf rstr bbox "nat list"
  | Split rstr bbox cut_axis "region_tree list"

fun visit_leaves :: "region_tree \<Rightarrow> (rstr \<times> nat list) list" where
  "visit_leaves (Leaf path b js) = [(path, js)]"
| "visit_leaves (Split path b axis children) = concat (map visit_leaves children)"

section \<open>Geometry of index sets\<close>

text \<open>
  The comparators put valid indices first, ordered by a key of their fragment, then invalid
  ones by value.
\<close>

definition index_key :: "(line_fragment \<Rightarrow> 'k :: linorder) \<Rightarrow> line_fragment list \<Rightarrow> nat \<Rightarrow> bool \<times> 'k option \<times> nat" where
  "index_key key fs i = (case get_at fs i of None \<Rightarrow> (True, None, i) | Some f \<Rightarrow> (False, Some (key f), 0))"

definition sort_indices :: "line_fragment list \<Rightarrow> nat list \<Rightarrow> nat list" where
  "sort_indices fs = sort_key (index_key (\<lambda>f. (top_of (lf_bbox f), left (lf_bbox f), first_id f)) fs)"

definition valid_fragments :: "line_fragment list \<Rightarrow> nat list \<Rightarrow> line_fragment list" where
  "valid_fragments fs js = List.map_filter (get_at fs) js"

definition union_indices :: "line_fragment list \<Rightarrow> nat list \<Rightarrow> bbox option" where
  "union_indices fs js =
     (case js of [] \<Rightarrow> None
      | j # rest \<Rightarrow>
          (case get_at fs j of None \<Rightarrow> None
           | Some f \<Rightarrow> fold (\<lambda>i acc. case acc of None \<Rightarrow> None
               | Some b \<Rightarrow> (case get_at fs i of None \<Rightarrow> None | Some g \<Rightarrow> ok_of (union_bbox b (lf_bbox g)))) rest (Some (lf_bbox f))))"

definition median_height :: "line_fragment list \<Rightarrow> nat list \<Rightarrow> f64" where
  "median_height fs js =
     (let hs = sort (filter (\<lambda>h. is_finite h \<and> flt (Fin 0) h) (map (\<lambda>f. height (lf_bbox f)) (valid_fragments fs js)));
          n = length hs
      in if n = 0 then Fin 1
         else if even n then fdiv (fadd (hs ! (n div 2 - 1)) (hs ! (n div 2))) (Fin 2)
         else hs ! (n div 2))"

text \<open>The outer edges of one side of a cut.\<close>

definition far_edge :: "(line_fragment \<Rightarrow> f64) \<Rightarrow> line_fragment list \<Rightarrow> nat list \<Rightarrow> f64" where
  "far_edge edge fs js = fold (\<lambda>f acc. fmax acc (edge f)) (valid_fragments fs js) (Inf True)"

definition near_edge :: "(line_fragment \<Rightarrow> f64) \<Rightarrow> line_fragment list \<Rightarrow> nat list \<Rightarrow> f64" where
  "near_edge edge fs js = fold (\<lambda>f acc. fmin acc (edge f)) (valid_fragments fs js) (Inf False)"

section \<open>The three cuts\<close>

definition banner_partition :: "line_fragment list \<Rightarrow> nat list \<Rightarrow> bbox \<Rightarrow> (nat list \<times> nat list) option" where
  "banner_partition fs js b =
     (case sort_key (index_key (\<lambda>f. top_of (lf_bbox f)) fs) js of [] \<Rightarrow> None
      | first # others \<Rightarrow>
         (case get_at fs first of None \<Rightarrow> None
          | Some f \<Rightarrow>
             if flt (width (lf_bbox f)) (fmul (width b) (rnd (65 / 100))) then None
             else
               let banner_bottom = bottom (lf_bbox f); next_top = near_edge (\<lambda>g. top_of (lf_bbox g)) fs others
               in if \<not> is_finite next_top \<or> fle (fsub next_top banner_bottom) (fmul (median_height fs js) (Fin 3)) then None
                  else
                    let in_banner = (\<lambda>i. is_some_and (get_at fs i) (\<lambda>g. fle (bottom (lf_bbox g)) (fadd banner_bottom (rnd (1 / 1000000000)))));
                        upper = filter in_banner js; lower = filter (\<lambda>i. \<not> in_banner i) js
                    in if upper \<noteq> [] \<and> lower \<noteq> [] then Some (upper, lower) else None))"

text \<open>The cast to \<open>i64\<close> of a rounded value, which saturates.\<close>

definition as_i64 :: "f64 \<Rightarrow> int" where
  "as_i64 a = (case a of Fin r \<Rightarrow> max (- (2 ^ 63)) (min (2 ^ 63 - 1) \<lfloor>r\<rfloor>) | Inf n \<Rightarrow> if n then - (2 ^ 63) else 2 ^ 63 - 1 | _ \<Rightarrow> 0)"

definition row_numbers :: "line_fragment list \<Rightarrow> f64 \<Rightarrow> bbox \<Rightarrow> nat list \<Rightarrow> int list" where
  "row_numbers fs h region side =
     remdups (map (\<lambda>f. as_i64 (fround (fdiv (fsub (py (base_start (lf_baseline f))) (top_of region)) h))) (valid_fragments fs side))"

text \<open>A narrow gutter needs repeated rows and columns that overlap.\<close>

definition narrow_gutter_ok :: "line_fragment list \<Rightarrow> f64 \<Rightarrow> bbox \<Rightarrow> nat list \<Rightarrow> nat list \<Rightarrow> bool" where
  "narrow_gutter_ok fs h region ls rs \<longleftrightarrow>
     (case (union_indices fs ls, union_indices fs rs) of
        (Some l, Some r) \<Rightarrow>
          let lap = fsub (fmin (bottom l) (bottom r)) (fmax (top_of l) (top_of r))
          in (3 \<le> length (row_numbers fs h region ls) \<and> 3 \<le> length (row_numbers fs h region rs)) \<and>
             \<not> flt lap (fmul h (Fin 4)) \<and> \<not> flt (width l) (fmul (width region) (rnd (2 / 10))) \<and>
             \<not> flt (width r) (fmul (width region) (rnd (2 / 10)))
      | _ \<Rightarrow> False)"

definition crosses :: "bbox \<Rightarrow> f64 \<Rightarrow> f64 \<Rightarrow> bbox \<Rightarrow> bool" where
  "crosses region left_edge right_edge b \<longleftrightarrow>
     flt (left b) right_edge \<and> flt left_edge (right b) \<and> flt (top_of b) (bottom region) \<and> flt (top_of region) (bottom b)"

type_synonym best_cut = "(f64 \<times> nat list \<times> nat list) option"

definition is_better :: "f64 \<Rightarrow> best_cut \<Rightarrow> bool" where
  "is_better gap best \<longleftrightarrow> (case best of None \<Rightarrow> True | Some (g, _) \<Rightarrow> flt g gap)"

definition vertical_step :: "line_fragment list \<Rightarrow> bbox list \<Rightarrow> bbox \<Rightarrow> f64 \<Rightarrow> nat list \<Rightarrow> nat \<Rightarrow> best_cut \<Rightarrow> best_cut" where
  "vertical_step fs obstacles region h by_center n best =
     (let ls = take n by_center; rs = drop n by_center;
          left_edge = far_edge (\<lambda>f. right (lf_bbox f)) fs ls; right_edge = near_edge (\<lambda>f. left (lf_bbox f)) fs rs;
          gap = fsub right_edge left_edge;
          minimum_gap = fmax (fmax (fmul h (rnd (75 / 100))) (fmul (width region) (rnd (1 / 100)))) (Fin 2);
          broad_gap = fmax (fmul h (Fin 2)) (fmul (width region) (rnd (3 / 100)))
      in if length ls < 2 \<or> length rs < 2 then best
         else if flt gap minimum_gap \<or> (\<exists>b\<in>set obstacles. crosses region left_edge right_edge b) then best
         else if flt gap broad_gap \<and> \<not> narrow_gutter_ok fs h region ls rs then best
         else if is_better gap best then Some (gap, ls, rs) else best)"

definition vertical_partition :: "line_fragment list \<Rightarrow> bbox list \<Rightarrow> nat list \<Rightarrow> bbox \<Rightarrow> (nat list \<times> nat list) option" where
  "vertical_partition fs obstacles js region =
     (let by_center = sort_key (index_key (\<lambda>f. px (center (lf_bbox f))) fs) js
      in map_option snd (fold (vertical_step fs obstacles region (median_height fs js) by_center) [1..<length by_center] None))"

definition horizontal_step :: "line_fragment list \<Rightarrow> f64 \<Rightarrow> nat list \<Rightarrow> nat \<Rightarrow> best_cut \<Rightarrow> best_cut" where
  "horizontal_step fs threshold by_center n best =
     (let us = take n by_center; ls = drop n by_center;
          gap = fsub (near_edge (\<lambda>f. top_of (lf_bbox f)) fs ls) (far_edge (\<lambda>f. bottom (lf_bbox f)) fs us)
      in if fle threshold gap \<and> is_better gap best then Some (gap, us, ls) else best)"

definition horizontal_partition :: "line_fragment list \<Rightarrow> nat list \<Rightarrow> (nat list \<times> nat list) option" where
  "horizontal_partition fs js =
     (let by_center = sort_key (index_key (\<lambda>f. py (center (lf_bbox f))) fs) js
      in map_option snd (fold (horizontal_step fs (fmul (median_height fs js) (Fin 3)) by_center) [1..<length by_center] None))"

section \<open>The recursion\<close>

definition find_cut :: "line_fragment list \<Rightarrow> bbox list \<Rightarrow> nat list \<Rightarrow> bbox \<Rightarrow> (cut_axis \<times> nat list \<times> nat list) option" where
  "find_cut fs obstacles js b =
     (case banner_partition fs js b of Some parts \<Rightarrow> Some (HorizontalCut, parts)
      | None \<Rightarrow> (case vertical_partition fs obstacles js b of Some parts \<Rightarrow> Some (VerticalCut, parts)
          | None \<Rightarrow> (case horizontal_partition fs js of Some parts \<Rightarrow> Some (HorizontalCut, parts) | None \<Rightarrow> None)))"

definition child_path :: "cut_axis \<Rightarrow> rstr \<Rightarrow> nat \<Rightarrow> rstr" where
  "child_path axis path k = (case axis of HorizontalCut \<Rightarrow> horizontal_child path k | VerticalCut \<Rightarrow> vertical_child path k)"

function build_region :: "line_fragment list \<Rightarrow> bbox list \<Rightarrow> nat list \<Rightarrow> bbox \<Rightarrow> rstr \<Rightarrow> nat \<Rightarrow> region_tree" where
  "build_region fs obstacles js b path depth =
     (let js = sort_indices fs js
      in if length js \<le> 1 \<or> max_depth \<le> depth then Leaf path b js
         else case find_cut fs obstacles js b of
           None \<Rightarrow> Leaf path b js
         | Some (axis, first, second) \<Rightarrow>
             Split path b axis (map (\<lambda>(k, part).
               build_region fs obstacles part (unwrap_or (union_indices fs part) b) (child_path axis path k) (depth + 1))
               (List.enumerate 0 [first, second])))"
  by pat_completeness auto
termination by (relation "measure (\<lambda>(_, _, _, _, _, depth). max_depth - depth)") auto

declare build_region.simps [simp del]

definition xy_cut :: "line_fragment list \<Rightarrow> bbox list \<Rightarrow> bbox \<Rightarrow> region_tree" where
  "xy_cut fs obstacles page = build_region fs obstacles (sort_indices fs [0..<length fs]) page path_root 0"

end
