(* ===== verification/Xy_Cut_Properties.thy ===== *)
theory Xy_Cut_Properties
  imports Xy_Cut
begin

text \<open>
  The whitespace cut partitions the fragments, cuts only along clear gutters, and numbers its
  leaves in the order in which they are read.
\<close>

section \<open>What a cut is\<close>

text \<open>Every fragment of the left side ends before every fragment of the right side begins.\<close>

definition separated :: "line_fragment list \<Rightarrow> nat list \<Rightarrow> nat list \<Rightarrow> bool" where
  "separated fs ls rs \<longleftrightarrow> list_all (\<lambda>i. list_all (\<lambda>j. flt (right (lf_bbox (fs ! i))) (left (lf_bbox (fs ! j)))) rs) ls"

text \<open>An obstacle in the rows of the region reaches out of the gutter on one side.\<close>

definition avoids :: "line_fragment list \<Rightarrow> bbox \<Rightarrow> nat list \<Rightarrow> nat list \<Rightarrow> bbox \<Rightarrow> bool" where
  "avoids fs region ls rs b \<longleftrightarrow>
     \<not> (flt (top_of b) (bottom region) \<and> flt (top_of region) (bottom b) \<and>
        list_all (\<lambda>i. flt (right (lf_bbox (fs ! i))) (right b)) ls \<and> list_all (\<lambda>j. flt (left b) (left (lf_bbox (fs ! j)))) rs)"

definition proper_fragments :: "line_fragment list \<Rightarrow> bool" where
  "proper_fragments fs \<longleftrightarrow> list_all (\<lambda>f. bbox_ok (lf_bbox f)) fs"

lemma valid_fragments_in: "set js \<subseteq> {..<length fs} \<Longrightarrow> valid_fragments fs js = map ((!) fs) js"
  by (induction js) (auto simp: valid_fragments_def List.map_filter_simps get_at_def)

section \<open>The cuts\<close>

lemma far_edge_bound:
  assumes "set js \<subseteq> {..<length fs}" "\<forall>j\<in>set js. edge (fs ! j) \<noteq> Nan"
  shows "far_edge edge fs js \<noteq> Nan \<and> (\<forall>j\<in>set js. fle (edge (fs ! j)) (far_edge edge fs js)) \<and>
    (js \<noteq> [] \<longrightarrow> (\<forall>j\<in>set js. is_finite (edge (fs ! j))) \<longrightarrow> (\<exists>j\<in>set js. far_edge edge fs js = edge (fs ! j)))"
proof -
  let ?xs = "map ((!) fs) js"
  have e: "far_edge edge fs js = fold (\<lambda>f acc. fmax acc (edge f)) ?xs (Inf True)"
    by (simp add: far_edge_def valid_fragments_in [OF assms(1)])
  have f: "fle (Inf True) (far_edge edge fs js) \<and> (\<forall>j\<in>set js. fle (edge (fs ! j)) (far_edge edge fs js)) \<and>
      (far_edge edge fs js = Inf True \<or> (\<exists>j\<in>set js. far_edge edge fs js = edge (fs ! j)))"
    using fold_fmax [of "Inf True" ?xs edge] assms(2) unfolding e by simp
  then have "far_edge edge fs js \<noteq> Nan" by (auto simp: fle_def)
  moreover have "\<exists>j\<in>set js. far_edge edge fs js = edge (fs ! j)" if "js \<noteq> []" "\<forall>j\<in>set js. is_finite (edge (fs ! j))"
  proof (rule ccontr)
    assume "\<not> ?thesis"
    with f have top: "far_edge edge fs js = Inf True" by blast
    from that(1) obtain j where j: "j \<in> set js" by (cases js) auto
    with f top have "fle (edge (fs ! j)) (Inf True)" by simp
    with j that(2) show False by (cases "edge (fs ! j)") (auto simp: fle_def less_eq_prod_def less_prod_def)
  qed
  ultimately show ?thesis using f by blast
qed

lemma near_edge_bound:
  assumes "set js \<subseteq> {..<length fs}" "\<forall>j\<in>set js. edge (fs ! j) \<noteq> Nan"
  shows "near_edge edge fs js \<noteq> Nan \<and> (\<forall>j\<in>set js. fle (near_edge edge fs js) (edge (fs ! j))) \<and>
    (js \<noteq> [] \<longrightarrow> (\<forall>j\<in>set js. is_finite (edge (fs ! j))) \<longrightarrow> (\<exists>j\<in>set js. near_edge edge fs js = edge (fs ! j)))"
proof -
  let ?xs = "map ((!) fs) js"
  have e: "near_edge edge fs js = fold (\<lambda>f acc. fmin acc (edge f)) ?xs (Inf False)"
    by (simp add: near_edge_def valid_fragments_in [OF assms(1)])
  have f: "fle (near_edge edge fs js) (Inf False) \<and> (\<forall>j\<in>set js. fle (near_edge edge fs js) (edge (fs ! j))) \<and>
      (near_edge edge fs js = Inf False \<or> (\<exists>j\<in>set js. near_edge edge fs js = edge (fs ! j)))"
    using fold_fmin [of "Inf False" ?xs edge] assms(2) unfolding e by simp
  then have "near_edge edge fs js \<noteq> Nan" by (auto simp: fle_def)
  moreover have "\<exists>j\<in>set js. near_edge edge fs js = edge (fs ! j)" if "js \<noteq> []" "\<forall>j\<in>set js. is_finite (edge (fs ! j))"
  proof (rule ccontr)
    assume "\<not> ?thesis"
    with f have top: "near_edge edge fs js = Inf False" by blast
    from that(1) obtain j where j: "j \<in> set js" by (cases js) auto
    with f top have "fle (Inf False) (edge (fs ! j))" by simp
    with j that(2) show False by (cases "edge (fs ! j)") (auto simp: fle_def less_eq_prod_def less_prod_def)
  qed
  ultimately show ?thesis using f by blast
qed

lemma far_edge_attained:
  assumes "proper_fragments fs" "set js \<subseteq> {..<length fs}" "js \<noteq> []"
  obtains j where "j \<in> set js" "far_edge (\<lambda>f. right (lf_bbox f)) fs js = right (lf_bbox (fs ! j))"
    "is_finite (right (lf_bbox (fs ! j)))" "\<forall>i\<in>set js. fle (right (lf_bbox (fs ! i))) (far_edge (\<lambda>f. right (lf_bbox f)) fs js)"
proof -
  from assms(1,2) have fin: "\<forall>j\<in>set js. is_finite (right (lf_bbox (fs ! j)))"
    by (auto simp: proper_fragments_def bbox_ok_def list_all_length)
  then have "\<forall>j\<in>set js. right (lf_bbox (fs ! j)) \<noteq> Nan" by (auto dest: is_finite_not_Nan)
  from far_edge_bound [where edge = "\<lambda>f. right (lf_bbox f)", OF assms(2) this] fin assms(3) that show thesis by blast
qed

lemma near_edge_attained:
  assumes "proper_fragments fs" "set js \<subseteq> {..<length fs}" "js \<noteq> []"
  obtains j where "j \<in> set js" "near_edge (\<lambda>f. left (lf_bbox f)) fs js = left (lf_bbox (fs ! j))"
    "is_finite (left (lf_bbox (fs ! j)))" "\<forall>i\<in>set js. fle (near_edge (\<lambda>f. left (lf_bbox f)) fs js) (left (lf_bbox (fs ! i)))"
proof -
  from assms(1,2) have fin: "\<forall>j\<in>set js. is_finite (left (lf_bbox (fs ! j)))"
    by (auto simp: proper_fragments_def bbox_ok_def list_all_length)
  then have "\<forall>j\<in>set js. left (lf_bbox (fs ! j)) \<noteq> Nan" by (auto dest: is_finite_not_Nan)
  from near_edge_bound [where edge = "\<lambda>f. left (lf_bbox f)", OF assms(2) this] fin assms(3) that show thesis by blast
qed

lemma index_key_mset: "mset (sort_key (index_key key fs) js) = mset js"
  by simp

text \<open>What the best cut so far satisfies.\<close>

definition split_of :: "nat list \<Rightarrow> nat list \<Rightarrow> nat list \<Rightarrow> bool" where
  "split_of js p q \<longleftrightarrow> p \<noteq> [] \<and> q \<noteq> [] \<and> mset p + mset q = mset js"

lemma split_at: "0 < n \<Longrightarrow> n < length js \<Longrightarrow> split_of js (take n js) (drop n js)"
  by (auto simp: split_of_def simp flip: mset_append)

lemma split_of_mset: "split_of js p q \<Longrightarrow> mset js = mset js' \<Longrightarrow> split_of js' p q"
  by (simp add: split_of_def)

lemma banner_split: "banner_partition fs js b = Some (p, q) \<Longrightarrow> split_of js p q"
  by (auto simp: banner_partition_def Let_def split_of_def split: list.splits option.splits if_splits)

definition vertical_cut :: "line_fragment list \<Rightarrow> bbox list \<Rightarrow> bbox \<Rightarrow> nat list \<Rightarrow> nat list \<Rightarrow> bool" where
  "vertical_cut fs obstacles region p q \<longleftrightarrow>
     flt (far_edge (\<lambda>f. right (lf_bbox f)) fs p) (near_edge (\<lambda>f. left (lf_bbox f)) fs q) \<and>
     (\<forall>b\<in>set obstacles. \<not> crosses region (far_edge (\<lambda>f. right (lf_bbox f)) fs p) (near_edge (\<lambda>f. left (lf_bbox f)) fs q) b)"

lemma vertical_step_Some:
  assumes "vertical_step fs obstacles region h by_center n best = Some (gap, p, q)"
  shows "best = Some (gap, p, q) \<or> p = take n by_center \<and> q = drop n by_center \<and>
    (\<exists>a. \<not> flt (fsub (near_edge (\<lambda>f. left (lf_bbox f)) fs q) (far_edge (\<lambda>f. right (lf_bbox f)) fs p)) (fmax a (Fin 2))) \<and>
    (\<forall>b\<in>set obstacles. \<not> crosses region (far_edge (\<lambda>f. right (lf_bbox f)) fs p) (near_edge (\<lambda>f. left (lf_bbox f)) fs q) b)"
  using assms unfolding vertical_step_def Let_def by (auto split: if_splits)

lemma vertical_split:
  assumes "vertical_partition fs obstacles js region = Some (p, q)" "proper_fragments fs" "set js \<subseteq> {..<length fs}"
  shows "split_of js p q \<and> vertical_cut fs obstacles region p q"
proof -
  let ?key = "index_key (\<lambda>f. px (center (lf_bbox f))) fs"
  define by_center where "by_center = sort_key ?key js"
  define h where "h = median_height fs js"
  let ?good = "\<lambda>best. \<forall>gap p q. best = Some (gap, p, q) \<longrightarrow> split_of by_center p q \<and> vertical_cut fs obstacles region p q"
  have "?good (fold (vertical_step fs obstacles region h by_center) [1..<length by_center] None)"
  proof (rule fold_invariant [where Q = "\<lambda>n. 0 < n \<and> n < length by_center" and P = ?good])
    fix n and best :: best_cut
    assume n: "0 < n \<and> n < length by_center" and best: "?good best"
    let ?l = "far_edge (\<lambda>f. right (lf_bbox f)) fs (take n by_center)"
    let ?r = "near_edge (\<lambda>f. left (lf_bbox f)) fs (drop n by_center)"
    have sub: "set (take n by_center) \<subseteq> {..<length fs}" "set (drop n by_center) \<subseteq> {..<length fs}"
      using assms(3) set_take_subset [of n by_center] set_drop_subset [of n by_center] by (auto simp: by_center_def)
    have sides: "take n by_center \<noteq> []" "drop n by_center \<noteq> []" using n by auto
    obtain i where "?l = right (lf_bbox (fs ! i))" "is_finite (right (lf_bbox (fs ! i)))"
      by (rule far_edge_attained [OF assms(2) sub(1) sides(1)])
    moreover obtain j where "?r = left (lf_bbox (fs ! j))" "is_finite (left (lf_bbox (fs ! j)))"
      by (rule near_edge_attained [OF assms(2) sub(2) sides(2)])
    ultimately have finite: "is_finite ?l" "is_finite ?r" by simp_all
    then have nan: "?l \<noteq> Nan" "?r \<noteq> Nan" by (auto dest: is_finite_not_Nan)
    have "flt ?l ?r" if "\<not> flt (fsub ?r ?l) (fmax a (Fin 2))" for a
      by (rule fsub_positive [OF wide_gap [OF that fsub_finite_not_Nan [OF finite(2,1)]] nan(2,1)])
    note wide = this
    have parts: "split_of by_center (take n by_center) (drop n by_center)" using n by (intro split_at) auto
    show "?good (vertical_step fs obstacles region h by_center n best)"
    proof (intro allI impI)
      fix gap p q
      assume "vertical_step fs obstacles region h by_center n best = Some (gap, p, q)"
      from vertical_step_Some [OF this] show "split_of by_center p q \<and> vertical_cut fs obstacles region p q"
      proof (elim disjE conjE exE)
        assume "best = Some (gap, p, q)"
        with best show ?thesis by blast
      next
        fix a
        assume "p = take n by_center" "q = drop n by_center"
          "\<not> flt (fsub (near_edge (\<lambda>f. left (lf_bbox f)) fs q) (far_edge (\<lambda>f. right (lf_bbox f)) fs p)) (fmax a (Fin 2))"
          "\<forall>b\<in>set obstacles. \<not> crosses region (far_edge (\<lambda>f. right (lf_bbox f)) fs p) (near_edge (\<lambda>f. left (lf_bbox f)) fs q) b"
        with parts wide [of a] show ?thesis by (simp add: vertical_cut_def)
      qed
    qed
  qed auto
  then show ?thesis using assms(1)
    by (auto simp: vertical_partition_def Let_def by_center_def h_def intro: split_of_mset [of by_center])
qed

lemma vertical_parts:
  assumes "vertical_partition fs obstacles js region = Some (p, q)"
  shows "split_of js p q"
proof -
  define by_center where "by_center = sort_key (index_key (\<lambda>f. px (center (lf_bbox f))) fs) js"
  define h where "h = median_height fs js"
  let ?good = "\<lambda>best. \<forall>gap p q. best = Some (gap, p, q) \<longrightarrow> split_of by_center p q"
  have "?good (fold (vertical_step fs obstacles region h by_center) [1..<length by_center] None)"
  proof (rule fold_invariant [where Q = "\<lambda>n. 0 < n \<and> n < length by_center" and P = ?good])
    fix n and best :: best_cut
    assume "0 < n \<and> n < length by_center" "?good best"
    then show "?good (vertical_step fs obstacles region h by_center n best)"
      using split_at [of n by_center] by (auto dest!: vertical_step_Some)
  qed auto
  then show ?thesis using assms
    by (auto simp: vertical_partition_def Let_def by_center_def h_def intro: split_of_mset [of by_center])
qed

lemma horizontal_split:
  assumes "horizontal_partition fs js = Some (p, q)"
  shows "split_of js p q"
proof -
  define by_center where "by_center = sort_key (index_key (\<lambda>f. py (center (lf_bbox f))) fs) js"
  define m where "m = fmul (median_height fs js) (Fin 3)"
  let ?good = "\<lambda>best. \<forall>gap p q. best = Some (gap, p, q) \<longrightarrow> split_of by_center p q"
  have "?good (fold (horizontal_step fs m by_center) [1..<length by_center] None)"
  proof (rule fold_invariant [where Q = "\<lambda>n. 0 < n \<and> n < length by_center" and P = ?good])
    fix n and best :: best_cut
    assume "0 < n \<and> n < length by_center" "?good best"
    then show "?good (horizontal_step fs m by_center n best)"
      using split_at [of n by_center] by (auto simp: horizontal_step_def Let_def)
  qed auto
  then show ?thesis using assms
    by (auto simp: horizontal_partition_def Let_def by_center_def m_def intro: split_of_mset [of by_center])
qed

lemma find_cut_split:
  assumes "find_cut fs obstacles js b = Some (axis, p, q)" "proper_fragments fs" "set js \<subseteq> {..<length fs}"
  shows "split_of js p q \<and> (axis = VerticalCut \<longrightarrow> vertical_cut fs obstacles b p q)"
  using assms by (auto simp: find_cut_def split: option.splits dest: banner_split vertical_split horizontal_split)

text \<open>A cut always partitions, also when boxes are degenerate.\<close>

lemma find_cut_parts: "find_cut fs obstacles js b = Some (axis, p, q) \<Longrightarrow> split_of js p q"
  by (auto simp: find_cut_def split: option.splits dest: banner_split vertical_parts horizontal_split)

section \<open>The tree\<close>

definition owned :: "region_tree \<Rightarrow> nat list" where
  "owned t = concat (map snd (visit_leaves t))"

definition leaf_paths :: "region_tree \<Rightarrow> rstr list" where
  "leaf_paths t = map fst (visit_leaves t)"

fun clear_cuts :: "line_fragment list \<Rightarrow> bbox list \<Rightarrow> region_tree \<Rightarrow> bool" where
  "clear_cuts fs obstacles (Leaf path b js) = True"
| "clear_cuts fs obstacles (Split path b axis children) =
     ((case map owned children of [ls, rs] \<Rightarrow> ls \<noteq> [] \<and> rs \<noteq> [] \<and>
         (axis = VerticalCut \<longrightarrow> separated fs ls rs \<and> list_all (avoids fs b ls rs) obstacles) | _ \<Rightarrow> False) \<and>
      list_all (clear_cuts fs obstacles) children)"

lemma vertical_cut_clear:
  assumes "vertical_cut fs obstacles b p q" "proper_fragments fs" "set p \<subseteq> {..<length fs}" "set q \<subseteq> {..<length fs}"
    and "set ls = set p" "set rs = set q" "p \<noteq> []" "q \<noteq> []"
  shows "separated fs ls rs \<and> list_all (avoids fs b ls rs) obstacles"
proof -
  let ?l = "far_edge (\<lambda>f. right (lf_bbox f)) fs p" and ?r = "near_edge (\<lambda>f. left (lf_bbox f)) fs q"
  from far_edge_attained [OF assms(2,3,7)] have l: "\<forall>i\<in>set p. fle (right (lf_bbox (fs ! i))) ?l" "\<exists>i\<in>set p. ?l = right (lf_bbox (fs ! i))"
    by metis+
  from near_edge_attained [OF assms(2,4,8)] have r: "\<forall>j\<in>set q. fle ?r (left (lf_bbox (fs ! j)))" "\<exists>j\<in>set q. ?r = left (lf_bbox (fs ! j))"
    by metis+
  have "separated fs ls rs"
    unfolding separated_def list_all_iff assms(5,6)
  proof (intro ballI)
    fix i j assume "i \<in> set p" "j \<in> set q"
    with l(1) r(1) have "fle (right (lf_bbox (fs ! i))) ?l" "fle ?r (left (lf_bbox (fs ! j)))" by auto
    moreover have "flt ?l ?r" using assms(1) by (simp add: vertical_cut_def)
    ultimately show "flt (right (lf_bbox (fs ! i))) (left (lf_bbox (fs ! j)))" by (blast intro: fle_flt_trans flt_fle_trans)
  qed
  moreover have "avoids fs b ls rs c" if "c \<in> set obstacles" for c
  proof (rule ccontr)
    assume "\<not> ?thesis"
    with l(2) r(2) have "crosses b ?l ?r c" by (auto simp: avoids_def list_all_iff assms(5,6) crosses_def)
    with assms(1) that show False by (simp add: vertical_cut_def)
  qed
  ultimately show ?thesis by (simp add: list_all_iff)
qed

lemma build_region_partition: "mset (owned (build_region fs obstacles js b path depth)) = mset js"
proof (induction fs obstacles js b path depth rule: build_region.induct)
  case (1 fs obstacles js b path depth)
  let ?js = "sort_indices fs js"
  show ?case
  proof (cases "length ?js \<le> 1 \<or> max_depth \<le> depth \<or> find_cut fs obstacles ?js b = None")
    case True
    then have "build_region fs obstacles js b path depth = Leaf path b ?js"
      by (subst build_region.simps) (auto simp: Let_def)
    then show ?thesis by (simp add: owned_def sort_indices_def)
  next
    case False
    then obtain axis p q where cut: "find_cut fs obstacles ?js b = Some (axis, p, q)" by auto
    have go: "\<not> (length ?js \<le> 1 \<or> max_depth \<le> depth)" using False by blast
    have "owned (build_region fs obstacles js b path depth) =
        owned (build_region fs obstacles p (unwrap_or (union_indices fs p) b) (child_path axis path 0) (depth + 1)) @
        owned (build_region fs obstacles q (unwrap_or (union_indices fs q) b) (child_path axis path 1) (depth + 1))"
      using False cut by (subst build_region.simps) (auto simp: Let_def owned_def)
    moreover have "mset (owned (build_region fs obstacles p (unwrap_or (union_indices fs p) b) (child_path axis path 0) (depth + 1))) = mset p"
      using "1.IH" [OF refl go cut refl refl, of "(0, p)" 0 p] by simp
    moreover have "mset (owned (build_region fs obstacles q (unwrap_or (union_indices fs q) b) (child_path axis path 1) (depth + 1))) = mset q"
      using "1.IH" [OF refl go cut refl refl, of "(1, q)" 1 q] by simp
    ultimately show ?thesis using find_cut_parts [OF cut] by (simp add: split_of_def sort_indices_def)
  qed
qed

lemma xy_cut_partition: "mset (concat (map snd (visit_leaves (xy_cut fs obstacles page)))) = mset [0..<length fs]"
  using build_region_partition by (simp add: owned_def xy_cut_def sort_indices_def)

lemma build_region_clear:
  assumes "proper_fragments fs" "set js \<subseteq> {..<length fs}"
  shows "mset (owned (build_region fs obstacles js b path depth)) = mset js \<and>
    clear_cuts fs obstacles (build_region fs obstacles js b path depth)"
  using assms
proof (induction fs obstacles js b path depth rule: build_region.induct)
  case (1 fs obstacles js b path depth)
  let ?js = "sort_indices fs js"
  show ?case
  proof (cases "length ?js \<le> 1 \<or> max_depth \<le> depth \<or> find_cut fs obstacles ?js b = None")
    case True
    then have "build_region fs obstacles js b path depth = Leaf path b ?js"
      by (subst build_region.simps) (auto simp: Let_def)
    then show ?thesis by (simp add: owned_def sort_indices_def)
  next
    case False
    then obtain axis p q where cut: "find_cut fs obstacles ?js b = Some (axis, p, q)" by auto
    define left_tree where "left_tree = build_region fs obstacles p (unwrap_or (union_indices fs p) b) (child_path axis path 0) (depth + 1)"
    define right_tree where "right_tree = build_region fs obstacles q (unwrap_or (union_indices fs q) b) (child_path axis path 1) (depth + 1)"
    have tree: "build_region fs obstacles js b path depth = Split path b axis [left_tree, right_tree]"
      using False cut by (subst build_region.simps) (auto simp: Let_def left_tree_def right_tree_def)
    have sub: "set ?js \<subseteq> {..<length fs}" using "1.prems"(2) by (simp add: sort_indices_def)
    from find_cut_split [OF cut "1.prems"(1) sub]
    have split: "split_of ?js p q" and vertical: "axis = VerticalCut \<Longrightarrow> vertical_cut fs obstacles b p q" by auto
    from split have parts: "set p \<subseteq> {..<length fs}" "set q \<subseteq> {..<length fs}" "p \<noteq> []" "q \<noteq> []"
      using sub unfolding split_of_def by (auto dest!: arg_cong [of _ _ set_mset]) blast+
    have go: "\<not> (length ?js \<le> 1 \<or> max_depth \<le> depth)" using False by blast
    have left: "mset (owned left_tree) = mset p \<and> clear_cuts fs obstacles left_tree"
      unfolding left_tree_def using "1.IH" [OF refl go cut refl refl, of "(0, p)" 0 p] "1.prems"(1) parts(1) by simp
    have right: "mset (owned right_tree) = mset q \<and> clear_cuts fs obstacles right_tree"
      unfolding right_tree_def using "1.IH" [OF refl go cut refl refl, of "(1, q)" 1 q] "1.prems"(1) parts(2) by simp
    have sets: "set (owned left_tree) = set p" "set (owned right_tree) = set q"
      using left right by (metis set_mset_mset)+
    have "mset (owned (Split path b axis [left_tree, right_tree])) = mset js"
      using left right split by (simp add: owned_def split_of_def sort_indices_def)
    moreover have "axis = VerticalCut \<longrightarrow> separated fs (owned left_tree) (owned right_tree) \<and>
        list_all (avoids fs b (owned left_tree) (owned right_tree)) obstacles"
      using vertical_cut_clear [OF vertical "1.prems"(1) parts(1,2) sets parts(3,4)] by blast
    moreover have "owned left_tree \<noteq> []" "owned right_tree \<noteq> []" using sets parts(3,4) by force+
    ultimately show ?thesis using left right by (simp add: tree)
  qed
qed

section \<open>Paths\<close>

text \<open>Below a path, in the order of the children.\<close>

definition below_path :: "rstr \<Rightarrow> rstr \<Rightarrow> bool" where
  "below_path p q \<longleftrightarrow> (\<exists>s. q = p @ s)"

lemma less_common: "a < b \<Longrightarrow> (p @ a # s :: rstr) < p @ b # t"
  by (simp add: list_less_def lexord_append_leftI)

lemma child_path_parts:
  "child_path axis path 0 = path @ [46, if axis = HorizontalCut then 104 else 118] @ [48]"
  "child_path axis path 1 = path @ [46, if axis = HorizontalCut then 104 else 118] @ [49]"
  by (cases axis; simp add: child_path_def horizontal_child_def vertical_child_def show_nat.simps of_char_def)+

lemma child_less: "below_path (child_path axis path 0) p \<Longrightarrow> below_path (child_path axis path 1) q \<Longrightarrow> p < q"
  using less_common [of 48 49 "path @ [46, if axis = HorizontalCut then 104 else 118]"]
  by (auto simp: below_path_def child_path_parts simp del: One_nat_def)

lemma child_below: "below_path (child_path axis path k) q \<Longrightarrow> below_path path q"
  by (cases axis) (auto simp: below_path_def child_path_def horizontal_child_def vertical_child_def)

lemma child_is_path: "region_path path \<Longrightarrow> region_path (child_path axis path k)"
  by (cases axis) (auto simp: child_path_def intro: region_path.intros)

lemma build_region_paths:
  assumes "region_path path" and "d = max_depth - depth"
  shows "sorted_wrt (<) (leaf_paths (build_region fs obstacles js b path depth)) \<and>
    list_all (\<lambda>q. region_path q \<and> below_path path q) (leaf_paths (build_region fs obstacles js b path depth)) \<and>
    length (leaf_paths (build_region fs obstacles js b path depth)) \<le> 2 ^ d"
  using assms
proof (induction fs obstacles js b path depth arbitrary: d rule: build_region.induct)
  case (1 fs obstacles js b path depth)
  let ?js = "sort_indices fs js"
  show ?case
  proof (cases "length ?js \<le> 1 \<or> max_depth \<le> depth \<or> find_cut fs obstacles ?js b = None")
    case True
    then have "build_region fs obstacles js b path depth = Leaf path b ?js"
      by (subst build_region.simps) (auto simp: Let_def)
    then show ?thesis using "1.prems" by (simp add: leaf_paths_def below_path_def)
  next
    case False
    then obtain axis p q where cut: "find_cut fs obstacles ?js b = Some (axis, p, q)" by auto
    define left_tree where "left_tree = build_region fs obstacles p (unwrap_or (union_indices fs p) b) (child_path axis path 0) (depth + 1)"
    define right_tree where "right_tree = build_region fs obstacles q (unwrap_or (union_indices fs q) b) (child_path axis path 1) (depth + 1)"
    have tree: "build_region fs obstacles js b path depth = Split path b axis [left_tree, right_tree]"
      using False cut by (subst build_region.simps) (auto simp: Let_def left_tree_def right_tree_def)
    have go: "\<not> (length ?js \<le> 1 \<or> max_depth \<le> depth)" using False by blast
    then obtain e where d: "d = Suc e" using "1.prems"(2) by (metis Suc_diff_Suc not_le)
    have depth: "e = max_depth - (depth + 1)" using d "1.prems"(2) by simp
    note path = child_is_path [OF "1.prems"(1)]
    have left: "sorted_wrt (<) (leaf_paths left_tree) \<and>
        list_all (\<lambda>q. region_path q \<and> below_path (child_path axis path 0) q) (leaf_paths left_tree) \<and> length (leaf_paths left_tree) \<le> 2 ^ e"
      unfolding left_tree_def using "1.IH" [OF refl go cut refl refl, of "(0, p)" 0 p, OF _ refl path depth] by simp
    have right: "sorted_wrt (<) (leaf_paths right_tree) \<and>
        list_all (\<lambda>q. region_path q \<and> below_path (child_path axis path 1) q) (leaf_paths right_tree) \<and> length (leaf_paths right_tree) \<le> 2 ^ e"
      unfolding right_tree_def using "1.IH" [OF refl go cut refl refl, of "(1, q)" 1 q, OF _ refl path depth] by simp
    have paths: "leaf_paths (Split path b axis [left_tree, right_tree]) = leaf_paths left_tree @ leaf_paths right_tree"
      by (simp add: leaf_paths_def)
    have "list_all (\<lambda>q. region_path q \<and> below_path path q) (leaf_paths left_tree @ leaf_paths right_tree)"
      using left right child_below by (auto simp: list_all_iff)
    moreover have "sorted_wrt (<) (leaf_paths left_tree @ leaf_paths right_tree)"
      using left right child_less [of axis path] by (auto simp: sorted_wrt_append list_all_iff)
    ultimately show ?thesis using left right by (simp add: tree paths d)
  qed
qed

lemma leaves_nonempty: "clear_cuts fs obstacles t \<Longrightarrow> owned t \<noteq> [] \<Longrightarrow> list_all (\<lambda>(path, js). js \<noteq> []) (visit_leaves t)"
proof (induction fs obstacles t rule: clear_cuts.induct)
  case (2 fs obstacles path b axis children)
  then have "\<forall>c\<in>set children. owned c \<noteq> []"
    by (auto split: list.splits)
  with 2 show ?case by (auto simp: list_all_iff)
qed (simp add: owned_def)

lemma fallback_ids_ordered: "p < q \<Longrightarrow> fallback_region_id n p < fallback_region_id n q"
  by (simp add: fallback_region_id_def page_id_def list_less_def lexord_append_leftI lexord_cons_cons)

section \<open>Properties\<close>

text \<open>
  C31: The whitespace cut partitions the residual text. Every fragment lies in exactly one leaf, no
  leaf of a page with text is empty, there are at most 256 leaves, and in the order in which they
  are visited their fallback region identifiers increase: the identifiers are distinct, and the
  lexicographic chain that the reading order builds over them follows the recursion.
\<close>

theorem xy_cut_partitions_the_page:
  assumes "proper_fragments fs" and "fs \<noteq> []"
  shows "mset (concat (map snd (visit_leaves (xy_cut fs obstacles page)))) = mset [0..<length fs] \<and>
    list_all (\<lambda>(path, js). js \<noteq> []) (visit_leaves (xy_cut fs obstacles page)) \<and>
    length (visit_leaves (xy_cut fs obstacles page)) \<le> 256 \<and>
    sorted_wrt (<) (map (\<lambda>(path, js). fallback_region_id n path) (visit_leaves (xy_cut fs obstacles page)))"
proof -
  let ?t = "xy_cut fs obstacles page"
  have sub: "set (sort_indices fs [0..<length fs]) \<subseteq> {..<length fs}" by (auto simp: sort_indices_def)
  have clear: "mset (owned ?t) = mset [0..<length fs]" "clear_cuts fs obstacles ?t"
    using build_region_clear [OF assms(1) sub, of obstacles page path_root 0] by (simp_all add: xy_cut_def sort_indices_def)
  have "owned ?t \<noteq> []" using clear(1) assms(2) by (metis length_0_conv length_upt diff_zero mset_zero_iff)
  note nonempty = leaves_nonempty [OF clear(2) this]
  have "sorted_wrt (<) (leaf_paths ?t)" "length (leaf_paths ?t) \<le> 2 ^ 8"
    using build_region_paths [OF region_path.root, of 8 0] by (simp_all add: xy_cut_def max_depth_def)
  then have "sorted_wrt (<) (map (fallback_region_id n) (leaf_paths ?t))" "length (visit_leaves ?t) \<le> 256"
    by (auto simp: sorted_wrt_map leaf_paths_def elim!: sorted_wrt_mono_rel [rotated] intro: fallback_ids_ordered)
  with clear(1) nonempty show ?thesis by (simp add: owned_def leaf_paths_def comp_def case_prod_unfold)
qed

text \<open>
  C32: The cut never splits through text or model regions. At every vertical cut of the tree, each
  fragment of the left side ends strictly before each fragment of the right side begins, and no
  obstacle in the rows of the region covers the gutter; both sides of every cut hold text.
\<close>

theorem xy_cut_gutters_are_clear:
  assumes "proper_fragments fs"
  shows "clear_cuts fs obstacles (xy_cut fs obstacles page)"
proof -
  have "set (sort_indices fs [0..<length fs]) \<subseteq> {..<length fs}" by (auto simp: sort_indices_def)
  from build_region_clear [OF assms this] show ?thesis by (simp add: xy_cut_def)
qed

section \<open>Two columns\<close>

definition plain_fragment :: "nat \<Rightarrow> bbox \<Rightarrow> line_fragment" where
  "plain_fragment i b =
     (let bl = \<lparr>base_start = \<lparr>px = left b, py = bottom b\<rparr>, base_end = \<lparr>px = right b, py = bottom b\<rparr>\<rparr>
      in \<lparr>lf_items = [plain_item (native_id 1 i) (lit ''text'') b], lf_bbox = b, lf_baseline = bl, lf_direction = LeftToRight,
          metrics = \<lparr>lm_font_size = Fin 10, font_size_estimated = False, bold_ratio = Fin 0, italic_ratio = Fin 0, lm_bbox = b,
            lm_baseline = bl, anchor = AnchorLeft, indent = left b\<rparr>, lf_rotation = Fin 0\<rparr>)"

definition two_columns :: "line_fragment list" where
  "two_columns = [plain_fragment 0 (box 0 0 40 10), plain_fragment 1 (box 60 0 100 10),
     plain_fragment 2 (box 0 12 40 22), plain_fragment 3 (box 60 12 100 22)]"

lemma two_columns_proper: "proper_fragments two_columns" "two_columns \<noteq> []"
  by code_simp+

lemma two_columns_cut: "visit_leaves (xy_cut two_columns [] (box 0 0 100 100)) = [(lit ''r.v0'', [0, 2]), (lit ''r.v1'', [1, 3])]"
  by code_simp

theorem xy_cut_partitions_the_page_witness:
  "sorted_wrt (<) [fallback_region_id 1 (lit ''r.v0''), fallback_region_id 1 (lit ''r.v1'')]"
  using xy_cut_partitions_the_page [OF two_columns_proper, of "[]" "box 0 0 100 100" 1] by (simp add: two_columns_cut)

theorem xy_cut_gutters_are_clear_witness: "clear_cuts two_columns [] (xy_cut two_columns [] (box 0 0 100 100))"
  by (rule xy_cut_gutters_are_clear [OF two_columns_proper(1)])

end
