(* ===== verification/Line_Metrics.thy ===== *)
theory Line_Metrics
  imports Line_Fragment Order_Graph "HOL-Library.Option_ord" "HOL-Library.Multiset"
begin

text \<open>
  Building a line fragment from text items: \<open>crates/core/src/line/bidi.rs\<close>,
  \<open>crates/core/src/line/metrics.rs\<close> and the constructors in
  \<open>crates/core/src/line/assemble.rs\<close>. The sine and cosine of an angle and the Unicode letter
  test are parameters.
\<close>

datatype line_error = EmptyFragment | LineGeometry geometry_error

definition geometry :: "geometry_error + 'a \<Rightarrow> line_error + 'a" where
  "geometry m = (case m of Inl e \<Rightarrow> Inl (LineGeometry e) | Inr x \<Rightarrow> Inr x)"

lemma geometry_Inr [simp, result_simps]: "geometry m = Inr x \<longleftrightarrow> m = Inr x"
  by (cases m) (auto simp: geometry_def)

text \<open>\<open>std::cmp::Reverse\<close>.\<close>

datatype 'a reversed = Reversed 'a

instantiation reversed :: (linorder) linorder
begin

fun less_eq_reversed :: "'a reversed \<Rightarrow> 'a reversed \<Rightarrow> bool" where
  "less_eq_reversed (Reversed a) (Reversed b) \<longleftrightarrow> b \<le> a"

fun less_reversed :: "'a reversed \<Rightarrow> 'a reversed \<Rightarrow> bool" where
  "less_reversed (Reversed a) (Reversed b) \<longleftrightarrow> b < a"

instance
proof
  fix x y z :: "'a reversed"
  show "x < y \<longleftrightarrow> x \<le> y \<and> \<not> y \<le> x" by (cases x; cases y) auto
  show "x \<le> x" by (cases x) auto
  show "x \<le> y \<Longrightarrow> y \<le> z \<Longrightarrow> x \<le> z" by (cases x; cases y; cases z) auto
  show "x \<le> y \<Longrightarrow> y \<le> x \<Longrightarrow> x = y" by (cases x; cases y) auto
  show "x \<le> y \<or> y \<le> x" by (cases x; cases y) auto
qed

end

section \<open>Direction and order\<close>

definition i32_limit :: int where
  "i32_limit = 2147483648"

text \<open>The cast to \<open>i32\<close> of a rounded value saturates.\<close>

definition as_i32 :: "f64 \<Rightarrow> int" where
  "as_i32 a = (case a of Fin r \<Rightarrow> max (- i32_limit) (min (i32_limit - 1) \<lfloor>r\<rfloor>)
     | Inf n \<Rightarrow> if n then - i32_limit else i32_limit - 1 | _ \<Rightarrow> 0)"

definition angle_delta :: "f64 \<Rightarrow> f64 \<Rightarrow> f64" where
  "angle_delta r c = fmin (fabs (fsub r c)) (fsub (Fin 360) (fabs (fsub r c)))"

definition canonical_rotation :: "f64 \<Rightarrow> int" where
  "canonical_rotation rotation =
     (let r = rem_euclid rotation (Fin 360)
      in case min_by_key (angle_delta r) [Fin 0, Fin 90, Fin 180, Fin 270] of
           None \<Rightarrow> as_i32 (fround r)
         | Some c \<Rightarrow> if fle (angle_delta r c) (Fin 2) then as_i32 c else as_i32 (fround r))"

definition is_rtl_character :: "uchar \<Rightarrow> bool" where
  "is_rtl_character c \<longleftrightarrow>
     0x0590 \<le> c \<and> c \<le> 0x07BF \<or> 0x0800 \<le> c \<and> c \<le> 0x085F \<or> 0x08A0 \<le> c \<and> c \<le> 0x08FF \<or> 0xFB1D \<le> c \<and> c \<le> 0xFDFF \<or>
     0xFE70 \<le> c \<and> c \<le> 0xFEFF \<or> 0x10800 \<le> c \<and> c \<le> 0x10FFF \<or> 0x1E800 \<le> c \<and> c \<le> 0x1EFFF"

definition detect_direction :: "(uchar \<Rightarrow> bool) \<Rightarrow> text_item list \<Rightarrow> f64 \<Rightarrow> writing_direction" where
  "detect_direction alphabetic items rotation =
     (if canonical_rotation rotation = 90 \<or> canonical_rotation rotation = 270 then Vertical
      else
        let cs = concat (map raw_text items);
            rtl = length (filter is_rtl_character cs);
            ltr = length (filter (\<lambda>c. \<not> is_rtl_character c \<and> alphabetic c) cs)
        in if ltr < rtl then RightToLeft else LeftToRight)"

definition first_rotation :: "text_item list \<Rightarrow> f64" where
  "first_rotation items = (case items of [] \<Rightarrow> Fin 0 | it # _ \<Rightarrow> it_rotation it)"

definition order_items :: "(f64 \<Rightarrow> f64 \<times> f64) \<Rightarrow> writing_direction \<Rightarrow> text_item list \<Rightarrow> text_item list" where
  "order_items trig dir items =
     (let rotation = (if items = [] then 0 else canonical_rotation (first_rotation items));
          axes = axes_of trig (first_rotation items);
          along = (\<lambda>it. px (project axes (center (it_bbox it))))
      in if is_oblique axes \<or> rotation = 180 then
           (if dir = RightToLeft then sort_key (\<lambda>it. (Reversed (along it), it_id it)) items
            else sort_key (\<lambda>it. (along it, it_id it)) items)
         else case dir of
           LeftToRight \<Rightarrow> sort_key (\<lambda>it. (left (it_bbox it), it_id it)) items
         | RightToLeft \<Rightarrow> sort_key (\<lambda>it. (Reversed (right (it_bbox it)), it_id it)) items
         | Vertical \<Rightarrow>
             if rotation = 270 then sort_key (\<lambda>it. (Reversed (bottom (it_bbox it)), left (it_bbox it), it_id it)) items
             else sort_key (\<lambda>it. (top_of (it_bbox it), left (it_bbox it), it_id it)) items)"

section \<open>Metrics\<close>

record metric_sums =
  sum_bbox :: bbox
  character_count :: nat
  font_size_sum :: f64
  font_size_characters :: nat
  has_estimated_size :: bool
  bold_characters :: nat
  italic_characters :: nat

definition add_item_metrics :: "text_item \<Rightarrow> metric_sums \<Rightarrow> line_error + metric_sums" where
  "add_item_metrics it s =
     rbind (geometry (union_bbox (sum_bbox s) (it_bbox it))) (\<lambda>b.
     let count = max 1 (length (raw_text it)); s = s\<lparr>sum_bbox := b, character_count := character_count s + count\<rparr>
     in Inr (case it_style it of None \<Rightarrow> s
        | Some st \<Rightarrow>
            let s = (case style_font_size st of None \<Rightarrow> s
                  | Some v \<Rightarrow> s\<lparr>font_size_sum := fadd (font_size_sum s) (fmul v (of_count count)),
                      font_size_characters := font_size_characters s + count,
                      has_estimated_size := has_estimated_size s \<or> st_size_estimated st\<rparr>);
                s = (if st_bold st then s\<lparr>bold_characters := bold_characters s + count\<rparr> else s)
            in if st_italic st then s\<lparr>italic_characters := italic_characters s + count\<rparr> else s))"

text \<open>A sloping or upside-down line: the measured baselines at its ends, or a guess through the centre.\<close>

definition sloping_baseline :: "text_axes \<Rightarrow> bbox \<Rightarrow> text_item list \<Rightarrow> baseline" where
  "sloping_baseline axes b items =
     (case (it_baseline (hd items), it_baseline (last items)) of
        (Some f, Some l) \<Rightarrow> \<lparr>base_start = base_start f, base_end = base_end l\<rparr>
      | _ \<Rightarrow>
          let u = unproject axes \<lparr>px = Fin 1, py = Fin 0\<rparr>;
              half = fmul (Fin (1 / 2)) (fmin (fdiv (width b) (fabs (px u))) (fdiv (height b) (fabs (py u))));
              c = center b
          in \<lparr>base_start = \<lparr>px = fsub (px c) (fmul (px u) half), py = fsub (py c) (fmul (py u) half)\<rparr>,
              base_end = \<lparr>px = fadd (px c) (fmul (px u) half), py = fadd (py c) (fmul (py u) half)\<rparr>\<rparr>)"

text \<open>The baseline of the largest font, the last one among equals.\<close>

definition measured_baseline :: "text_item list \<Rightarrow> baseline option" where
  "measured_baseline items =
     map_option snd (max_by_less (\<lambda>a b. fst a < fst b) (List.map_filter (\<lambda>it. map_option
       (\<lambda>bl. (unwrap_or (case it_style it of None \<Rightarrow> None | Some st \<Rightarrow> style_font_size st) (Fin 0), bl)) (it_baseline it)) items))"

definition metrics_from_items ::
  "(f64 \<Rightarrow> f64 \<times> f64) \<Rightarrow> (uchar \<Rightarrow> bool) \<Rightarrow> text_item list \<Rightarrow> f64 \<Rightarrow> line_error + line_metrics" where
  "metrics_from_items trig alphabetic items page_width =
     (case items of [] \<Rightarrow> Inl EmptyFragment
      | first # _ \<Rightarrow>
          rbind (rfold add_item_metrics items \<lparr>sum_bbox = it_bbox first, character_count = 0, font_size_sum = Fin 0,
             font_size_characters = 0, has_estimated_size = False, bold_characters = 0, italic_characters = 0\<rparr>) (\<lambda>s.
          let b = sum_bbox s; no_size = (font_size_characters s = 0); chars = of_count (max 1 (character_count s));
              middle = fdiv page_width (Fin 2);
              where_at = (if fle (fabs (fsub (px (center b)) middle)) (fmul page_width (rnd (20 / 100))) then AnchorCenter
                else if flt (px (center b)) middle then AnchorLeft else AnchorRight);
              axes = axes_of trig (it_rotation first);
              base = (if is_oblique axes \<or> canonical_rotation (it_rotation first) = 180 then sloping_baseline axes b items
                else let y = (if detect_direction alphabetic items (it_rotation first) = Vertical then bottom b
                       else case measured_baseline items of None \<Rightarrow> bottom b | Some bl \<Rightarrow> py (base_start bl))
                     in \<lparr>base_start = \<lparr>px = left b, py = y\<rparr>, base_end = \<lparr>px = right b, py = y\<rparr>\<rparr>)
          in Inr \<lparr>lm_font_size = (if no_size then height b else fdiv (font_size_sum s) (of_count (font_size_characters s))),
               font_size_estimated = (no_size \<or> has_estimated_size s),
               bold_ratio = fdiv (of_count (bold_characters s)) chars, italic_ratio = fdiv (of_count (italic_characters s)) chars,
               lm_bbox = b, lm_baseline = base, anchor = where_at, indent = left b\<rparr>))"

section \<open>Fragments\<close>

definition from_ordered_items ::
  "(f64 \<Rightarrow> f64 \<times> f64) \<Rightarrow> (uchar \<Rightarrow> bool) \<Rightarrow> text_item list \<Rightarrow> f64 \<Rightarrow> line_error + line_fragment" where
  "from_ordered_items trig alphabetic items page_width =
     rbind (metrics_from_items trig alphabetic items page_width) (\<lambda>m.
     Inr \<lparr>lf_items = items, lf_bbox = lm_bbox m, lf_baseline = lm_baseline m,
       lf_direction = detect_direction alphabetic items (first_rotation items), metrics = m, lf_rotation = first_rotation items\<rparr>)"

definition from_items ::
  "(f64 \<Rightarrow> f64 \<times> f64) \<Rightarrow> (uchar \<Rightarrow> bool) \<Rightarrow> text_item list \<Rightarrow> f64 \<Rightarrow> line_error + line_fragment" where
  "from_items trig alphabetic items page_width =
     from_ordered_items trig alphabetic
       (order_items trig (detect_direction alphabetic items (first_rotation items)) items) page_width"

definition reading_order_y :: "(f64 \<Rightarrow> f64 \<times> f64) \<Rightarrow> line_fragment \<Rightarrow> f64" where
  "reading_order_y trig f =
     (let r = canonical_rotation (lf_rotation f)
      in if r \<noteq> 0 then py (project (axes_of trig (Fin (of_int r))) (base_start (lf_baseline f)))
         else if lf_direction f \<noteq> Vertical \<and> \<not> is_oblique (axes_of trig (lf_rotation f)) \<and>
                 (\<exists>it\<in>set (lf_items f). it_baseline it \<noteq> None)
              then py (base_start (lf_baseline f))
         else top_of (lf_bbox f))"

text \<open>The items of a list of fragments.\<close>

definition all_items :: "line_fragment list \<Rightarrow> text_item list" where
  "all_items fs = concat (map lf_items fs)"

lemma order_items_mset [simp]: "mset (order_items trig dir items) = mset items"
  by (simp add: order_items_def Let_def split: writing_direction.split)

lemma from_ordered_items_items: "from_ordered_items trig alphabetic items w = Inr f \<Longrightarrow> lf_items f = items"
  by (auto simp: from_ordered_items_def result_simps)

lemma from_items_mset: "from_items trig alphabetic items w = Inr f \<Longrightarrow> mset (lf_items f) = mset items"
  by (auto simp: from_items_def dest!: from_ordered_items_items)

end
