(* ===== verification/Line_Scripts.thy ===== *)
theory Line_Scripts
  imports Line_Metrics
begin

text \<open>
  Subscripts and superscripts: \<open>crates/core/src/line/scripts.rs\<close>. A short run of a smaller font
  beside a larger one is attached to it, pieces of one index are joined first, and nested
  indices are attached from the smallest font up.
\<close>

section \<open>Scoring a parent\<close>

definition visible_characters :: "text_item list \<Rightarrow> nat" where
  "visible_characters items = length (filter (\<lambda>c. \<not> is_whitespace c) (concat (map raw_text items)))"

text \<open>The distance of an angle from the horizontal.\<close>

definition tilt :: "f64 \<Rightarrow> f64" where
  "tilt rotation = (let r = rem_euclid rotation (Fin 360) in fmin r (fsub (Fin 360) r))"

definition is_upright :: "line_fragment \<Rightarrow> bool" where
  "is_upright f \<longleftrightarrow> fle (tilt (lf_rotation f)) (Fin 2) \<and> lf_direction f \<noteq> Vertical"

definition is_compound :: "line_fragment \<Rightarrow> bool" where
  "is_compound f \<longleftrightarrow> (\<exists>it\<in>set (lf_items f). \<exists>c\<in>{43, 45, 8722, 61, 44}. c \<in> set (raw_text it))"

definition script_ratio_ok :: "f64 \<Rightarrow> f64 \<Rightarrow> bool" where
  "script_ratio_ok small font \<longleftrightarrow> fle (rnd (45 / 100)) (fdiv small font) \<and> fle (fdiv small font) (rnd (85 / 100))"

text \<open>The typographic conditions that come first.\<close>

definition may_be_script :: "line_fragment \<Rightarrow> line_fragment \<Rightarrow> bool" where
  "may_be_script f parent \<longleftrightarrow>
     (let font = lm_font_size (metrics parent); limit = (if is_compound f then 12 else 4)
      in is_upright f \<and> is_upright parent \<and> \<not> font_size_estimated (metrics f) \<and> \<not> font_size_estimated (metrics parent) \<and>
         is_finite font \<and> \<not> fle font (Fin 0) \<and> script_ratio_ok (lm_font_size (metrics f)) font \<and>
         1 \<le> visible_characters (lf_items f) \<and> visible_characters (lf_items f) \<le> limit \<and>
         \<not> flt (fmul font (if is_compound f then Fin 3 else Fin 2)) (width (lf_bbox f)) \<and> \<not> flt font (height (lf_bbox f)))"

definition script_baseline :: "line_fragment \<Rightarrow> f64" where
  "script_baseline f =
     unwrap_or (freduce_min (List.map_filter (\<lambda>it. map_option
       (\<lambda>bl. fmul (fadd (py (base_start bl)) (py (base_end bl))) (Fin (1 / 2))) (it_baseline it)) (lf_items f)))
       (py (base_start (lf_baseline f)))"

text \<open>The geometric conditions and the score, for one base run.\<close>

definition base_score :: "line_fragment \<Rightarrow> line_fragment \<Rightarrow> f64 option" where
  "base_score f parent =
     (let a = lf_bbox f; b = lf_bbox parent; font = lm_font_size (metrics parent)
      in if lf_direction parent = LeftToRight \<and> flt (px (center a)) (left b) \<or>
            lf_direction parent = RightToLeft \<and> flt (right b) (px (center a)) then None
         else
           let lap = fsub (fmin (bottom a) (bottom b)) (fmax (top_of a) (top_of b));
               gap = fmax (fmax (fsub (left a) (right b)) (fsub (left b) (right a))) (Fin 0);
               baseline_shift = fabs (fsub (script_baseline f) (script_baseline parent));
               center_shift = fabs (fsub (py (center a)) (py (center b)));
               tolerance = rnd (2 / 1000);
               minimum_shift = (if (\<forall>it\<in>set (lf_items f). it_baseline it \<noteq> None) \<and> (\<forall>it\<in>set (lf_items parent). it_baseline it \<noteq> None)
                 then rnd (1 / 10) else rnd (15 / 100))
           in if flt lap (fmul (height a) (rnd (2 / 10))) \<or> flt (fmul font (Fin (1 / 4))) gap \<or>
                 flt (fadd baseline_shift tolerance) (fmul font minimum_shift) \<or>
                 flt (fadd (fmul font (rnd (9 / 10))) tolerance) baseline_shift \<or>
                 flt center_shift (fmul font minimum_shift) then None
              else Some (fdiv (fadd center_shift gap) font))"

text \<open>A line of several runs is scored run by run, in the row band of the line.\<close>

definition script_parent_score ::
  "(f64 \<Rightarrow> f64 \<times> f64) \<Rightarrow> (uchar \<Rightarrow> bool) \<Rightarrow> line_fragment \<Rightarrow> line_fragment \<Rightarrow> f64 option" where
  "script_parent_score trig alphabetic f parent =
     (if \<not> may_be_script f parent then None
      else if 1 < length (lf_items parent) then
        min_by_key (\<lambda>s. s) (List.map_filter (\<lambda>it.
          case from_items trig alphabetic [it] (fmax (right (lf_bbox parent)) (Fin 1)) of
            Inl _ \<Rightarrow> None
          | Inr g \<Rightarrow>
              let g = g\<lparr>lf_bbox := (lf_bbox g)\<lparr>top_of := top_of (lf_bbox parent), bottom := bottom (lf_bbox parent)\<rparr>\<rparr>
              in if may_be_script f g then base_score f g else None) (lf_items parent))
      else base_score f parent)"

definition parent_step :: "f64 option \<Rightarrow> nat \<Rightarrow> (nat \<times> f64) option \<times> f64 \<Rightarrow> (nat \<times> f64) option \<times> f64" where
  "parent_step score i st =
     (case (score, st) of
        (None, _) \<Rightarrow> st
      | (Some s, (None, runner_up)) \<Rightarrow> (Some (i, s), Inf False)
      | (Some s, (Some (j, current), runner_up)) \<Rightarrow>
          if flt s current then (Some (i, s), current) else (Some (j, current), fmin runner_up s))"

definition script_parent ::
  "(f64 \<Rightarrow> f64 \<times> f64) \<Rightarrow> (uchar \<Rightarrow> bool) \<Rightarrow> line_fragment list \<Rightarrow> line_fragment \<Rightarrow> nat option" where
  "script_parent trig alphabetic fs f =
     (case fold (\<lambda>(i, parent). parent_step (script_parent_score trig alphabetic f parent) i) (List.enumerate 0 fs) (None, Inf False) of
        (Some (i, s), runner_up) \<Rightarrow> if flt (rnd (5 / 100)) (fsub runner_up s) then Some i else None
      | _ \<Rightarrow> None)"

section \<open>Joining the pieces of an index\<close>

definition continues_script ::
  "(f64 \<Rightarrow> f64 \<times> f64) \<Rightarrow> (uchar \<Rightarrow> bool) \<Rightarrow> f64 \<Rightarrow> line_fragment \<Rightarrow> line_fragment \<Rightarrow> line_fragment \<Rightarrow> bool" where
  "continues_script trig alphabetic page_width seed parent next \<longleftrightarrow>
     (let font = lm_font_size (metrics seed);
          gap = (if lf_direction parent = RightToLeft then fsub (left (lf_bbox seed)) (right (lf_bbox next))
                 else fsub (left (lf_bbox next)) (right (lf_bbox seed)))
      in \<not> (flt (fmul font (rnd (5 / 100))) (fabs (fsub font (lm_font_size (metrics next)))) \<or>
            flt (fmul font (rnd (1 / 10))) (fabs (fsub (py (base_start (lf_baseline seed))) (py (base_start (lf_baseline next))))) \<or>
            flt gap (fmul (fneg font) (rnd (1 / 10))) \<or> flt (fmul font (Fin (1 / 2))) gap \<or>
            12 < visible_characters (lf_items seed @ lf_items next)) \<and>
         (case from_items trig alphabetic (lf_items seed @ lf_items next) page_width of
            Inl _ \<Rightarrow> False | Inr run \<Rightarrow> script_parent_score trig alphabetic run parent \<noteq> None))"

definition piece_pairs ::
  "(f64 \<Rightarrow> f64 \<times> f64) \<Rightarrow> (uchar \<Rightarrow> bool) \<Rightarrow> f64 \<Rightarrow> line_fragment list \<Rightarrow> (nat \<times> nat) list" where
  "piece_pairs trig alphabetic page_width fs =
     concat (map (\<lambda>(i, seed).
       concat (map (\<lambda>parent.
         List.map_filter (\<lambda>(j, next). if j \<noteq> i \<and> continues_script trig alphabetic page_width seed parent next
             then Some (min i j, max i j) else None) (List.enumerate 0 fs))
         (filter (\<lambda>parent. script_parent_score trig alphabetic seed parent \<noteq> None) fs))) (List.enumerate 0 fs))"

definition remove_at :: "nat \<Rightarrow> 'a list \<Rightarrow> 'a list" where
  "remove_at i xs = take i xs @ drop (Suc i) xs"

lemma enumerate_in: "(i, x) \<in> set (List.enumerate 0 xs) \<longleftrightarrow> i < length xs \<and> xs ! i = x"
  by (auto simp: in_set_enumerate_eq)

lemma piece_pairs_range: "(l, r) \<in> set (piece_pairs trig alphabetic w fs) \<Longrightarrow> l < r \<and> r < length fs"
  by (auto simp: piece_pairs_def set_map_filter enumerate_in split: if_splits)

lemma length_remove_at: "i < length xs \<Longrightarrow> length (remove_at i xs) = length xs - 1"
  by (simp add: remove_at_def)

function join_script_pieces ::
  "(f64 \<Rightarrow> f64 \<times> f64) \<Rightarrow> (uchar \<Rightarrow> bool) \<Rightarrow> f64 \<Rightarrow> line_fragment list \<Rightarrow> line_error + line_fragment list" where
  "join_script_pieces trig alphabetic w fs =
     (case hd_opt (piece_pairs trig alphabetic w fs) of
        None \<Rightarrow> Inr fs
      | Some (l, r) \<Rightarrow>
          rbind (from_items trig alphabetic (lf_items (fs ! l) @ lf_items (fs ! r)) w) (\<lambda>f.
          join_script_pieces trig alphabetic w ((remove_at r fs)[l := f])))"
  by pat_completeness auto
termination
proof (relation "measure (\<lambda>(_, _, _, fs). length fs)", goal_cases)
  case (2 trig alphabetic w fs p l r f)
  then have "(l, r) \<in> set (piece_pairs trig alphabetic w fs)" by (auto simp: hd_opt_def split: list.splits)
  then show ?case using piece_pairs_range length_remove_at [of r fs] by fastforce
qed simp

declare join_script_pieces.simps [simp del]

section \<open>Attaching\<close>

text \<open>A band of indices of different bases is reconsidered item by item.\<close>

definition splits_band ::
  "(f64 \<Rightarrow> f64 \<times> f64) \<Rightarrow> (uchar \<Rightarrow> bool) \<Rightarrow> f64 \<Rightarrow> line_fragment list \<Rightarrow> line_fragment \<Rightarrow> bool" where
  "splits_band trig alphabetic w fs f \<longleftrightarrow>
     1 < length (lf_items f) \<and> \<not> font_size_estimated (metrics f) \<and>
     (\<not> (\<exists>parent\<in>set fs. script_parent_score trig alphabetic f parent \<noteq> None) \<or>
      (\<exists>(a, b)\<in>set (windows2 (lf_items f)).
         flt (fmul (lm_font_size (metrics f)) (Fin (1 / 2))) (fsub (left (it_bbox b)) (right (it_bbox a))))) \<and>
     (\<exists>parent\<in>set fs. \<not> font_size_estimated (metrics parent) \<and>
        script_ratio_ok (lm_font_size (metrics f)) (lm_font_size (metrics parent)) \<and>
        flt (fmax (top_of (lf_bbox f)) (top_of (lf_bbox parent))) (fmin (bottom (lf_bbox f)) (bottom (lf_bbox parent))) \<and>
        (\<exists>it\<in>set (lf_items f). case from_items trig alphabetic [it] w of
           Inl _ \<Rightarrow> False | Inr single \<Rightarrow> script_parent_score trig alphabetic single parent \<noteq> None))"

definition split_bands ::
  "(f64 \<Rightarrow> f64 \<times> f64) \<Rightarrow> (uchar \<Rightarrow> bool) \<Rightarrow> f64 \<Rightarrow> line_fragment list \<Rightarrow> line_error + line_fragment list" where
  "split_bands trig alphabetic w fs =
     rbind (rmap (\<lambda>f. if splits_band trig alphabetic w fs f
         then rmap (\<lambda>it. from_items trig alphabetic [it] w) (lf_items f) else Inr [f]) fs) (\<lambda>parts. Inr (concat parts))"

text \<open>A parent with its finished children, as atoms in reading direction.\<close>

definition with_children ::
  "(f64 \<Rightarrow> f64 \<times> f64) \<Rightarrow> (uchar \<Rightarrow> bool) \<Rightarrow> f64 \<Rightarrow> line_fragment \<Rightarrow> line_fragment list \<Rightarrow> line_error + line_fragment" where
  "with_children trig alphabetic w f nested =
     (if nested = [] then Inr f
      else
        let atoms = map (\<lambda>it. (it_bbox it, [it])) (lf_items f) @ map (\<lambda>c. (lf_bbox c, lf_items c)) nested;
            ordered = (if lf_direction f = RightToLeft then sort_key (\<lambda>a. Reversed (right (fst a))) atoms
                       else sort_key (\<lambda>a. left (fst a)) atoms)
        in rbind (from_ordered_items trig alphabetic (concat (map snd ordered)) w) (\<lambda>g.
           Inr (g\<lparr>lf_baseline := lf_baseline f,
             metrics := (metrics g)\<lparr>lm_baseline := lf_baseline f, lm_font_size := lm_font_size (metrics f),
               font_size_estimated := font_size_estimated (metrics f)\<rparr>\<rparr>)))"

type_synonym attach_state = "line_fragment list list \<times> line_fragment list"

definition attach_one ::
  "(f64 \<Rightarrow> f64 \<times> f64) \<Rightarrow> (uchar \<Rightarrow> bool) \<Rightarrow> f64 \<Rightarrow> line_fragment list \<Rightarrow> nat option list \<Rightarrow> nat \<Rightarrow> attach_state \<Rightarrow> line_error + attach_state" where
  "attach_one trig alphabetic w fs parents i st =
     (case st of (children, done) \<Rightarrow>
        rbind (with_children trig alphabetic w (fs ! i) (children ! i)) (\<lambda>f.
        let children = children[i := []]
        in Inr (case parents ! i of Some p \<Rightarrow> (children[p := children ! p @ [f]], done) | None \<Rightarrow> (children, done @ [f]))))"

definition by_font :: "line_fragment list \<Rightarrow> nat list" where
  "by_font fs = sort_key (\<lambda>i. lm_font_size (metrics (fs ! i))) [0..<length fs]"

definition attach_scripts ::
  "(f64 \<Rightarrow> f64 \<times> f64) \<Rightarrow> (uchar \<Rightarrow> bool) \<Rightarrow> f64 \<Rightarrow> line_fragment list \<Rightarrow> line_error + line_fragment list" where
  "attach_scripts trig alphabetic w fs =
     rbind (join_script_pieces trig alphabetic w fs) (\<lambda>fs.
     rbind (split_bands trig alphabetic w fs) (\<lambda>candidates.
     rbind (join_script_pieces trig alphabetic w candidates) (\<lambda>fs.
     let parents = map (script_parent trig alphabetic fs) fs
     in rbind (rfold (attach_one trig alphabetic w fs parents) (by_font fs) (replicate (length fs) [], [])) (\<lambda>(_, out).
        Inr (sort_key (\<lambda>f. (reading_order_y trig f, left (lf_bbox f))) out)))))"

end
