(* ===== verification/Line_Assembly.thy ===== *)
theory Line_Assembly
  imports Line_Scripts
begin

text \<open>
  Grouping the text items of a page into line fragments: \<open>ConservativeLineAssembler\<close> of
  \<open>crates/core/src/line/assemble.rs\<close>. Items are split by orientation, then into bands across
  the line, then along the line; scripts are attached and the gaps they fill are closed.
\<close>

record fusion_config =
  minimum_line_coverage :: f64
  center_minimum_line_coverage :: f64
  assignment_coverage_weight :: f64
  assignment_center_weight :: f64
  assignment_baseline_weight :: f64
  assignment_confidence_weight :: f64
  assignment_specificity_weight :: f64
  paragraph_gap_multiplier :: f64
  indent_tolerance_points :: f64
  font_size_tolerance_points :: f64
  estimated_font_size_tolerance_points :: f64

definition default_fusion_config :: fusion_config where
  "default_fusion_config = \<lparr>minimum_line_coverage = rnd (30 / 100), center_minimum_line_coverage = rnd (10 / 100),
     assignment_coverage_weight = rnd (55 / 100), assignment_center_weight = rnd (20 / 100), assignment_baseline_weight = rnd (10 / 100),
     assignment_confidence_weight = rnd (10 / 100), assignment_specificity_weight = rnd (5 / 100), paragraph_gap_multiplier = Fin (3 / 2),
     indent_tolerance_points = Fin 6, font_size_tolerance_points = Fin (1 / 2), estimated_font_size_tolerance_points = Fin (3 / 2)\<rparr>"

definition max_horizontal_gap :: f64 where
  "max_horizontal_gap = Fin 15"

definition cross_axis_size_cap :: f64 where
  "cross_axis_size_cap = Fin 24"

section \<open>Aligned items\<close>

record aligned_item =
  ai_item :: text_item
  ai_bbox :: bbox
  ai_vertical :: bool

definition positive :: "f64 option \<Rightarrow> f64 option" where
  "positive v = (case v of None \<Rightarrow> None | Some x \<Rightarrow> if is_finite x \<and> flt (Fin 0) x then Some x else None)"

definition item_style :: "(text_style \<Rightarrow> 'a option) \<Rightarrow> text_item \<Rightarrow> 'a option" where
  "item_style get it = (case it_style it of None \<Rightarrow> None | Some st \<Rightarrow> get st)"

text \<open>A sloping item occupies a band of its font height above its projected anchor.\<close>

definition oblique_box :: "text_axes \<Rightarrow> text_item \<Rightarrow> line_error + bbox" where
  "oblique_box axes it =
     rbind (geometry (project_bbox axes (it_bbox it))) (\<lambda>projected.
     let start = project axes (case it_baseline it of None \<Rightarrow> center (it_bbox it) | Some bl \<Rightarrow> base_start bl);
         h = unwrap_or (positive (item_style style_font_size it)) (height projected);
         (l, r) = (case it_baseline it of None \<Rightarrow> (left projected, right projected)
           | Some bl \<Rightarrow>
               let s = px (project axes (base_start bl)); e = px (project axes (base_end bl))
               in if flt (fmin s e) (fmax s e) then (fmin s e, fmax s e) else (left projected, right projected))
     in geometry (bbox_try_from l (py start) r (fadd (py start) h)))"

definition align_item ::
  "(f64 \<Rightarrow> f64 \<times> f64) \<Rightarrow> (uchar \<Rightarrow> bool) \<Rightarrow> text_axes \<Rightarrow> text_item \<Rightarrow> line_error + aligned_item" where
  "align_item trig alphabetic axes it =
     (let upright = (detect_direction alphabetic [it] (it_rotation it) = Vertical)
      in rbind (if is_oblique axes then oblique_box axes it
           else if upright then geometry (bbox_try_from (top_of (it_bbox it)) (left (it_bbox it)) (bottom (it_bbox it)) (right (it_bbox it)))
           else Inr (it_bbox it)) (\<lambda>b.
         Inr \<lparr>ai_item = it, ai_bbox = b, ai_vertical = upright\<rparr>))"

section \<open>Groups of a sequence\<close>

text \<open>An element joins the last members or opens a new one.\<close>

definition push_last :: "('a list \<Rightarrow> 'a \<Rightarrow> bool) \<Rightarrow> 'a \<Rightarrow> 'a list list \<Rightarrow> 'a list list" where
  "push_last joins x groups =
     (if groups \<noteq> [] \<and> joins (last groups) x then butlast groups @ [last groups @ [x]] else groups @ [[x]])"

definition same_orientation :: "(f64 \<Rightarrow> f64 \<times> f64) \<Rightarrow> text_item list \<Rightarrow> text_item \<Rightarrow> bool" where
  "same_orientation trig members it \<longleftrightarrow>
     (case hd_opt members of None \<Rightarrow> False
      | Some first \<Rightarrow> fle (fabs (fsub (it_rotation it) (it_rotation first))) (Fin 2) \<and>
          is_oblique (axes_of trig (it_rotation it)) = is_oblique (axes_of trig (it_rotation first)))"

definition orientations :: "(f64 \<Rightarrow> f64 \<times> f64) \<Rightarrow> text_item list \<Rightarrow> text_item list list" where
  "orientations trig items =
     fold (push_last (same_orientation trig)) (sort_key (\<lambda>it. (it_rotation it, it_id it)) items) []"

section \<open>Bands across the line\<close>

definition body_size :: "aligned_item \<Rightarrow> f64" where
  "body_size a = unwrap_or (positive (item_style font_size (ai_item a))) (height (ai_bbox a))"

definition body_baseline :: "aligned_item \<Rightarrow> f64" where
  "body_baseline a = (case it_baseline (ai_item a) of None \<Rightarrow> bottom (ai_bbox a) | Some bl \<Rightarrow> py (base_start bl))"

definition size_tolerance :: "fusion_config \<Rightarrow> f64" where
  "size_tolerance config = fmax (estimated_font_size_tolerance_points config) (Fin (1 / 2))"

text \<open>Upright text joins the first band with its font size and baseline.\<close>

definition same_body_row :: "fusion_config \<Rightarrow> aligned_item \<Rightarrow> aligned_item list \<Rightarrow> bool" where
  "same_body_row config a band \<longleftrightarrow>
     (case hd_opt band of None \<Rightarrow> False
      | Some first \<Rightarrow>
          fle (fabs (fsub (body_size a) (body_size first))) (size_tolerance config) \<and>
          fle (fabs (fsub (body_baseline a) (body_baseline first)))
            (fmul (fclamp (fmin (body_size a) (body_size first)) (Fin 1) cross_axis_size_cap) (rnd (2 / 10))))"

text \<open>Other text joins the last band when its near edge is close.\<close>

definition same_band :: "aligned_item list \<Rightarrow> aligned_item \<Rightarrow> bool" where
  "same_band band a \<longleftrightarrow>
     (case hd_opt band of None \<Rightarrow> False
      | Some first \<Rightarrow>
          ai_vertical a = ai_vertical first \<and>
          \<not> flt (Fin 2) (fabs (fsub (it_rotation (ai_item a)) (it_rotation (ai_item first)))) \<and>
          (let raw = height (ai_bbox a);
               start = fold (\<lambda>m acc. fmin acc (top_of (ai_bbox m))) band (Inf False);
               band_size = fold (\<lambda>m acc. fmax acc (fclamp (height (ai_bbox m)) (Fin 1) cross_axis_size_cap)) band (Fin 1);
               own_size = fclamp raw (Fin 1) cross_axis_size_cap;
               inflated = (\<not> ai_vertical a \<and> flt cross_axis_size_cap raw \<and> flt (fmul band_size (Fin 2)) raw)
           in flt (fabs (fsub (top_of (ai_bbox a)) start)) (fmul (fmin band_size own_size) (if inflated then rnd (3 / 10) else Fin (1 / 2)))))"

definition band_step :: "fusion_config \<Rightarrow> text_axes \<Rightarrow> aligned_item \<Rightarrow> aligned_item list list \<Rightarrow> aligned_item list list" where
  "band_step config axes a bands =
     (if \<not> ai_vertical a \<and> \<not> is_oblique axes then
        (case iter_position (same_body_row config a) bands of
           Some i \<Rightarrow> bands[i := bands ! i @ [a]] | None \<Rightarrow> bands @ [[a]])
      else push_last same_band a bands)"

section \<open>Groups along the line\<close>

definition line_font :: "(f64 \<Rightarrow> f64 \<times> f64) \<Rightarrow> aligned_item \<Rightarrow> f64" where
  "line_font trig a =
     unwrap_or (item_style (if is_oblique (axes_of trig (it_rotation (ai_item a))) then style_font_size else font_size) (ai_item a))
       (height (ai_bbox a))"

definition compatible :: "(f64 \<Rightarrow> f64 \<times> f64) \<Rightarrow> fusion_config \<Rightarrow> aligned_item \<Rightarrow> aligned_item \<Rightarrow> bool" where
  "compatible trig config a b \<longleftrightarrow>
     \<not> flt (Fin 2) (fabs (fsub (it_rotation (ai_item a)) (it_rotation (ai_item b)))) \<and>
     (let lap = fmax (fsub (fmin (bottom (ai_bbox a)) (bottom (ai_bbox b))) (fmax (top_of (ai_bbox a)) (top_of (ai_bbox b)))) (Fin 0);
          ratio = fdiv lap (fmax (fmin (height (ai_bbox a)) (height (ai_bbox b))) (Fin 1));
          font = line_font trig a; gap = fsub (left (ai_bbox b)) (right (ai_bbox a))
      in if ai_vertical a then fle (Fin (1 / 2)) ratio
         else fle (Fin (1 / 2)) ratio \<and> fle (fabs (fsub font (line_font trig b))) (size_tolerance config) \<and>
              fle (fneg font) gap \<and> fle gap max_horizontal_gap)"

definition follows_run :: "(f64 \<Rightarrow> f64 \<times> f64) \<Rightarrow> fusion_config \<Rightarrow> bool \<Rightarrow> f64 \<Rightarrow> aligned_item list \<Rightarrow> aligned_item \<Rightarrow> bool" where
  "follows_run trig config upright threshold run a \<longleftrightarrow>
     (case last_opt run of None \<Rightarrow> False
      | Some previous \<Rightarrow> (\<not> upright \<or> fle (fsub (left (ai_bbox a)) (right (ai_bbox previous))) threshold) \<and>
          compatible trig config previous a)"

definition band_groups :: "(f64 \<Rightarrow> f64 \<times> f64) \<Rightarrow> fusion_config \<Rightarrow> aligned_item list \<Rightarrow> aligned_item list list" where
  "band_groups trig config band =
     (let upright = is_some_and (hd_opt band) ai_vertical;
          threshold = fmul (fold (\<lambda>a acc. fmax acc (width (ai_bbox a))) band (Fin 0)) (Fin 3)
      in fold (push_last (follows_run trig config upright threshold))
           (sort_key (\<lambda>a. (left (ai_bbox a), it_id (ai_item a))) band) [])"

definition orientation_groups ::
  "(f64 \<Rightarrow> f64 \<times> f64) \<Rightarrow> (uchar \<Rightarrow> bool) \<Rightarrow> fusion_config \<Rightarrow> text_item list \<Rightarrow> line_error + aligned_item list list" where
  "orientation_groups trig alphabetic config members =
     (let axes = axes_of trig (first_rotation members)
      in rbind (rmap (align_item trig alphabetic axes) members) (\<lambda>aligned.
         let ordered = sort_key (\<lambda>a. (top_of (ai_bbox a), left (ai_bbox a), it_id (ai_item a))) aligned
         in Inr (concat (map (band_groups trig config) (fold (band_step config axes) ordered [])))))"

section \<open>Closing script gaps\<close>

definition level_text :: "line_fragment \<Rightarrow> bool" where
  "level_text f \<longleftrightarrow> \<not> flt (Fin 2) (tilt (lf_rotation f)) \<and> lf_direction f \<noteq> Vertical"

definition same_body_line :: "fusion_config \<Rightarrow> line_fragment \<Rightarrow> line_fragment \<Rightarrow> bool" where
  "same_body_line config a b \<longleftrightarrow>
     (let font = fmin (lm_font_size (metrics a)) (lm_font_size (metrics b));
          gap = fmax (fsub (left (lf_bbox a)) (right (lf_bbox b))) (fsub (left (lf_bbox b)) (right (lf_bbox a)))
      in lf_direction a = lf_direction b \<and> fle (fabs (fsub (lf_rotation a) (lf_rotation b))) (Fin 2) \<and>
         fle (fabs (fsub (lm_font_size (metrics a)) (lm_font_size (metrics b)))) (size_tolerance config) \<and>
         fle (fabs (fsub (py (base_start (lf_baseline a))) (py (base_start (lf_baseline b))))) (fmul (fclamp font (Fin 1) (Fin 24)) (rnd (2 / 10))) \<and>
         fle (fneg font) gap \<and> fle gap max_horizontal_gap)"

definition gap_pairs :: "fusion_config \<Rightarrow> line_fragment list \<Rightarrow> (nat \<times> nat) list" where
  "gap_pairs config fs =
     concat (map (\<lambda>(i, a). if level_text a
       then map (\<lambda>(j, _). (i, j)) (filter (\<lambda>(j, b). same_body_line config a b) (drop (Suc i) (List.enumerate 0 fs))) else [])
       (List.enumerate 0 fs))"

definition merge_row ::
  "(f64 \<Rightarrow> f64 \<times> f64) \<Rightarrow> (uchar \<Rightarrow> bool) \<Rightarrow> f64 \<Rightarrow> line_fragment \<Rightarrow> line_fragment \<Rightarrow> line_error + line_fragment" where
  "merge_row trig alphabetic w f other =
     (let precedes = (if lf_direction f = RightToLeft then fle (right (lf_bbox other)) (right (lf_bbox f))
            else fle (left (lf_bbox f)) (left (lf_bbox other)));
          items = (if precedes then lf_items f @ lf_items other else lf_items other @ lf_items f)
      in rbind (from_ordered_items trig alphabetic items w) (\<lambda>g.
         let bl = \<lparr>base_start = (base_start (lf_baseline g))\<lparr>py := py (base_start (lf_baseline f))\<rparr>,
                   base_end = (base_end (lf_baseline g))\<lparr>py := py (base_end (lf_baseline f))\<rparr>\<rparr>
         in Inr (g\<lparr>lf_baseline := bl,
              metrics := (metrics g)\<lparr>lm_baseline := bl, lm_font_size := lm_font_size (metrics f),
                font_size_estimated := font_size_estimated (metrics f)\<rparr>\<rparr>)))"

lemma gap_pairs_range: "(l, r) \<in> set (gap_pairs config fs) \<Longrightarrow> l < r \<and> r < length fs"
  by (auto simp: gap_pairs_def enumerate_in in_set_conv_nth nth_enumerate_eq split: if_splits)

function join_script_gaps ::
  "(f64 \<Rightarrow> f64 \<times> f64) \<Rightarrow> (uchar \<Rightarrow> bool) \<Rightarrow> f64 \<Rightarrow> fusion_config \<Rightarrow> line_fragment list \<Rightarrow> line_error + line_fragment list" where
  "join_script_gaps trig alphabetic w config fs =
     (case hd_opt (gap_pairs config fs) of
        None \<Rightarrow> Inr fs
      | Some (l, r) \<Rightarrow>
          rbind (merge_row trig alphabetic w (fs ! l) (fs ! r)) (\<lambda>f.
          join_script_gaps trig alphabetic w config ((remove_at r fs)[l := f])))"
  by pat_completeness auto
termination
proof (relation "measure (\<lambda>(_, _, _, _, fs). length fs)", goal_cases)
  case (2 trig alphabetic w config fs p l r f)
  then have "(l, r) \<in> set (gap_pairs config fs)" by (auto simp: hd_opt_def split: list.splits)
  then show ?case using gap_pairs_range length_remove_at [of r fs] by fastforce
qed simp

declare join_script_gaps.simps [simp del]

section \<open>Fragments of a page\<close>

definition page_width_of :: "text_item list \<Rightarrow> f64" where
  "page_width_of items = fmax (fold (\<lambda>it acc. fmax acc (right (it_bbox it))) items (Fin 0)) (Fin 1)"

definition fragment_key :: "(f64 \<Rightarrow> f64 \<times> f64) \<Rightarrow> line_fragment \<Rightarrow> int \<times> f64 \<times> f64 \<times> rstr option" where
  "fragment_key trig f = (canonical_rotation (lf_rotation f), reading_order_y trig f, left (lf_bbox f), first_id f)"

definition fragments ::
  "(f64 \<Rightarrow> f64 \<times> f64) \<Rightarrow> (uchar \<Rightarrow> bool) \<Rightarrow> fusion_config \<Rightarrow> text_item list \<Rightarrow> line_error + line_fragment list" where
  "fragments trig alphabetic config items =
     (let w = page_width_of items
      in rbind (rmap (orientation_groups trig alphabetic config) (orientations trig items)) (\<lambda>groups.
         rbind (rmap (\<lambda>members. from_items trig alphabetic (map ai_item members) w) (concat groups)) (\<lambda>fs.
         rbind (attach_scripts trig alphabetic w fs) (\<lambda>fs.
         rbind (join_script_gaps trig alphabetic w config fs) (\<lambda>fs.
         Inr (sort_key (fragment_key trig) fs))))))"

end
