(* ===== verification/Line_Inline.thy ===== *)
theory Line_Inline
  imports Line_Assembly
begin

text \<open>
  Inline atoms: \<open>InlineInput\<close> of \<open>crates/core/src/line/inline.rs\<close>. Hanging glyphs borrow the
  baseline of their row, detached limits join their operator, and inline fractions become
  one item each; \<open>originals\<close> remembers what an item stands for, and \<open>restore\<close> puts it back.
\<close>

type_synonym originals = "rstr \<Rightarrow> text_item list option"

type_synonym inline_input = "text_item list \<times> originals"

text \<open>What an item stands for.\<close>

definition source_of :: "originals \<Rightarrow> text_item \<Rightarrow> text_item list" where
  "source_of m it = (case m (it_id it) of None \<Rightarrow> [it] | Some src \<Rightarrow> src)"

definition level_baseline :: "bbox \<Rightarrow> f64 \<Rightarrow> baseline" where
  "level_baseline b y = \<lparr>base_start = \<lparr>px = left b, py = y\<rparr>, base_end = \<lparr>px = right b, py = y\<rparr>\<rparr>"

definition within_range :: "f64 \<Rightarrow> f64 \<Rightarrow> f64 \<Rightarrow> bool" where
  "within_range lo hi x \<longleftrightarrow> fle lo x \<and> fle x hi"

definition gap_between :: "f64 \<Rightarrow> f64 \<Rightarrow> bbox \<Rightarrow> f64" where
  "gap_between l r b = fmax (fmax (fsub l (right b)) (fsub (left b) r)) (Fin 0)"

section \<open>Hanging glyphs\<close>

definition has_hanging_baseline :: "text_item \<Rightarrow> bool" where
  "has_hanging_baseline it \<longleftrightarrow>
     (case it_style it of None \<Rightarrow> False
      | Some st \<Rightarrow>
          let font = unwrap_or (font_size st) (Fin 0)
          in flt (Fin 0) font \<and> length (trim (raw_text it)) = 1 \<and>
             (case it_baseline it of None \<Rightarrow> False
              | Some bl \<Rightarrow> flt (fmul font (Fin (1 / 2))) (fsub (bottom (it_bbox it)) (py (base_start bl))) \<and>
                  fle (py (base_start bl)) (py (center (it_bbox it)))) \<and>
             fle (tilt (it_rotation it)) (Fin 2))"

text \<open>The rows a hanging glyph could belong to, with their scores.\<close>

definition row_candidates :: "text_item list \<Rightarrow> text_item \<Rightarrow> f64 \<Rightarrow> (f64 \<times> f64) list" where
  "row_candidates items it font =
     List.map_filter (\<lambda>n. case (item_style font_size n, it_baseline n) of
        (Some nsize, Some bl) \<Rightarrow>
          (let a = it_bbox it; b = it_bbox n;
               lap = fsub (fmin (bottom a) (bottom b)) (fmax (top_of a) (top_of b));
               gap = gap_between (left a) (right a) b
           in if within_range (rnd (9 / 10)) (rnd (11 / 10)) (fdiv nsize font) \<and>
                 fle (fmul (fmin (height b) (height a)) (Fin (1 / 2))) lap \<and> fle gap (fmul font (Fin 3)) \<and>
                 fle (fabs (fsub (it_rotation it) (it_rotation n))) (Fin 2)
              then Some (fadd gap (fabs (fsub (py (center a)) (py (center b)))), py (base_start bl)) else None)
      | _ \<Rightarrow> None) (filter (\<lambda>n. \<not> has_hanging_baseline n) items)"

definition row_baseline :: "text_item list \<Rightarrow> text_item \<Rightarrow> f64 option" where
  "row_baseline items it =
     (if \<not> has_hanging_baseline it then None
      else case item_style font_size it of None \<Rightarrow> None
      | Some font \<Rightarrow>
         (case sort_key (\<lambda>c. (fst c, snd c)) (row_candidates items it font) of [] \<Rightarrow> None
          | (score, y) # rest \<Rightarrow>
              if \<exists>(s, z)\<in>set rest. fle (fsub s score) (fmul font (rnd (5 / 100))) \<and> flt (fmul font (rnd (2 / 10))) (fabs (fsub z y))
              then None else Some y))"

definition align_hanging :: "text_item list \<Rightarrow> inline_input" where
  "align_hanging items =
     (map (\<lambda>it. case row_baseline items it of None \<Rightarrow> it
        | Some y \<Rightarrow> it\<lparr>it_baseline := Some (level_baseline (it_bbox it) y)\<rparr>) items,
      fold (\<lambda>it m. case row_baseline items it of None \<Rightarrow> m | Some _ \<Rightarrow> m(it_id it \<mapsto> [it])) items Map.empty)"

section \<open>Limits of an operator\<close>

text \<open>An operator whose limit an item may be, with its side and the distance of the centres.\<close>

definition limit_candidate :: "text_item \<Rightarrow> f64 \<Rightarrow> text_item \<Rightarrow> nat \<Rightarrow> (nat \<times> bool \<times> f64) option" where
  "limit_candidate it font parent i =
     (case item_style font_size parent of None \<Rightarrow> None
      | Some pfont \<Rightarrow>
          let a = it_bbox it; b = it_bbox parent; over = fsub (top_of b) (bottom a); under = fsub (top_of a) (bottom b);
              lap = fsub (fmin (right b) (right a)) (fmax (left b) (left a))
          in if \<not> script_ratio_ok font pfont \<or> it_baseline it = None \<or>
                flt (Fin 2) (fabs (fsub (it_rotation it) (it_rotation parent))) \<or> flt pfont (height a) \<or>
                flt lap (fmul (width a) (Fin (1 / 2))) \<or> \<not> within_range (Fin 0) (fmul pfont (Fin (1 / 2))) (fmax over under)
             then None
             else Some (i, fle (Fin 0) over, fdiv (fabs (fsub (px (center a)) (px (center b)))) pfont))"

definition limit_owner :: "text_item list \<Rightarrow> originals \<Rightarrow> nat list \<Rightarrow> text_item \<Rightarrow> (nat \<times> bool) option" where
  "limit_owner items m operators it =
     (if m (it_id it) \<noteq> None then None
      else case item_style font_size it of None \<Rightarrow> None
      | Some font \<Rightarrow>
         (case sort_key (\<lambda>(_, _, s). s) (List.map_filter (\<lambda>i. limit_candidate it font (items ! i) i) operators) of [] \<Rightarrow> None
          | (i, over, score) # rest \<Rightarrow>
              if is_some_and (hd_opt rest) (\<lambda>(_, _, s). fle (fsub s score) (rnd (5 / 100))) then None else Some (i, over)))"

definition wide_limit :: "text_item list \<Rightarrow> text_item \<Rightarrow> f64 \<Rightarrow> nat list \<Rightarrow> bool" where
  "wide_limit items operator font side \<longleftrightarrow>
     (let l = fold (\<lambda>i acc. fmin acc (left (it_bbox (items ! i)))) side (Inf False);
          r = fold (\<lambda>i acc. fmax acc (right (it_bbox (items ! i)))) side (Inf True)
      in flt (fmul font (Fin 3)) (fsub r l) \<or>
         flt (fmul font (rnd (35 / 100))) (fabs (fsub (fmul (fadd l r) (Fin (1 / 2))) (px (center (it_bbox operator))))) \<or>
         12 < visible_characters (map (\<lambda>i. items ! i) side))"

definition by_left :: "text_item list \<Rightarrow> nat list \<Rightarrow> nat list" where
  "by_left items = sort_key (\<lambda>i. (left (it_bbox (items ! i)), it_id (items ! i)))"

definition add_limit :: "text_item list \<Rightarrow> nat \<Rightarrow> text_item \<times> text_item list \<times> nat list \<Rightarrow> line_error + text_item \<times> text_item list \<times> nat list" where
  "add_limit items i st =
     (case st of (atom, src, consumed) \<Rightarrow>
        rbind (geometry (union_bbox (it_bbox atom) (it_bbox (items ! i)))) (\<lambda>b.
        Inr (atom\<lparr>it_bbox := b, raw_text := raw_text atom @ raw_text (items ! i)\<rparr>, src @ [items ! i], i # consumed)))"

definition operator_step ::
  "(nat \<times> bool) option list \<Rightarrow> nat \<Rightarrow> text_item list \<times> originals \<times> nat list \<Rightarrow> line_error + text_item list \<times> originals \<times> nat list" where
  "operator_step chosen operator st =
     (case st of (items, m, consumed) \<Rightarrow>
        let over = filter (\<lambda>i. chosen ! i = Some (operator, True)) [0..<length chosen];
            under = filter (\<lambda>i. chosen ! i = Some (operator, False)) [0..<length chosen];
            font = unwrap_or (item_style font_size (items ! operator)) (Fin 0)
        in if over = [] \<or> under = [] \<or> wide_limit items (items ! operator) font over \<or> wide_limit items (items ! operator) font under
           then Inr st
           else rbind (rfold (add_limit items) (by_left items under @ by_left items over)
               (items ! operator, source_of m (items ! operator), consumed)) (\<lambda>(atom, src, consumed).
             Inr (items[operator := atom], m(it_id atom \<mapsto> src), consumed)))"

definition group_operator_limits :: "inline_input \<Rightarrow> line_error + inline_input" where
  "group_operator_limits input =
     (case input of (items, m) \<Rightarrow>
        let operators = filter (\<lambda>i. m (it_id (items ! i)) \<noteq> None) [0..<length items]
        in if operators = [] then Inr input
           else rbind (rfold (operator_step (map (limit_owner items m operators) items)) operators (items, m, [])) (\<lambda>(items, m, consumed).
             Inr (map (\<lambda>i. items ! i) (filter (\<lambda>i. i \<notin> set consumed) [0..<length items]), m)))"

section \<open>Inline fractions\<close>

datatype table_rule = HorizontalRule f64 f64 f64 | VerticalRule f64 f64 f64

definition bars :: "table_rule list \<Rightarrow> (f64 \<times> f64 \<times> f64) list" where
  "bars rules = sort_key (\<lambda>(y, l, r). (fsub r l, y)) (List.map_filter (\<lambda>rule. case rule of
      HorizontalRule y l r \<Rightarrow> if flt l r then Some (y, l, r) else None | VerticalRule _ _ _ \<Rightarrow> None) rules)"

text \<open>Whether an item stands above or below a bar, and its font.\<close>

definition side_of :: "f64 \<times> f64 \<times> f64 \<Rightarrow> text_item \<Rightarrow> (bool \<times> f64) option" where
  "side_of bar it =
     (case (bar, item_style font_size it) of
        (_, None) \<Rightarrow> None
      | ((y, l, r), Some font) \<Rightarrow>
          let b = it_bbox it
          in if flt (Fin 2) (tilt (it_rotation it)) \<or> flt (left b) (fsub l (Fin (1 / 2))) \<or> flt (fadd r (Fin (1 / 2))) (right b) then None
             else if fle (bottom b) (fadd y (rnd (5 / 100))) \<and> fle (fsub y (bottom b)) (fmul font (rnd (9 / 10))) then Some (True, font)
             else if fle (fsub y (rnd (5 / 100))) (top_of b) \<and> fle (fsub (top_of b) y) (fmul font (rnd (9 / 10))) then Some (False, font)
             else None)"

definition items_on_side :: "f64 \<times> f64 \<times> f64 \<Rightarrow> text_item list \<Rightarrow> bool \<Rightarrow> nat list" where
  "items_on_side bar items over = filter (\<lambda>i. is_some_and (side_of bar (items ! i)) (\<lambda>(a, _). a = over)) [0..<length items]"

definition fraction_size :: "f64 \<times> f64 \<times> f64 \<Rightarrow> text_item list \<Rightarrow> f64" where
  "fraction_size bar items = fold (\<lambda>s acc. fmax acc (snd s)) (List.map_filter (side_of bar) items) (Fin 0)"

text \<open>The neighbour that gives the fraction its axis, as gap, baseline and font.\<close>

definition fraction_axis :: "f64 \<times> f64 \<times> f64 \<Rightarrow> text_item list \<Rightarrow> nat list \<Rightarrow> bool \<Rightarrow> (f64 \<times> f64 \<times> f64) option" where
  "fraction_axis bar items members confirmed =
     (case bar of (y, l, r) \<Rightarrow>
        let size = fraction_size bar items;
            found = min_by_key fst (List.map_filter (\<lambda>i. case (item_style font_size (items ! i), it_baseline (items ! i)) of
              (Some font, Some bl) \<Rightarrow>
                let gap = gap_between l r (it_bbox (items ! i)); base = py (base_start bl)
                in if (fle size (fmul font (rnd (85 / 100))) \<or> confirmed \<and> fle size (fmul font (rnd (105 / 100)))) \<and>
                      fle gap (fmul font (Fin 2)) \<and>
                      fle (fabs (fsub (fsub base (fmul font (Fin (1 / 4)))) y)) (fmul font (rnd (2 / 10)))
                   then Some (gap, base, font) else None
            | _ \<Rightarrow> None) (filter (\<lambda>i. i \<notin> set members) [0..<length items]))
        in case found of Some f \<Rightarrow> Some f
           | None \<Rightarrow> if confirmed then Some (Fin 0, fadd y (fmul size (Fin (1 / 4))), size) else None)"

text \<open>Scripts are resolved on each side before the fraction is sealed.\<close>

definition singles ::
  "(f64 \<Rightarrow> f64 \<times> f64) \<Rightarrow> (uchar \<Rightarrow> bool) \<Rightarrow> f64 \<Rightarrow> text_item list \<Rightarrow> line_error + line_fragment list" where
  "singles trig alphabetic w items =
     rbind (rmap (\<lambda>it. from_items trig alphabetic [it] w) items) (attach_scripts trig alphabetic w)"

definition order_side ::
  "(f64 \<Rightarrow> f64 \<times> f64) \<Rightarrow> (uchar \<Rightarrow> bool) \<Rightarrow> f64 \<Rightarrow> text_item list \<Rightarrow> line_error + text_item list" where
  "order_side trig alphabetic w items =
     rbind (singles trig alphabetic w items) (\<lambda>fs.
     Inr (all_items (if detect_direction alphabetic (all_items fs) (Fin 0) = RightToLeft then sort_key (\<lambda>f. Reversed (right (lf_bbox f))) fs
       else sort_key (\<lambda>f. left (lf_bbox f)) fs)))"

text \<open>A raised group just beyond the bar is a power of the whole fraction.\<close>

definition is_power :: "f64 \<times> f64 \<times> f64 \<Rightarrow> text_item list \<Rightarrow> nat list \<Rightarrow> f64 \<Rightarrow> f64 \<Rightarrow> f64 \<Rightarrow> line_fragment \<Rightarrow> bool" where
  "is_power bar items members top_edge base font f \<longleftrightarrow>
     (case bar of (y, l, r) \<Rightarrow>
        let gap = fsub (left (lf_bbox f)) r
        in script_ratio_ok (lm_font_size (metrics f)) font \<and> fle (tilt (lf_rotation f)) (Fin 2) \<and>
           fle (fmul (fneg font) (Fin (1 / 4))) gap \<and> fle gap (fmul font (Fin (5 / 4))) \<and>
           fle (fsub top_edge (fmul font (Fin (3 / 4)))) (top_of (lf_bbox f)) \<and> fle (bottom (lf_bbox f)) y \<and>
           flt (py (base_start (lf_baseline f))) (fsub base (fmul font (Fin (1 / 2)))) \<and> fle (width (lf_bbox f)) (fmul font (Fin 2)) \<and>
           \<not> (\<exists>i\<in>set [0..<length items]. i \<notin> set members \<and> fle (fsub r (Fin (1 / 2))) (left (it_bbox (items ! i))) \<and>
               flt (left (it_bbox (items ! i))) (left (lf_bbox f)) \<and> flt (top_of (it_bbox (items ! i))) y \<and> flt y (bottom (it_bbox (items ! i)))) \<and>
           visible_characters (lf_items f) \<le> 12)"

definition take_power :: "text_item list \<Rightarrow> text_item \<Rightarrow> nat list \<times> text_item list \<Rightarrow> nat list \<times> text_item list" where
  "take_power items it st =
     (case (iter_position (\<lambda>s. it_id s = it_id it) items, st) of
        (Some i, (members, ordered)) \<Rightarrow> (members @ [i], ordered @ [it]) | (None, _) \<Rightarrow> st)"

definition fraction_powers ::
  "(f64 \<Rightarrow> f64 \<times> f64) \<Rightarrow> (uchar \<Rightarrow> bool) \<Rightarrow> f64 \<times> f64 \<times> f64 \<Rightarrow> text_item list \<Rightarrow> f64 \<Rightarrow> f64 \<Rightarrow> nat list \<times> text_item list \<Rightarrow>
   line_error + nat list \<times> text_item list" where
  "fraction_powers trig alphabetic bar items base font st =
     (case (bar, st) of ((y, l, r), (members, ordered)) \<Rightarrow>
        let top_edge = fold (\<lambda>it acc. fmin acc (top_of (it_bbox it))) ordered (Inf False);
            small = filter (\<lambda>i. i \<notin> set members \<and> is_some_and (item_style font_size (items ! i)) (\<lambda>s. fle s (fmul font (rnd (85 / 100))))) [0..<length items]
        in rbind (singles trig alphabetic (fmax r (Fin 1)) (map (\<lambda>i. items ! i) small)) (\<lambda>fs.
           Inr (case filter (is_power bar items members top_edge base font) fs of
              [p] \<Rightarrow> fold (take_power items) (lf_items p) st | _ \<Rightarrow> st)))"

definition seal_step :: "text_item \<Rightarrow> bbox \<times> rstr \<times> text_item list \<times> originals \<Rightarrow> line_error + bbox \<times> rstr \<times> text_item list \<times> originals" where
  "seal_step it st =
     (case st of (bounds, tx, src, m) \<Rightarrow>
        rbind (geometry (union_bbox bounds (it_bbox it))) (\<lambda>b.
        Inr (b, tx @ raw_text it, src @ source_of m it, m(it_id it := None))))"

definition seal_fraction :: "f64 \<Rightarrow> f64 \<Rightarrow> inline_input \<Rightarrow> nat list \<times> text_item list \<Rightarrow> line_error + inline_input" where
  "seal_fraction base font input st =
     (case (input, st) of
        (_, _, []) \<Rightarrow> Inr input
      | ((items, m), members, atom # rest) \<Rightarrow>
          rbind (rfold seal_step (atom # rest) (it_bbox atom, [], [], m)) (\<lambda>(bounds, tx, src, m).
          let atom = atom\<lparr>raw_text := tx, it_bbox := bounds, it_baseline := Some (level_baseline bounds base),
                it_style := map_option (\<lambda>st. st\<lparr>font_size := Some font\<rparr>) (it_style atom)\<rparr>
          in Inr (map (\<lambda>i. items ! i) (filter (\<lambda>i. i \<notin> set members) [0..<length items]) @ [atom], m(it_id atom \<mapsto> src))))"

definition fraction_step ::
  "(f64 \<Rightarrow> f64 \<times> f64) \<Rightarrow> (uchar \<Rightarrow> bool) \<Rightarrow> bool \<Rightarrow> f64 \<times> f64 \<times> f64 \<Rightarrow> inline_input \<Rightarrow> line_error + inline_input" where
  "fraction_step trig alphabetic confirmed bar input =
     (case (bar, input) of ((y, l, r), (items, m)) \<Rightarrow>
        let over = items_on_side bar items True; under = items_on_side bar items False; members = over @ under
        in if over = [] \<or> under = [] then Inr input
           else case fraction_axis bar items members confirmed of None \<Rightarrow> Inr input
           | Some (_, base, font) \<Rightarrow>
               rbind (order_side trig alphabetic (fmax r (Fin 1)) (map (\<lambda>i. items ! i) over)) (\<lambda>upp.
               rbind (order_side trig alphabetic (fmax r (Fin 1)) (map (\<lambda>i. items ! i) under)) (\<lambda>low.
               rbind (if confirmed then fraction_powers trig alphabetic bar items base font (members, upp @ low) else Inr (members, upp @ low))
                 (seal_fraction base font input))))"

definition prepare ::
  "(f64 \<Rightarrow> f64 \<times> f64) \<Rightarrow> (uchar \<Rightarrow> bool) \<Rightarrow> text_item list \<Rightarrow> table_rule list \<Rightarrow> bool \<Rightarrow> line_error + inline_input" where
  "prepare trig alphabetic items rules confirmed =
     rbind (group_operator_limits (align_hanging items)) (rfold (fraction_step trig alphabetic confirmed) (bars rules))"

section \<open>Restoring\<close>

fun restore_items :: "originals \<Rightarrow> text_item list \<Rightarrow> originals \<times> text_item list" where
  "restore_items m [] = (m, [])"
| "restore_items m (it # its) =
     (case restore_items (m(it_id it := None)) its of (m', rest) \<Rightarrow> (m', source_of m it @ rest))"

fun restore :: "originals \<Rightarrow> line_fragment list \<Rightarrow> line_fragment list" where
  "restore m [] = []"
| "restore m (f # fs) = (case restore_items m (lf_items f) of (m', its) \<Rightarrow> f\<lparr>lf_items := its\<rparr> # restore m' fs)"

definition fragments_with_rules ::
  "(f64 \<Rightarrow> f64 \<times> f64) \<Rightarrow> (uchar \<Rightarrow> bool) \<Rightarrow> fusion_config \<Rightarrow> text_item list \<Rightarrow> table_rule list \<Rightarrow> line_error + line_fragment list" where
  "fragments_with_rules trig alphabetic config items rules =
     rbind (prepare trig alphabetic items rules False) (\<lambda>(items, m).
     rbind (fragments trig alphabetic config items) (\<lambda>fs. Inr (restore m fs)))"

end
