(* ===== verification/Line_Formula.thy ===== *)
theory Line_Formula
  imports Line_Inline
begin

text \<open>
  Lines with detected formulas: \<open>crates/core/src/line/formula.rs\<close>. Items are given to their
  smallest covering formula, the rows of a formula are assembled on their own and enter the
  surrounding prose as single items.
\<close>

record formula_region =
  fo_bbox :: bbox
  fo_inline :: bool

section \<open>Ownership\<close>

definition formula_covers :: "text_item \<Rightarrow> formula_region \<Rightarrow> bool" where
  "formula_covers it region \<longleftrightarrow>
     (let b = fo_bbox region; a = it_bbox it; c = center a; padding = Fin 2; single = (length (trim (raw_text it)) = 1);
          shared = fmul (fmax (fsub (fmin (right b) (right a)) (fmax (left b) (left a))) (Fin 0))
            (fmax (fsub (fmin (bottom b) (bottom a)) (fmax (top_of b) (top_of a))) (Fin 0));
          coverage = fdiv shared (fmax (area a) (Fin (1 / 2 ^ 52)))
      in fle (rnd (8 / 10)) coverage \<or>
         fle (left b) (px c) \<and> fle (px c) (right b) \<and> fle (top_of b) (py c) \<and> fle (py c) (bottom b) \<and>
         (single \<and> fle (Fin (1 / 2)) coverage \<or>
          fle (fsub (left b) padding) (left a) \<and> fle (right a) (fadd (right b) padding) \<and>
          fle (fsub (top_of b) padding) (top_of a) \<and> fle (bottom a) (fadd (bottom b) padding)))"

definition formula_region_of :: "formula_region list \<Rightarrow> text_item \<Rightarrow> nat option" where
  "formula_region_of regions it =
     map_option fst (min_by_key (\<lambda>(_, r). (area (fo_bbox r), Reversed (fo_inline r), top_of (fo_bbox r), left (fo_bbox r)))
       (filter (\<lambda>(_, r). formula_covers it r) (List.enumerate 0 regions)))"

text \<open>A clipped script follows its parent into the formula, larger fonts first.\<close>

definition inherit_owner ::
  "(f64 \<Rightarrow> f64 \<times> f64) \<Rightarrow> (uchar \<Rightarrow> bool) \<Rightarrow> line_fragment list \<Rightarrow> nat \<Rightarrow> nat option list \<Rightarrow> nat option list" where
  "inherit_owner trig alphabetic fs i chosen =
     (if chosen ! i \<noteq> None then chosen
      else chosen[i := (case script_parent trig alphabetic fs (fs ! i) of None \<Rightarrow> None | Some p \<Rightarrow> chosen ! p)])"

definition formula_owners ::
  "(f64 \<Rightarrow> f64 \<times> f64) \<Rightarrow> (uchar \<Rightarrow> bool) \<Rightarrow> line_fragment list \<Rightarrow> formula_region list \<Rightarrow> nat option list" where
  "formula_owners trig alphabetic fs regions =
     (let first = map (\<lambda>f. case hd_opt (lf_items f) of None \<Rightarrow> None | Some it \<Rightarrow> formula_region_of regions it) fs
      in if (\<exists>r\<in>set first. r \<noteq> None) \<and> None \<in> set first
         then fold (inherit_owner trig alphabetic fs) (sort_key (\<lambda>i. Reversed (lm_font_size (metrics (fs ! i)))) [0..<length fs]) first
         else first)"

text \<open>The groups in the order of their keys, the unowned one first.\<close>

definition formula_groups ::
  "(f64 \<Rightarrow> f64 \<times> f64) \<Rightarrow> (uchar \<Rightarrow> bool) \<Rightarrow> line_fragment list \<Rightarrow> formula_region list \<Rightarrow> (nat option \<times> line_fragment list) list" where
  "formula_groups trig alphabetic fs regions =
     (let chosen = formula_owners trig alphabetic fs regions
      in map (\<lambda>k. (k, map fst (filter (\<lambda>(_, c). c = k) (zip fs chosen)))) (sort (remdups chosen)))"

section \<open>Formula rows as items\<close>

type_synonym prose_anchor = "bbox \<times> f64 \<times> baseline \<times> f64"

definition prose_anchors :: "text_item list \<Rightarrow> prose_anchor list" where
  "prose_anchors items = List.map_filter (\<lambda>it. case (item_style font_size it, it_baseline it) of
     (Some font, Some bl) \<Rightarrow> Some (it_bbox it, font, bl, it_rotation it) | _ \<Rightarrow> None) items"

definition anchor_score :: "text_item \<Rightarrow> line_fragment \<Rightarrow> prose_anchor \<Rightarrow> (f64 \<times> f64 \<times> baseline) option" where
  "anchor_score atom f near =
     (case near of (b, font, bl, rotation) \<Rightarrow>
        let a = it_bbox atom;
            lap = fsub (fmin (bottom b) (bottom a)) (fmax (top_of b) (top_of a));
            gap = fmax (fmax (fsub (left b) (right a)) (fsub (left a) (right b))) (Fin 0);
            baseline_gap = fabs (fsub (py (base_start bl)) (py (base_start (lf_baseline f))))
        in if is_finite font \<and> flt (Fin 0) font \<and> fle (fmul (lm_font_size (metrics f)) (rnd (85 / 100))) font \<and>
              fle baseline_gap (fmul font (Fin (1 / 2))) \<and> fle (fmul (fmin (height b) (height a)) (Fin (1 / 2))) lap \<and>
              fle gap (fmul font (Fin 3)) \<and> fle (fabs (fsub rotation (it_rotation atom))) (Fin 2)
           then Some (fadd gap baseline_gap, font, bl) else None)"

definition plain_style :: text_style where
  "plain_style = \<lparr>font_size = None, font_height = None, st_size_estimated = False, st_weight = None, st_flags = None,
     st_bold = False, st_italic = False\<rparr>"

definition formula_atom :: "prose_anchor list \<Rightarrow> bool \<Rightarrow> line_fragment \<Rightarrow> text_item \<Rightarrow> text_item" where
  "formula_atom anchors inline f first =
     (let atom = first\<lparr>raw_text := concat (map raw_text (lf_items f)), it_bbox := lf_bbox f, it_baseline := Some (lf_baseline f),
            it_style := map_option (\<lambda>st. st\<lparr>font_size := Some (lm_font_size (metrics f))\<rparr>) (it_style first)\<rparr>
      in if inline \<and> fle (tilt (it_rotation atom)) (Fin 2) then
           (case min_by_key (\<lambda>(s, _, bl). (s, py (base_start bl))) (List.map_filter (anchor_score atom f) anchors) of
              None \<Rightarrow> atom
            | Some (_, font, bl) \<Rightarrow> atom\<lparr>it_baseline := Some (level_baseline (it_bbox atom) (py (base_start bl))),
                it_style := Some ((unwrap_or (it_style atom) plain_style)\<lparr>font_size := Some font\<rparr>)\<rparr>)
         else atom)"

definition add_row :: "prose_anchor list \<Rightarrow> bool \<Rightarrow> line_fragment \<Rightarrow> inline_input \<Rightarrow> inline_input" where
  "add_row anchors inline f input =
     (case lf_items f of [] \<Rightarrow> input
      | first # _ \<Rightarrow>
          let atom = formula_atom anchors inline f first
          in (fst input @ [atom], (snd input)(it_id atom \<mapsto> lf_items f)))"

definition add_formula ::
  "(f64 \<Rightarrow> f64 \<times> f64) \<Rightarrow> (uchar \<Rightarrow> bool) \<Rightarrow> fusion_config \<Rightarrow> table_rule list \<Rightarrow> formula_region list \<Rightarrow> prose_anchor list \<Rightarrow>
   nat option \<times> text_item list \<Rightarrow> inline_input \<Rightarrow> line_error + inline_input" where
  "add_formula trig alphabetic config rules regions anchors entry input =
     (case entry of (key, items) \<Rightarrow>
      (case (case key of None \<Rightarrow> None | Some k \<Rightarrow> get_at regions k) of None \<Rightarrow> Inr input
       | Some region \<Rightarrow>
          rbind (prepare trig alphabetic items rules True) (\<lambda>(items, m).
          rbind (fragments trig alphabetic config items) (\<lambda>fs.
          Inr (fold (add_row anchors (fo_inline region)) (restore m fs) input)))))"

definition formula_page_width :: "text_item list \<Rightarrow> f64" where
  "formula_page_width items = fold (\<lambda>it acc. fmax acc (right (it_bbox it))) items (Fin 1)"

definition fragments_with_formulas ::
  "(f64 \<Rightarrow> f64 \<times> f64) \<Rightarrow> (uchar \<Rightarrow> bool) \<Rightarrow> fusion_config \<Rightarrow> text_item list \<Rightarrow> table_rule list \<Rightarrow> formula_region list \<Rightarrow>
   line_error + line_fragment list" where
  "fragments_with_formulas trig alphabetic config items rules regions =
     (if regions = [] then fragments_with_rules trig alphabetic config items rules
      else rbind (rmap (\<lambda>it. from_items trig alphabetic [it] (formula_page_width items)) items) (\<lambda>fs.
        let groups = map (\<lambda>(k, fs). (k, all_items fs)) (formula_groups trig alphabetic fs regions);
            outside = concat (map snd (filter (\<lambda>(k, _). k = None) groups))
        in rbind (rfold (add_formula trig alphabetic config rules regions (prose_anchors outside))
             (filter (\<lambda>(k, _). k \<noteq> None) groups) (outside, Map.empty)) (\<lambda>(items, m).
           rbind (fragments_with_rules trig alphabetic config items rules) (\<lambda>fs. Inr (restore m fs)))))"

end
