(* ===== verification/Line_Bags.thy ===== *)
theory Line_Bags
  imports Line_Assembly
begin

text \<open>
  The items of a page through line assembly: joining, splitting and attaching scripts, forming
  bands and runs, and closing gaps keep the bag of text items. Attachment works from the smallest
  font up, and a parent always has a larger font, so no child is handed to a finished parent.
\<close>

section \<open>Bags of items\<close>

definition item_bag :: "line_fragment list \<Rightarrow> text_item multiset" where
  "item_bag fs = (\<Sum>f\<in>#mset fs. mset (lf_items f))"

lemma item_bag_simps [simp]:
  "item_bag [] = {#}" "item_bag (f # fs) = mset (lf_items f) + item_bag fs" "item_bag (fs @ gs) = item_bag fs + item_bag gs"
  by (simp_all add: item_bag_def)

lemma item_bag_all: "item_bag fs = mset (all_items fs)"
  by (induction fs) (simp_all add: all_items_def)

lemma item_bag_sort [simp]: "item_bag (sort_key k fs) = item_bag fs"
  by (simp add: item_bag_def)

lemma mset_remove_at: "r < length xs \<Longrightarrow> add_mset (xs ! r) (mset (remove_at r xs)) = mset xs"
  by (metis id_take_nth_drop remove_at_def mset_append mset.simps(2) union_mset_add_mset_right)

lemma item_bag_merge:
  assumes "l < r" "r < length fs" "mset (lf_items f) = mset (lf_items (fs ! l)) + mset (lf_items (fs ! r))"
  shows "item_bag ((remove_at r fs)[l := f]) = item_bag fs"
proof -
  let ?gs = "remove_at r fs"
  have l: "l < length ?gs" "?gs ! l = fs ! l" using assms(1,2) by (simp_all add: length_remove_at remove_at_def nth_append)
  obtain M where M: "mset ?gs = add_mset (fs ! l) M" using l by (metis nth_mem in_multiset_in_set insert_DiffM)
  have "mset (?gs[l := f]) = add_mset f M" using l M by (simp add: mset_update)
  moreover have "mset fs = add_mset (fs ! r) (add_mset (fs ! l) M)" using mset_remove_at [OF assms(2)] M by simp
  ultimately show ?thesis using assms(3) by (simp add: item_bag_def)
qed

lemma item_bag_rmap:
  "rmap g xs = Inr ys \<Longrightarrow> (\<And>x y. x \<in> set xs \<Longrightarrow> g x = Inr y \<Longrightarrow> mset (h y) = mset (k x)) \<Longrightarrow>
   mset (concat (map h ys)) = mset (concat (map k xs))"
  by (induction xs arbitrary: ys) (auto simp: result_simps)

section \<open>A script has a larger parent\<close>

lemma may_be_script_smaller:
  assumes "may_be_script f parent"
  shows "flt (lm_font_size (metrics f)) (lm_font_size (metrics parent))"
proof (rule fdiv_below_one [of _ _ "85 / 100"])
  show "flt (rnd (85 / 100)) (Fin 1)" by code_simp
qed (use assms not_fle in \<open>auto simp: may_be_script_def Let_def script_ratio_ok_def dest: is_finite_not_Nan\<close>)

lemma script_score_smaller:
  "script_parent_score trig alphabetic f parent = Some s \<Longrightarrow> lm_font_size (metrics f) < lm_font_size (metrics parent)"
  by (auto simp: script_parent_score_def intro!: flt_imp_less may_be_script_smaller split: if_splits)

definition picks :: "(nat \<Rightarrow> bool) \<Rightarrow> (nat \<times> f64) option \<times> f64 \<Rightarrow> bool" where
  "picks ok st \<longleftrightarrow> (case fst st of None \<Rightarrow> True | Some (i, _) \<Rightarrow> ok i)"

lemma parent_step_picks: "picks ok st \<Longrightarrow> (score \<noteq> None \<Longrightarrow> ok i) \<Longrightarrow> picks ok (parent_step score i st)"
  by (cases st; cases score; cases "fst st") (auto simp: parent_step_def picks_def)

lemma fold_parents_picks:
  "\<forall>(i, parent)\<in>set ps. score parent \<noteq> None \<longrightarrow> ok i \<Longrightarrow> picks ok st \<Longrightarrow>
   picks ok (fold (\<lambda>(i, parent). parent_step (score parent) i) ps st)"
proof (induction ps arbitrary: st)
  case (Cons p ps)
  obtain i parent where p: "p = (i, parent)" by (cases p)
  have "picks ok (parent_step (score parent) i st)" by (rule parent_step_picks) (use Cons.prems p in auto)
  with Cons p show ?case by simp
qed simp

lemma script_parent_larger:
  assumes "script_parent trig alphabetic fs f = Some p"
  shows "p < length fs \<and> lm_font_size (metrics f) < lm_font_size (metrics (fs ! p))"
proof -
  let ?ok = "\<lambda>i. i < length fs \<and> lm_font_size (metrics f) < lm_font_size (metrics (fs ! i))"
  obtain b r where b: "fold (\<lambda>(i, parent). parent_step (script_parent_score trig alphabetic f parent) i) (List.enumerate 0 fs) (None, Inf False) = (b, r)"
    by fastforce
  have "picks ?ok (fold (\<lambda>(i, parent). parent_step (script_parent_score trig alphabetic f parent) i) (List.enumerate 0 fs) (None, Inf False))"
    by (rule fold_parents_picks) (auto simp: picks_def enumerate_in dest: script_score_smaller)
  moreover obtain s where "b = Some (p, s)" using assms unfolding script_parent_def b by (cases b) (auto split: if_splits)
  ultimately show ?thesis by (simp add: b picks_def)
qed

section \<open>Conservation\<close>

text \<open>
  The loops that merge one pair of fragments at a time share a contract: the first pair found is
  in range, a merge keeps the items of both, and the loop runs until no pair is left.
\<close>

locale merge_loop =
  fixes pairs :: "line_fragment list \<Rightarrow> (nat \<times> nat) list"
    and join :: "line_fragment \<Rightarrow> line_fragment \<Rightarrow> line_error + line_fragment"
    and run :: "line_fragment list \<Rightarrow> line_error + line_fragment list"
  assumes pairs_range: "(l, r) \<in> set (pairs fs) \<Longrightarrow> l < r \<and> r < length fs"
    and join_items: "join f g = Inr h \<Longrightarrow> mset (lf_items h) = mset (lf_items f) + mset (lf_items g)"
    and run_step: "run fs = (case hd_opt (pairs fs) of None \<Rightarrow> Inr fs
      | Some (l, r) \<Rightarrow> rbind (join (fs ! l) (fs ! r)) (\<lambda>f. run ((remove_at r fs)[l := f])))"
begin

lemma first_pair: "hd_opt (pairs fs) = Some (l, r) \<Longrightarrow> l < r \<and> r < length fs"
  using pairs_range [of l r fs] by (auto simp: hd_opt_def split: list.splits)

lemma run_result: "run fs = Inr gs \<Longrightarrow> item_bag gs = item_bag fs \<and> pairs gs = [] \<and> length gs \<le> length fs"
proof (induction "length fs" arbitrary: fs rule: less_induct)
  case less
  show ?case
  proof (cases "hd_opt (pairs fs)")
    case None
    then have "pairs fs = []" by (cases "pairs fs") (simp_all add: hd_opt_def)
    with less.prems show ?thesis by (simp add: run_step [of fs] hd_opt_def)
  next
    case (Some p)
    obtain l r where p: "p = (l, r)" by (cases p)
    with Some have range: "l < r" "r < length fs" using first_pair by auto
    obtain f where f: "join (fs ! l) (fs ! r) = Inr f" and rest: "run ((remove_at r fs)[l := f]) = Inr gs"
      using less.prems Some p by (subst (asm) run_step) (auto simp: result_simps)
    have shorter: "length ((remove_at r fs)[l := f]) < length fs" using range by (simp add: length_remove_at)
    have "item_bag ((remove_at r fs)[l := f]) = item_bag fs" by (rule item_bag_merge [OF range join_items [OF f]])
    with less.hyps [OF shorter rest] shorter show ?thesis by simp
  qed
qed

lemma run_total:
  assumes "\<And>f g. good f \<Longrightarrow> good g \<Longrightarrow> \<exists>h. join f g = Inr h \<and> good h"
  shows "\<forall>f\<in>set fs. good f \<Longrightarrow> \<exists>gs. run fs = Inr gs \<and> (\<forall>g\<in>set gs. good g)"
proof (induction "length fs" arbitrary: fs rule: less_induct)
  case less
  show ?case
  proof (cases "hd_opt (pairs fs)")
    case None
    with less.prems show ?thesis by (simp add: run_step [of fs])
  next
    case (Some p)
    obtain l r where p: "p = (l, r)" by (cases p)
    with Some have range: "l < r" "r < length fs" using first_pair by auto
    with less.prems obtain f where f: "join (fs ! l) (fs ! r) = Inr f" "good f" using assms [of "fs ! l" "fs ! r"] by auto
    let ?gs = "(remove_at r fs)[l := f]"
    have "set ?gs \<subseteq> insert f (set fs)"
      using set_update_subset_insert [of "remove_at r fs" l f] set_take_subset [of r fs] set_drop_subset [of "Suc r" fs]
      by (auto simp: remove_at_def)
    then have "\<forall>g\<in>set ?gs. good g" using less.prems f(2) by auto
    moreover have "length ?gs < length fs" using range by (simp add: length_remove_at)
    ultimately show ?thesis using less.hyps [of ?gs] Some p f(1) by (simp add: run_step [of fs])
  qed
qed

end

interpretation pieces: merge_loop "piece_pairs trig alphabetic w" "\<lambda>f g. from_items trig alphabetic (lf_items f @ lf_items g) w"
    "join_script_pieces trig alphabetic w" for trig alphabetic w
proof
  show "join_script_pieces trig alphabetic w fs = (case hd_opt (piece_pairs trig alphabetic w fs) of None \<Rightarrow> Inr fs
      | Some (l, r) \<Rightarrow> rbind (from_items trig alphabetic (lf_items (fs ! l) @ lf_items (fs ! r)) w) (\<lambda>f.
          join_script_pieces trig alphabetic w ((remove_at r fs)[l := f])))" for fs
    by (rule join_script_pieces.simps)
qed (auto dest: piece_pairs_range from_items_mset)

lemma merge_row_mset: "merge_row trig alphabetic w f other = Inr g \<Longrightarrow> mset (lf_items g) = mset (lf_items f) + mset (lf_items other)"
  by (auto simp: merge_row_def Let_def result_simps dest!: from_ordered_items_items)

interpretation gaps: merge_loop "gap_pairs config" "merge_row trig alphabetic w" "join_script_gaps trig alphabetic w config" for trig alphabetic w config
proof
  show "join_script_gaps trig alphabetic w config fs = (case hd_opt (gap_pairs config fs) of None \<Rightarrow> Inr fs
      | Some (l, r) \<Rightarrow> rbind (merge_row trig alphabetic w (fs ! l) (fs ! r)) (\<lambda>f.
          join_script_gaps trig alphabetic w config ((remove_at r fs)[l := f])))" for fs
    by (rule join_script_gaps.simps)
qed (auto dest: gap_pairs_range merge_row_mset)

lemma split_bands_bag:
  assumes "split_bands trig alphabetic w fs = Inr gs"
  shows "item_bag gs = item_bag fs"
proof -
  obtain parts where parts: "rmap (\<lambda>f. if splits_band trig alphabetic w fs f
      then rmap (\<lambda>it. from_items trig alphabetic [it] w) (lf_items f) else Inr [f]) fs = Inr parts" "gs = concat parts"
    using assms by (auto simp: split_bands_def result_simps)
  have single: "rmap (\<lambda>it. from_items trig alphabetic [it] w) xs = Inr ys \<Longrightarrow> mset (all_items ys) = mset xs" for xs ys
    using item_bag_rmap [of "\<lambda>it. from_items trig alphabetic [it] w" xs ys lf_items "\<lambda>it. [it]"] from_items_mset
    by (fastforce simp: all_items_def)
  have "mset (concat (map all_items parts)) = mset (concat (map lf_items fs))"
    by (rule item_bag_rmap [OF parts(1)]) (auto split: if_splits dest: single simp: all_items_def)
  moreover have "mset (concat (map all_items ps)) = item_bag (concat ps)" for ps
    by (induction ps) (simp_all add: item_bag_all [symmetric])
  ultimately show ?thesis by (simp add: item_bag_all parts(2)) (simp add: all_items_def)
qed

lemma with_children_bag:
  assumes "with_children trig alphabetic w f nested = Inr g"
  shows "mset (lf_items g) = mset (lf_items f) + item_bag nested"
proof (cases "nested = []")
  case True
  with assms show ?thesis by (simp add: with_children_def)
next
  case False
  have atoms: "mset (concat (map snd atoms)) = (\<Sum>a\<in>#mset atoms. mset (snd a))" for atoms :: "(bbox \<times> text_item list) list"
    by (induction atoms) simp_all
  have own: "(\<Sum>a\<in>#mset (map (\<lambda>it. (it_bbox it, [it])) xs). mset (snd a)) = mset xs" for xs
    by (induction xs) simp_all
  from assms False show ?thesis
    by (auto simp: with_children_def Let_def result_simps atoms own [simplified] item_bag_def image_mset.compositionality comp_def
        dest!: from_ordered_items_items split: if_splits)
qed

text \<open>The state of the attachment: what is finished, waits for a parent or is still to come.\<close>

definition attach_bag :: "line_fragment list \<Rightarrow> nat list \<Rightarrow> attach_state \<Rightarrow> text_item multiset" where
  "attach_bag fs js st = (\<Sum>j\<in>#mset js. mset (lf_items (fs ! j)) + item_bag (fst st ! j)) + item_bag (snd st)"

lemma sum_update:
  fixes g :: "'b \<Rightarrow> 'c :: comm_monoid_add"
  assumes "distinct js" "p \<in> set js" "p < length xs" "g y = g (xs ! p) + d"
  shows "(\<Sum>j\<in>#mset js. h j + g (xs[p := y] ! j)) = (\<Sum>j\<in>#mset js. h j + g (xs ! j)) + d"
  using assms
proof (induction js)
  case (Cons j js)
  have same: "p \<notin> set js \<Longrightarrow> (\<Sum>j\<in>#mset js. h j + g (xs[p := y] ! j)) = (\<Sum>j\<in>#mset js. h j + g (xs ! j))"
    by (intro arg_cong [of _ _ sum_mset] image_mset_cong) (metis nth_list_update_neq set_mset_mset)
  show ?case
  proof (cases "j = p")
    case True
    with Cons.prems same show ?thesis by (simp add: ac_simps)
  next
    case False
    with Cons show ?thesis by (simp add: ac_simps nth_list_update)
  qed
qed simp

lemma attach_one_bag:
  assumes "attach_one trig alphabetic w fs parents i st = Inr st'" "distinct (i # js)" "set js \<subseteq> {..<length (fst st)}"
    "i < length (fst st)" "\<And>p. parents ! i = Some p \<Longrightarrow> p \<in> set js"
  shows "attach_bag fs js st' = attach_bag fs (i # js) st \<and> length (fst st') = length (fst st)"
proof -
  obtain children finished where st: "st = (children, finished)" by (cases st)
  obtain f where f: "with_children trig alphabetic w (fs ! i) (children ! i) = Inr f"
    and st': "st' = (case parents ! i of Some p \<Rightarrow> (children[i := [], p := children[i := []] ! p @ [f]], finished)
        | None \<Rightarrow> (children[i := []], finished @ [f]))"
    using assms(1) by (auto simp: attach_one_def st Let_def result_simps split: option.split)
  note bag = with_children_bag [OF f]
  have cleared: "(\<Sum>j\<in>#mset js. mset (lf_items (fs ! j)) + item_bag (children[i := []] ! j)) =
      (\<Sum>j\<in>#mset js. mset (lf_items (fs ! j)) + item_bag (children ! j))"
    using assms(2) by (intro arg_cong [of _ _ sum_mset] image_mset_cong) (metis nth_list_update_neq set_mset_mset distinct.simps(2))
  show ?thesis
  proof (cases "parents ! i")
    case None
    with st' cleared bag show ?thesis by (simp add: attach_bag_def st ac_simps)
  next
    case (Some p)
    have p: "p \<in> set js" "p < length children" using assms(3,5) Some st by auto
    have "(\<Sum>j\<in>#mset js. mset (lf_items (fs ! j)) + item_bag (children[i := [], p := children[i := []] ! p @ [f]] ! j)) =
        (\<Sum>j\<in>#mset js. mset (lf_items (fs ! j)) + item_bag (children[i := []] ! j)) + mset (lf_items f)"
      using assms(2) p by (intro sum_update) auto
    with Some st' cleared bag show ?thesis by (simp add: attach_bag_def st ac_simps)
  qed
qed

lemma attach_all_bag:
  assumes "rfold (attach_one trig alphabetic w fs parents) js st = Inr st'" "distinct js" "set js \<subseteq> {..<length (fst st)}"
    "sorted_wrt (\<lambda>i j. \<not> lev j < lev i) js"
    "\<And>i p. i \<in> set js \<Longrightarrow> parents ! i = Some p \<Longrightarrow> p \<in> set all \<and> lev i < (lev p :: 'r :: linorder)"
    "\<And>p. p \<in> set all \<Longrightarrow> p \<notin> set js \<Longrightarrow> \<forall>i\<in>set js. \<not> lev i < lev p"
  shows "item_bag (snd st') = attach_bag fs js st"
  using assms
proof (induction js arbitrary: st)
  case Nil
  then show ?case by (simp add: attach_bag_def)
next
  case (Cons i js)
  obtain st1 where st1: "attach_one trig alphabetic w fs parents i st = Inr st1" "rfold (attach_one trig alphabetic w fs parents) js st1 = Inr st'"
    using Cons.prems(1) by (auto simp: result_simps)
  have later: "p \<in> set js" if "parents ! i = Some p" for p
  proof -
    have "p \<in> set all" "lev i < lev p" using Cons.prems(5) [of i p] that by auto
    with Cons.prems(6) [of p] have "p \<in> set (i # js)" by auto
    with \<open>lev i < lev p\<close> show ?thesis by auto
  qed
  note one = attach_one_bag [OF st1(1) Cons.prems(2) _ _ later]
  have "item_bag (snd st') = attach_bag fs js st1"
  proof (rule Cons.IH [OF st1(2)])
    show "distinct js" "sorted_wrt (\<lambda>i j. \<not> lev j < lev i) js" using Cons.prems by auto
    show "set js \<subseteq> {..<length (fst st1)}" using one Cons.prems by auto
    show "\<And>j p. j \<in> set js \<Longrightarrow> parents ! j = Some p \<Longrightarrow> p \<in> set all \<and> lev j < lev p" using Cons.prems(5) by auto
    fix p assume p: "p \<in> set all" "p \<notin> set js"
    show "\<forall>j\<in>set js. \<not> lev j < lev p"
    proof (cases "p = i")
      case True
      with Cons.prems(4) show ?thesis by simp
    next
      case False
      with p Cons.prems(6) [of p] show ?thesis by auto
    qed
  qed
  with one Cons.prems show ?case by auto
qed

lemma attach_scripts_bag:
  assumes "attach_scripts trig alphabetic w fs = Inr gs"
  shows "item_bag gs = item_bag fs"
proof -
  obtain f1 f2 f3 st where f: "join_script_pieces trig alphabetic w fs = Inr f1" "split_bands trig alphabetic w f1 = Inr f2"
      "join_script_pieces trig alphabetic w f2 = Inr f3"
    and st: "rfold (attach_one trig alphabetic w f3 (map (script_parent trig alphabetic f3) f3)) (by_font f3)
        (replicate (length f3) [], []) = Inr st" "item_bag gs = item_bag (snd st)"
    using assms by (auto simp: attach_scripts_def Let_def result_simps split: prod.splits)
  let ?lev = "\<lambda>i. lm_font_size (metrics (f3 ! i))"
  have js: "distinct (by_font f3)" "set (by_font f3) = {..<length f3}" by (auto simp: by_font_def)
  have "item_bag (snd st) = attach_bag f3 (by_font f3) (replicate (length f3) [], [])"
  proof (rule attach_all_bag [where lev = ?lev and all = "by_font f3", OF st(1)])
    have "sorted (map ?lev (by_font f3))" by (simp add: by_font_def)
    then show "sorted_wrt (\<lambda>i j. \<not> ?lev j < ?lev i) (by_font f3)" by (simp add: sorted_map not_less)
    show "\<And>i p. i \<in> set (by_font f3) \<Longrightarrow> map (script_parent trig alphabetic f3) f3 ! i = Some p \<Longrightarrow> p \<in> set (by_font f3) \<and> ?lev i < ?lev p"
      using script_parent_larger by (auto simp: js)
  qed (use js in auto)
  also have "\<dots> = (\<Sum>j\<in>#mset [0..<length f3]. mset (lf_items (f3 ! j)))"
    using js(2) by (simp add: attach_bag_def by_font_def) (intro arg_cong [of _ _ sum_mset] image_mset_cong, auto)
  also have "\<dots> = item_bag f3"
  proof -
    have "mset (map (\<lambda>j. mset (lf_items (f3 ! j))) [0..<length f3]) = mset (map (\<lambda>f. mset (lf_items f)) f3)"
      by (intro arg_cong [of _ _ mset] nth_equalityI) auto
    then show ?thesis by (simp add: item_bag_def)
  qed
  finally show ?thesis using f st(2) by (simp add: pieces.run_result split_bands_bag)
qed

section \<open>Grouping keeps the items\<close>

lemma concat_push_last: "concat (push_last joins x groups) = concat groups @ [x]"
  by (cases groups rule: rev_cases) (auto simp: push_last_def)

lemma concat_fold_push_last: "concat (fold (push_last joins) xs groups) = concat groups @ xs"
  by (induction xs arbitrary: groups) (simp_all add: concat_push_last)

lemma mset_concat_update: "i < length bands \<Longrightarrow> mset (concat (bands[i := bands ! i @ [a]])) = add_mset a (mset (concat bands))"
  by (induction bands arbitrary: i) (auto split: nat.split)

lemma iter_position_bound: "iter_position p xs = Some i \<Longrightarrow> i < length xs \<and> p (xs ! i)"
  by (auto simp: iter_position_def find_Some_iff)

lemma mset_band_step: "mset (concat (band_step config axes a bands)) = add_mset a (mset (concat bands))"
  by (auto simp: band_step_def concat_push_last mset_concat_update dest: iter_position_bound split: option.split)

lemma mset_fold_band_step: "mset (concat (fold (band_step config axes) xs bands)) = mset xs + mset (concat bands)"
  by (induction xs arbitrary: bands) (simp_all add: mset_band_step)

lemma mset_band_groups: "mset (concat (band_groups trig config band)) = mset band"
  by (simp add: band_groups_def Let_def concat_fold_push_last)

lemma align_item_item: "align_item trig alphabetic axes it = Inr a \<Longrightarrow> ai_item a = it"
  by (auto simp: align_item_def Let_def result_simps split: if_splits)

lemma rmap_map: "rmap g xs = Inr ys \<Longrightarrow> (\<And>x y. g x = Inr y \<Longrightarrow> h y = x) \<Longrightarrow> map h ys = xs"
  by (induction xs arbitrary: ys) (auto simp: result_simps)

lemma mset_concat_map: "(\<And>x. x \<in> set xs \<Longrightarrow> mset (g x) = mset (h x)) \<Longrightarrow> mset (concat (map g xs)) = mset (concat (map h xs))"
  by (induction xs) auto

lemma concat_concat_map: "concat (concat (map f xs)) = concat (map (\<lambda>x. concat (f x)) xs)"
  by (induction xs) auto

lemma orientation_groups_mset:
  assumes "orientation_groups trig alphabetic config members = Inr groups"
  shows "mset (map ai_item (concat groups)) = mset members"
proof -
  obtain aligned bands where a: "rmap (align_item trig alphabetic (axes_of trig (first_rotation members))) members = Inr aligned"
    and g: "groups = concat (map (band_groups trig config) bands)"
    and b: "bands = fold (band_step config (axes_of trig (first_rotation members)))
        (sort_key (\<lambda>a. (top_of (ai_bbox a), left (ai_bbox a), it_id (ai_item a))) aligned) []"
    using assms by (auto simp: orientation_groups_def Let_def result_simps)
  have "mset (concat groups) = mset (concat bands)"
    using mset_concat_map [of bands "\<lambda>x. concat (band_groups trig config x)" "\<lambda>x. x"] by (simp add: g concat_concat_map mset_band_groups)
  also have "\<dots> = mset aligned" by (simp add: b mset_fold_band_step)
  finally have "mset (map ai_item (concat groups)) = mset (map ai_item aligned)" by (simp add: mset_map)
  then show ?thesis using rmap_map [OF a, of ai_item] align_item_item by metis
qed

lemma mset_all_items: "mset (all_items fs) = item_bag fs"
  by (simp add: item_bag_all)

lemma fragments_mset:
  assumes "fragments trig alphabetic config items = Inr fs"
  shows "mset (all_items fs) = mset items"
proof -
  obtain groups f1 f2 f3 where g: "rmap (orientation_groups trig alphabetic config) (orientations trig items) = Inr groups"
    and f1: "rmap (\<lambda>members. from_items trig alphabetic (map ai_item members) (page_width_of items)) (concat groups) = Inr f1"
    and f: "attach_scripts trig alphabetic (page_width_of items) f1 = Inr f2"
      "join_script_gaps trig alphabetic (page_width_of items) config f2 = Inr f3" "fs = sort_key (fragment_key trig) f3"
    using assms by (auto simp: fragments_def Let_def result_simps)
  have "item_bag fs = item_bag f1" using f by (simp add: gaps.run_result attach_scripts_bag)
  also have "\<dots> = mset (concat (map (map ai_item) (concat groups)))"
    using item_bag_rmap [OF f1, of lf_items "map ai_item"] from_items_mset by (simp add: item_bag_all all_items_def)
  also have "\<dots> = mset (concat (map (\<lambda>gs. map ai_item (concat gs)) groups))"
    by (simp add: map_concat concat_concat_map)
  also have "\<dots> = mset (concat (orientations trig items))"
    using item_bag_rmap [OF g, of "\<lambda>gs. map ai_item (concat gs)" "\<lambda>x. x"] orientation_groups_mset by simp
  finally show ?thesis by (simp add: mset_all_items orientations_def concat_fold_push_last)
qed

end
