(* ===== verification/Inline_Bags.thy ===== *)
theory Inline_Bags
  imports Line_Formula Line_Bags
begin

text \<open>
  Inline atoms keep the items they stand for: every step that prepares the input of line assembly
  leaves items with distinct identifiers whose sources are exactly the original items, and
  restoring the sources gives them back.
\<close>

section \<open>Restoring\<close>

definition expand :: "originals \<Rightarrow> text_item list \<Rightarrow> text_item list" where
  "expand m items = concat (map (source_of m) items)"

abbreviation unique_ids :: "text_item list \<Rightarrow> bool" where
  "unique_ids items \<equiv> distinct (map it_id items)"

lemma source_of_cong: "m (it_id it) = m' (it_id it) \<Longrightarrow> source_of m it = source_of m' it"
  by (simp add: source_of_def)

lemma expand_cong: "(\<And>it. it \<in> set items \<Longrightarrow> m (it_id it) = m' (it_id it)) \<Longrightarrow> expand m items = expand m' items"
  unfolding expand_def by (intro arg_cong [of _ _ concat] map_cong) (auto intro: source_of_cong)

lemma expand_simps [simp]:
  "expand m [] = []" "expand m (it # items) = source_of m it @ expand m items" "expand m (xs @ ys) = expand m xs @ expand m ys"
  by (simp_all add: expand_def)

lemma expand_other: "it_id it \<notin> it_id ` set items \<Longrightarrow> expand (m(it_id it := v)) items = expand m items"
  by (rule expand_cong) (auto simp: image_iff)

lemma restore_items_expand:
  "unique_ids items \<Longrightarrow> snd (restore_items m items) = expand m items \<and>
     (\<forall>i. i \<notin> it_id ` set items \<longrightarrow> fst (restore_items m items) i = m i)"
proof (induction items arbitrary: m)
  case (Cons it items)
  obtain m' rest where r: "restore_items (m(it_id it := None)) items = (m', rest)" by fastforce
  have "unique_ids items" using Cons.prems by simp
  note ih = Cons.IH [OF this, of "m(it_id it := None)", unfolded r fst_conv snd_conv]
  have "expand (m(it_id it := None)) items = expand m items" using Cons.prems by (intro expand_other) simp
  with conjunct1 [OF ih] have 1: "rest = expand m items" by (simp only:)
  have "m' i = m i" if "i \<notin> it_id ` set (it # items)" for i
    using conjunct2 [OF ih, rule_format, of i] that by simp
  then show ?case by (simp add: r 1)
qed simp

lemma restore_expand: "unique_ids (all_items fs) \<Longrightarrow> all_items (restore m fs) = expand m (all_items fs)"
proof (induction fs arbitrary: m)
  case (Cons f fs)
  have u: "unique_ids (lf_items f)" "unique_ids (all_items fs)" "it_id ` set (lf_items f) \<inter> it_id ` set (all_items fs) = {}"
    using Cons.prems by (auto simp: all_items_def)
  obtain m' its where r: "restore_items m (lf_items f) = (m', its)" by fastforce
  with restore_items_expand [OF u(1), of m] have its: "its = expand m (lf_items f)" "\<forall>i. i \<notin> it_id ` set (lf_items f) \<longrightarrow> m' i = m i" by auto
  have "all_items (restore m' fs) = expand m (all_items fs)"
    using Cons.IH [OF u(2), of m'] its(2) u(3) by (subst Cons.IH [OF u(2)]) (rule expand_cong, auto)
  then show ?case using its(1) by (simp add: r all_items_def)
qed (simp add: all_items_def)

lemma unique_ids_mset: "mset xs = mset ys \<Longrightarrow> unique_ids xs = unique_ids ys"
  by (metis mset_eq_imp_distinct_iff mset_map)

lemma mset_expand: "mset xs = mset ys \<Longrightarrow> mset (expand m xs) = mset (expand m ys)"
proof -
  have "mset (expand m zs) = (\<Sum>z\<in>#mset zs. mset (source_of m z))" for zs by (induction zs) simp_all
  then show "mset xs = mset ys \<Longrightarrow> mset (expand m xs) = mset (expand m ys)" by simp
qed

lemma expand_indices: "mset (expand m items) = (\<Sum>i<length items. mset (source_of m (items ! i)))"
proof (induction items rule: rev_induct)
  case (snoc it items)
  have "(\<Sum>i<length items. mset (source_of m ((items @ [it]) ! i))) = (\<Sum>i<length items. mset (source_of m (items ! i)))"
    by (rule sum.cong) (auto simp: nth_append)
  with snoc show ?case by simp
qed simp

section \<open>Preparing\<close>

lemma align_hanging_spec:
  assumes "unique_ids items" "align_hanging items = (items', m)"
  shows "map it_id items' = map it_id items \<and> expand m items' = items"
proof -
  let ?new = "\<lambda>it. case row_baseline items it of None \<Rightarrow> it | Some y \<Rightarrow> it\<lparr>it_baseline := Some (level_baseline (it_bbox it) y)\<rparr>"
  let ?add = "\<lambda>it m. case row_baseline items it of None \<Rightarrow> m | Some _ \<Rightarrow> m(it_id it \<mapsto> [it])"
  have id: "it_id (?new it) = it_id it" for it by (simp split: option.split)
  have other: "i \<notin> it_id ` set xs \<Longrightarrow> fold ?add xs m i = m i" for xs i and m :: originals
    by (induction xs arbitrary: m) (auto split: option.split)
  have "unique_ids xs \<Longrightarrow> (\<And>it. it \<in> set xs \<Longrightarrow> m (it_id it) = None) \<Longrightarrow> expand (fold ?add xs m) (map ?new xs) = xs" for xs and m :: originals
  proof (induction xs arbitrary: m)
    case (Cons it xs)
    have "expand (fold ?add xs (?add it m)) (map ?new xs) = xs"
      by (rule Cons.IH) (use Cons.prems in \<open>auto split: option.split simp: image_iff\<close>)
    moreover have "fold ?add xs (?add it m) (it_id it) = ?add it m (it_id it)" using Cons.prems(1) by (intro other) simp
    ultimately show ?case using Cons.prems(2) [of it] by (auto simp: source_of_def split: option.split)
  qed simp
  from this [OF assms(1), of Map.empty] have "expand (fold ?add items Map.empty) (map ?new items) = items" by simp
  moreover have "map it_id (map ?new items) = map it_id items" by (simp add: id)
  ultimately show ?thesis using assms(2) by (auto simp only: align_hanging_def prod.inject)
qed

text \<open>One element takes over what others stand for.\<close>

lemma sum_absorb:
  fixes g :: "'i \<Rightarrow> 'a :: comm_monoid_add"
  assumes "finite S" "A \<subseteq> S - {p}" "p \<in> S" "g' p = g p + sum g A" "\<And>i. i \<in> S - A - {p} \<Longrightarrow> g' i = g i"
  shows "sum g' (S - A) = sum g S"
proof -
  have fin: "finite A" "finite (S - A - {p})" using assms(1,2) by (auto intro: finite_subset)
  have "sum g' (S - A) = g' p + sum g' (S - A - {p})" using assms(1,2,3) by (subst sum.remove [of _ p]) auto
  also have "sum g' (S - A - {p}) = sum g (S - A - {p})" using assms(5) by (intro sum.cong) auto
  also have "g' p + sum g (S - A - {p}) = g p + sum g A + sum g (S - A - {p})" using assms(4) by simp
  also have "sum g A + sum g (S - A - {p}) = sum g (S - {p})"
    using assms(1,2) sum.subset_diff [of A "S - {p}" g] by (simp add: add.commute Diff_insert [symmetric] Diff_insert2 [symmetric])
  then have "g p + sum g A + sum g (S - A - {p}) = g p + sum g (S - {p})" by (simp add: add.assoc)
  also have "\<dots> = sum g S" using assms(1,3) by (simp add: sum.remove)
  finally show ?thesis .
qed

lemma add_limits:
  "rfold (add_limit items) js (atom, src, consumed) = Inr (atom', src', consumed') \<Longrightarrow>
   it_id atom' = it_id atom \<and> src' = src @ map (\<lambda>i. items ! i) js \<and> set consumed' = set consumed \<union> set js"
proof (induction js arbitrary: atom src consumed)
  case (Cons i js)
  obtain st where st: "add_limit items i (atom, src, consumed) = Inr st" "rfold (add_limit items) js st = Inr (atom', src', consumed')"
    using Cons.prems by (auto simp only: rfold.simps rbind_eq_Inr)
  then obtain b where "rfold (add_limit items) js (atom\<lparr>it_bbox := b, raw_text := raw_text atom @ raw_text (items ! i)\<rparr>, src @ [items ! i], i # consumed)
      = Inr (atom', src', consumed')"
    by (auto simp: add_limit_def [of _ i] result_simps)
  from Cons.IH [OF this] show ?case by simp
qed simp

lemma singletons: "sum_list (map (\<lambda>i. {#f i#}) js) = mset (map f js)"
  by (induction js) auto

text \<open>What the items that are not consumed yet stand for.\<close>

definition live_bag :: "text_item list \<times> originals \<times> nat list \<Rightarrow> text_item multiset" where
  "live_bag st = (case st of (items, m, consumed) \<Rightarrow> \<Sum>i\<in>{..<length items} - set consumed. mset (source_of m (items ! i)))"

definition limits_inv :: "text_item list \<Rightarrow> originals \<Rightarrow> (nat \<times> bool) option list \<Rightarrow> nat list \<Rightarrow> text_item list \<times> originals \<times> nat list \<Rightarrow> bool" where
  "limits_inv items0 m0 chosen todo st \<longleftrightarrow>
     (case st of (items, m, consumed) \<Rightarrow>
        map it_id items = map it_id items0 \<and> (\<forall>i<length items0. chosen ! i \<noteq> None \<longrightarrow> m (it_id (items0 ! i)) = None) \<and>
        (\<forall>i\<in>set consumed. \<exists>p a. chosen ! i = Some (p, a) \<and> p \<notin> set todo) \<and> set consumed \<subseteq> {..<length items0})"

lemma operator_step_inv:
  assumes "operator_step chosen operator st = Inr st'" "limits_inv items0 m0 chosen (operator # todo) st"
    "length chosen = length items0" "operator < length items0" "chosen ! operator = None" "unique_ids items0" "operator \<notin> set todo"
  shows "limits_inv items0 m0 chosen todo st' \<and> live_bag st' = live_bag st"
proof -
  obtain items m consumed where st: "st = (items, m, consumed)" by (cases st)
  have inv: "map it_id items = map it_id items0" "\<And>i. i < length items0 \<Longrightarrow> chosen ! i \<noteq> None \<Longrightarrow> m (it_id (items ! i)) = None"
    "\<forall>i\<in>set consumed. \<exists>p a. chosen ! i = Some (p, a) \<and> p \<notin> set (operator # todo)" "set consumed \<subseteq> {..<length items0}"
    using assms(2) by (auto simp: limits_inv_def st) (metis nth_map map_eq_imp_length_eq)
  have len: "length items = length items0" using inv(1) by (rule map_eq_imp_length_eq)
  show ?thesis
  proof (cases "st' = st")
    case True
    with assms(2) show ?thesis by (auto simp: limits_inv_def split: prod.splits)
  next
    case False
    let ?side = "\<lambda>s. filter (\<lambda>i. chosen ! i = Some (operator, s)) [0..<length chosen]"
    let ?js = "by_left items (?side False) @ by_left items (?side True)"
    obtain atom src consumed' where run: "rfold (add_limit items) ?js (items ! operator, source_of m (items ! operator), consumed) = Inr (atom, src, consumed')"
      and st': "st' = (items[operator := atom], m(it_id atom \<mapsto> src), consumed')"
      using assms(1) False by (auto simp: operator_step_def st Let_def result_simps split: if_splits prod.splits)
    note lim = add_limits [OF run]
    have js: "set ?js = {i. i < length items0 \<and> (\<exists>s. chosen ! i = Some (operator, s))}"
      using assms(3) by (auto simp: by_left_def)
    have dist: "distinct ?js" by (auto simp: by_left_def)
    have "i \<notin> set consumed" if "i \<in> set ?js" for i using that inv(3) unfolding js by fastforce
    then have fresh: "set ?js \<inter> set consumed = {}" by blast
    have id: "it_id atom = it_id (items ! operator)" using lim by simp
    have other: "it_id (items ! i) \<noteq> it_id (items ! operator)" if "i < length items0" "i \<noteq> operator" for i
      using that assms(4,6) inv(1) len by (metis distinct_conv_nth length_map nth_map)
    have single: "source_of m (items ! i) = [items ! i]" if "i \<in> set ?js" for i
      using that inv(2) [of i] unfolding js by (auto simp: source_of_def)
    have "(\<Sum>i\<in>set ?js. mset (source_of m (items ! i))) = (\<Sum>i\<in>set ?js. {#items ! i#})" by (rule sum.cong) (auto simp: single)
    also have "\<dots> = mset (map (\<lambda>i. items ! i) ?js)" using sum_list_distinct_conv_sum_set [OF dist, of "\<lambda>i. {#items ! i#}"] by (simp add: singletons)
    finally have taken: "(\<Sum>i\<in>set ?js. mset (source_of m (items ! i))) = mset (map (\<lambda>i. items ! i) ?js)" .
    let ?S = "{..<length items} - set consumed"
    have "operator \<notin> set consumed" using inv(3) assms(5) by auto
    then have p: "operator \<in> ?S" using assms(4) len by simp
    have "live_bag st' = (\<Sum>i\<in>?S - set ?js. mset (source_of (m(it_id atom \<mapsto> src)) (items[operator := atom] ! i)))"
      using lim len by (simp add: live_bag_def st' Diff_Un [symmetric] set_diff_eq conj_ac del: set_append)
    also have "\<dots> = (\<Sum>i\<in>?S. mset (source_of m (items ! i)))"
    proof (rule sum_absorb [OF _ _ p])
      show "set ?js \<subseteq> ?S - {operator}" using fresh js assms(5) len by auto
      show "mset (source_of (m(it_id atom \<mapsto> src)) (items[operator := atom] ! operator)) =
          mset (source_of m (items ! operator)) + (\<Sum>i\<in>set ?js. mset (source_of m (items ! i)))"
        using lim assms(4) len taken by (simp add: source_of_def)
    qed (use other id len in \<open>auto simp: source_of_def\<close>)
    finally have "live_bag st' = live_bag st" by (simp add: live_bag_def st)
    moreover have "limits_inv items0 m0 chosen todo st'"
      unfolding limits_inv_def st' prod.case
    proof (intro conjI)
      show "map it_id (items[operator := atom]) = map it_id items0"
        using inv(1) id by (simp add: map_update) (metis list_update_id map_update)
      show "\<forall>i<length items0. chosen ! i \<noteq> None \<longrightarrow> (m(it_id atom \<mapsto> src)) (it_id (items0 ! i)) = None"
        using inv(1,2) id other assms(5) len by (metis fun_upd_other nth_map)
      show "\<forall>i\<in>set consumed'. \<exists>p a. chosen ! i = Some (p, a) \<and> p \<notin> set todo"
        using lim inv(3) js assms(7) by auto
      show "set consumed' \<subseteq> {..<length items0}" using lim inv(4) js by auto
    qed
    ultimately show ?thesis by simp
  qed
qed

lemma operator_steps_inv:
  "rfold (operator_step chosen) todo st = Inr st' \<Longrightarrow> limits_inv items0 m0 chosen todo st \<Longrightarrow> length chosen = length items0 \<Longrightarrow>
   set todo \<subseteq> {..<length items0} \<Longrightarrow> (\<And>p. p \<in> set todo \<Longrightarrow> chosen ! p = None) \<Longrightarrow> unique_ids items0 \<Longrightarrow> distinct todo \<Longrightarrow>
   limits_inv items0 m0 chosen [] st' \<and> live_bag st' = live_bag st"
proof (induction todo arbitrary: st)
  case (Cons p todo)
  obtain st1 where st1: "operator_step chosen p st = Inr st1" "rfold (operator_step chosen) todo st1 = Inr st'"
    using Cons.prems(1) by (auto simp only: rfold.simps rbind_eq_Inr)
  have step: "limits_inv items0 m0 chosen todo st1 \<and> live_bag st1 = live_bag st"
    by (rule operator_step_inv [OF st1(1)]) (use Cons.prems in auto)
  with Cons.IH [OF st1(2)] Cons.prems show ?case by auto
qed simp

lemma picked_ids:
  assumes "map it_id items' = map it_id items" "unique_ids items" "distinct js" "set js \<subseteq> {..<length items'}"
  shows "unique_ids (map (\<lambda>i. items' ! i) js) \<and> it_id ` set (map (\<lambda>i. items' ! i) js) \<subseteq> it_id ` set items"
proof -
  let ?ids = "map it_id items"
  have len: "length items' = length items" using assms(1) by (rule map_eq_imp_length_eq)
  have nth: "it_id (items' ! i) = ?ids ! i" if "i < length items'" for i
    using that by (simp flip: assms(1))
  have "map it_id (map (\<lambda>i. items' ! i) js) = map (\<lambda>i. ?ids ! i) js" using assms(4) nth by auto
  moreover have "inj_on ((!) ?ids) (set js)" using assms(2,4) len by (intro inj_on_nth) auto
  moreover have "(!) ?ids ` set js \<subseteq> set ?ids"
    using assms(4) len by (metis image_subsetI length_map lessThan_iff nth_mem subsetD)
  ultimately show ?thesis using assms(3) by (metis distinct_map list.set_map)
qed

definition stands_for :: "inline_input \<Rightarrow> text_item multiset \<Rightarrow> bool" where
  "stands_for input B \<longleftrightarrow> unique_ids (fst input) \<and> it_id ` set (fst input) \<subseteq> it_id ` set_mset B \<and> mset (expand (snd input) (fst input)) = B"

lemma group_operator_limits_stands:
  assumes "group_operator_limits (items, m) = Inr out" "stands_for (items, m) B"
  shows "stands_for out B"
proof -
  let ?ops = "filter (\<lambda>i. m (it_id (items ! i)) \<noteq> None) [0..<length items]"
  let ?chosen = "map (limit_owner items m ?ops) items"
  show ?thesis
  proof (cases "?ops = []")
    case True
    with assms show ?thesis by (simp add: group_operator_limits_def)
  next
    case False
    obtain items' m' consumed where run: "rfold (operator_step ?chosen) ?ops (items, m, []) = Inr (items', m', consumed)"
      and out: "out = (map (\<lambda>i. items' ! i) (filter (\<lambda>i. i \<notin> set consumed) [0..<length items']), m')"
      using assms(1) False by (auto simp: group_operator_limits_def Let_def result_simps)
    have u: "unique_ids items" using assms(2) by (simp add: stands_for_def)
    have "limits_inv items m ?chosen [] (items', m', consumed) \<and> live_bag (items', m', consumed) = live_bag (items, m, [])"
      by (rule operator_steps_inv [OF run]) (auto simp: limits_inv_def limit_owner_def u split: if_splits)
    then have ids: "map it_id items' = map it_id items" and bag: "live_bag (items', m', consumed) = live_bag (items, m, [])"
      by (auto simp: limits_inv_def)
    let ?live = "filter (\<lambda>i. i \<notin> set consumed) [0..<length items']"
    have "mset (expand m' (map (\<lambda>i. items' ! i) ?live)) = (\<Sum>i\<in>set ?live. mset (source_of m' (items' ! i)))"
    proof -
      have "mset (expand m' (map (\<lambda>i. items' ! i) js)) = sum_list (map (\<lambda>i. mset (source_of m' (items' ! i))) js)" for js
        by (induction js) simp_all
      moreover have "distinct ?live" by simp
      ultimately show ?thesis using sum_list_distinct_conv_sum_set by metis
    qed
    also have "\<dots> = live_bag (items', m', consumed)" by (simp add: live_bag_def) (rule sum.cong, auto)
    also have "\<dots> = mset (expand m items)" unfolding bag by (simp add: live_bag_def expand_indices)
    finally have "mset (expand (snd out) (fst out)) = B" using assms(2) by (simp add: out stands_for_def)
    moreover have "unique_ids (fst out) \<and> it_id ` set (fst out) \<subseteq> it_id ` set items"
      unfolding out fst_conv by (rule picked_ids [OF ids u]) auto
    ultimately show ?thesis using assms(2) by (auto simp: stands_for_def)
  qed
qed

lemma singles_mset:
  assumes "singles trig alphabetic w items = Inr fs"
  shows "mset (all_items fs) = mset items"
proof -
  obtain f1 where f1: "rmap (\<lambda>it. from_items trig alphabetic [it] w) items = Inr f1" "attach_scripts trig alphabetic w f1 = Inr fs"
    using assms by (auto simp: singles_def result_simps)
  have "mset (concat (map lf_items f1)) = mset (concat (map (\<lambda>it. [it]) items))"
    by (rule item_bag_rmap [OF f1(1)]) (auto dest: from_items_mset)
  with attach_scripts_bag [OF f1(2)] show ?thesis by (simp add: item_bag_all) (simp add: all_items_def)
qed

lemma order_side_mset:
  assumes "order_side trig alphabetic w items = Inr xs"
  shows "mset xs = mset items"
proof -
  obtain fs where fs: "singles trig alphabetic w items = Inr fs" and xs: "mset xs = item_bag fs"
    using assms by (auto simp: order_side_def result_simps mset_all_items)
  with singles_mset [OF fs] show ?thesis by (simp add: mset_all_items)
qed

lemma unique_ids_sub:
  assumes "mset xs \<subseteq># mset ys" "unique_ids ys"
  shows "unique_ids xs"
proof -
  obtain C where "mset ys = mset xs + C" using assms(1) by (auto simp: mset_subset_eq_exists_conv)
  moreover obtain zs where "C = mset zs" by (metis ex_mset)
  ultimately have "mset ys = mset (xs @ zs)" by simp
  from unique_ids_mset [OF this] assms(2) show ?thesis by simp
qed

lemma mset_filter_both: "mset (filter (\<lambda>x. \<not> P x) xs) + mset (filter P xs) = mset xs"
  by (induction xs) auto

lemma split_members:
  assumes "distinct members" "set members \<subseteq> {..<length items}"
  shows "mset (map (\<lambda>i. items ! i) (filter (\<lambda>i. i \<notin> set members) [0..<length items]) @ map (\<lambda>i. items ! i) members) = mset items"
proof -
  have "mset members = mset (filter (\<lambda>i. i \<in> set members) [0..<length items])"
    using assms by (subst set_eq_iff_mset_eq_distinct [symmetric]) auto
  then have "mset (filter (\<lambda>i. i \<notin> set members) [0..<length items] @ members) = mset [0..<length items]"
    using mset_filter_both [of "\<lambda>i. i \<in> set members" "[0..<length items]"] by simp
  then have "mset (map (\<lambda>i. items ! i) (filter (\<lambda>i. i \<notin> set members) [0..<length items] @ members)) = mset (map (\<lambda>i. items ! i) [0..<length items])"
    by (simp only: mset_map)
  then show ?thesis by (simp add: map_nth)
qed

lemma seal_steps:
  "rfold seal_step ordered (b, tx, src, m) = Inr (bounds, tx', src', m') \<Longrightarrow> unique_ids ordered \<Longrightarrow>
   src' = src @ expand m ordered \<and> (\<forall>i. i \<notin> it_id ` set ordered \<longrightarrow> m' i = m i)"
proof (induction ordered arbitrary: b tx src m)
  case (Cons it ordered)
  obtain st where st: "seal_step it (b, tx, src, m) = Inr st" "rfold seal_step ordered st = Inr (bounds, tx', src', m')"
    using Cons.prems(1) by (auto simp only: rfold.simps rbind_eq_Inr)
  then obtain b1 where "rfold seal_step ordered (b1, tx @ raw_text it, src @ source_of m it, m(it_id it := None)) = Inr (bounds, tx', src', m')"
    by (auto simp: seal_step_def [of it] result_simps)
  note ih = Cons.IH [OF this distinct_tl [OF Cons.prems(2), simplified]]
  have "expand (m(it_id it := None)) ordered = expand m ordered" using Cons.prems(2) by (intro expand_other) simp
  with conjunct1 [OF ih] have "src' = (src @ source_of m it) @ expand m ordered" by (simp only:)
  moreover have "m' i = m i" if "i \<notin> it_id ` set (it # ordered)" for i using conjunct2 [OF ih, rule_format, of i] that by simp
  ultimately show ?case by simp
qed simp

text \<open>The members of a fraction and their items in reading order.\<close>

definition members_ok :: "text_item list \<Rightarrow> nat list \<times> text_item list \<Rightarrow> bool" where
  "members_ok items st \<longleftrightarrow> (case st of (members, ordered) \<Rightarrow>
     distinct members \<and> set members \<subseteq> {..<length items} \<and> mset ordered = mset (map (\<lambda>i. items ! i) members))"

lemma take_power_ok:
  assumes "members_ok items (members, ordered)" "unique_ids items" "unique_ids (it # ordered)" "it \<in> set items"
  shows "\<exists>i. take_power items it (members, ordered) = (members @ [i], ordered @ [it]) \<and> members_ok items (members @ [i], ordered @ [it])"
proof -
  obtain k where k: "k < length items" "items ! k = it" using assms(4) by (auto simp: in_set_conv_nth)
  then have "iter_position (\<lambda>s. it_id s = it_id it) items \<noteq> None"
    by (auto simp: iter_position_def find_None_iff)
  then obtain i where i: "iter_position (\<lambda>s. it_id s = it_id it) items = Some i" by auto
  then have "i < length items" "it_id (items ! i) = it_id it" using iter_position_bound by blast+
  with k assms(2) have "i = k" by (metis distinct_conv_nth length_map nth_map)
  moreover have "k \<notin> set members"
  proof
    assume "k \<in> set members"
    then have "it \<in># mset (map (\<lambda>i. items ! i) members)" using k by auto
    then have "it \<in># mset ordered" using assms(1) by (simp add: members_ok_def)
    then have "it \<in> set ordered" by simp
    with assms(3) show False by auto
  qed
  ultimately show ?thesis using assms(1) k i by (auto simp: take_power_def members_ok_def)
qed

lemma take_powers_ok:
  "members_ok items (members, ordered) \<Longrightarrow> unique_ids items \<Longrightarrow> unique_ids (xs @ ordered) \<Longrightarrow> set xs \<subseteq> set items \<Longrightarrow>
   members_ok items (fold (take_power items) xs (members, ordered))"
proof (induction xs arbitrary: members ordered)
  case (Cons it xs)
  obtain i where i: "take_power items it (members, ordered) = (members @ [i], ordered @ [it])" "members_ok items (members @ [i], ordered @ [it])"
    using take_power_ok [OF Cons.prems(1,2), of it] Cons.prems(3,4) by auto
  have "unique_ids (xs @ ordered @ [it])" using Cons.prems(3) by auto
  with Cons.IH [OF i(2) Cons.prems(2)] Cons.prems(4) i(1) show ?case by simp
qed simp

lemma fraction_powers_ok:
  assumes "fraction_powers trig alphabetic bar items base font st = Inr st'" "members_ok items st" "unique_ids items"
  shows "members_ok items st'"
proof -
  obtain y l r members ordered where bar: "bar = (y, l, r)" and st: "st = (members, ordered)" by (cases bar; cases st)
  define small where "small = filter (\<lambda>i. i \<notin> set members \<and> is_some_and (item_style font_size (items ! i)) (\<lambda>s. fle s (fmul font (rnd (85 / 100))))) [0..<length items]"
  define top_edge where "top_edge = fold (\<lambda>it acc. fmin acc (top_of (it_bbox it))) ordered (Inf False)"
  obtain fs where fs: "singles trig alphabetic (fmax r (Fin 1)) (map (\<lambda>i. items ! i) small) = Inr fs"
    and st': "st' = (case filter (is_power bar items members top_edge base font) fs of [p] \<Rightarrow> fold (take_power items) (lf_items p) (members, ordered) | _ \<Rightarrow> (members, ordered))"
    using assms(1) by (auto simp: fraction_powers_def bar st Let_def result_simps small_def top_edge_def)
  consider "st' = st" | p where "filter (is_power bar items members top_edge base font) fs = [p]" "st' = fold (take_power items) (lf_items p) (members, ordered)"
    using st' by (auto simp: st split: list.splits)
  then show ?thesis
  proof cases
    case 1
    with assms(2) show ?thesis by simp
  next
    case 2
    then have "p \<in> set fs" by (metis filter_is_subset list.set_intros(1) subsetD)
    then obtain xs ys where "fs = xs @ p # ys" by (meson split_list)
    then have "mset (lf_items p) \<subseteq># mset (all_items fs)" by (simp add: all_items_def)
    then have sub: "mset (lf_items p) \<subseteq># mset (map (\<lambda>i. items ! i) small)" by (simp add: singles_mset [OF fs])
    have m: "distinct members" "set members \<subseteq> {..<length items}" "mset ordered = mset (map (\<lambda>i. items ! i) members)"
      using assms(2) by (auto simp: members_ok_def st)
    have "unique_ids (map (\<lambda>i. items ! i) (small @ members))"
      by (rule conjunct1 [OF picked_ids [OF refl assms(3)]]) (use m in \<open>auto simp: small_def\<close>)
    moreover have "mset (lf_items p @ ordered) \<subseteq># mset (map (\<lambda>i. items ! i) (small @ members))"
      using sub m(3) by simp
    ultimately have u: "unique_ids (lf_items p @ ordered)"
      using unique_ids_sub by blast
    have "set (lf_items p) \<subseteq> set items" using set_mset_mono [OF sub] by (auto simp: small_def)
    with take_powers_ok [OF assms(2) [unfolded st] assms(3) u] show ?thesis by (simp only: 2(2))
  qed
qed

lemma seal_fraction_stands:
  assumes "seal_fraction base font (items, m) (members, ordered) = Inr out" "members_ok items (members, ordered)" "stands_for (items, m) B"
  shows "stands_for out B"
proof (cases ordered)
  case Nil
  with assms show ?thesis by (simp add: seal_fraction_def)
next
  case (Cons atom rest)
  obtain bounds tx src m' where seal: "rfold seal_step ordered (it_bbox atom, [], [], m) = Inr (bounds, tx, src, m')"
    and out: "out = (map (\<lambda>i. items ! i) (filter (\<lambda>i. i \<notin> set members) [0..<length items]) @
        [atom\<lparr>raw_text := tx, it_bbox := bounds, it_baseline := Some (level_baseline bounds base),
           it_style := map_option (\<lambda>st. st\<lparr>font_size := Some font\<rparr>) (it_style atom)\<rparr>], m'(it_id atom \<mapsto> src))"
    using assms(1) unfolding seal_fraction_def Cons prod.case list.case by (auto simp: rbind_eq_Inr Let_def simp del: rfold.simps)
  have u: "unique_ids items" using assms(3) by (simp add: stands_for_def)
  note ok = assms(2)
  let ?others = "map (\<lambda>i. items ! i) (filter (\<lambda>i. i \<notin> set members) [0..<length items])"
  have perm: "mset (?others @ ordered) = mset items"
    using split_members [of members items] ok by (simp add: members_ok_def)
  then have uo: "unique_ids (?others @ ordered)" using u unique_ids_mset by blast
  then have "unique_ids ordered" by simp
  note src = seal_steps [OF seal this]
  have "it_id ` set ?others \<inter> it_id ` set ordered = {}" using uo by (simp only: map_append distinct_append list.set_map)
  then have apart: "it_id it \<notin> it_id ` set ordered" if "it \<in> set ?others" for it using that by blast
  have "expand (m'(it_id atom \<mapsto> src)) ?others = expand m ?others"
  proof (rule expand_cong)
    fix it assume "it \<in> set ?others"
    from apart [OF this] src Cons show "(m'(it_id atom \<mapsto> src)) (it_id it) = m (it_id it)" by auto
  qed
  then have "mset (expand (snd out) (fst out)) = mset (expand m (?others @ ordered))"
    using src by (simp add: out source_of_def)
  also have "\<dots> = B" using mset_expand [OF perm] assms(3) by (simp add: stands_for_def)
  finally have bag: "mset (expand (snd out) (fst out)) = B" .
  have ids: "it_id ` set (fst out) \<subseteq> it_id ` set (?others @ ordered)" by (auto simp: out Cons)
  have "set (?others @ ordered) = set items" using perm by (metis mset_eq_setD)
  moreover have "unique_ids (fst out)" using uo apart by (auto simp: out Cons)
  moreover have "it_id ` set items \<subseteq> it_id ` set_mset B" using assms(3) by (simp add: stands_for_def)
  ultimately show ?thesis using bag ids unfolding stands_for_def by (metis subset_trans)
qed

lemma fraction_step_stands:
  assumes "fraction_step trig alphabetic confirmed bar (items, m) = Inr out" "stands_for (items, m) B"
  shows "stands_for out B"
proof (cases "out = (items, m)")
  case True
  with assms show ?thesis by simp
next
  case False
  obtain y l r where bar: "bar = (y, l, r)" by (cases bar)
  let ?bar = "(y, l, r)"
  let ?over = "items_on_side ?bar items True" and ?under = "items_on_side ?bar items False" and ?w = "fmax r (Fin 1)"
  obtain base font upp low st where
    sides: "order_side trig alphabetic ?w (map (\<lambda>i. items ! i) ?over) = Inr upp" "order_side trig alphabetic ?w (map (\<lambda>i. items ! i) ?under) = Inr low"
    and pow: "(if confirmed then fraction_powers trig alphabetic ?bar items base font (?over @ ?under, upp @ low) else Inr (?over @ ?under, upp @ low)) = Inr st"
    and seal: "seal_fraction base font (items, m) st = Inr out"
  proof -
    obtain z base font where "rbind (order_side trig alphabetic ?w (map (\<lambda>i. items ! i) ?over)) (\<lambda>upp.
        rbind (order_side trig alphabetic ?w (map (\<lambda>i. items ! i) ?under)) (\<lambda>low.
        rbind (if confirmed then fraction_powers trig alphabetic ?bar items base font (?over @ ?under, upp @ low) else Inr (?over @ ?under, upp @ low))
          (seal_fraction base font (items, m)))) = Inr out"
      using assms(1) False by (auto simp: fraction_step_def bar Let_def split: if_split_asm option.split_asm)
    then show thesis unfolding rbind_eq_Inr using that by blast
  qed
  have "members_ok items (?over @ ?under, upp @ low)"
    using order_side_mset [OF sides(1)] order_side_mset [OF sides(2)]
    by (auto simp: members_ok_def items_on_side_def is_some_and_def split: option.splits)
  then have "members_ok items st"
    using pow fraction_powers_ok assms(2) by (cases confirmed) (auto simp: stands_for_def)
  with seal assms(2) show ?thesis by (cases st) (blast intro: seal_fraction_stands)
qed

lemma prepare_stands:
  assumes "prepare trig alphabetic items rules confirmed = Inr out" "unique_ids items"
  shows "stands_for out (mset items)"
proof -
  obtain items1 m1 where a: "align_hanging items = (items1, m1)" by fastforce
  obtain st where g: "group_operator_limits (items1, m1) = Inr st" and f: "rfold (fraction_step trig alphabetic confirmed) (bars rules) st = Inr out"
    using assms(1) a by (auto simp: prepare_def result_simps)
  note al = align_hanging_spec [OF assms(2) a]
  have "it_id ` set items1 = it_id ` set items" using al by (metis list.set_map)
  then have "stands_for (items1, m1) (mset items)" using al assms(2) by (simp add: stands_for_def)
  from group_operator_limits_stands [OF g this] have st: "stands_for st (mset items)" .
  show ?thesis
  proof (rule rfold_invariant [OF f, of "\<lambda>st. stands_for st (mset items)"])
    fix bar st st' assume "stands_for st (mset items)" "fraction_step trig alphabetic confirmed bar st = Inr st'"
    then show "stands_for st' (mset items)" by (cases st) (simp add: fraction_step_stands)
  qed (rule st)
qed

lemma restored_mset:
  assumes "stands_for (items, m) B" "mset (all_items fs) = mset items"
  shows "mset (all_items (restore m fs)) = B"
proof -
  have "unique_ids (all_items fs)" using unique_ids_mset [OF assms(2)] assms(1) by (simp add: stands_for_def)
  then have "mset (all_items (restore m fs)) = mset (expand m (all_items fs))" by (simp add: restore_expand)
  also have "\<dots> = mset (expand m items)" by (rule mset_expand [OF assms(2)])
  also have "\<dots> = B" using assms(1) by (simp add: stands_for_def)
  finally show ?thesis .
qed

lemma fragments_with_rules_mset:
  assumes "fragments_with_rules trig alphabetic config items rules = Inr fs" "unique_ids items"
  shows "mset (all_items fs) = mset items"
proof -
  obtain items1 m1 f1 where p: "prepare trig alphabetic items rules False = Inr (items1, m1)"
    and f: "fragments trig alphabetic config items1 = Inr f1" "fs = restore m1 f1"
    using assms(1) by (auto simp: fragments_with_rules_def result_simps)
  from restored_mset [OF prepare_stands [OF p assms(2)] fragments_mset [OF f(1)]] show ?thesis by (simp add: f(2))
qed

section \<open>Formulas\<close>

definition owners_bound :: "nat \<Rightarrow> nat option list \<Rightarrow> bool" where
  "owners_bound n chosen \<longleftrightarrow> (\<forall>k. Some k \<in> set chosen \<longrightarrow> k < n)"

lemma formula_region_bound: "formula_region_of regions it = Some k \<Longrightarrow> k < length regions"
  by (auto simp: formula_region_of_def enumerate_in dest!: min_by_key_in)

lemma inherit_owner_bound:
  assumes "owners_bound n chosen" "length chosen = length fs"
  shows "owners_bound n (inherit_owner trig alphabetic fs i chosen) \<and> length (inherit_owner trig alphabetic fs i chosen) = length fs"
proof (cases "chosen ! i = None \<and> script_parent trig alphabetic fs (fs ! i) \<noteq> None")
  case False
  have "Some k \<in> set chosen" if "Some k \<in> set (chosen[i := None])" for k
    using that set_update_subset_insert [of chosen i None] by auto
  then have "owners_bound n (chosen[i := None])" using assms(1) by (simp add: owners_bound_def)
  with False assms show ?thesis by (cases "chosen ! i = None") (simp_all add: inherit_owner_def)
next
  case True
  then obtain p where p: "script_parent trig alphabetic fs (fs ! i) = Some p" by blast
  then have "p < length chosen" using script_parent_larger assms(2) by metis
  then have "set (chosen[i := chosen ! p]) \<subseteq> set chosen" using set_update_subset_insert [of chosen i "chosen ! p"] by auto
  with True p assms show ?thesis by (auto simp: inherit_owner_def owners_bound_def)
qed

lemma formula_owners_bound:
  "owners_bound (length regions) (formula_owners trig alphabetic fs regions) \<and> length (formula_owners trig alphabetic fs regions) = length fs"
proof -
  define first where "first = map (\<lambda>f. case hd_opt (lf_items f) of None \<Rightarrow> None | Some it \<Rightarrow> formula_region_of regions it) fs"
  have start: "owners_bound (length regions) first \<and> length first = length fs"
    using formula_region_bound by (auto simp: first_def owners_bound_def eq_commute [of "Some _"] split: option.splits)
  have "owners_bound (length regions) chosen \<and> length chosen = length fs \<Longrightarrow>
      owners_bound (length regions) (fold (inherit_owner trig alphabetic fs) js chosen) \<and> length (fold (inherit_owner trig alphabetic fs) js chosen) = length fs" for js chosen
    by (induction js arbitrary: chosen) (auto simp: inherit_owner_bound)
  with start show ?thesis by (simp add: formula_owners_def first_def [symmetric] Let_def)
qed

text \<open>The groups partition the fragments.\<close>

lemma group_by_key:
  assumes "distinct keys" "length chosen = length fs" "set chosen \<subseteq> set keys"
  shows "mset (concat (map (\<lambda>k. map fst (filter (\<lambda>(_, c). c = k) (zip fs chosen))) keys)) = mset fs"
  using assms(2,3)
proof (induction fs chosen rule: list_induct2')
  case (4 f fs c chosen)
  have one: "mset (concat (map (\<lambda>k. map fst (filter (\<lambda>(_, c'). c' = k) (zip (f # fs) (c # chosen)))) ks)) =
      mset (concat (map (\<lambda>k. map fst (filter (\<lambda>(_, c). c = k) (zip fs chosen))) ks)) + (if c \<in> set ks then {#f#} else {#})"
    if "distinct ks" for ks
    using that by (induction ks) auto
  show ?case using 4 one [OF assms(1)] by auto
qed simp_all

lemma formula_groups_bag:
  "mset (concat (map (all_items \<circ> snd) (formula_groups trig alphabetic fs regions))) = item_bag fs"
proof -
  let ?chosen = "formula_owners trig alphabetic fs regions"
  let ?part = "\<lambda>k. map fst (filter (\<lambda>(_, c). c = k) (zip fs ?chosen))"
  have "mset (concat (map (\<lambda>k. all_items (?part k)) ks)) = item_bag (concat (map ?part ks))" for ks
    by (induction ks) (simp_all add: mset_all_items)
  moreover have "mset (concat (map ?part (sort (remdups ?chosen)))) = mset fs"
    by (rule group_by_key) (use formula_owners_bound in auto)
  then have "item_bag (concat (map ?part (sort (remdups ?chosen)))) = item_bag fs" by (simp add: item_bag_def)
  ultimately show ?thesis by (simp add: formula_groups_def Let_def comp_def)
qed

lemma formula_groups_keys:
  "distinct (map fst (formula_groups trig alphabetic fs regions)) \<and>
   (\<forall>k. Some k \<in> fst ` set (formula_groups trig alphabetic fs regions) \<longrightarrow> k < length regions)"
  using formula_owners_bound [of regions trig alphabetic fs] by (auto simp: formula_groups_def Let_def comp_def owners_bound_def)

text \<open>A row enters as one item that stands for the row.\<close>

lemma formula_atom_id: "it_id (formula_atom anchors inline f first) = it_id first"
  by (simp add: formula_atom_def Let_def split: option.split)

lemma stands_for_push:
  assumes "stands_for (items, m) B" "src \<noteq> []" "it_id atom \<in> it_id ` set src" "it_id ` set src \<inter> it_id ` set_mset B = {}"
  shows "stands_for (items @ [atom], m(it_id atom \<mapsto> src)) (B + mset src)"
proof -
  have "it_id ` set items \<subseteq> it_id ` set_mset B" using assms(1) by (simp add: stands_for_def)
  with assms(3,4) have fresh: "it_id atom \<notin> it_id ` set items" by blast
  from expand_other [OF this, of m "Some src"] have "expand (m(it_id atom \<mapsto> src)) items = expand m items" .
  with assms fresh show ?thesis by (auto simp: stands_for_def source_of_def)
qed

lemma add_row_stands:
  assumes "stands_for input B" "it_id ` set (lf_items f) \<inter> it_id ` set_mset B = {}"
  shows "stands_for (add_row anchors inline f input) (B + mset (lf_items f))"
proof (cases "lf_items f")
  case Nil
  with assms show ?thesis by (simp add: add_row_def)
next
  case (Cons first rest)
  obtain items m where input: "input = (items, m)" by (cases input)
  have "stands_for (items @ [formula_atom anchors inline f first], m(it_id (formula_atom anchors inline f first) \<mapsto> lf_items f)) (B + mset (lf_items f))"
    by (rule stands_for_push) (use assms Cons in \<open>auto simp: input formula_atom_id\<close>)
  with Cons show ?thesis by (simp add: add_row_def input Let_def)
qed

lemma add_rows_stands:
  "stands_for input B \<Longrightarrow> unique_ids (all_items fs) \<Longrightarrow> it_id ` set (all_items fs) \<inter> it_id ` set_mset B = {} \<Longrightarrow>
   stands_for (fold (add_row anchors inline) fs input) (B + mset (all_items fs))"
proof (induction fs arbitrary: input B)
  case (Cons f fs)
  have "stands_for (add_row anchors inline f input) (B + mset (lf_items f))"
    by (rule add_row_stands) (use Cons.prems in \<open>auto simp: all_items_def\<close>)
  moreover have "it_id ` set (all_items fs) \<inter> it_id ` set_mset (B + mset (lf_items f)) = {}" "unique_ids (all_items fs)"
    using Cons.prems(2,3) by (simp_all add: all_items_def image_Un Int_Un_distrib Int_Un_distrib2 Int_commute)
  ultimately have "stands_for (fold (add_row anchors inline) fs (add_row anchors inline f input)) (B + mset (lf_items f) + mset (all_items fs))"
    by (intro Cons.IH)
  then show ?case by (simp add: all_items_def add.assoc)
qed (simp add: all_items_def)

lemma add_formula_stands:
  assumes "add_formula trig alphabetic config rules regions anchors (Some k, items) input = Inr out"
    "k < length regions" "stands_for input B" "unique_ids items" "it_id ` set items \<inter> it_id ` set_mset B = {}"
  shows "stands_for out (B + mset items)"
proof -
  obtain items1 m1 fs where p: "prepare trig alphabetic items rules True = Inr (items1, m1)" "fragments trig alphabetic config items1 = Inr fs"
    and out: "out = fold (add_row anchors (fo_inline (regions ! k))) (restore m1 fs) input"
    using assms(1,2) by (auto simp: add_formula_def get_at_def result_simps)
  have bag: "mset (all_items (restore m1 fs)) = mset items"
    by (rule restored_mset [OF prepare_stands [OF p(1) assms(4)] fragments_mset [OF p(2)]])
  then have "unique_ids (all_items (restore m1 fs))" "set (all_items (restore m1 fs)) = set items"
    using assms(4) unique_ids_mset [OF bag] mset_eq_setD [OF bag] by auto
  with add_rows_stands [OF assms(3)] assms(5) bag out show ?thesis by metis
qed

lemma add_formulas_stand:
  "rfold (add_formula trig alphabetic config rules regions anchors) groups input = Inr out \<Longrightarrow>
   (\<forall>(key, items)\<in>set groups. \<exists>k<length regions. key = Some k) \<Longrightarrow> stands_for input B \<Longrightarrow>
   unique_ids (concat (map snd groups)) \<Longrightarrow> it_id ` set (concat (map snd groups)) \<inter> it_id ` set_mset B = {} \<Longrightarrow>
   stands_for out (B + mset (concat (map snd groups)))"
proof (induction groups arbitrary: input B)
  case (Cons g groups)
  obtain k items where g: "g = (Some k, items)" "k < length regions" using Cons.prems(2) by (cases g) auto
  obtain mid where mid: "add_formula trig alphabetic config rules regions anchors g input = Inr mid"
      "rfold (add_formula trig alphabetic config rules regions anchors) groups mid = Inr out"
    using Cons.prems(1) by (auto simp only: rfold.simps rbind_eq_Inr)
  have "stands_for mid (B + mset items)"
    by (rule add_formula_stands [OF mid(1) [unfolded g(1)] g(2) Cons.prems(3)]) (use Cons.prems(4,5) g in auto)
  moreover have "it_id ` set (concat (map snd groups)) \<inter> it_id ` set_mset (B + mset items) = {}"
    using Cons.prems(4,5) g by (simp add: image_Un Int_Un_distrib) blast
  moreover have "\<forall>(key, items)\<in>set groups. \<exists>k<length regions. key = Some k" "unique_ids (concat (map snd groups))"
    using Cons.prems(2,4) by auto
  ultimately have "stands_for out (B + mset items + mset (concat (map snd groups)))"
    by (intro Cons.IH [OF mid(2)])
  then show ?case by (simp add: g add.assoc)
qed simp

lemma concat_filter_both:
  "mset (concat (map snd (filter P gs))) + mset (concat (map snd (filter (\<lambda>x. \<not> P x) gs))) = mset (concat (map snd gs))"
  by (induction gs) auto

lemma fragments_with_formulas_mset:
  assumes "fragments_with_formulas trig alphabetic config items rules regions = Inr out" "unique_ids items"
  shows "mset (all_items out) = mset items"
proof (cases "regions = []")
  case True
  with assms show ?thesis by (simp add: fragments_with_formulas_def fragments_with_rules_mset)
next
  case False
  define groups where "groups fs = map (\<lambda>(k, fs). (k, all_items fs)) (formula_groups trig alphabetic fs regions)" for fs
  define outside where "outside gs = concat (map snd (filter (\<lambda>(k, _). k = None) gs))" for gs :: "(nat option \<times> text_item list) list"
  obtain fs items1 m1 f1 where f: "rmap (\<lambda>it. from_items trig alphabetic [it] (formula_page_width items)) items = Inr fs"
    and run: "rfold (add_formula trig alphabetic config rules regions (prose_anchors (outside (groups fs))))
        (filter (\<lambda>(k, _). k \<noteq> None) (groups fs)) (outside (groups fs), Map.empty) = Inr (items1, m1)"
    and f1: "fragments_with_rules trig alphabetic config items1 rules = Inr f1" and out: "out = restore m1 f1"
    using assms(1) False by (auto simp: fragments_with_formulas_def Let_def result_simps groups_def outside_def)
  let ?gs = "groups fs" and ?inner = "filter (\<lambda>(k, _). k \<noteq> None) (groups fs)"
  have "mset (concat (map snd ?gs)) = item_bag fs"
    using formula_groups_bag [of trig alphabetic fs regions] by (simp add: groups_def comp_def case_prod_unfold)
  also have "\<dots> = mset items"
    using item_bag_rmap [OF f, of lf_items "\<lambda>it. [it]"] from_items_mset by (simp add: item_bag_all all_items_def)
  finally have all: "mset (concat (map snd ?gs)) = mset items" .
  have parts: "mset (outside ?gs @ concat (map snd ?inner)) = mset items"
    using concat_filter_both [of "\<lambda>(k, _). k = None" ?gs] all by (simp add: outside_def case_prod_unfold)
  then have u: "unique_ids (outside ?gs @ concat (map snd ?inner))" using assms(2) unique_ids_mset by blast
  have "stands_for (items1, m1) (mset (outside ?gs) + mset (concat (map snd ?inner)))"
  proof (rule add_formulas_stand [OF run])
    show "\<forall>(key, items)\<in>set ?inner. \<exists>k<length regions. key = Some k"
    proof clarify
      fix k its assume "(k, its) \<in> set ?inner"
      then obtain j where j: "k = Some j" "(Some j, its) \<in> set ?gs" by auto
      then have "Some j \<in> fst ` set (formula_groups trig alphabetic fs regions)" by (force simp: groups_def)
      with formula_groups_keys [of trig alphabetic fs regions] j(1) show "\<exists>k'<length regions. k = Some k'" by blast
    qed
    have "expand Map.empty xs = xs" for xs by (induction xs) (simp_all add: source_of_def)
    then show "stands_for (outside ?gs, Map.empty) (mset (outside ?gs))" using u by (simp add: stands_for_def)
    show "unique_ids (concat (map snd ?inner))" using u by simp
    show "it_id ` set (concat (map snd ?inner)) \<inter> it_id ` set_mset (mset (outside ?gs)) = {}"
      using u by (simp only: map_append distinct_append list.set_map set_mset_mset Int_commute)
  qed
  with parts have st: "stands_for (items1, m1) (mset items)" by simp
  then have "unique_ids items1" by (simp add: stands_for_def)
  from restored_mset [OF st fragments_with_rules_mset [OF f1 this]] show ?thesis by (simp add: out)
qed

end
