(* ===== verification/Line_Totality.thy ===== *)
theory Line_Totality
  imports Inline_Bags
begin

text \<open>
  Upright text is always assembled: with valid boxes, and no sloping item, every union of boxes is
  valid and no fragment is empty, so no error branch of line assembly is reached.
\<close>

definition sound_item :: "text_item \<Rightarrow> bool" where
  "sound_item it \<longleftrightarrow> bbox_ok (it_bbox it) \<and> \<not> is_oblique (axes_of (\<lambda>_. (Fin 0, Fin 1)) (it_rotation it))"

lemma oblique_any: "is_oblique (axes_of trig r) = is_oblique (axes_of (\<lambda>_. (Fin 0, Fin 1)) r)"
  by (cases "trig (rem_euclid r (Fin 360))") (simp add: axes_of_def is_oblique_def Let_def)

lemma geometry_ok [simp]: "geometry (Inr x) = Inr x"
  by (simp add: geometry_def)

definition sound_fragment :: "line_fragment \<Rightarrow> bool" where
  "sound_fragment f \<longleftrightarrow> lf_items f \<noteq> [] \<and> (\<forall>it\<in>set (lf_items f). sound_item it) \<and> bbox_ok (lf_bbox f)"

lemma union_total: "bbox_ok a \<Longrightarrow> bbox_ok b \<Longrightarrow> \<exists>c. union_bbox a b = Inr c \<and> bbox_ok c"
  using union_box_ok [of a b] by (auto simp: union_bbox_def)

section \<open>Fragments\<close>

lemma from_ordered_total:
  assumes "items \<noteq> []" "\<forall>it\<in>set items. sound_item it"
  shows "\<exists>f. from_ordered_items trig alphabetic items w = Inr f \<and> sound_fragment f"
proof -
  obtain first rest where items: "items = first # rest" using assms(1) by (cases items) auto
  have step: "\<exists>t. add_item_metrics it s = Inr t \<and> bbox_ok (sum_bbox t)" if "bbox_ok (sum_bbox s)" "it \<in> set items" for it s
  proof -
    have "bbox_ok (it_bbox it)" using assms(2) that(2) by (auto simp: sound_item_def)
    from union_total [OF that(1) this] obtain c where c: "union_bbox (sum_bbox s) (it_bbox it) = Inr c" "bbox_ok c" by blast
    obtain u where "add_item_metrics it s = Inr u" "sum_bbox u = c"
      by (cases "it_style it") (auto simp: add_item_metrics_def Let_def c(1) split: option.split)
    with c(2) show ?thesis by simp
  qed
  have start: "bbox_ok (it_bbox first)" using assms(2) by (simp add: items sound_item_def)
  have "\<exists>t. rfold add_item_metrics items s = Inr t \<and> bbox_ok (sum_bbox t)" if "bbox_ok (sum_bbox s)" for s
    by (rule rfold_total) (use step that in auto)
  from this [of "\<lparr>sum_bbox = it_bbox first, character_count = 0, font_size_sum = Fin 0,
      font_size_characters = 0, has_estimated_size = False, bold_characters = 0, italic_characters = 0\<rparr>"] start
  obtain s where "rfold add_item_metrics items \<lparr>sum_bbox = it_bbox first, character_count = 0, font_size_sum = Fin 0,
      font_size_characters = 0, has_estimated_size = False, bold_characters = 0, italic_characters = 0\<rparr> = Inr s" "bbox_ok (sum_bbox s)"
    by auto
  then have "\<exists>m. metrics_from_items trig alphabetic items w = Inr m \<and> bbox_ok (lm_bbox m)"
    by (simp add: metrics_from_items_def items Let_def)
  with assms show ?thesis by (auto simp: from_ordered_items_def sound_fragment_def)
qed

lemma from_items_total:
  assumes "items \<noteq> []" "\<forall>it\<in>set items. sound_item it"
  shows "\<exists>f. from_items trig alphabetic items w = Inr f \<and> sound_fragment f"
proof -
  have "mset (order_items trig dir items) = mset items" for dir by simp
  then have "set (order_items trig dir items) = set items" for dir by (metis mset_eq_setD)
  with assms show ?thesis unfolding from_items_def by (intro from_ordered_total) (auto simp flip: set_empty)
qed

lemma singleton_total: "sound_item it \<Longrightarrow> \<exists>f. from_items trig alphabetic [it] w = Inr f \<and> sound_fragment f"
  by (rule from_items_total) auto

section \<open>Scripts\<close>

lemma pieces_total:
  "\<forall>f\<in>set fs. sound_fragment f \<Longrightarrow> \<exists>gs. join_script_pieces trig alphabetic w fs = Inr gs \<and> (\<forall>g\<in>set gs. sound_fragment g)"
proof (rule pieces.run_total)
  fix f g assume "sound_fragment f" "sound_fragment g"
  then show "\<exists>h. from_items trig alphabetic (lf_items f @ lf_items g) w = Inr h \<and> sound_fragment h"
    by (intro from_items_total) (auto simp: sound_fragment_def)
qed

lemma split_bands_total:
  assumes "\<forall>f\<in>set fs. sound_fragment f"
  shows "\<exists>gs. split_bands trig alphabetic w fs = Inr gs \<and> (\<forall>g\<in>set gs. sound_fragment g)"
proof -
  have "\<exists>parts. rmap (\<lambda>f. if splits_band trig alphabetic w fs f then rmap (\<lambda>it. from_items trig alphabetic [it] w) (lf_items f) else Inr [f]) fs
      = Inr parts \<and> (\<forall>part\<in>set parts. \<forall>g\<in>set part. sound_fragment g)"
  proof (rule rmap_total)
    fix f assume "f \<in> set fs"
    with assms have f: "sound_fragment f" by blast
    have "\<exists>gs. rmap (\<lambda>it. from_items trig alphabetic [it] w) (lf_items f) = Inr gs \<and> (\<forall>g\<in>set gs. sound_fragment g)"
      by (rule rmap_total) (use f in \<open>auto simp: sound_fragment_def intro: singleton_total [unfolded sound_fragment_def]\<close>)
    with f show "\<exists>y. (if splits_band trig alphabetic w fs f then rmap (\<lambda>it. from_items trig alphabetic [it] w) (lf_items f) else Inr [f]) = Inr y \<and>
        (\<forall>g\<in>set y. sound_fragment g)" by simp
  qed
  then show ?thesis by (auto simp: split_bands_def)
qed

lemma with_children_total:
  assumes "sound_fragment f" "\<forall>c\<in>set nested. sound_fragment c"
  shows "\<exists>g. with_children trig alphabetic w f nested = Inr g \<and> sound_fragment g"
proof (cases "nested = []")
  case True
  with assms show ?thesis by (simp add: with_children_def)
next
  case False
  define atoms where "atoms = map (\<lambda>it. (it_bbox it, [it])) (lf_items f) @ map (\<lambda>c. (lf_bbox c, lf_items c)) nested"
  define ordered where "ordered = (if lf_direction f = RightToLeft then sort_key (\<lambda>a. Reversed (right (fst a))) atoms else sort_key (\<lambda>a. left (fst a)) atoms)"
  have "set ordered = set atoms" by (simp add: ordered_def)
  then have "set (concat (map snd ordered)) = set (lf_items f) \<union> (\<Union>c\<in>set nested. set (lf_items c))" by (auto simp: atoms_def)
  with assms have "concat (map snd ordered) \<noteq> []" "\<forall>it\<in>set (concat (map snd ordered)). sound_item it"
    by (auto simp: sound_fragment_def simp flip: set_empty)
  from from_ordered_total [OF this, of trig alphabetic w] obtain g
    where "from_ordered_items trig alphabetic (concat (map snd ordered)) w = Inr g" "sound_fragment g" by blast
  with False show ?thesis
    by (simp add: with_children_def Let_def atoms_def [symmetric] ordered_def [symmetric] sound_fragment_def)
qed

lemma attach_scripts_total:
  assumes "\<forall>f\<in>set fs. sound_fragment f"
  shows "\<exists>gs. attach_scripts trig alphabetic w fs = Inr gs \<and> (\<forall>g\<in>set gs. sound_fragment g)"
proof -
  obtain f1 where f1: "join_script_pieces trig alphabetic w fs = Inr f1" "\<forall>f\<in>set f1. sound_fragment f" using pieces_total [OF assms] by blast
  obtain f2 where f2: "split_bands trig alphabetic w f1 = Inr f2" "\<forall>f\<in>set f2. sound_fragment f" using split_bands_total [OF f1(2)] by blast
  obtain f3 where f3: "join_script_pieces trig alphabetic w f2 = Inr f3" "\<forall>f\<in>set f3. sound_fragment f" using pieces_total [OF f2(2)] by blast
  let ?P = "\<lambda>st. length (fst st) = length f3 \<and> (\<forall>c\<in>set (fst st). \<forall>f\<in>set c. sound_fragment f) \<and> (\<forall>f\<in>set (snd st). sound_fragment f)"
  have "\<exists>st. rfold (attach_one trig alphabetic w f3 (map (script_parent trig alphabetic f3) f3)) (by_font f3) (replicate (length f3) [], []) = Inr st \<and> ?P st"
  proof (rule rfold_total)
    fix i st assume i: "i \<in> set (by_font f3)" and st: "?P st"
    obtain children finished where s: "st = (children, finished)" by (cases st)
    have lt: "i < length f3" using i by (simp add: by_font_def)
    have "sound_fragment (f3 ! i)" using f3(2) lt by simp
    moreover have "\<forall>c\<in>set (children ! i). sound_fragment c" using st lt s by (metis fst_conv nth_mem)
    ultimately obtain g where g: "with_children trig alphabetic w (f3 ! i) (children ! i) = Inr g" "sound_fragment g"
      using with_children_total by blast
    have cleared: "\<forall>c\<in>set (children[i := []]). \<forall>f\<in>set c. sound_fragment f"
      using st s set_update_subset_insert [of children i "[]"] by auto
    show "\<exists>t. attach_one trig alphabetic w f3 (map (script_parent trig alphabetic f3) f3) i st = Inr t \<and> ?P t"
    proof (cases "script_parent trig alphabetic f3 (f3 ! i)")
      case None
      with st s g lt cleared show ?thesis by (simp add: attach_one_def Let_def)
    next
      case (Some p)
      then have p: "p < length children" using script_parent_larger st s by fastforce
      then have "children[i := []] ! p \<in> set (children[i := []])" by simp
      with cleared have "\<forall>f\<in>set (children[i := []] ! p). sound_fragment f" by blast
      then have pushed: "\<forall>f\<in>set (children[i := []] ! p @ [g]). sound_fragment f" using g(2) by simp
      have "\<forall>c\<in>set (children[i := [], p := children[i := []] ! p @ [g]]). \<forall>f\<in>set c. sound_fragment f"
      proof
        fix c assume "c \<in> set (children[i := [], p := children[i := []] ! p @ [g]])"
        then have "c = children[i := []] ! p @ [g] \<or> c \<in> set (children[i := []])"
          using set_update_subset_insert [of "children[i := []]" p "children[i := []] ! p @ [g]"] by blast
        with pushed cleared show "\<forall>f\<in>set c. sound_fragment f" by blast
      qed
      with Some st s g lt show ?thesis by (simp add: attach_one_def Let_def)
    qed
  qed auto
  with f1(1) f2(1) f3(1) show ?thesis by (auto simp: attach_scripts_def Let_def)
qed

section \<open>Assembly\<close>

lemma gaps_total:
  "\<forall>f\<in>set fs. sound_fragment f \<Longrightarrow> \<exists>gs. join_script_gaps trig alphabetic w config fs = Inr gs \<and> (\<forall>g\<in>set gs. sound_fragment g)"
proof (rule gaps.run_total)
  fix f g assume fg: "sound_fragment f" "sound_fragment g"
  define items where "items = (if (if lf_direction f = RightToLeft then fle (right (lf_bbox g)) (right (lf_bbox f))
      else fle (left (lf_bbox f)) (left (lf_bbox g))) then lf_items f @ lf_items g else lf_items g @ lf_items f)"
  have "\<exists>h. from_ordered_items trig alphabetic items w = Inr h \<and> sound_fragment h"
    by (rule from_ordered_total) (use fg in \<open>auto simp: items_def sound_fragment_def\<close>)
  then show "\<exists>h. merge_row trig alphabetic w f g = Inr h \<and> sound_fragment h"
    by (auto simp: merge_row_def Let_def items_def [symmetric] sound_fragment_def)
qed

lemma align_total:
  assumes "sound_item it" "\<not> is_oblique axes"
  shows "\<exists>a. align_item trig alphabetic axes it = Inr a \<and> ai_item a = it"
proof -
  have "bbox_try_from (top_of (it_bbox it)) (left (it_bbox it)) (bottom (it_bbox it)) (right (it_bbox it)) =
      Inr \<lparr>left = top_of (it_bbox it), top_of = left (it_bbox it), right = bottom (it_bbox it), bottom = right (it_bbox it)\<rparr>"
    using assms(1) by (simp add: bbox_try_from_ok sound_item_def bbox_ok_def)
  with assms(2) show ?thesis by (simp add: align_item_def Let_def)
qed

lemma push_last_nonempty: "[] \<notin> set groups \<Longrightarrow> [] \<notin> set (push_last joins x groups)"
  by (auto simp: push_last_def dest: in_set_butlastD)

lemma fold_push_last_nonempty: "[] \<notin> set groups \<Longrightarrow> [] \<notin> set (fold (push_last joins) xs groups)"
  by (induction xs arbitrary: groups) (simp_all add: push_last_nonempty)

lemma orientation_groups_total:
  assumes "members \<noteq> []" "\<forall>it\<in>set members. sound_item it"
  shows "\<exists>groups. orientation_groups trig alphabetic config members = Inr groups \<and> [] \<notin> set groups"
proof -
  have "\<not> is_oblique (axes_of trig (first_rotation members))"
    using assms by (cases members) (auto simp: first_rotation_def sound_item_def oblique_any [of trig])
  then have "\<exists>as. rmap (align_item trig alphabetic (axes_of trig (first_rotation members))) members = Inr as \<and> (\<forall>a\<in>set as. True)"
    by (intro rmap_total) (use assms(2) align_total in blast)
  moreover have "[] \<notin> set (band_groups trig config band)" for band
    by (simp add: band_groups_def Let_def fold_push_last_nonempty)
  ultimately show ?thesis by (auto simp: orientation_groups_def)
qed

lemma fragments_total:
  assumes "\<forall>it\<in>set items. sound_item it"
  shows "\<exists>fs. fragments trig alphabetic config items = Inr fs \<and> (\<forall>f\<in>set fs. sound_fragment f)"
proof -
  have orient: "set (concat (orientations trig items)) = set items" "[] \<notin> set (orientations trig items)"
    by (simp_all add: orientations_def concat_fold_push_last fold_push_last_nonempty)
  have "\<exists>gs. rmap (orientation_groups trig alphabetic config) (orientations trig items) = Inr gs \<and>
      (\<forall>g\<in>set gs. [] \<notin> set g \<and> (\<forall>members\<in>set g. \<forall>a\<in>set members. sound_item (ai_item a)))"
  proof (rule rmap_total)
    fix members assume m: "members \<in> set (orientations trig items)"
    then have "members \<noteq> []" "\<forall>it\<in>set members. sound_item it" using orient assms by auto
    then obtain g where g: "orientation_groups trig alphabetic config members = Inr g" "[] \<notin> set g"
      using orientation_groups_total by blast
    have "set (map ai_item (concat g)) = set members" using orientation_groups_mset [OF g(1)] by (rule mset_eq_setD)
    then have "\<forall>ms\<in>set g. \<forall>a\<in>set ms. sound_item (ai_item a)" using \<open>\<forall>it\<in>set members. sound_item it\<close> by auto
    with g show "\<exists>y. orientation_groups trig alphabetic config members = Inr y \<and> [] \<notin> set y \<and> (\<forall>ms\<in>set y. \<forall>a\<in>set ms. sound_item (ai_item a))" by blast
  qed
  then obtain gs where gs: "rmap (orientation_groups trig alphabetic config) (orientations trig items) = Inr gs"
    "\<forall>g\<in>set gs. [] \<notin> set g \<and> (\<forall>members\<in>set g. \<forall>a\<in>set members. sound_item (ai_item a))" by blast
  have "\<exists>f1. rmap (\<lambda>members. from_items trig alphabetic (map ai_item members) (page_width_of items)) (concat gs) = Inr f1 \<and> (\<forall>f\<in>set f1. sound_fragment f)"
  proof (rule rmap_total)
    fix ms assume "ms \<in> set (concat gs)"
    then have "map ai_item ms \<noteq> []" "\<forall>it\<in>set (map ai_item ms). sound_item it" using gs(2) by fastforce+
    then show "\<exists>f. from_items trig alphabetic (map ai_item ms) (page_width_of items) = Inr f \<and> sound_fragment f"
      by (rule from_items_total)
  qed
  then obtain f1 where f1: "rmap (\<lambda>members. from_items trig alphabetic (map ai_item members) (page_width_of items)) (concat gs) = Inr f1"
    "\<forall>f\<in>set f1. sound_fragment f" by blast
  obtain f2 where f2: "attach_scripts trig alphabetic (page_width_of items) f1 = Inr f2" "\<forall>f\<in>set f2. sound_fragment f"
    using attach_scripts_total [OF f1(2)] by blast
  obtain f3 where "join_script_gaps trig alphabetic (page_width_of items) config f2 = Inr f3" "\<forall>f\<in>set f3. sound_fragment f"
    using gaps_total [OF f2(2)] by blast
  with gs(1) f1(1) f2(1) show ?thesis by (simp add: fragments_def Let_def)
qed

section \<open>Inline atoms\<close>

lemma sound_item_cong: "it_bbox a = it_bbox b \<Longrightarrow> it_rotation a = it_rotation b \<Longrightarrow> sound_item a = sound_item b"
  by (simp add: sound_item_def)

lemma align_hanging_sound: "\<forall>it\<in>set items. sound_item it \<Longrightarrow> \<forall>it\<in>set (fst (align_hanging items)). sound_item it"
  by (auto simp: align_hanging_def sound_item_def split: option.splits)

lemma add_limits_total:
  assumes "sound_item atom" "\<forall>i\<in>set js. sound_item (items ! i)"
  shows "\<exists>atom' src' consumed'. rfold (add_limit items) js (atom, src, consumed) = Inr (atom', src', consumed') \<and> sound_item atom'"
proof -
  have "\<exists>st. rfold (add_limit items) js (atom, src, consumed) = Inr st \<and> sound_item (fst st)"
  proof (rule rfold_total)
    fix i and st :: "text_item \<times> text_item list \<times> nat list" assume i: "i \<in> set js" and st: "sound_item (fst st)"
    obtain a s c where s: "st = (a, s, c)" by (cases st)
    obtain b where "union_bbox (it_bbox a) (it_bbox (items ! i)) = Inr b" "bbox_ok b"
      using union_total assms(2) i st s by (metis fst_conv sound_item_def)
    with st s show "\<exists>t. add_limit items i st = Inr t \<and> sound_item (fst t)" by (simp add: add_limit_def sound_item_def)
  qed (use assms in simp)
  then show ?thesis by auto
qed

lemma group_operator_limits_total:
  assumes "\<forall>it\<in>set items. sound_item it"
  shows "\<exists>items' m'. group_operator_limits (items, m) = Inr (items', m') \<and> (\<forall>it\<in>set items'. sound_item it)"
proof -
  let ?ops = "filter (\<lambda>i. m (it_id (items ! i)) \<noteq> None) [0..<length items]"
  let ?chosen = "map (limit_owner items m ?ops) items"
  have "\<exists>st. rfold (operator_step ?chosen) ?ops (items, m, []) = Inr st \<and> (length (fst st) = length items \<and> (\<forall>it\<in>set (fst st). sound_item it))"
  proof (rule rfold_total)
    fix p and st :: "text_item list \<times> originals \<times> nat list" assume p: "p \<in> set ?ops" and st: "length (fst st) = length items \<and> (\<forall>it\<in>set (fst st). sound_item it)"
    obtain its mm c where s: "st = (its, mm, c)" by (cases st)
    have at: "sound_item (its ! p)" using st s p by simp
    have js: "\<forall>i\<in>set (by_left its (filter (\<lambda>i. ?chosen ! i = Some (p, False)) [0..<length ?chosen]) @
        by_left its (filter (\<lambda>i. ?chosen ! i = Some (p, True)) [0..<length ?chosen])). sound_item (its ! i)"
      using st s by (auto simp: by_left_def)
    obtain a sr c' where run: "rfold (add_limit its) (by_left its (filter (\<lambda>i. ?chosen ! i = Some (p, False)) [0..<length ?chosen]) @
        by_left its (filter (\<lambda>i. ?chosen ! i = Some (p, True)) [0..<length ?chosen])) (its ! p, source_of mm (its ! p), c) = Inr (a, sr, c')" "sound_item a"
      using add_limits_total [OF at js] by blast
    have "\<forall>it\<in>set (its[p := a]). sound_item it" using st s run(2) set_update_subset_insert [of its p a] by auto
    with st s run show "\<exists>t. operator_step ?chosen p st = Inr t \<and> (length (fst t) = length items \<and> (\<forall>it\<in>set (fst t). sound_item it))"
      by (auto simp add: operator_step_def Let_def)
  qed (use assms in simp)
  then obtain its mm c where "rfold (operator_step ?chosen) ?ops (items, m, []) = Inr (its, mm, c)" "\<forall>it\<in>set its. sound_item it" by auto
  with assms show ?thesis by (auto simp: group_operator_limits_def Let_def)
qed

lemma singles_total:
  assumes "\<forall>it\<in>set items. sound_item it"
  shows "\<exists>fs. singles trig alphabetic w items = Inr fs \<and> (\<forall>it\<in>set (all_items fs). sound_item it)"
proof -
  obtain f1 where f1: "rmap (\<lambda>it. from_items trig alphabetic [it] w) items = Inr f1" "\<forall>f\<in>set f1. sound_fragment f"
    using rmap_total [of items "\<lambda>it. from_items trig alphabetic [it] w" sound_fragment] singleton_total assms by blast
  obtain f2 where "attach_scripts trig alphabetic w f1 = Inr f2" "\<forall>f\<in>set f2. sound_fragment f"
    using attach_scripts_total [OF f1(2)] by blast
  with f1(1) show ?thesis by (auto simp: singles_def all_items_def sound_fragment_def)
qed

lemma order_side_total:
  assumes "\<forall>it\<in>set items. sound_item it"
  shows "\<exists>xs. order_side trig alphabetic w items = Inr xs \<and> (\<forall>it\<in>set xs. sound_item it)"
proof -
  obtain fs where fs: "singles trig alphabetic w items = Inr fs" using singles_total [OF assms] by blast
  then obtain xs where xs: "order_side trig alphabetic w items = Inr xs" by (simp add: order_side_def)
  with order_side_mset [OF this] assms show ?thesis by (metis mset_eq_setD)
qed

lemma take_powers_sound:
  "\<forall>it\<in>set xs \<union> set ordered. sound_item it \<Longrightarrow> \<forall>it\<in>set (snd (fold (take_power items) xs (members, ordered))). sound_item it"
proof (induction xs arbitrary: members ordered)
  case (Cons it xs)
  obtain ms os where after: "take_power items it (members, ordered) = (ms, os)" by fastforce
  then have "set os \<subseteq> insert it (set ordered)" by (auto simp: take_power_def split: option.splits)
  then have "\<forall>it\<in>set xs \<union> set os. sound_item it" using Cons.prems by auto
  from Cons.IH [OF this, of ms] show ?case by (simp add: after)
qed simp

lemma fraction_powers_total:
  assumes "\<forall>it\<in>set items. sound_item it" "\<forall>it\<in>set ordered. sound_item it"
  shows "\<exists>members' ordered'. fraction_powers trig alphabetic bar items base font (members, ordered) = Inr (members', ordered') \<and>
    (\<forall>it\<in>set ordered'. sound_item it)"
proof -
  obtain y l r where bar: "bar = (y, l, r)" by (cases bar)
  define small where "small = filter (\<lambda>i. i \<notin> set members \<and> is_some_and (item_style font_size (items ! i)) (\<lambda>s. fle s (fmul font (rnd (85 / 100))))) [0..<length items]"
  have "\<forall>it\<in>set (map (\<lambda>i. items ! i) small). sound_item it" using assms(1) by (auto simp: small_def)
  from singles_total [OF this] obtain fs where fs: "singles trig alphabetic (fmax r (Fin 1)) (map (\<lambda>i. items ! i) small) = Inr fs"
    "\<forall>it\<in>set (all_items fs). sound_item it" by blast
  define ps where "ps = filter (is_power bar items members (fold (\<lambda>it acc. fmin acc (top_of (it_bbox it))) ordered (Inf False)) base font) fs"
  have ps: "\<forall>p\<in>set ps. \<forall>it\<in>set (lf_items p). sound_item it" using fs(2) by (auto simp: ps_def all_items_def)
  define st where "st = (case ps of [p] \<Rightarrow> fold (take_power items) (lf_items p) (members, ordered) | _ \<Rightarrow> (members, ordered))"
  have "\<forall>it\<in>set (snd st). sound_item it"
  proof (cases "\<exists>p. ps = [p]")
    case True
    then obtain p where p: "ps = [p]" by blast
    with ps assms(2) have "\<forall>it\<in>set (lf_items p) \<union> set ordered. sound_item it" by auto
    from take_powers_sound [OF this, of items members] show ?thesis by (simp add: st_def p)
  next
    case False
    then have "st = (members, ordered)" by (auto simp: st_def split: list.split)
    with assms(2) show ?thesis by simp
  qed
  moreover have "fraction_powers trig alphabetic bar items base font (members, ordered) = Inr st"
    using fs(1) by (simp add: fraction_powers_def bar Let_def small_def st_def ps_def)
  ultimately show ?thesis by (cases st) auto
qed

lemma seal_fraction_total:
  assumes "\<forall>it\<in>set items. sound_item it" "\<forall>it\<in>set ordered. sound_item it"
  shows "\<exists>out. seal_fraction base font (items, m) (members, ordered) = Inr out \<and> (\<forall>it\<in>set (fst out). sound_item it)"
proof (cases ordered)
  case Nil
  with assms show ?thesis by (simp add: seal_fraction_def)
next
  case (Cons atom rest)
  have "\<exists>st. rfold seal_step ordered (it_bbox atom, [], [], m) = Inr st \<and> bbox_ok (fst st)"
  proof (rule rfold_total)
    fix it and st :: "bbox \<times> rstr \<times> text_item list \<times> originals" assume it: "it \<in> set ordered" and st: "bbox_ok (fst st)"
    obtain b t s mm where s: "st = (b, t, s, mm)" by (cases st)
    obtain c where "union_bbox b (it_bbox it) = Inr c" "bbox_ok c"
      using union_total assms(2) it st s by (metis fst_conv sound_item_def)
    with s show "\<exists>u. seal_step it st = Inr u \<and> bbox_ok (fst u)" by (simp add: seal_step_def)
  qed (use assms(2) Cons in \<open>simp add: sound_item_def\<close>)
  then obtain b t s mm where run: "rfold seal_step (atom # rest) (it_bbox atom, [], [], m) = Inr (b, t, s, mm)" "bbox_ok b"
    unfolding Cons by auto
  have "\<not> is_oblique (axes_of (\<lambda>_. (Fin 0, Fin 1)) (it_rotation atom))" using assms(2) Cons by (simp add: sound_item_def)
  with run assms(1) show ?thesis by (simp add: seal_fraction_def Cons Let_def sound_item_def del: rfold.simps)
qed

lemma fraction_step_total:
  assumes "\<forall>it\<in>set items. sound_item it"
  shows "\<exists>out. fraction_step trig alphabetic confirmed bar (items, m) = Inr out \<and> (\<forall>it\<in>set (fst out). sound_item it)"
proof -
  obtain y l r where bar: "bar = (y, l, r)" by (cases bar)
  let ?over = "items_on_side (y, l, r) items True" and ?under = "items_on_side (y, l, r) items False" and ?w = "fmax r (Fin 1)"
  show ?thesis
  proof (cases "?over = [] \<or> ?under = [] \<or> fraction_axis (y, l, r) items (?over @ ?under) confirmed = None")
    case True
    with assms show ?thesis by (auto simp: fraction_step_def bar Let_def)
  next
    case False
    then obtain z base font where axis: "fraction_axis (y, l, r) items (?over @ ?under) confirmed = Some (z, base, font)" by auto
    have sides: "\<forall>it\<in>set (map (\<lambda>i. items ! i) ?over). sound_item it" "\<forall>it\<in>set (map (\<lambda>i. items ! i) ?under). sound_item it"
      "set (?over @ ?under) \<subseteq> {..<length items}" using assms by (auto simp: items_on_side_def)
    obtain upp low where ul: "order_side trig alphabetic ?w (map (\<lambda>i. items ! i) ?over) = Inr upp" "\<forall>it\<in>set upp. sound_item it"
      "order_side trig alphabetic ?w (map (\<lambda>i. items ! i) ?under) = Inr low" "\<forall>it\<in>set low. sound_item it"
      using order_side_total [OF sides(1)] order_side_total [OF sides(2)] by blast
    have both: "\<forall>it\<in>set (upp @ low). sound_item it" using ul by auto
    obtain ms xs where pow: "(if confirmed then fraction_powers trig alphabetic (y, l, r) items base font (?over @ ?under, upp @ low)
        else Inr (?over @ ?under, upp @ low)) = Inr (ms, xs)" "\<forall>it\<in>set xs. sound_item it"
    proof (cases confirmed)
      case True
      with fraction_powers_total [OF assms both, of trig alphabetic "(y, l, r)" base font "?over @ ?under"] show thesis using that by auto
    next
      case False
      with both show thesis using that by auto
    qed
    obtain out where out: "seal_fraction base font (items, m) (ms, xs) = Inr out" "\<forall>it\<in>set (fst out). sound_item it"
      using seal_fraction_total [OF assms pow(2)] by blast
    have "fraction_step trig alphabetic confirmed bar (items, m) = Inr out"
      using False axis ul(1,3) pow(1) out(1) by (simp add: fraction_step_def bar Let_def)
    with out(2) show ?thesis by blast
  qed
qed

lemma prepare_total:
  assumes "\<forall>it\<in>set items. sound_item it"
  shows "\<exists>items' m. prepare trig alphabetic items rules confirmed = Inr (items', m) \<and> (\<forall>it\<in>set items'. sound_item it)"
proof -
  obtain items1 m1 where a: "align_hanging items = (items1, m1)" by fastforce
  then have "\<forall>it\<in>set items1. sound_item it" using align_hanging_sound [OF assms] by simp
  from group_operator_limits_total [OF this, of m1] obtain st where
    st: "group_operator_limits (items1, m1) = Inr st" "\<forall>it\<in>set (fst st). sound_item it" by auto
  have "\<exists>out. rfold (fraction_step trig alphabetic confirmed) (bars rules) st = Inr out \<and> (\<forall>it\<in>set (fst out). sound_item it)"
  proof (rule rfold_total)
    fix bar and s :: inline_input assume "\<forall>it\<in>set (fst s). sound_item it"
    then show "\<exists>t. fraction_step trig alphabetic confirmed bar s = Inr t \<and> (\<forall>it\<in>set (fst t). sound_item it)"
      using fraction_step_total by (cases s) auto
  qed (rule st(2))
  with a st(1) show ?thesis by (auto simp: prepare_def)
qed

lemma restore_boxes: "map lf_bbox (restore m fs) = map lf_bbox fs"
  by (induction fs arbitrary: m) (auto split: prod.split)

lemma restore_boxes_ok:
  assumes "\<forall>f\<in>set fs. bbox_ok (lf_bbox f)"
  shows "\<forall>f\<in>set (restore m fs). bbox_ok (lf_bbox f)"
proof -
  have "lf_bbox ` set (restore m fs) = lf_bbox ` set fs" using restore_boxes [of m fs] by (metis list.set_map)
  with assms show ?thesis by (metis (no_types, lifting) imageE imageI)
qed

lemma fragments_with_rules_total:
  assumes "\<forall>it\<in>set items. sound_item it"
  shows "\<exists>fs. fragments_with_rules trig alphabetic config items rules = Inr fs \<and> (\<forall>f\<in>set fs. bbox_ok (lf_bbox f))"
proof -
  obtain items1 m1 where p: "prepare trig alphabetic items rules False = Inr (items1, m1)" "\<forall>it\<in>set items1. sound_item it"
    using prepare_total [OF assms] by blast
  obtain fs where fs: "fragments trig alphabetic config items1 = Inr fs" "\<forall>f\<in>set fs. sound_fragment f"
    using fragments_total [OF p(2)] by blast
  then have "\<forall>f\<in>set (restore m1 fs). bbox_ok (lf_bbox f)" by (intro restore_boxes_ok) (simp add: sound_fragment_def)
  with p(1) fs(1) show ?thesis by (simp add: fragments_with_rules_def)
qed

section \<open>Formulas\<close>

lemma add_row_sound:
  assumes "\<forall>it\<in>set (fst input). sound_item it" "bbox_ok (lf_bbox f)" "\<forall>it\<in>set (lf_items f). sound_item it"
  shows "\<forall>it\<in>set (fst (add_row anchors inline f input)). sound_item it"
proof (cases "lf_items f")
  case Nil
  with assms(1) show ?thesis by (simp add: add_row_def)
next
  case (Cons first rest)
  have "it_bbox (formula_atom anchors inline f first) = lf_bbox f \<and> it_rotation (formula_atom anchors inline f first) = it_rotation first"
    by (simp add: formula_atom_def Let_def split: option.split)
  with assms Cons have "sound_item (formula_atom anchors inline f first)" by (simp add: sound_item_def)
  with assms(1) show ?thesis by (simp add: add_row_def Cons Let_def)
qed

lemma add_rows_sound:
  "\<forall>it\<in>set (fst input). sound_item it \<Longrightarrow> \<forall>f\<in>set fs. bbox_ok (lf_bbox f) \<and> (\<forall>it\<in>set (lf_items f). sound_item it) \<Longrightarrow>
   \<forall>it\<in>set (fst (fold (add_row anchors inline) fs input)). sound_item it"
proof (induction fs arbitrary: input)
  case (Cons f fs)
  have f: "bbox_ok (lf_bbox f) \<and> (\<forall>it\<in>set (lf_items f). sound_item it)" by (rule bspec [OF Cons.prems(2)]) simp
  have "\<forall>it\<in>set (fst (add_row anchors inline f input)). sound_item it"
    by (rule add_row_sound [OF Cons.prems(1) conjunct1 [OF f] conjunct2 [OF f]])
  moreover have "\<forall>f\<in>set fs. bbox_ok (lf_bbox f) \<and> (\<forall>it\<in>set (lf_items f). sound_item it)" using Cons.prems(2) by simp
  ultimately show ?case unfolding fold_simps by (rule Cons.IH)
qed simp

lemma add_formula_total:
  assumes "\<forall>it\<in>set items. sound_item it" "unique_ids items" "\<forall>it\<in>set (fst input). sound_item it"
  shows "\<exists>out. add_formula trig alphabetic config rules regions anchors (key, items) input = Inr out \<and> (\<forall>it\<in>set (fst out). sound_item it)"
proof (cases "case key of None \<Rightarrow> None | Some k \<Rightarrow> get_at regions k")
  case None
  with assms show ?thesis by (simp add: add_formula_def)
next
  case (Some region)
  obtain items1 m1 where p: "prepare trig alphabetic items rules True = Inr (items1, m1)" "\<forall>it\<in>set items1. sound_item it"
    using prepare_total [OF assms(1)] by blast
  obtain fs where fs: "fragments trig alphabetic config items1 = Inr fs" "\<forall>f\<in>set fs. sound_fragment f"
    using fragments_total [OF p(2)] by blast
  have "mset (all_items (restore m1 fs)) = mset items"
    by (rule restored_mset [OF prepare_stands [OF p(1) assms(2)] fragments_mset [OF fs(1)]])
  then have "set (all_items (restore m1 fs)) = set items" by (rule mset_eq_setD)
  then have its: "\<forall>f\<in>set (restore m1 fs). \<forall>it\<in>set (lf_items f). sound_item it" using assms(1) by (auto simp: all_items_def)
  have "\<forall>f\<in>set (restore m1 fs). bbox_ok (lf_bbox f)" using fs(2) by (intro restore_boxes_ok) (simp add: sound_fragment_def)
  with its have "\<forall>f\<in>set (restore m1 fs). bbox_ok (lf_bbox f) \<and> (\<forall>it\<in>set (lf_items f). sound_item it)" by blast
  from add_rows_sound [OF assms(3) this, of anchors "fo_inline region"] Some p(1) fs(1) show ?thesis by (simp add: add_formula_def)
qed

lemma fragments_with_formulas_boxes:
  assumes "\<forall>it\<in>set items. sound_item it" "unique_ids items"
  shows "\<exists>fs. fragments_with_formulas trig alphabetic config items rules regions = Inr fs \<and> (\<forall>f\<in>set fs. bbox_ok (lf_bbox f))"
proof (cases "regions = []")
  case True
  with fragments_with_rules_total [OF assms(1)] show ?thesis by (simp add: fragments_with_formulas_def)
next
  case False
  obtain fs where f: "rmap (\<lambda>it. from_items trig alphabetic [it] (formula_page_width items)) items = Inr fs"
    using rmap_total [of items "\<lambda>it. from_items trig alphabetic [it] (formula_page_width items)" sound_fragment] singleton_total assms(1) by blast
  define gs where "gs = map (\<lambda>(k, fs). (k, all_items fs)) (formula_groups trig alphabetic fs regions)"
  define outside where "outside = concat (map snd (filter (\<lambda>(k, _). k = None) gs))"
  have "mset (concat (map snd gs)) = item_bag fs"
    using formula_groups_bag [of trig alphabetic fs regions] by (simp add: gs_def comp_def case_prod_unfold)
  also have "\<dots> = mset items"
    using item_bag_rmap [OF f, of lf_items "\<lambda>it. [it]"] from_items_mset by (simp add: item_bag_all all_items_def)
  finally have all: "mset (concat (map snd gs)) = mset items" .
  have u: "unique_ids (concat (map snd gs))" using unique_ids_mset [OF all] assms(2) by simp
  have sound: "\<forall>it\<in>set (concat (map snd gs)). sound_item it" using mset_eq_setD [OF all] assms(1) by simp
  have each: "unique_ids its \<and> (\<forall>it\<in>set its. sound_item it)" if "(k, its) \<in> set gs" for k its
  proof -
    have "\<exists>xs ys. gs = xs @ (k, its) # ys" using that by (rule split_list)
    then obtain xs ys where "gs = xs @ (k, its) # ys" by (elim exE)
    with u sound show ?thesis by simp
  qed
  have "\<forall>it\<in>set outside. sound_item it" using each by (fastforce simp: outside_def)
  then have "\<exists>st. rfold (add_formula trig alphabetic config rules regions (prose_anchors outside)) (filter (\<lambda>(k, _). k \<noteq> None) gs) (outside, Map.empty) = Inr st \<and>
      (\<forall>it\<in>set (fst st). sound_item it)"
  proof (intro rfold_total)
    fix g and st :: inline_input assume g: "g \<in> set (filter (\<lambda>(k, _). k \<noteq> None) gs)" and st: "\<forall>it\<in>set (fst st). sound_item it"
    obtain k its where k: "g = (k, its)" by (cases g)
    with g each have "unique_ids its" "\<forall>it\<in>set its. sound_item it" by auto
    with add_formula_total [OF this(2,1) st] k
    show "\<exists>t. add_formula trig alphabetic config rules regions (prose_anchors outside) g st = Inr t \<and> (\<forall>it\<in>set (fst t). sound_item it)" by simp
  qed simp
  then obtain items1 m1 where run: "rfold (add_formula trig alphabetic config rules regions (prose_anchors outside)) (filter (\<lambda>(k, _). k \<noteq> None) gs) (outside, Map.empty) = Inr (items1, m1)"
    "\<forall>it\<in>set items1. sound_item it" by auto
  obtain out where out: "fragments_with_rules trig alphabetic config items1 rules = Inr out" "\<forall>f\<in>set out. bbox_ok (lf_bbox f)"
    using fragments_with_rules_total [OF run(2)] by blast
  with run(1) f False restore_boxes_ok [OF out(2), of m1] show ?thesis
    by (simp add: fragments_with_formulas_def gs_def [symmetric] outside_def [symmetric] Let_def)
qed

lemma fragments_with_formulas_total:
  "\<forall>it\<in>set items. sound_item it \<Longrightarrow> unique_ids items \<Longrightarrow> \<exists>fs. fragments_with_formulas trig alphabetic config items rules regions = Inr fs"
  using fragments_with_formulas_boxes by blast

end
