(* ===== verification/Line_Properties.thy ===== *)
theory Line_Properties
  imports Line_Totality
begin

text \<open>
  What line assembly guarantees for a page: no text is lost or duplicated, with formulas, fractions
  and scripts in play; the order in which items arrive does not matter; merging runs to its end.
\<close>

section \<open>Independence of the input order\<close>

lemma fmax_max:
  assumes "acc = Fin 0 \<or> flt (Fin 0) acc"
  shows "fmax acc x = (if flt (Fin 0) x then max acc x else acc) \<and> (fmax acc x = Fin 0 \<or> flt (Fin 0) (fmax acc x))"
  using assms by (cases acc; cases x) (auto simp: fmax_def flt_def max_def less_eq_f64_def less_prod_def less_eq_prod_def split: if_splits)

lemma Max_insert_max: "finite A \<Longrightarrow> Max (insert (max a b) A) = Max (insert a (insert b A))"
  for a b :: "'a :: linorder"
  by (cases "A = {}") (simp_all add: max.assoc)

lemma fold_fmax_Max:
  assumes "acc = Fin 0 \<or> flt (Fin 0) acc"
  shows "fold (\<lambda>x acc. fmax acc (g x)) xs acc = Max (insert acc (g ` {x \<in> set xs. flt (Fin 0) (g x)}))"
  using assms
proof (induction xs arbitrary: acc)
  case (Cons x xs)
  note step = fmax_max [OF Cons.prems, of "g x"]
  have "fold (\<lambda>x acc. fmax acc (g x)) (x # xs) acc = Max (insert (fmax acc (g x)) (g ` {x \<in> set xs. flt (Fin 0) (g x)}))"
    using Cons.IH [OF conjunct2 [OF step]] by simp
  also have "\<dots> = Max (insert acc (g ` {y \<in> set (x # xs). flt (Fin 0) (g y)}))"
  proof (cases "flt (Fin 0) (g x)")
    case True
    let ?A = "g ` {x \<in> set xs. flt (Fin 0) (g x)}"
    have "g ` {y \<in> set (x # xs). flt (Fin 0) (g y)} = insert (g x) ?A" using True by auto
    moreover have "Max (insert (max acc (g x)) ?A) = Max (insert acc (insert (g x) ?A))" by (rule Max_insert_max) simp
    ultimately show ?thesis using step True by simp
  next
    case False
    then have "{y \<in> set (x # xs). flt (Fin 0) (g y)} = {x \<in> set xs. flt (Fin 0) (g x)}" by auto
    with step False show ?thesis by simp
  qed
  finally show ?case .
qed simp

lemma page_width_of_mset: "mset items = mset items' \<Longrightarrow> page_width_of items = page_width_of items'"
  using mset_eq_setD [of items items'] by (simp add: page_width_of_def fold_fmax_Max)

lemma orientations_mset:
  assumes "mset items = mset items'" "unique_ids items"
  shows "orientations trig items = orientations trig items'"
proof -
  have "inj_on (\<lambda>it. (it_rotation it, it_id it)) (set items)" using assms(2) by (auto simp: distinct_map inj_on_def)
  then have "sort_key (\<lambda>it. (it_rotation it, it_id it)) items = sort_key (\<lambda>it. (it_rotation it, it_id it)) items'"
    using assms(1) by (intro sort_key_inj_key_eq) simp_all
  then show ?thesis by (simp add: orientations_def)
qed

section \<open>Properties\<close>

text \<open>
  C4: Line assembly loses no text and invents none. Whatever formulas are detected and whatever
  rules are drawn, when the items of a page have distinct identifiers the fragments together hold
  exactly the original items: every alignment of a hanging glyph, every fraction, limit and
  formula that was folded into one item is unfolded again, and every script is attached once.
\<close>

theorem line_assembly_conserves_text:
  assumes "distinct (map it_id items)" "fragments_with_formulas trig alphabetic config items rules regions = Inr fs"
  shows "mset (concat (map lf_items fs)) = mset items"
  using fragments_with_formulas_mset [OF assms(2,1)] by (simp add: all_items_def)

text \<open>
  Upright text is always assembled. On a page whose boxes are valid and whose items are not
  slanted (more than two degrees from every axis) no error branch of line assembly can be
  reached: neither an empty fragment nor a degenerate union of boxes occurs.
\<close>

lemma upright_pages_are_assembled:
  assumes "distinct (map it_id items)"
    "\<forall>it\<in>set items. bbox_ok (it_bbox it) \<and> \<not> is_oblique (axes_of trig (it_rotation it))"
  shows "\<exists>fs. fragments_with_formulas trig alphabetic config items rules regions = Inr fs"
  using assms by (intro fragments_with_formulas_total) (simp_all add: sound_item_def oblique_any [of trig])

text \<open>
  C18: The order in which the items of a page arrive is irrelevant: for any permutation of the
  input the assembler returns the same fragments, or the same error.
\<close>

theorem line_assembly_ignores_input_order:
  assumes "mset items = mset items'" "distinct (map it_id items)"
  shows "fragments trig alphabetic config items = fragments trig alphabetic config items'"
  using page_width_of_mset [OF assms(1)] orientations_mset [OF assms] by (simp add: fragments_def)

text \<open>
  C36: Closing script gaps runs to its end. The loop returns for fragments with valid boxes, and in
  its result no two level fragments are left that continue one body line: same direction,
  rotation, font and baseline, and a gap of at most fifteen points.
\<close>

theorem closed_rows_have_no_gap_left:
  assumes "\<forall>f\<in>set fs. sound_fragment f"
  shows "\<exists>gs. join_script_gaps trig alphabetic w config fs = Inr gs \<and> length gs \<le> length fs \<and>
    mset (concat (map lf_items gs)) = mset (concat (map lf_items fs)) \<and>
    (\<forall>i j. i < j \<longrightarrow> j < length gs \<longrightarrow> level_text (gs ! i) \<longrightarrow> \<not> same_body_line config (gs ! i) (gs ! j))"
proof -
  obtain gs where gs: "join_script_gaps trig alphabetic w config fs = Inr gs" using gaps_total [OF assms] by blast
  note result = gaps.run_result [OF gs]
  have "\<not> same_body_line config (gs ! i) (gs ! j)" if "i < j" "j < length gs" "level_text (gs ! i)" for i j
  proof
    assume same: "same_body_line config (gs ! i) (gs ! j)"
    have "(j, gs ! j) \<in> set (drop (Suc i) (List.enumerate 0 gs))"
      using that by (auto simp: in_set_conv_nth nth_enumerate_eq intro!: exI [of _ "j - Suc i"])
    with that same have "(i, j) \<in> set (gap_pairs config gs)"
      by (auto simp: gap_pairs_def enumerate_in intro!: bexI [of _ "(i, gs ! i)"] image_eqI [of _ _ "(j, gs ! j)"])
    with result show False by simp
  qed
  with gs result show ?thesis by (auto simp: item_bag_all all_items_def)
qed

section \<open>A page with a formula\<close>

definition glyph :: "rstr \<Rightarrow> rstr \<Rightarrow> bbox \<Rightarrow> rat \<Rightarrow> rat \<Rightarrow> text_item" where
  "glyph i s b y font = (plain_item i s b)\<lparr>it_baseline := Some (level_baseline b (Fin y)),
     it_style := Some (plain_style\<lparr>font_size := Some (Fin font)\<rparr>)\<rparr>"

definition formula_page :: "text_item list" where
  "formula_page = [glyph (lit ''p1:t0'') (lit ''Let'') (box 10 100 30 110) 110 10,
     glyph (lit ''p1:t1'') (lit ''x'') (box 33 102 39 110) 110 10, glyph (lit ''p1:t2'') (lit ''2'') (box 39 106 42 112) 112 6,
     glyph (lit ''p1:t3'') (lit ''be'') (box 46 100 56 110) 110 10]"

lemma formula_page_ids: "distinct (map it_id formula_page)"
  by code_simp

lemma formula_page_upright: "\<forall>it\<in>set formula_page. bbox_ok (it_bbox it) \<and> \<not> is_oblique (axes_of level_trig (it_rotation it))"
  by code_simp

lemma formula_page_sound: "\<forall>it\<in>set formula_page. sound_item it"
  using formula_page_upright by (simp add: sound_item_def oblique_any [of level_trig])

lemma upright_pages_are_assembled_example:
  "\<exists>fs. fragments_with_formulas level_trig ascii_letter default_fusion_config formula_page []
     [\<lparr>fo_bbox = box 32 100 43 113, fo_inline = True\<rparr>] = Inr fs"
  by (rule upright_pages_are_assembled [OF formula_page_ids formula_page_upright])

theorem line_assembly_conserves_text_witness:
  "\<exists>fs. fragments_with_formulas level_trig ascii_letter default_fusion_config formula_page []
     [\<lparr>fo_bbox = box 32 100 43 113, fo_inline = True\<rparr>] = Inr fs \<and> mset (concat (map lf_items fs)) = mset formula_page"
  using line_assembly_conserves_text [OF formula_page_ids] fragments_with_formulas_total [OF formula_page_sound formula_page_ids] by blast

theorem line_assembly_ignores_input_order_witness:
  "fragments level_trig ascii_letter default_fusion_config formula_page =
   fragments level_trig ascii_letter default_fusion_config (rev formula_page)"
  by (rule line_assembly_ignores_input_order [OF _ formula_page_ids]) simp

theorem closed_rows_have_no_gap_left_witness:
  "\<exists>f gs. from_items level_trig ascii_letter (take 1 formula_page) (Fin 100) = Inr f \<and>
     join_script_gaps level_trig ascii_letter (Fin 100) default_fusion_config [f] = Inr gs \<and>
     mset (concat (map lf_items gs)) = mset (take 1 formula_page)"
proof -
  have "\<exists>f. from_items level_trig ascii_letter (take 1 formula_page) (Fin 100) = Inr f \<and> sound_fragment f"
  proof (rule from_items_total)
    show "take 1 formula_page \<noteq> []" by (simp add: formula_page_def)
    show "\<forall>it\<in>set (take 1 formula_page). sound_item it" using formula_page_sound by (auto dest: in_set_takeD)
  qed
  then obtain f where f: "from_items level_trig ascii_letter (take 1 formula_page) (Fin 100) = Inr f" "sound_fragment f" by blast
  from closed_rows_have_no_gap_left [of "[f]" level_trig ascii_letter "Fin 100" default_fusion_config] f(2)
  obtain gs where "join_script_gaps level_trig ascii_letter (Fin 100) default_fusion_config [f] = Inr gs"
    "mset (concat (map lf_items gs)) = mset (lf_items f)" by auto
  with f(1) from_items_mset [OF f(1)] show ?thesis by auto
qed

end
