(* ===== verification/Polygon_Geometry.thy ===== *)
theory Polygon_Geometry
  imports Block_Text
begin

text \<open>
  Polygons of \<open>crates/layout/src/geometry.rs\<close>: construction, the measures that region assignment
  takes, and the square root they need. The external \<open>geo\<close> crate is a record of functions on
  closed rings of points; nothing is assumed of them.
\<close>

section \<open>Square root\<close>

function isqrt :: "int \<Rightarrow> int" where
  "isqrt n = (if n \<le> 0 then 0
     else let r = 2 * isqrt (n div 4) in if (r + 1) * (r + 1) \<le> n then r + 1 else r)"
  by auto
termination by (relation "measure nat") auto

declare isqrt.simps [simp del]

lemma isqrt_bounds: "0 \<le> n \<Longrightarrow> 0 \<le> isqrt n \<and> isqrt n * isqrt n \<le> n \<and> n < (isqrt n + 1) * (isqrt n + 1)"
proof (induction n rule: isqrt.induct)
  case (1 n)
  show ?case
  proof (cases "n \<le> 0")
    case True
    with "1.prems" show ?thesis by (simp add: isqrt.simps)
  next
    case False
    define q where "q = isqrt (n div 4)"
    have q: "0 \<le> q" "q * q \<le> n div 4" "n div 4 < (q + 1) * (q + 1)"
      using "1.IH" [OF False] False by (simp_all add: q_def)
    have "4 * (q * q) \<le> n" "n < 4 * ((q + 1) * (q + 1))" using q(2,3) by linarith+
    moreover have "(2 * q) * (2 * q) = 4 * (q * q)" "(2 * q + 2) * (2 * q + 2) = 4 * ((q + 1) * (q + 1))" by algebra+
    ultimately have "(2 * q) * (2 * q) \<le> n" "n < (2 * q + 2) * (2 * q + 2)" by linarith+
    moreover have "isqrt n = (if (2 * q + 1) * (2 * q + 1) \<le> n then 2 * q + 1 else 2 * q)"
      using False by (subst isqrt.simps) (simp add: q_def Let_def)
    ultimately show ?thesis using q(1) by (auto simp: algebra_simps)
  qed
qed

text \<open>
  The root of \<open>n / d\<close> is truncated to at least 64 significant bits; one more bit records whether
  anything was cut off, so rounding the result rounds the root itself.
\<close>

definition sqrt_shift :: "int \<Rightarrow> int \<Rightarrow> nat" where
  "sqrt_shift n d = nat (64 - exponent n d div 2)"

definition fsqrt :: "f64 \<Rightarrow> f64" where
  "fsqrt a =
     (case a of Nan \<Rightarrow> Nan | Inf n \<Rightarrow> if n then Nan else Inf False | NegZero \<Rightarrow> NegZero
      | Fin r \<Rightarrow>
          if r = 0 then Fin 0
          else if r < 0 then Nan
          else case quotient_of r of (n, d) \<Rightarrow>
            let k = sqrt_shift n d; s = isqrt (n * 4 ^ k div d)
            in rnd (Fract (2 * s + (if s * s * d = n * 4 ^ k then 0 else 1)) (2 * 2 ^ k)))"

section \<open>The geometry crate\<close>

datatype line_intersection = SinglePoint point | Collinear point point

text \<open>A polygon of the crate is its exterior ring with the rings of its holes.\<close>

type_synonym geo_polygon = "point list \<times> point list list"

record geo_ops =
  geo_area :: "point list \<Rightarrow> f64"
  geo_total_area :: "geo_polygon list \<Rightarrow> f64"
  geo_clip :: "point list \<Rightarrow> point list \<Rightarrow> geo_polygon list"
  geo_intersects :: "point list \<Rightarrow> point \<Rightarrow> bool"
  geo_crossing :: "point \<times> point \<Rightarrow> point \<times> point \<Rightarrow> line_intersection option"
  geo_bounds :: "point list \<Rightarrow> bbox"
  geo_hull :: "point list \<Rightarrow> point list"
  geo_fault :: "point list \<Rightarrow> string option"

section \<open>Polygons\<close>

definition geometry_epsilon :: f64 where
  "geometry_epsilon = rnd (1 / 1000000000)"

definition point_finite :: "point \<Rightarrow> bool" where
  "point_finite p \<longleftrightarrow> is_finite (px p) \<and> is_finite (py p)"

text \<open>The closed ring of a polygon, and of a box.\<close>

definition closed_ring :: "polygon \<Rightarrow> point list" where
  "closed_ring p = (case p of [] \<Rightarrow> [] | q # _ \<Rightarrow> p @ [q])"

definition box_corners :: "bbox \<Rightarrow> polygon" where
  "box_corners b = [\<lparr>px = left b, py = top_of b\<rparr>, \<lparr>px = right b, py = top_of b\<rparr>,
     \<lparr>px = right b, py = bottom b\<rparr>, \<lparr>px = left b, py = bottom b\<rparr>]"

definition box_ring :: "bbox \<Rightarrow> point list" where
  "box_ring b = box_corners b @ [\<lparr>px = left b, py = top_of b\<rparr>]"

definition polygon_area :: "geo_ops \<Rightarrow> polygon \<Rightarrow> f64" where
  "polygon_area geo p = geo_area geo (closed_ring p)"

definition polygon_bbox :: "geo_ops \<Rightarrow> polygon \<Rightarrow> bbox" where
  "polygon_bbox geo p = geo_bounds geo (closed_ring p)"

definition polygon_overlap :: "geo_ops \<Rightarrow> polygon \<Rightarrow> bbox \<Rightarrow> f64" where
  "polygon_overlap geo p b = geo_total_area geo (geo_clip geo (closed_ring p) (box_ring b))"

definition contains_point :: "geo_ops \<Rightarrow> polygon \<Rightarrow> point \<Rightarrow> bool" where
  "contains_point geo p q \<longleftrightarrow> point_finite q \<and> geo_intersects geo (closed_ring p) q"

definition polygon_try_from :: "geo_ops \<Rightarrow> point list \<Rightarrow> geometry_error + polygon" where
  "polygon_try_from geo ps =
     rbind (ensure (\<forall>p\<in>set ps. point_finite p) (InvalidPolygon ''all coordinates must be finite'')) (\<lambda>_.
     rbind (ensure (3 \<le> length ps) (InvalidPolygon ''at least three vertices are required'')) (\<lambda>_.
     case geo_fault geo (closed_ring ps) of
       Some why \<Rightarrow> Inl (InvalidPolygon why)
     | None \<Rightarrow> if fle (polygon_area geo ps) geometry_epsilon then Inl (InvalidPolygon ''area must be positive'') else Inr ps))"

definition polygon_enclosing :: "geo_ops \<Rightarrow> point list \<Rightarrow> geometry_error + polygon" where
  "polygon_enclosing geo ps =
     rbind (ensure (\<forall>p\<in>set ps. point_finite p) (InvalidPolygon ''all coordinates must be finite'')) (\<lambda>_.
     let corners = geo_hull geo ps
     in polygon_try_from geo (if corners \<noteq> [] \<and> point_eq (hd corners) (last corners) then butlast corners else corners))"

text \<open>Only the exterior rings of the intersection are enclosed.\<close>

definition polygon_clipped :: "geo_ops \<Rightarrow> polygon \<Rightarrow> bbox \<Rightarrow> polygon option" where
  "polygon_clipped geo p b = ok_of (polygon_enclosing geo (concat (map fst (geo_clip geo (closed_ring p) (box_ring b)))))"

section \<open>The part of a baseline inside a polygon\<close>

text \<open>\<open>dedup_by\<close> with a tolerance: an element near the last one kept is dropped.\<close>

fun dedup_near :: "f64 \<Rightarrow> f64 list \<Rightarrow> f64 list" where
  "dedup_near eps (x # y # ys) = (if fle (fabs (fsub y x)) eps then dedup_near eps (x # ys) else x # dedup_near eps (y # ys))"
| "dedup_near eps xs = xs"

text \<open>\<open>Sum\<close> of floats starts from negative zero.\<close>

definition fsum :: "f64 list \<Rightarrow> f64" where
  "fsum xs = fold (\<lambda>x acc. fadd acc x) xs NegZero"

definition along_segment :: "point \<Rightarrow> f64 \<Rightarrow> f64 \<Rightarrow> f64 \<Rightarrow> point \<Rightarrow> f64" where
  "along_segment s dx dy len2 q =
     fdiv (fadd (fmul (fsub (px q) (px s)) dx) (fmul (fsub (py q) (py s)) dy)) len2"

definition crossing_points :: "line_intersection option \<Rightarrow> point list" where
  "crossing_points x = (case x of None \<Rightarrow> [] | Some (SinglePoint p) \<Rightarrow> [p] | Some (Collinear p q) \<Rightarrow> [p, q])"

definition crossing_parameters :: "geo_ops \<Rightarrow> polygon \<Rightarrow> point \<Rightarrow> point \<Rightarrow> f64 \<Rightarrow> f64 \<Rightarrow> f64 \<Rightarrow> f64 list" where
  "crossing_parameters geo p s e dx dy len2 =
     (let crossings = concat (map (\<lambda>edge. crossing_points (geo_crossing geo (s, e) edge)) (windows2 (closed_ring p)));
          all = [Fin 0, Fin 1] @ map (along_segment s dx dy len2) crossings;
          kept = filter (\<lambda>t. is_finite t \<and> fle (fneg geometry_epsilon) t \<and> fle t (fadd (Fin 1) geometry_epsilon)) all
      in dedup_near geometry_epsilon (sort (map (\<lambda>t. fclamp t (Fin 0) (Fin 1)) kept)))"

definition baseline_inside_length :: "geo_ops \<Rightarrow> polygon \<Rightarrow> point \<Rightarrow> point \<Rightarrow> f64" where
  "baseline_inside_length geo p s e =
     (let dx = fsub (px e) (px s); dy = fsub (py e) (py s); len2 = fadd (fmul dx dx) (fmul dy dy)
      in if \<not> point_finite s \<or> \<not> point_finite e then Fin 0
         else if fle len2 geometry_epsilon then Fin 0
         else fsum (List.map_filter (\<lambda>(t0, t1).
             let t = fdiv (fadd t0 t1) (Fin 2); q = \<lparr>px = fadd (px s) (fmul t dx), py = fadd (py s) (fmul t dy)\<rparr>
             in if geo_intersects geo (closed_ring p) q then Some (fmul (fsub t1 t0) (fsqrt len2)) else None)
           (windows2 (crossing_parameters geo p s e dx dy len2))))"

section \<open>Rectangles\<close>

text \<open>A geometry crate for axis-parallel rectangles, each ring read as its bounding box, for examples.\<close>

definition ring_box :: "point list \<Rightarrow> bbox" where
  "ring_box ps = \<lparr>left = fold (\<lambda>p acc. fmin acc (px p)) ps (Inf False), top_of = fold (\<lambda>p acc. fmin acc (py p)) ps (Inf False),
     right = fold (\<lambda>p acc. fmax acc (px p)) ps (Inf True), bottom = fold (\<lambda>p acc. fmax acc (py p)) ps (Inf True)\<rparr>"

definition box_overlap :: "bbox \<Rightarrow> bbox \<Rightarrow> geo_polygon list" where
  "box_overlap a b =
     (case bbox_try_from (fmax (left a) (left b)) (fmax (top_of a) (top_of b)) (fmin (right a) (right b)) (fmin (bottom a) (bottom b)) of
        Inl _ \<Rightarrow> [] | Inr c \<Rightarrow> [(box_ring c, [])])"

definition box_geo :: geo_ops where
  "box_geo = \<lparr>geo_area = (\<lambda>ps. area (ring_box ps)),
     geo_total_area = (\<lambda>qs. fold (\<lambda>q acc. fadd acc (area (ring_box (fst q)))) qs (Fin 0)),
     geo_clip = (\<lambda>ps qs. box_overlap (ring_box ps) (ring_box qs)),
     geo_intersects = (\<lambda>ps q. fle (left (ring_box ps)) (px q) \<and> fle (px q) (right (ring_box ps)) \<and>
       fle (top_of (ring_box ps)) (py q) \<and> fle (py q) (bottom (ring_box ps))),
     geo_crossing = (\<lambda>_ _. None), geo_bounds = ring_box, geo_hull = (\<lambda>ps. box_ring (ring_box ps)), geo_fault = (\<lambda>_. None)\<rparr>"

end
