(* ===== verification/Region_Assign.thy ===== *)
theory Region_Assign
  imports Polygon_Geometry Line_Formula Stable_Ids
begin

text \<open>
  Assigning text to the regions of the layout model: \<open>crates/core/src/fusion/assign.rs\<close>, with the
  detections of \<open>crates/layout/src/types.rs\<close>. A detection becomes a seed, an inline formula, a
  reference envelope or a diagnostic; every line fragment goes to the seed with the best score,
  or stays residual.

  The engine metadata of a detection and the class and figure bounds of a seed, which nothing
  modelled reads, are left out.
\<close>

section \<open>Detections\<close>

record detection =
  dt_index :: nat
  dt_raw_label :: rstr
  class_id :: int
  dt_label :: layout_label
  dt_confidence :: f64
  dt_bbox :: bbox
  dt_polygon :: "polygon option"
  dt_geometry_source :: geometry_source
  dt_order :: int

definition model_labels :: "layout_label list" where
  "model_labels = [Abstract, Algorithm, AsideText, Chart, Content, DisplayFormula, DocTitle, FigureTitle, Footer,
     FooterImage, Footnote, FormulaNumber, Header, HeaderImage, Image, InlineFormula, Number, ParagraphTitle,
     Reference, ReferenceContent, Seal, Table, Text, VerticalText, VisionFootnote]"

text \<open>\<open>LayoutLabel::try_from\<close> of a class index.\<close>

definition class_label :: "int \<Rightarrow> layout_label option" where
  "class_label c = (if c < 0 then None else get_at model_labels (nat c))"

definition is_figure :: "layout_label \<Rightarrow> bool" where
  "is_figure l \<longleftrightarrow> l \<in> {Chart, FooterImage, HeaderImage, Image, Seal}"

definition probability :: "f64 \<Rightarrow> bool" where
  "probability x \<longleftrightarrow> is_finite x \<and> fle (Fin 0) x \<and> fle x (Fin 1)"

definition formula_region_try_from :: "detection \<Rightarrow> formula_region option" where
  "formula_region_try_from d =
     (if \<not> probability (dt_confidence d) \<or> class_label (class_id d) = None then None
      else if dt_label d \<noteq> InlineFormula \<and> dt_label d \<noteq> DisplayFormula then None
      else case bbox_try_from (left (dt_bbox d)) (top_of (dt_bbox d)) (right (dt_bbox d)) (bottom (dt_bbox d)) of
          Inl _ \<Rightarrow> None | Inr b \<Rightarrow> Some \<lparr>fo_bbox = b, fo_inline = (dt_label d = InlineFormula)\<rparr>)"

section \<open>Seeds\<close>

record assignment_score =
  coverage :: f64
  center_inside :: f64
  baseline_intersection :: f64
  model_confidence :: f64
  specificity :: f64
  total_score :: f64
  region_area :: f64

record assign_evidence =
  selected :: assignment_score
  alternative_count :: nat

record block_seed =
  sd_page :: nat
  region_id :: rstr
  sd_index :: nat
  sd_raw_label :: rstr
  sd_label :: layout_label
  sd_confidence :: f64
  sd_bbox :: bbox
  sd_polygon :: "polygon option"
  sd_geometry_source :: geometry_source
  sd_order :: int
  sd_geometry :: polygon
  sd_fragments :: "line_fragment list"
  assignment_evidence :: "assign_evidence list"
  sd_image_index :: "nat option"

datatype seed_error =
    InvalidPageNumber | InvalidClass int | InvalidConfidence | InvalidGeometry | SeedGeometry geometry_error

definition valid_bbox :: "bbox \<Rightarrow> bool" where
  "valid_bbox b \<longleftrightarrow>
     is_finite (left b) \<and> is_finite (top_of b) \<and> is_finite (right b) \<and> is_finite (bottom b) \<and>
     flt (left b) (right b) \<and> flt (top_of b) (bottom b)"

definition page_contains :: "bbox \<Rightarrow> bbox \<Rightarrow> bool" where
  "page_contains page inner \<longleftrightarrow>
     fle (left page) (left inner) \<and> fle (top_of page) (top_of inner) \<and>
     fle (right inner) (right page) \<and> fle (bottom inner) (bottom page)"

definition rectangle_polygon :: "geo_ops \<Rightarrow> bbox \<Rightarrow> geometry_error + polygon" where
  "rectangle_polygon geo b = polygon_try_from geo (box_corners b)"

definition seed_geometry :: "geo_ops \<Rightarrow> bbox \<Rightarrow> detection \<Rightarrow> seed_error + polygon" where
  "seed_geometry geo page d =
     (case dt_polygon d of
        Some p \<Rightarrow>
          if \<not> is_finite (polygon_area geo p) \<or> fle (polygon_area geo p) (Fin 0) \<or> \<not> page_contains page (polygon_bbox geo p)
          then Inl InvalidGeometry else Inr p
      | None \<Rightarrow> (case rectangle_polygon geo (dt_bbox d) of Inl e \<Rightarrow> Inl (SeedGeometry e) | Inr p \<Rightarrow> Inr p))"

definition seed_try_from :: "geo_ops \<Rightarrow> nat \<Rightarrow> bbox \<Rightarrow> detection \<Rightarrow> seed_error + block_seed" where
  "seed_try_from geo page_no page d =
     rbind (ensure (page_no \<noteq> 0) InvalidPageNumber) (\<lambda>_.
     rbind (ensure (class_label (class_id d) \<noteq> None) (InvalidClass (class_id d))) (\<lambda>_.
     rbind (ensure (probability (dt_confidence d)) InvalidConfidence) (\<lambda>_.
     rbind (ensure (valid_bbox (dt_bbox d) \<and> valid_bbox page \<and> page_contains page (dt_bbox d)) InvalidGeometry) (\<lambda>_.
     rbind (seed_geometry geo page d) (\<lambda>p.
     Inr \<lparr>sd_page = page_no, region_id = detected_id page_no (dt_index d), sd_index = dt_index d,
          sd_raw_label = dt_raw_label d, sd_label = dt_label d, sd_confidence = dt_confidence d,
          sd_bbox = dt_bbox d, sd_polygon = dt_polygon d, sd_geometry_source = dt_geometry_source d,
          sd_order = dt_order d, sd_geometry = p, sd_fragments = [], assignment_evidence = [], sd_image_index = None\<rparr>)))))"

text \<open>The displayed errors.\<close>

definition show_int :: "int \<Rightarrow> rstr" where
  "show_int i = (if i < 0 then lit ''-'' @ show_nat (nat (- i)) else show_nat (nat i))"

fun show_geometry_error :: "geometry_error \<Rightarrow> rstr" where
  "show_geometry_error (NonFinite field) = lit (''geometry field '' @ field @ '' must be finite'')"
| "show_geometry_error DegenerateBbox = lit ''bounding box must have positive width and height''"
| "show_geometry_error (InvalidPolygon why) = lit (''invalid polygon: '' @ why)"

fun show_seed_error :: "seed_error \<Rightarrow> rstr" where
  "show_seed_error InvalidPageNumber = lit ''page number must be greater than zero''"
| "show_seed_error (InvalidClass c) = lit ''class ID '' @ show_int c @ lit '' is outside the fixed model schema''"
| "show_seed_error InvalidConfidence = lit ''confidence must be finite and within [0, 1]''"
| "show_seed_error InvalidGeometry = lit ''detection geometry lies outside the page''"
| "show_seed_error (SeedGeometry e) = show_geometry_error e"

section \<open>Scores\<close>

definition segment_length :: "point \<Rightarrow> point \<Rightarrow> f64" where
  "segment_length s e =
     (let dx = fsub (px e) (px s); dy = fsub (py e) (py s); len = fsqrt (fadd (fmul dx dx) (fmul dy dy))
      in if is_finite len then len else Fin 0)"

definition text_regions :: "layout_label list" where
  "text_regions = [Abstract, AsideText, Content, DocTitle, FigureTitle, Footer, Footnote, Header, Number,
     ParagraphTitle, Reference, ReferenceContent, Text, VerticalText, VisionFootnote]"

definition native_oblique :: "(f64 \<Rightarrow> f64 \<times> f64) \<Rightarrow> line_fragment \<Rightarrow> bool" where
  "native_oblique trig f \<longleftrightarrow>
     is_oblique (axes_of trig (lf_rotation f)) \<and> (\<forall>it\<in>set (lf_items f). it_source it = Native)"

text \<open>Established text in another direction that the baseline runs through.\<close>

definition crosses_flow :: "geo_ops \<Rightarrow> line_fragment \<Rightarrow> line_fragment \<Rightarrow> bool" where
  "crosses_flow geo f existing \<longleftrightarrow>
     (let delta = rem_euclid (fabs (fsub (lf_rotation existing) (lf_rotation f))) (Fin 360)
      in flt (Fin 2) (fmin delta (fsub (Fin 360) delta)) \<and>
         (case rectangle_polygon geo (lf_bbox existing) of Inl _ \<Rightarrow> False
          | Inr bounds \<Rightarrow>
              flt (Fin 0) (baseline_inside_length geo bounds (base_start (lf_baseline f)) (base_end (lf_baseline f)))))"

definition oblique_fits :: "geo_ops \<Rightarrow> block_seed \<Rightarrow> line_fragment \<Rightarrow> f64 \<Rightarrow> f64 \<Rightarrow> bool" where
  "oblique_fits geo sd f len within_len \<longleftrightarrow>
     \<not> (fle len (Fin 0) \<or> flt (Fin 2) (fsub len within_len)) \<and>
     \<not> (sd_label sd \<in> set text_regions \<and> (\<exists>g\<in>set (sd_fragments sd). crosses_flow geo f g))"

definition fragment_center :: "line_fragment \<Rightarrow> bool \<Rightarrow> point" where
  "fragment_center f slanted =
     (if slanted then
        \<lparr>px = fmul (fadd (px (base_start (lf_baseline f))) (px (base_end (lf_baseline f)))) (Fin (1 / 2)),
         py = fmul (fadd (py (base_start (lf_baseline f))) (py (base_end (lf_baseline f)))) (Fin (1 / 2))\<rparr>
      else center (lf_bbox f))"

definition weighted_score :: "fusion_config \<Rightarrow> f64 \<Rightarrow> f64 \<Rightarrow> f64 \<Rightarrow> f64 \<Rightarrow> f64 \<Rightarrow> f64" where
  "weighted_score config cov mid base conf spec =
     fadd (fadd (fadd (fadd (fmul cov (assignment_coverage_weight config)) (fmul mid (assignment_center_weight config)))
       (fmul base (assignment_baseline_weight config))) (fmul conf (assignment_confidence_weight config)))
       (fmul spec (assignment_specificity_weight config))"

definition score ::
  "(f64 \<Rightarrow> f64 \<times> f64) \<Rightarrow> geo_ops \<Rightarrow> fusion_config \<Rightarrow> bbox \<Rightarrow> line_fragment \<Rightarrow> block_seed \<Rightarrow> assignment_score option" where
  "score trig geo config page f sd =
     (let line_area = area (lf_bbox f); page_area = area page; own_area = polygon_area geo (sd_geometry sd);
          s = base_start (lf_baseline f); e = base_end (lf_baseline f);
          len = segment_length s e; within_len = baseline_inside_length geo (sd_geometry sd) s e;
          slanted = native_oblique trig f;
          cov = fclamp (if slanted \<and> flt (Fin 0) len then fdiv within_len len
                  else fdiv (polygon_overlap geo (sd_geometry sd) (lf_bbox f)) line_area) (Fin 0) (Fin 1);
          contained = contains_point geo (sd_geometry sd) (fragment_center f slanted);
          mid = (if contained then Fin 1 else Fin 0);
          base = (if flt (Fin 0) len then fclamp (fdiv within_len len) (Fin 0) (Fin 1) else Fin 0);
          spec = fsub (Fin 1) (fclamp (fdiv own_area page_area) (Fin 0) (Fin 1));
          total = weighted_score config cov mid base (sd_confidence sd) spec
      in if \<not> valid_bbox (lf_bbox f) \<or> \<not> valid_bbox page then None
         else if \<not> is_finite line_area \<or> fle line_area (Fin 0) \<or> \<not> is_finite page_area \<or> fle page_area (Fin 0) \<or>
                 \<not> is_finite own_area \<or> fle own_area (Fin 0) then None
         else if flt cov (minimum_line_coverage config) \<and>
                 \<not> (contained \<and> fle (center_minimum_line_coverage config) cov) then None
         else if slanted \<and> \<not> oblique_fits geo sd f len within_len then None
         else if is_finite cov \<and> is_finite mid \<and> is_finite base \<and> is_finite spec \<and> is_finite total
         then Some \<lparr>coverage = cov, center_inside = mid, baseline_intersection = base, model_confidence = sd_confidence sd,
                specificity = spec, total_score = total, region_area = own_area\<rparr>
         else None)"

section \<open>The choice of an owner\<close>

text \<open>The order of candidates: the area, the model order and the index count downwards.\<close>

type_synonym candidate_key = "f64 \<times> f64 \<times> f64 \<times> f64 reversed \<times> int reversed \<times> nat reversed"

definition candidate_key :: "block_seed \<Rightarrow> assignment_score \<Rightarrow> candidate_key" where
  "candidate_key sd sc = (total_score sc, coverage sc, sd_confidence sd, Reversed (region_area sc),
     Reversed (sd_order sd), Reversed (sd_index sd))"

text \<open>\<open>compare_candidates(left, right).is_ge()\<close>; an index out of range compares by position.\<close>

definition not_worse :: "block_seed list \<Rightarrow> nat \<times> assignment_score \<Rightarrow> nat \<times> assignment_score \<Rightarrow> bool" where
  "not_worse seeds a b \<longleftrightarrow>
     (case (get_at seeds (fst a), get_at seeds (fst b)) of
        (Some l, Some r) \<Rightarrow> candidate_key r (snd b) \<le> candidate_key l (snd a)
      | _ \<Rightarrow> fst a \<le> fst b)"

type_synonym candidate_choice = "(nat \<times> assignment_score) option \<times> nat"

definition consider_seed ::
  "(block_seed \<Rightarrow> assignment_score option) \<Rightarrow> block_seed list \<Rightarrow> nat \<times> block_seed \<Rightarrow> candidate_choice \<Rightarrow> candidate_choice" where
  "consider_seed sc seeds entry st =
     (case sc (snd entry) of None \<Rightarrow> st
      | Some v \<Rightarrow>
          let better = (case fst st of None \<Rightarrow> True | Some old \<Rightarrow> not_worse seeds (fst entry, v) old)
          in (if better then Some (fst entry, v) else fst st, snd st + 1))"

definition choose_owner :: "(block_seed \<Rightarrow> assignment_score option) \<Rightarrow> block_seed list \<Rightarrow> candidate_choice" where
  "choose_owner sc seeds = fold (consider_seed sc seeds) (List.enumerate 0 seeds) (None, 0)"

definition give_fragment :: "line_fragment \<Rightarrow> assign_evidence \<Rightarrow> block_seed \<Rightarrow> block_seed" where
  "give_fragment f ev sd =
     sd\<lparr>sd_fragments := sd_fragments sd @ [f], assignment_evidence := assignment_evidence sd @ [ev]\<rparr>"

definition assign_fragment ::
  "(line_fragment \<Rightarrow> block_seed \<Rightarrow> assignment_score option) \<Rightarrow> line_fragment \<Rightarrow>
   block_seed list \<times> line_fragment list \<Rightarrow> block_seed list \<times> line_fragment list" where
  "assign_fragment sc f st =
     (case st of (seeds, residual) \<Rightarrow>
        case choose_owner (sc f) seeds of
          (None, _) \<Rightarrow> (seeds, residual @ [f])
        | (Some (i, best), n) \<Rightarrow>
            (case get_at seeds i of None \<Rightarrow> (seeds, residual @ [f])
             | Some sd \<Rightarrow> (seeds[i := give_fragment f \<lparr>selected = best, alternative_count = n - 1\<rparr> sd], residual)))"

definition sort_fragments :: "block_seed \<Rightarrow> block_seed" where
  "sort_fragments sd = sd\<lparr>sd_fragments := sort_key (\<lambda>f. (top_of (lf_bbox f), left (lf_bbox f), first_id f)) (sd_fragments sd)\<rparr>"

section \<open>The assignment of a page\<close>

record sorted_detections =
  model_seeds :: "block_seed list"
  reference_seeds :: "block_seed list"
  inline_formulas :: "detection list"
  assign_diagnostics :: "rstr list"

definition sort_detection :: "geo_ops \<Rightarrow> nat \<Rightarrow> bbox \<Rightarrow> detection \<Rightarrow> sorted_detections \<Rightarrow> sorted_detections" where
  "sort_detection geo page_no page d st =
     (case seed_try_from geo page_no page d of
        Inl e \<Rightarrow> st\<lparr>assign_diagnostics := (lit (if dt_label d = InlineFormula then ''ignored inline formula detection '' else ''ignored layout detection '')
            @ show_nat (dt_index d) @ lit '': '' @ show_seed_error e) # assign_diagnostics st\<rparr>
      | Inr sd \<Rightarrow>
          if dt_label d = InlineFormula then st\<lparr>inline_formulas := inline_formulas st @ [d]\<rparr>
          else if sd_label sd = Reference then st\<lparr>reference_seeds := reference_seeds st @ [sd]\<rparr>
          else st\<lparr>model_seeds := model_seeds st @ [sd]\<rparr>)"

definition sort_detections :: "geo_ops \<Rightarrow> nat \<Rightarrow> bbox \<Rightarrow> detection list \<Rightarrow> sorted_detections" where
  "sort_detections geo page_no page ds =
     (let st = fold (sort_detection geo page_no page) ds
            \<lparr>model_seeds = [], reference_seeds = [], inline_formulas = [], assign_diagnostics = []\<rparr>
      in st\<lparr>model_seeds := sort_key sd_index (model_seeds st), reference_seeds := sort_key sd_index (reference_seeds st),
            inline_formulas := sort_key dt_index (inline_formulas st), assign_diagnostics := sort (remdups (assign_diagnostics st))\<rparr>)"

definition page_formula_regions :: "geo_ops \<Rightarrow> bbox \<Rightarrow> detection list \<Rightarrow> formula_region list" where
  "page_formula_regions geo page ds =
     List.map_filter formula_region_try_from (filter (\<lambda>d. page_contains page (dt_bbox d) \<and>
       (case dt_polygon d of None \<Rightarrow> True | Some p \<Rightarrow> page_contains page (polygon_bbox geo p))) ds)"

definition native_oblique_item :: "(f64 \<Rightarrow> f64 \<times> f64) \<Rightarrow> text_item \<Rightarrow> bool" where
  "native_oblique_item trig it \<longleftrightarrow> it_source it = Native \<and> is_oblique (axes_of trig (it_rotation it))"

text \<open>Upright items are taken one by one and their scripts attached; slanted ones are assembled first.\<close>

definition assignment_fragments ::
  "(f64 \<Rightarrow> f64 \<times> f64) \<Rightarrow> (uchar \<Rightarrow> bool) \<Rightarrow> geo_ops \<Rightarrow> fusion_config \<Rightarrow> bbox \<Rightarrow> text_item list \<Rightarrow> detection list \<Rightarrow>
   line_error + line_fragment list" where
  "assignment_fragments trig alphabetic geo config page items ds =
     rbind (rmap (\<lambda>it. from_items trig alphabetic [it] (width page)) (filter (\<lambda>it. \<not> native_oblique_item trig it) items)) (\<lambda>singles.
     rbind (rmap (\<lambda>group. attach_scripts trig alphabetic (width page) (snd group))
       (formula_groups trig alphabetic singles (page_formula_regions geo page ds))) (\<lambda>groups.
     rbind (fragments trig alphabetic config (filter (native_oblique_item trig) items)) (\<lambda>slanted.
     Inr (concat groups @ slanted))))"

record assignment_result =
  as_model_seeds :: "block_seed list"
  as_reference_seeds :: "block_seed list"
  as_residual :: "line_fragment list"
  as_inline_formulas :: "detection list"
  as_diagnostics :: "rstr list"

definition assign ::
  "(f64 \<Rightarrow> f64 \<times> f64) \<Rightarrow> (uchar \<Rightarrow> bool) \<Rightarrow> geo_ops \<Rightarrow> fusion_config \<Rightarrow> nat \<Rightarrow> bbox \<Rightarrow> text_item list \<Rightarrow> detection list \<Rightarrow>
   line_error + assignment_result" where
  "assign trig alphabetic geo config page_no page items ds =
     (let sorted = sort_detections geo page_no page ds
      in rbind (assignment_fragments trig alphabetic geo config page items ds) (\<lambda>fs.
         case fold (assign_fragment (score trig geo config page)) fs (model_seeds sorted, []) of (seeds, residual) \<Rightarrow>
           Inr \<lparr>as_model_seeds = map sort_fragments seeds, as_reference_seeds = reference_seeds sorted,
                as_residual = residual, as_inline_formulas = inline_formulas sorted, as_diagnostics = assign_diagnostics sorted\<rparr>))"

end
