(* ===== verification/Paragraphs.thy ===== *)
theory Paragraphs
  imports Line_Assembly List_Marker
begin

text \<open>
  The boundary between two lines of a residual region: \<open>crates/core/src/semantic/paragraph.rs\<close>, with
  the list marker test of \<open>crates/core/src/text_rules.rs\<close>.
\<close>

datatype paragraph_decision = Continue | SplitAt string | EvidenceOnly string

text \<open>A bullet, or up to three digits with a point or a parenthesis, before whitespace.\<close>

fun digits_then_delimiter :: "nat \<Rightarrow> rstr \<Rightarrow> bool" where
  "digits_then_delimiter n [] = False"
| "digits_then_delimiter n (c # cs) =
     (if is_ascii_digit c \<and> n < 3 then digits_then_delimiter (n + 1) cs
      else (c = 46 \<or> c = 41) \<and> is_some_and (hd_opt cs) is_whitespace)"

definition is_list_marker :: "rstr \<Rightarrow> bool" where
  "is_list_marker s \<longleftrightarrow>
     (case dropWhile is_whitespace s of [] \<Rightarrow> False
      | c # cs \<Rightarrow>
          if c \<in> set list_bullets then is_some_and (hd_opt cs) is_whitespace
          else is_ascii_digit c \<and> digits_then_delimiter 1 cs)"

definition ends_encoded_hyphen :: "line_fragment \<Rightarrow> bool" where
  "ends_encoded_hyphen f \<longleftrightarrow>
     is_some_and (last_opt (lf_items f)) (\<lambda>it. raw_text it = lit ''-'' \<and> EncodedHyphen \<in> set (repair_actions it))"

definition starts_list_item :: "line_fragment \<Rightarrow> bool" where
  "starts_list_item f \<longleftrightarrow> is_list_marker (concat (map raw_text (lf_items f)))"

definition between :: "fusion_config \<Rightarrow> line_fragment \<Rightarrow> line_fragment \<Rightarrow> paragraph_decision" where
  "between config previous following =
     (let p = metrics previous; n = metrics following;
          angle = rem_euclid (fabs (fsub (lf_rotation previous) (lf_rotation following))) (Fin 360);
          tolerance = (if font_size_estimated p \<or> font_size_estimated n then estimated_font_size_tolerance_points config
            else font_size_tolerance_points config);
          bold = (fle (Fin (3 / 4)) (bold_ratio p) \<and> fle (bold_ratio n) (Fin (1 / 4)) \<or>
            fle (bold_ratio p) (Fin (1 / 4)) \<and> fle (Fin (3 / 4)) (bold_ratio n));
          gap = fsub (top_of (lf_bbox following)) (bottom (lf_bbox previous));
          tallest = fmax (height (lf_bbox previous)) (height (lf_bbox following))
      in if flt (Fin 2) (fmin angle (fsub (Fin 360) angle)) then SplitAt ''orientation_transition''
         else if (anchor p = AnchorCenter) \<noteq> (anchor n = AnchorCenter) then SplitAt ''anchor_transition''
         else if flt tolerance (fabs (fsub (lm_font_size p) (lm_font_size n))) then SplitAt ''font_size_transition''
         else if bold then SplitAt ''bold_transition''
         else if flt (indent_tolerance_points config) (fsub (indent n) (indent p)) then SplitAt ''right_indent''
         else if flt (fmul (paragraph_gap_multiplier config) tallest) gap then SplitAt ''vertical_gap''
         else if ends_encoded_hyphen previous then EvidenceOnly ''encoded_hyphen_continuation''
         else if starts_list_item following then SplitAt ''list_boundary''
         else Continue)"

text \<open>A fragment joins the last paragraph unless its boundary splits.\<close>

definition same_paragraph :: "fusion_config \<Rightarrow> line_fragment list \<Rightarrow> line_fragment \<Rightarrow> bool" where
  "same_paragraph config members f \<longleftrightarrow>
     (case last_opt members of None \<Rightarrow> True
      | Some previous \<Rightarrow> (case between config previous f of SplitAt _ \<Rightarrow> False | _ \<Rightarrow> True))"

definition fallback_paragraph_groups ::
  "(f64 \<Rightarrow> f64 \<times> f64) \<Rightarrow> fusion_config \<Rightarrow> line_fragment list \<Rightarrow> line_fragment list list" where
  "fallback_paragraph_groups trig config fs =
     fold (push_last (same_paragraph config)) (sort_key (\<lambda>f. (reading_order_y trig f, left (lf_bbox f), first_id f)) fs) []"

end
