(* ===== verification/Float_Display.thy ===== *)
theory Float_Display
  imports F64 Rust_Text
begin

text \<open>
  \<open>f64::to_string\<close> of the standard library: the shortest decimal that reads back as the same
  value, the closest one of that length, printed without an exponent.
\<close>

text \<open>How often a value below one can be multiplied by ten and stay below one.\<close>

fun leading_zeros :: "nat \<Rightarrow> rat \<Rightarrow> nat" where
  "leading_zeros 0 v = 0"
| "leading_zeros (Suc n) v = (if v * 10 < 1 then Suc (leading_zeros n (v * 10)) else 0)"

text \<open>The \<open>k\<close> with \<open>10 ^ (k - 1) \<le> v < 10 ^ k\<close>; the smallest positive value has 323 leading zeros.\<close>

definition decimal_exponent :: "rat \<Rightarrow> int" where
  "decimal_exponent v = (if 1 \<le> v then int (length (show_nat (nat \<lfloor>v\<rfloor>))) else - int (leading_zeros 330 v))"

definition ten_power :: "int \<Rightarrow> rat" where
  "ten_power e = (if 0 \<le> e then 10 ^ nat e else 1 / 10 ^ nat (- e))"

text \<open>The digits of one length, when one of the two neighbours reads back.\<close>

definition digits_of_length :: "rat \<Rightarrow> nat \<Rightarrow> (int \<times> int) option" where
  "digits_of_length v n =
     (let e = decimal_exponent v - int n; u = ten_power e; lo = \<lfloor>v / u\<rfloor>; hi = lo + 1;
          reads = (\<lambda>m. rnd (of_int m * u) = Fin v); closer = (v - of_int lo * u < of_int hi * u - v)
      in if reads lo \<and> (closer \<or> \<not> reads hi) then Some (lo, e) else if reads hi then Some (hi, e) else None)"

definition shortest_digits :: "rat \<Rightarrow> int \<times> int" where
  "shortest_digits v =
     (case hd_opt (List.map_filter (digits_of_length v) [1..<18]) of None \<Rightarrow> (0, 0)
      | Some (m, e) \<Rightarrow> if m = 10 then (1, e + 1) else (m, e))"

definition show_decimal :: "int \<times> int \<Rightarrow> rstr" where
  "show_decimal x =
     (case x of (m, e) \<Rightarrow>
        let ds = show_nat (nat m); n = nat (- e); zero = show_nat 0
        in if 0 \<le> e then ds @ concat (replicate (nat e) zero)
           else if n < length ds then take (length ds - n) ds @ lit ''.'' @ drop (length ds - n) ds
           else zero @ lit ''.'' @ concat (replicate (n - length ds) zero) @ ds)"

definition show_f64 :: "f64 \<Rightarrow> rstr" where
  "show_f64 a =
     (case a of Nan \<Rightarrow> lit ''NaN'' | Inf n \<Rightarrow> if n then lit ''-inf'' else lit ''inf'' | NegZero \<Rightarrow> lit ''-0''
      | Fin r \<Rightarrow> if r = 0 then show_nat 0 else (if r < 0 then lit ''-'' else []) @ show_decimal (shortest_digits \<bar>r\<bar>))"

end
