(* ===== verification/Semantic_Blocks.thy ===== *)
theory Semantic_Blocks
  imports Region_Assign Xy_Cut Paragraphs List_Layout Float_Display
begin

text \<open>
  Blocks from owned fragments: \<open>SemanticAssembler\<close> of \<open>crates/core/src/semantic/mod.rs\<close>, with the
  reference envelopes of \<open>crates/core/src/semantic/normalize.rs\<close>. Owners reassemble their lines from
  the items of their fragments; residual leaves are split into paragraphs; watermarks are detached. The raw label and the figure bounds of
  a block, which no modelled code reads, are not fields of the model.
\<close>

datatype semantic_error =
    MissingFallbackFragment nat | SemanticLine line_error | SemanticGeometry geometry_error

definition in_line :: "line_error + 'a \<Rightarrow> semantic_error + 'a" where
  "in_line m = (case m of Inl e \<Rightarrow> Inl (SemanticLine e) | Inr x \<Rightarrow> Inr x)"

definition in_geometry :: "geometry_error + 'a \<Rightarrow> semantic_error + 'a" where
  "in_geometry m = (case m of Inl e \<Rightarrow> Inl (SemanticGeometry e) | Inr x \<Rightarrow> Inr x)"

lemma in_line_simp [simp]: "in_line (Inr x) = Inr x"
  by (simp add: in_line_def)

lemma in_geometry_simp [simp]: "in_geometry (Inr x) = Inr x"
  by (simp add: in_geometry_def)

lemma in_line_Inr [simp, result_simps]: "in_line m = Inr x \<longleftrightarrow> m = Inr x"
  by (cases m) (auto simp: in_line_def)

lemma in_geometry_Inr [simp, result_simps]: "in_geometry m = Inr x \<longleftrightarrow> m = Inr x"
  by (cases m) (auto simp: in_geometry_def)

record page_warning =
  wn_code :: rstr
  wn_stage :: rstr
  wn_message :: rstr

record semantic_output =
  so_blocks :: "block list"
  so_warnings :: "page_warning list"

record semantic_assembler =
  sa_page :: nat
  sa_page_bbox :: bbox
  sa_config :: fusion_config
  sa_rules :: "table_rule list"
  sa_formulas :: "formula_region list"

section \<open>Lines\<close>

text \<open>\<open>u32::try_from(n).unwrap_or(u32::MAX)\<close>.\<close>

definition saturate_u32 :: "nat \<Rightarrow> nat" where
  "saturate_u32 n = min n 4294967295"

definition number_items :: "text_item list \<Rightarrow> text_item list" where
  "number_items items = map (\<lambda>(i, it). it\<lparr>it_final_order := saturate_u32 i\<rparr>) (List.enumerate 0 items)"

definition fragment_line :: "rstr \<Rightarrow> nat \<times> line_fragment \<Rightarrow> line" where
  "fragment_line owner entry =
     (case entry of (k, f) \<Rightarrow>
        let items = number_items (lf_items f)
        in \<lparr>ln_id = line_id_of owner (saturate_u32 k), ln_text = derive_line_text items, ln_bbox = lf_bbox f,
            ln_baseline = Some (lf_baseline f), ln_rotation = lf_rotation f, direction = lf_direction f,
            model_region_coverage = None, inline_spans = [], text_items = items\<rparr>)"

definition block_lines :: "rstr \<Rightarrow> line_fragment list \<Rightarrow> line list" where
  "block_lines owner fs = map (fragment_line owner) (List.enumerate 0 fs)"

definition content_bbox :: "line list \<Rightarrow> semantic_error + bbox option" where
  "content_bbox ls =
     (case ls of [] \<Rightarrow> Inr None
      | l # rest \<Rightarrow> in_geometry (rbind (rfold (\<lambda>l b. union_bbox b (ln_bbox l)) rest (ln_bbox l)) (\<lambda>b. Inr (Some b))))"

definition lines_polygon :: "geo_ops \<Rightarrow> line list \<Rightarrow> polygon option" where
  "lines_polygon geo = content_polygon (\<lambda>ps. ok_of (polygon_enclosing geo ps))"

definition reassemble ::
  "(f64 \<Rightarrow> f64 \<times> f64) \<Rightarrow> (uchar \<Rightarrow> bool) \<Rightarrow> semantic_assembler \<Rightarrow> line_fragment list \<Rightarrow> semantic_error + line_fragment list" where
  "reassemble trig alphabetic sa fs =
     in_line (fragments_with_formulas trig alphabetic (sa_config sa) (all_items fs) (sa_rules sa) (sa_formulas sa))"

section \<open>Model regions\<close>

definition assignment_note :: "assign_evidence \<Rightarrow> evidence" where
  "assignment_note ev =
     \<lparr>ev_kind = lit ''primary_assignment'', ev_score = Some (total_score (selected ev)),
      ev_details = [(lit ''alternatives'', show_nat (alternative_count ev)), (lit ''coverage'', show_f64 (coverage (selected ev)))]\<rparr>"

definition seed_region :: "block_seed \<Rightarrow> layout_label \<Rightarrow> source_region" where
  "seed_region sd lab =
     \<lparr>sr_label = Some lab, sr_model_region_id = Some (region_id sd), sr_fallback_region_id = None, sr_bbox = sd_bbox sd,
      sr_polygon = sd_polygon sd, geometry_source = sd_geometry_source sd, sr_confidence = Some (sd_confidence sd),
      sr_model_order = Some (sd_order sd)\<rparr>"

definition model_block ::
  "(f64 \<Rightarrow> f64 \<times> f64) \<Rightarrow> (uchar \<Rightarrow> bool) \<Rightarrow> geo_ops \<Rightarrow> semantic_assembler \<Rightarrow> block_seed \<Rightarrow> line_fragment list \<Rightarrow> semantic_error + block" where
  "model_block trig alphabetic geo sa sd fs =
     (let owner = model_block_id (sa_page sa) (sd_index sd) 0; ls = block_lines owner fs
      in rbind (content_bbox ls) (\<lambda>bounds.
         let content = unwrap_or bounds (sd_bbox sd)
         in rbind (if sd_label sd = Table \<or> is_figure (sd_label sd) then in_geometry (union_bbox (sd_bbox sd) content) else Inr content) (\<lambda>b.
         Inr \<lparr>bk_id = owner, label = sd_label sd, bk_text = derive_block_text trig alphabetic (sd_label sd) ls,
              label_source = FromModel, bk_confidence = Some (sd_confidence sd), bk_bbox = b, bk_polygon = lines_polygon geo ls,
              source_region = Some (seed_region sd (sd_label sd)), source_regions = [], model_region_id = Some (region_id sd),
              model_order = Some (sd_order sd), final_order = 0, semantic_hints = [], lines_of = ls, list_items = [],
              table_of = None, bk_image = None, embedded_image_index = sd_image_index sd,
              evidence_of = map assignment_note (assignment_evidence sd)\<rparr>)))"

definition model_blocks ::
  "(f64 \<Rightarrow> f64 \<times> f64) \<Rightarrow> (uchar \<Rightarrow> bool) \<Rightarrow> geo_ops \<Rightarrow> semantic_assembler \<Rightarrow> block_seed \<Rightarrow> semantic_error + semantic_output" where
  "model_blocks trig alphabetic geo sa sd =
     rbind (reassemble trig alphabetic sa (sd_fragments sd)) (\<lambda>fs.
     rbind (model_block trig alphabetic geo sa (sd\<lparr>sd_fragments := []\<rparr>) fs) (\<lambda>b.
     Inr \<lparr>so_blocks = [b],
          so_warnings = (if lines_of b = [] \<and> policy_of (sd_label sd) \<in> {FlowText, Title}
            then [\<lparr>wn_code = lit ''EmptyModelRegion'', wn_stage = lit ''semantic'',
              wn_message = lit ''model region '' @ region_id sd @ lit '' contains no extracted text''\<rparr>] else [])\<rparr>))"

text \<open>The envelope of a reference list keeps its geometry and owns no text.\<close>

definition reference_block :: "semantic_assembler \<Rightarrow> block_seed \<Rightarrow> block" where
  "reference_block sa sd =
     \<lparr>bk_id = model_block_id (sa_page sa) (sd_index sd) 0, label = Reference, bk_text = [], label_source = FromModel,
      bk_confidence = Some (sd_confidence sd), bk_bbox = sd_bbox sd, bk_polygon = sd_polygon sd,
      source_region = Some (seed_region sd Reference), source_regions = [], model_region_id = Some (region_id sd),
      model_order = Some (sd_order sd), final_order = 0, semantic_hints = [], lines_of = [], list_items = [],
      table_of = None, bk_image = None, embedded_image_index = None, evidence_of = []\<rparr>"

section \<open>Residual leaves\<close>

definition fallback_block ::
  "(f64 \<Rightarrow> f64 \<times> f64) \<Rightarrow> (uchar \<Rightarrow> bool) \<Rightarrow> geo_ops \<Rightarrow> semantic_assembler \<Rightarrow> rstr \<Rightarrow> nat \<times> line_fragment list \<Rightarrow> semantic_error + block" where
  "fallback_block trig alphabetic geo sa path entry =
     (let owner = fallback_block_id (sa_page sa) path (saturate_u32 (fst entry)); ls = block_lines owner (snd entry)
      in rbind (content_bbox ls) (\<lambda>bounds.
         let b = unwrap_or bounds (sa_page_bbox sa)
         in Inr \<lparr>bk_id = owner, label = Text, bk_text = derive_block_text trig alphabetic Text ls, label_source = Fallback,
              bk_confidence = None, bk_bbox = b, bk_polygon = lines_polygon geo ls,
              source_region = Some \<lparr>sr_label = Some Text, sr_model_region_id = None,
                sr_fallback_region_id = Some (fallback_region_id (sa_page sa) path), sr_bbox = b, sr_polygon = None,
                geometry_source = DerivedFromBbox, sr_confidence = None, sr_model_order = None\<rparr>,
              source_regions = [], model_region_id = None, model_order = None, final_order = 0, semantic_hints = [],
              lines_of = ls, list_items = [], table_of = None, bk_image = None, embedded_image_index = None, evidence_of = []\<rparr>))"

text \<open>A leaf takes each of its fragments out of its slot, once.\<close>

definition take_slot ::
  "nat \<Rightarrow> line_fragment option list \<times> line_fragment list \<Rightarrow> semantic_error + line_fragment option list \<times> line_fragment list" where
  "take_slot i st =
     (case get_at (fst st) i of Some (Some f) \<Rightarrow> Inr ((fst st)[i := None], snd st @ [f]) | _ \<Rightarrow> Inl (MissingFallbackFragment i))"

definition fallback_leaf ::
  "(f64 \<Rightarrow> f64 \<times> f64) \<Rightarrow> (uchar \<Rightarrow> bool) \<Rightarrow> geo_ops \<Rightarrow> semantic_assembler \<Rightarrow> rstr \<times> nat list \<Rightarrow>
   line_fragment option list \<times> block list \<Rightarrow> semantic_error + line_fragment option list \<times> block list" where
  "fallback_leaf trig alphabetic geo sa entry st =
     rbind (rfold take_slot (snd entry) (fst st, [])) (\<lambda>(slots, leaf_fragments).
     rbind (reassemble trig alphabetic sa leaf_fragments) (\<lambda>fs.
     rbind (rmap (fallback_block trig alphabetic geo sa (fst entry))
       (List.enumerate 0 (fallback_paragraph_groups trig (sa_config sa) fs))) (\<lambda>bs.
     Inr (slots, snd st @ bs))))"

definition fallback_blocks ::
  "(f64 \<Rightarrow> f64 \<times> f64) \<Rightarrow> (uchar \<Rightarrow> bool) \<Rightarrow> geo_ops \<Rightarrow> semantic_assembler \<Rightarrow> line_fragment list \<Rightarrow> region_tree \<Rightarrow> semantic_error + semantic_output" where
  "fallback_blocks trig alphabetic geo sa fs tree =
     rbind (rfold (fallback_leaf trig alphabetic geo sa) (visit_leaves tree) (map Some fs, [])) (\<lambda>(_, bs).
     Inr \<lparr>so_blocks = bs, so_warnings = []\<rparr>)"

section \<open>Watermarks\<close>

definition evidence_eq :: "evidence \<Rightarrow> evidence \<Rightarrow> bool" where
  "evidence_eq a b \<longleftrightarrow> ev_kind a = ev_kind b \<and> opt_eq feq (ev_score a) (ev_score b) \<and> ev_details a = ev_details b"

text \<open>\<open>Vec::dedup\<close>.\<close>

fun dedup_with :: "('a \<Rightarrow> 'a \<Rightarrow> bool) \<Rightarrow> 'a list \<Rightarrow> 'a list" where
  "dedup_with eq (x # y # ys) = (if eq y x then dedup_with eq (x # ys) else x # dedup_with eq (y # ys))"
| "dedup_with eq xs = xs"

definition first_extraction :: "line_fragment \<Rightarrow> nat option" where
  "first_extraction f = (case map extraction_order (lf_items f) of [] \<Rightarrow> None | n # ns \<Rightarrow> Some (fold min ns n))"

definition watermark_block ::
  "(f64 \<Rightarrow> f64 \<times> f64) \<Rightarrow> (uchar \<Rightarrow> bool) \<Rightarrow> geo_ops \<Rightarrow> semantic_assembler \<Rightarrow> (rstr \<Rightarrow> evidence option) \<Rightarrow> line_fragment \<Rightarrow> semantic_error + block" where
  "watermark_block trig alphabetic geo sa decisions f =
     (let explicit = (\<forall>it\<in>set (lf_items f). it_watermark it = Some PdfMarkedContent);
          found = dedup_with evidence_eq (List.map_filter (\<lambda>it. decisions (it_id it)) (lf_items f));
          evidence = (if found = [] then [\<lparr>ev_kind = lit (if explicit then ''pdf_watermark_mark'' else ''watermark_text_pattern''),
            ev_score = None, ev_details = []\<rparr>] else found);
          owner = watermark_id (sa_page sa) (unwrap_or (first_extraction f) 0) False; ls = block_lines owner [f]
      in rbind (content_bbox ls) (\<lambda>bounds.
         Inr \<lparr>bk_id = owner, label = Watermark, bk_text = derive_block_text trig alphabetic Watermark ls,
              label_source = (if explicit then FromPdf else Heuristic), bk_confidence = None,
              bk_bbox = unwrap_or bounds (sa_page_bbox sa),
              bk_polygon = (case lines_polygon geo ls of None \<Rightarrow> None | Some p \<Rightarrow> polygon_clipped geo p (sa_page_bbox sa)),
              source_region = None, source_regions = [], model_region_id = None, model_order = None, final_order = 0,
              semantic_hints = [], lines_of = ls, list_items = [], table_of = None, bk_image = None,
              embedded_image_index = None, evidence_of = evidence\<rparr>))"

definition annotation_block :: "semantic_assembler \<Rightarrow> nat \<times> bbox \<Rightarrow> block" where
  "annotation_block sa entry =
     \<lparr>bk_id = watermark_id (sa_page sa) (fst entry mod 2 ^ 32) True, label = Watermark, bk_text = [], label_source = FromPdf,
      bk_confidence = None, bk_bbox = snd entry, bk_polygon = None, source_region = None, source_regions = [],
      model_region_id = None, model_order = None, final_order = 0, semantic_hints = [], lines_of = [], list_items = [],
      table_of = None, bk_image = None, embedded_image_index = None,
      evidence_of = [\<lparr>ev_kind = lit ''pdf_watermark_annotation'', ev_score = None, ev_details = []\<rparr>]\<rparr>"

definition watermark_blocks ::
  "(f64 \<Rightarrow> f64 \<times> f64) \<Rightarrow> (uchar \<Rightarrow> bool) \<Rightarrow> geo_ops \<Rightarrow> semantic_assembler \<Rightarrow> text_item list \<Rightarrow> bbox list \<Rightarrow> (rstr \<Rightarrow> evidence option) \<Rightarrow>
   semantic_error + block list" where
  "watermark_blocks trig alphabetic geo sa items annotations decisions =
     rbind (in_line (fragments trig alphabetic (sa_config sa) items)) (\<lambda>fs.
     rbind (rmap (watermark_block trig alphabetic geo sa decisions) (sort_key first_extraction fs)) (\<lambda>bs.
     Inr (bs @ map (annotation_block sa) (List.enumerate 0 annotations))))"

end
