(* ===== verification/Block_Merge.thy ===== *)
theory Block_Merge
  imports Semantic_Blocks
begin

text \<open>
  Normalizing the content layout of a page: \<open>crates/core/src/semantic/normalize.rs\<close>. Blocks that
  contain one another, line-number gutters of algorithms and aligned symbol lists are merged into
  one owner, whose lines are assembled again from all of its items.
\<close>

record layout_group =
  lg_blocks :: "block list"
  lg_bbox :: bbox
  aligned_rows :: bool

definition single_group :: "block \<Rightarrow> layout_group" where
  "single_group b = \<lparr>lg_blocks = [b], lg_bbox = bk_bbox b, aligned_rows = False\<rparr>"

section \<open>When two groups join\<close>

definition empty_aside :: "block \<Rightarrow> bool" where
  "empty_aside b \<longleftrightarrow> label b = AsideText \<and> lines_of b = [] \<and> bk_text b = []"

definition mostly_digits :: "rstr \<Rightarrow> bool" where
  "mostly_digits s \<longleftrightarrow>
     (let visible = filter (\<lambda>c. \<not> is_whitespace c) s
      in visible \<noteq> [] \<and> length visible * 4 \<le> length (filter is_ascii_digit visible) * 5)"

definition is_line_numbers :: "block \<Rightarrow> block \<Rightarrow> bool" where
  "is_line_numbers algorithm candidate \<longleftrightarrow>
     (let a = bk_bbox algorithm; c = bk_bbox candidate;
          beside = (fle (right c) (left a) \<and> fle (fsub (left a) (right c)) (Fin 15));
          duplicate = (empty_aside candidate \<and> fle (left c) (left a) \<and> fle (fsub (left a) (left c)) (Fin 15) \<and>
            fle (fmul (width c) (Fin (1 / 2))) (fsub (right c) (left a)));
          lap = fmax (fsub (fmin (bottom a) (bottom c)) (fmax (top_of a) (top_of c))) (Fin 0)
      in label algorithm = Algorithm \<and> (label candidate = Text \<or> label candidate = AsideText) \<and>
         \<not> flt (fmul (width a) (rnd (1 / 10))) (width c) \<and> (beside \<or> duplicate) \<and>
         \<not> flt lap (fmul (height c) (rnd (8 / 10))) \<and> (duplicate \<or> mostly_digits (bk_text candidate)))"

definition joins_group :: "layout_group \<Rightarrow> layout_group \<Rightarrow> bool" where
  "joins_group a b \<longleftrightarrow>
     (if aligned_rows a \<or> aligned_rows b then
        aligned_rows a \<and> contains_bbox (lg_bbox b) (lg_bbox a) \<or> aligned_rows b \<and> contains_bbox (lg_bbox a) (lg_bbox b)
      else
        (\<exists>x\<in>set (lg_blocks a). \<exists>y\<in>set (lg_blocks b). contains_bbox (bk_bbox x) (bk_bbox y) \<or> contains_bbox (bk_bbox y) (bk_bbox x)) \<or>
        (\<exists>x\<in>set (lg_blocks a). \<exists>y\<in>set (lg_blocks b). is_line_numbers x y) \<or>
        (\<exists>x\<in>set (lg_blocks b). \<exists>y\<in>set (lg_blocks a). is_line_numbers x y))"

section \<open>Aligned symbol lists\<close>

definition narrow_symbol :: "block \<Rightarrow> bool" where
  "narrow_symbol b \<longleftrightarrow> label b = Text \<and> length (lines_of b) = 1 \<and> \<not> flt (fmul (height (bk_bbox b)) (Fin 4)) (width (bk_bbox b))"

definition row_partner :: "block \<Rightarrow> block \<Rightarrow> bool" where
  "row_partner l r \<longleftrightarrow>
     (let a = bk_bbox l; b = bk_bbox r; lap = fmax (fsub (fmin (bottom a) (bottom b)) (fmax (top_of a) (top_of b))) (Fin 0)
      in label r = Text \<and> length (lines_of r) = 1 \<and> fle (right a) (left b) \<and>
         fle (fsub (left b) (left a)) (fmul (height a) (Fin 12)) \<and> fle (fmul (fmin (height a) (height b)) (Fin (1 / 2))) lap)"

definition row_pairs :: "block list \<Rightarrow> (block \<times> block) list" where
  "row_pairs bs =
     List.map_filter (\<lambda>l. if narrow_symbol l
       then map_option (Pair l) (min_by_key (\<lambda>r. left (bk_bbox r)) (filter (row_partner l) bs)) else None) bs"

definition near_column :: "block \<Rightarrow> f64 \<Rightarrow> bool" where
  "near_column b x \<longleftrightarrow> fle (fabs (fsub (left (bk_bbox b)) x)) (Fin 2)"

definition close_row :: "(block \<times> block) list \<Rightarrow> block \<times> block \<Rightarrow> bool" where
  "close_row run pair \<longleftrightarrow>
     fle (fsub (top_of (bk_bbox (fst pair))) (top_of (bk_bbox (fst (last run))))) (fmul (height (bk_bbox (fst (last run)))) (Fin 6))"

text \<open>Paired rows, column starts, vertical span and the tallest symbol of a run.\<close>

type_synonym row_candidate = "nat \<times> (f64 \<times> f64) \<times> (f64 \<times> f64) \<times> f64"

definition run_candidate :: "f64 \<Rightarrow> f64 \<Rightarrow> (block \<times> block) list \<Rightarrow> row_candidate" where
  "run_candidate lx rx run =
     (length run, (lx, rx),
      (fold (\<lambda>(l, r) acc. fmin acc (fmin (top_of (bk_bbox l)) (top_of (bk_bbox r)))) run (Inf False),
       fold (\<lambda>(l, r) acc. fmax acc (fmax (bottom (bk_bbox l)) (bottom (bk_bbox r)))) run (Inf True)),
      fold (\<lambda>(l, r) acc. fmax acc (height (bk_bbox l))) run (Fin 0))"

definition pair_candidates :: "(block \<times> block) list \<Rightarrow> block \<times> block \<Rightarrow> row_candidate list" where
  "pair_candidates pairs pair =
     (let lx = left (bk_bbox (fst pair)); rx = left (bk_bbox (snd pair));
          aligned = sort_key (\<lambda>p. top_of (bk_bbox (fst p))) (filter (\<lambda>(l, r). near_column l lx \<and> near_column r rx) pairs)
      in map (run_candidate lx rx) (filter (\<lambda>run. 5 \<le> length run) (fold (push_last close_row) aligned [])))"

definition list_member :: "row_candidate \<Rightarrow> block \<Rightarrow> bool" where
  "list_member cand b \<longleftrightarrow>
     (case cand of (n, (lx, rx), (first_y, last_y), h) \<Rightarrow>
        label b = Text \<and> (near_column b lx \<or> near_column b rx) \<and>
        fle first_y (py (center (bk_bbox b))) \<and> fle (py (center (bk_bbox b))) last_y \<and>
        fle (height (bk_bbox b)) (fmul h (Fin 4)))"

definition claim_rows :: "block list \<Rightarrow> row_candidate \<Rightarrow> (rstr \<Rightarrow> nat option) \<times> nat \<Rightarrow> (rstr \<Rightarrow> nat option) \<times> nat" where
  "claim_rows bs cand st =
     (case st of (membership, n) \<Rightarrow>
        let members = filter (\<lambda>b. membership (bk_id b) = None \<and> list_member cand b) bs
        in if length members < fst cand * 2 then (membership, n)
           else (fold (\<lambda>b m. m(bk_id b \<mapsto> n)) members membership, n + 1))"

definition list_membership :: "block list \<Rightarrow> (rstr \<Rightarrow> nat option) \<times> nat" where
  "list_membership bs =
     (let pairs = row_pairs bs
      in fold (claim_rows bs) (sort_key (\<lambda>c. Reversed (fst c)) (concat (map (pair_candidates pairs) pairs))) (Map.empty, 0))"

definition extend_group :: "block \<Rightarrow> layout_group \<Rightarrow> semantic_error + layout_group" where
  "extend_group b g =
     rbind (in_geometry (union_bbox (lg_bbox g) (bk_bbox b))) (\<lambda>bb. Inr (g\<lparr>lg_bbox := bb, lg_blocks := lg_blocks g @ [b]\<rparr>))"

definition bundle_group :: "block list \<Rightarrow> semantic_error + layout_group list" where
  "bundle_group cluster =
     (case cluster of [] \<Rightarrow> Inr []
      | b # rest \<Rightarrow> rbind (rfold extend_group rest ((single_group b)\<lparr>aligned_rows := True\<rparr>)) (\<lambda>g. Inr [g]))"

definition aligned_row_groups :: "block list \<Rightarrow> semantic_error + layout_group list" where
  "aligned_row_groups bs =
     (case list_membership bs of (membership, n) \<Rightarrow>
        let singles = map single_group (filter (\<lambda>b. membership (bk_id b) = None) bs)
        in rbind (rmap (\<lambda>k. bundle_group (filter (\<lambda>b. membership (bk_id b) = Some k) bs)) [0..<n]) (\<lambda>bundles.
           Inr (sort_key (\<lambda>g. map_option bk_id (hd_opt (lg_blocks g))) (singles @ concat bundles))))"

section \<open>Merging groups\<close>

text \<open>
  One owner and the groups to its right, those already passed and those still to come. When the
  bounds of the owner grow, the passed groups are looked at again.
\<close>

definition take_group :: "layout_group \<Rightarrow> bbox \<Rightarrow> layout_group \<Rightarrow> layout_group" where
  "take_group g b other =
     g\<lparr>lg_bbox := b, aligned_rows := (aligned_rows g \<or> aligned_rows other), lg_blocks := lg_blocks g @ lg_blocks other\<rparr>"

function absorb_joined :: "layout_group \<Rightarrow> layout_group list \<Rightarrow> layout_group list \<Rightarrow> semantic_error + layout_group \<times> layout_group list" where
  "absorb_joined g passed [] = Inr (g, passed)"
| "absorb_joined g passed (other # todo) =
     (if \<not> joins_group g other then absorb_joined g (passed @ [other]) todo
      else if contains_bbox (lg_bbox g) (lg_bbox other) then absorb_joined (take_group g (lg_bbox g) other) passed todo
      else rbind (in_geometry (union_bbox (lg_bbox g) (lg_bbox other))) (\<lambda>b.
           absorb_joined (take_group g b other) [] (passed @ todo)))"
  by pat_completeness auto
termination
  by (relation "measures [\<lambda>(g, passed, todo). length passed + length todo, \<lambda>(g, passed, todo). length todo]") auto

lemma absorb_joined_length:
  "absorb_joined g passed todo = Inr (g', rest) \<Longrightarrow> length rest \<le> length passed + length todo"
  by (induction g passed todo arbitrary: g' rest rule: absorb_joined.induct) (fastforce simp: result_simps split: if_splits)+

function merge_groups :: "layout_group list \<Rightarrow> semantic_error + layout_group list" where
  "merge_groups [] = Inr []"
| "merge_groups (g # rest) =
     rbind (absorb_joined g [] rest) (\<lambda>(g, rest). rbind (merge_groups rest) (\<lambda>gs. Inr (g # gs)))"
  by pat_completeness auto
termination by (relation "measure length") (auto dest!: absorb_joined_length)

section \<open>The owner of a group\<close>

definition owner_priority :: "block \<Rightarrow> bool \<times> bool \<times> bool" where
  "owner_priority b = (policy_of (label b) \<in> {AlgorithmText, Atomic, Structured}, lines_of b \<noteq> [], model_region_id b \<noteq> None)"

definition by_owner :: "block list \<Rightarrow> block list" where
  "by_owner = sort_key (\<lambda>b. (Reversed (owner_priority b), Reversed (unwrap_or (bk_confidence b) (Fin (- 1))), bk_id b))"

definition grow_content :: "block \<Rightarrow> bbox option \<Rightarrow> semantic_error + bbox option" where
  "grow_content b acc =
     (if empty_aside b then Inr acc
      else case acc of None \<Rightarrow> Inr (Some (bk_bbox b))
         | Some bounds \<Rightarrow> rbind (in_geometry (union_bbox bounds (bk_bbox b))) (\<lambda>c. Inr (Some c)))"

definition merged_sources :: "block list \<Rightarrow> source_region list" where
  "merged_sources bs =
     sort_key (\<lambda>s. (sr_model_region_id s, sr_fallback_region_id s, top_of (sr_bbox s), left (sr_bbox s)))
       (fold (\<lambda>s acc. if \<exists>t\<in>set acc. source_region_eq t s then acc else acc @ [s]) (concat (map all_source_regions bs)) [])"

definition block_items :: "block \<Rightarrow> text_item list" where
  "block_items b = concat (map text_items (lines_of b))"

definition merge_note :: "nat \<Rightarrow> evidence" where
  "merge_note n = \<lparr>ev_kind = lit ''content_layout_merge'', ev_score = None, ev_details = [(lit ''blocks'', show_nat n)]\<rparr>"

text \<open>Aligned text becomes structured content.\<close>

definition relabel_owner :: "layout_group \<Rightarrow> block \<Rightarrow> block" where
  "relabel_owner g b =
     (if aligned_rows g \<and> (\<forall>b\<in>set (lg_blocks g). label b = Text) then b\<lparr>label := Content, label_source := Heuristic\<rparr> else b)"

definition merged_block ::
  "(f64 \<Rightarrow> f64 \<times> f64) \<Rightarrow> (uchar \<Rightarrow> bool) \<Rightarrow> geo_ops \<Rightarrow> block \<Rightarrow> block list \<Rightarrow> bbox \<Rightarrow> source_region list \<Rightarrow> line list \<Rightarrow> block" where
  "merged_block trig alphabetic geo b bs final sources ls =
     (let sparse = (\<not> (\<exists>c\<in>set bs. contains_bbox (bk_bbox c) final \<and> contains_bbox final (bk_bbox c)))
      in b\<lparr>lines_of := ls, bk_bbox := final,
           semantic_hints := (if sparse then bt_insert sparse_layout_hint (lit ''true'') (semantic_hints b) else semantic_hints b),
           bk_polygon := lines_polygon geo ls, bk_text := derive_block_text trig alphabetic (label b) ls,
           model_order := min_order sources, source_regions := sources,
           evidence_of := concat (map evidence_of bs) @ [merge_note (length bs)]\<rparr>)"

definition merge_group ::
  "(f64 \<Rightarrow> f64 \<times> f64) \<Rightarrow> (uchar \<Rightarrow> bool) \<Rightarrow> geo_ops \<Rightarrow> semantic_assembler \<Rightarrow> layout_group \<Rightarrow> semantic_error + block list" where
  "merge_group trig alphabetic geo sa g =
     (if length (lg_blocks g) = 1 then Inr (lg_blocks g)
      else
        let bs = by_owner (lg_blocks g)
        in rbind (rfold grow_content bs None) (\<lambda>bounds.
           case bs of [] \<Rightarrow> Inr []
           | b # _ \<Rightarrow>
               rbind (in_line (fragments_with_formulas trig alphabetic (sa_config sa) (concat (map block_items bs)) (sa_rules sa) (sa_formulas sa))) (\<lambda>fs.
               Inr [merged_block trig alphabetic geo (relabel_owner g b) bs (unwrap_or bounds (lg_bbox g)) (merged_sources bs)
                 (block_lines (bk_id b) fs)])))"

definition normalize_blocks ::
  "(f64 \<Rightarrow> f64 \<times> f64) \<Rightarrow> (uchar \<Rightarrow> bool) \<Rightarrow> geo_ops \<Rightarrow> semantic_assembler \<Rightarrow> block list \<Rightarrow> semantic_error + block list" where
  "normalize_blocks trig alphabetic geo sa bs =
     rbind (aligned_row_groups (sort_key bk_id bs)) (\<lambda>groups.
     rbind (merge_groups groups) (\<lambda>groups.
     rbind (rmap (merge_group trig alphabetic geo sa) groups) (\<lambda>result. Inr (concat result))))"

end
