(* ===== verification/Assign_Properties.thy ===== *)
theory Assign_Properties
  imports Region_Assign Line_Properties Xy_Cut_Properties
begin

text \<open>
  What the assignment of text to regions guarantees: every item has exactly one owner, and the
  owner of an upright fragment is the best of all eligible regions.
\<close>

section \<open>The choice\<close>

definition candidates_of :: "block_seed list \<Rightarrow> (nat \<times> block_seed) list \<Rightarrow> bool" where
  "candidates_of seeds es \<longleftrightarrow> (\<forall>(i, sd)\<in>set es. i < length seeds \<and> seeds ! i = sd)"

definition best_of ::
  "(block_seed \<Rightarrow> assignment_score option) \<Rightarrow> block_seed set \<Rightarrow> block_seed \<Rightarrow> assignment_score \<Rightarrow> bool" where
  "best_of sc sds sd v \<longleftrightarrow> sd \<in> sds \<and> sc sd = Some v \<and>
     (\<forall>other\<in>sds. \<forall>w. sc other = Some w \<longrightarrow> candidate_key other w \<le> candidate_key sd v)"

lemma consider_none: "sc sd = None \<Longrightarrow> consider_seed sc seeds (i, sd) st = st"
  by (simp add: consider_seed_def)

lemma consider_some:
  "sc sd = Some v \<Longrightarrow> consider_seed sc seeds (i, sd) (w, n) =
     (if (case w of None \<Rightarrow> True | Some old \<Rightarrow> not_worse seeds (i, v) old) then Some (i, v) else w, n + 1)"
  by (cases w) (simp_all add: consider_seed_def)

lemma not_worse_nth:
  "i < length seeds \<Longrightarrow> j < length seeds \<Longrightarrow> not_worse seeds (i, v) (j, u) \<longleftrightarrow> candidate_key (seeds ! j) u \<le> candidate_key (seeds ! i) v"
  by (simp add: not_worse_def get_at_def)

lemma consider_all:
  assumes "candidates_of seeds es"
  shows "case fold (consider_seed sc seeds) es (None, 0) of
      (None, n) \<Rightarrow> n = 0 \<and> (\<forall>sd\<in>snd ` set es. sc sd = None)
    | (Some (i, v), n) \<Rightarrow> i < length seeds \<and> best_of sc (snd ` set es) (seeds ! i) v \<and> n = length (filter (\<lambda>e. sc (snd e) \<noteq> None) es)"
  using assms
proof (induction es rule: rev_induct)
  case (snoc e es)
  obtain i sd where e: "e = (i, sd)" by (cases e)
  have here: "i < length seeds" "seeds ! i = sd" and before: "candidates_of seeds es"
    using snoc.prems by (auto simp: candidates_of_def e)
  obtain w n where st: "fold (consider_seed sc seeds) es (None, 0) = (w, n)" by fastforce
  note IH = snoc.IH [OF before, unfolded st]
  show ?case
  proof (cases "sc sd")
    case None
    with IH st show ?thesis by (auto simp: consider_none e best_of_def split: option.splits)
  next
    case (Some v)
    show ?thesis
    proof (cases w)
      case None
      with IH st Some here show ?thesis by (auto simp: consider_some e best_of_def filter_empty_conv)
    next
      case (Some old)
      obtain j u where old: "old = (j, u)" by (cases old)
      with IH Some have j: "j < length seeds" "best_of sc (snd ` set es) (seeds ! j) u" "n = length (filter (\<lambda>e. sc (snd e) \<noteq> None) es)"
        by auto
      show ?thesis
      proof (cases "candidate_key (seeds ! j) u \<le> candidate_key sd v")
        case True
        have step: "fold (consider_seed sc seeds) (es @ [e]) (None, 0) = (Some (i, v), n + 1)"
          using st \<open>sc sd = Some v\<close> Some old not_worse_nth [OF here(1) j(1)] here(2) True by (simp add: consider_some e)
        have "\<forall>x\<in>snd ` set es. \<forall>w. sc x = Some w \<longrightarrow> candidate_key x w \<le> candidate_key sd v"
          using j(2) True unfolding best_of_def by (meson order_trans)
        with step \<open>sc sd = Some v\<close> here j(3) show ?thesis by (simp add: best_of_def e)
      next
        case False
        have "fold (consider_seed sc seeds) (es @ [e]) (None, 0) = (Some (j, u), n + 1)"
          using st \<open>sc sd = Some v\<close> Some old not_worse_nth [OF here(1) j(1)] here(2) False by (simp add: consider_some e)
        with \<open>sc sd = Some v\<close> False j show ?thesis by (simp add: best_of_def e)
      qed
    qed
  qed
qed simp

lemma candidates_enumerate: "candidates_of seeds (List.enumerate 0 seeds)"
  by (auto simp: candidates_of_def in_set_conv_nth nth_enumerate_eq)

lemma snd_enumerate: "snd ` set (List.enumerate n xs) = set xs"
  by (metis list.set_map map_snd_enumerate)

lemma choose_owner_none: "choose_owner sc seeds = (None, n) \<Longrightarrow> \<forall>sd\<in>set seeds. sc sd = None"
  using consider_all [OF candidates_enumerate [of seeds], where sc = sc] by (auto simp: choose_owner_def snd_enumerate)

lemma choose_owner_some: "choose_owner sc seeds = (Some (i, v), n) \<Longrightarrow> i < length seeds \<and> best_of sc (set seeds) (seeds ! i) v"
  using consider_all [OF candidates_enumerate [of seeds], where sc = sc] by (auto simp: choose_owner_def snd_enumerate)

section \<open>What an assignment changes\<close>

definition blank_seed :: "block_seed \<Rightarrow> block_seed" where
  "blank_seed sd = sd\<lparr>sd_fragments := [], assignment_evidence := []\<rparr>"

definition owned_fragments :: "block_seed list \<Rightarrow> line_fragment list" where
  "owned_fragments seeds = concat (map sd_fragments seeds)"

lemma blank_give [simp]: "blank_seed (give_fragment f ev sd) = blank_seed sd"
  by (simp add: blank_seed_def give_fragment_def)

lemma blank_sort [simp]: "blank_seed (sort_fragments sd) = blank_seed sd"
  by (simp add: blank_seed_def sort_fragments_def)

lemma blank_fields:
  "sd_geometry (blank_seed sd) = sd_geometry sd" "sd_confidence (blank_seed sd) = sd_confidence sd"
  "sd_order (blank_seed sd) = sd_order sd" "sd_index (blank_seed sd) = sd_index sd" "sd_bbox (blank_seed sd) = sd_bbox sd"
  by (simp_all add: blank_seed_def)

lemma score_blank: "\<not> native_oblique trig f \<Longrightarrow> score trig geo config page f (blank_seed sd) = score trig geo config page f sd"
  by (simp only: score_def blank_fields Let_def simp_thms if_False)

lemma key_blank [simp]: "candidate_key (blank_seed sd) v = candidate_key sd v"
  by (simp add: candidate_key_def blank_fields)

lemma mset_owned_give:
  assumes "i < length seeds"
  shows "mset (owned_fragments (seeds[i := give_fragment f ev (seeds ! i)])) = add_mset f (mset (owned_fragments seeds))"
proof -
  from assms have split: "seeds = take i seeds @ seeds ! i # drop (Suc i) seeds" by (rule id_take_nth_drop)
  have "mset (owned_fragments (seeds[i := sd])) =
      mset (owned_fragments (take i seeds)) + mset (sd_fragments sd) + mset (owned_fragments (drop (Suc i) seeds))" for sd
    using assms by (simp add: upd_conv_take_nth_drop owned_fragments_def)
  from this [of "give_fragment f ev (seeds ! i)"] this [of "seeds ! i"] show ?thesis
    by (simp add: list_update_id give_fragment_def)
qed

lemma assign_fragment_spec:
  assumes "assign_fragment sc f (seeds, residual) = (seeds', residual')"
  shows "map blank_seed seeds' = map blank_seed seeds"
    "mset (owned_fragments seeds') + mset residual' = add_mset f (mset (owned_fragments seeds) + mset residual)"
proof -
  obtain w n where w: "choose_owner (sc f) seeds = (w, n)" by fastforce
  have "map blank_seed seeds' = map blank_seed seeds \<and>
    mset (owned_fragments seeds') + mset residual' = add_mset f (mset (owned_fragments seeds) + mset residual)"
  proof (cases w)
    case None
    with assms w show ?thesis by (auto simp: assign_fragment_def)
  next
    case (Some p)
    obtain i v where p: "p = (i, v)" by (cases p)
    with w Some choose_owner_some have i: "i < length seeds" by blast
    with assms w Some p have "seeds' = seeds[i := give_fragment f \<lparr>selected = v, alternative_count = n - 1\<rparr> (seeds ! i)]" "residual' = residual"
      by (auto simp: assign_fragment_def get_at_def)
    with i mset_owned_give [OF i] show ?thesis by (simp add: map_update list_update_same_conv)
  qed
  then show "map blank_seed seeds' = map blank_seed seeds"
    "mset (owned_fragments seeds') + mset residual' = add_mset f (mset (owned_fragments seeds) + mset residual)" by simp_all
qed

lemma assign_fold_spec:
  assumes "fold (assign_fragment sc) fs (seeds, residual) = (seeds', residual')"
  shows "map blank_seed seeds' = map blank_seed seeds \<and>
    mset (owned_fragments seeds') + mset residual' = mset (owned_fragments seeds) + mset residual + mset fs"
  using assms
proof (induction fs arbitrary: seeds residual)
  case (Cons f fs)
  obtain s r where st: "assign_fragment sc f (seeds, residual) = (s, r)" by fastforce
  with Cons.prems have "fold (assign_fragment sc) fs (s, r) = (seeds', residual')" by simp
  from Cons.IH [OF this] assign_fragment_spec [OF st] show ?case by simp
qed simp

section \<open>Owners are best\<close>

definition well_placed ::
  "(f64 \<Rightarrow> f64 \<times> f64) \<Rightarrow> (line_fragment \<Rightarrow> block_seed \<Rightarrow> assignment_score option) \<Rightarrow> block_seed list \<Rightarrow> line_fragment list \<Rightarrow> bool" where
  "well_placed trig sc seeds residual \<longleftrightarrow>
     (\<forall>sd\<in>set seeds. \<forall>f\<in>set (sd_fragments sd). \<not> native_oblique trig f \<longrightarrow> (\<exists>v. best_of (sc f) (blank_seed ` set seeds) (blank_seed sd) v)) \<and>
     (\<forall>f\<in>set residual. \<not> native_oblique trig f \<longrightarrow> (\<forall>sd\<in>set seeds. sc f (blank_seed sd) = None))"

lemma best_of_blank:
  assumes "best_of sc sds sd v" and "\<And>sd. sc (blank_seed sd) = sc sd"
  shows "best_of sc (blank_seed ` sds) (blank_seed sd) v"
  using assms by (auto simp: best_of_def)

lemma assign_fragment_placed:
  assumes "well_placed trig sc seeds residual" "assign_fragment sc f (seeds, residual) = (seeds', residual')"
    and blank: "\<And>f sd. \<not> native_oblique trig f \<Longrightarrow> sc f (blank_seed sd) = sc f sd"
  shows "well_placed trig sc seeds' residual'"
proof -
  have blanks: "blank_seed ` set seeds' = blank_seed ` set seeds"
    using assign_fragment_spec(1) [OF assms(2)] by (metis list.set_map)
  obtain w n where w: "choose_owner (sc f) seeds = (w, n)" by fastforce
  show ?thesis
  proof (cases w)
    case None
    with assms(2) w have st: "seeds' = seeds" "residual' = residual @ [f]" by (auto simp: assign_fragment_def)
    with choose_owner_none w None have "\<forall>sd\<in>set seeds. sc f sd = None" by blast
    with assms(1) st blank show ?thesis by (auto simp: well_placed_def)
  next
    case (Some p)
    obtain i v where p: "p = (i, v)" by (cases p)
    with w Some choose_owner_some have i: "i < length seeds" "best_of (sc f) (set seeds) (seeds ! i) v" by blast+
    define ev where "ev = \<lparr>selected = v, alternative_count = n - 1\<rparr>"
    have st: "seeds' = seeds[i := give_fragment f ev (seeds ! i)]" "residual' = residual"
      using assms(2) w Some p i(1) by (auto simp: assign_fragment_def get_at_def ev_def)
    have "\<exists>u. best_of (sc g) (blank_seed ` set seeds') (blank_seed sd) u"
      if sd: "sd \<in> set seeds'" and g: "g \<in> set (sd_fragments sd)" and upright: "\<not> native_oblique trig g" for sd g
    proof -
      from sd st(1) have "sd \<in> set seeds \<or> sd = give_fragment f ev (seeds ! i)"
        using set_update_subset_insert by fastforce
      then consider "sd \<in> set seeds" | "sd = give_fragment f ev (seeds ! i)" "g = f" | "sd = give_fragment f ev (seeds ! i)" "g \<in> set (sd_fragments (seeds ! i))"
        using g by (auto simp: give_fragment_def)
      then show ?thesis
      proof cases
        case 1
        with assms(1) g upright show ?thesis by (auto simp: well_placed_def blanks)
      next
        case 2
        with best_of_blank [OF i(2) blank] upright show ?thesis by (auto simp: blanks)
      next
        case 3
        with assms(1) upright nth_mem [OF i(1)] show ?thesis by (fastforce simp: well_placed_def blanks)
      qed
    qed
    moreover have "sc g (blank_seed sd) = None"
      if "g \<in> set residual'" "\<not> native_oblique trig g" "sd \<in> set seeds'" for g sd
    proof -
      from that(3) have "blank_seed sd \<in> blank_seed ` set seeds" using blanks by blast
      with assms(1) that(1,2) st(2) show ?thesis by (auto simp: well_placed_def)
    qed
    ultimately show ?thesis by (simp add: well_placed_def)
  qed
qed

lemma assign_fold_placed:
  assumes "well_placed trig sc seeds residual" "fold (assign_fragment sc) fs (seeds, residual) = (seeds', residual')"
    and "\<And>f sd. \<not> native_oblique trig f \<Longrightarrow> sc f (blank_seed sd) = sc f sd"
  shows "well_placed trig sc seeds' residual'"
  using assms(1,2)
proof (induction fs arbitrary: seeds residual)
  case (Cons f fs)
  obtain s r where st: "assign_fragment sc f (seeds, residual) = (s, r)" by fastforce
  with Cons.prems(2) have "fold (assign_fragment sc) fs (s, r) = (seeds', residual')" by simp
  from Cons.IH [OF assign_fragment_placed [OF Cons.prems(1) st assms(3)] this] show ?case .
qed simp

lemma give_counts:
  "\<forall>sd\<in>set seeds. length (assignment_evidence sd) = length (sd_fragments sd) \<Longrightarrow>
   assign_fragment sc f (seeds, residual) = (seeds', residual') \<Longrightarrow>
   \<forall>sd\<in>set seeds'. length (assignment_evidence sd) = length (sd_fragments sd)"
  by (auto simp: assign_fragment_def give_fragment_def split: prod.splits option.splits dest!: set_update_subset_insert [THEN subsetD])

lemma fold_counts:
  "\<forall>sd\<in>set seeds. length (assignment_evidence sd) = length (sd_fragments sd) \<Longrightarrow>
   fold (assign_fragment sc) fs (seeds, residual) = (seeds', residual') \<Longrightarrow>
   \<forall>sd\<in>set seeds'. length (assignment_evidence sd) = length (sd_fragments sd)"
proof (induction fs arbitrary: seeds residual)
  case (Cons f fs)
  obtain s r where st: "assign_fragment sc f (seeds, residual) = (s, r)" by fastforce
  with Cons.prems(2) have "fold (assign_fragment sc) fs (s, r) = (seeds', residual')" by simp
  from Cons.IH [OF give_counts [OF Cons.prems(1) st] this] show ?case .
qed simp

section \<open>Fragments of the assignment\<close>

lemma item_bag_concat: "item_bag (concat gs) = (\<Sum>g\<in>#mset gs. item_bag g)"
  by (induction gs) simp_all

lemma rmap_item_bag:
  "rmap g xs = Inr ys \<Longrightarrow> (\<And>x y. g x = Inr y \<Longrightarrow> item_bag y = item_bag (h x)) \<Longrightarrow> item_bag (concat ys) = item_bag (concat (map h xs))"
  by (induction xs arbitrary: ys) (auto simp: result_simps)

lemma singles_bag:
  "rmap (\<lambda>it. from_items trig alphabetic [it] w) items = Inr fs \<Longrightarrow> item_bag fs = mset items"
  using item_bag_rmap [of "\<lambda>it. from_items trig alphabetic [it] w" items fs lf_items "\<lambda>it. [it]"] from_items_mset
  by (simp add: item_bag_all all_items_def)

lemma assignment_fragments_bag:
  assumes "assignment_fragments trig alphabetic geo config page items ds = Inr fs"
  shows "item_bag fs = mset items"
proof -
  let ?slanted = "filter (native_oblique_item trig) items" and ?upright = "filter (\<lambda>it. \<not> native_oblique_item trig it) items"
  obtain singles groups slanted where parts: "rmap (\<lambda>it. from_items trig alphabetic [it] (width page)) ?upright = Inr singles"
      "rmap (\<lambda>group. attach_scripts trig alphabetic (width page) (snd group))
         (formula_groups trig alphabetic singles (page_formula_regions geo page ds)) = Inr groups"
      "fragments trig alphabetic config ?slanted = Inr slanted" "fs = concat groups @ slanted"
    using assms by (auto simp: assignment_fragments_def result_simps)
  have "item_bag (concat groups) = item_bag (concat (map snd (formula_groups trig alphabetic singles (page_formula_regions geo page ds))))"
    using parts(2) by (rule rmap_item_bag) (rule attach_scripts_bag)
  also have "\<dots> = item_bag singles"
    using formula_groups_bag [of trig alphabetic singles] by (simp add: item_bag_all all_items_def map_concat comp_def concat_concat_map)
  also have "\<dots> = mset ?upright" by (rule singles_bag [OF parts(1)])
  finally have "item_bag fs = mset ?upright + mset ?slanted"
    using fragments_mset [OF parts(3)] by (simp only: parts(4) item_bag_simps item_bag_all [of slanted])
  also have "\<dots> = mset items" by (rule mset_filter_both)
  finally show ?thesis .
qed

lemma assignment_fragments_total:
  assumes "\<forall>it\<in>set items. sound_item it"
  shows "\<exists>fs. assignment_fragments trig alphabetic geo config page items ds = Inr fs \<and> (\<forall>f\<in>set fs. sound_fragment f)"
proof -
  let ?slanted = "filter (native_oblique_item trig) items" and ?upright = "filter (\<lambda>it. \<not> native_oblique_item trig it) items"
  obtain singles where singles: "rmap (\<lambda>it. from_items trig alphabetic [it] (width page)) ?upright = Inr singles" "\<forall>f\<in>set singles. sound_fragment f"
    using rmap_total [of ?upright "\<lambda>it. from_items trig alphabetic [it] (width page)" sound_fragment] singleton_total assms by fastforce
  let ?groups = "formula_groups trig alphabetic singles (page_formula_regions geo page ds)"
  have "\<forall>f\<in>set (snd g). sound_fragment f" if "g \<in> set ?groups" for g
    using that singles(2) by (auto simp: formula_groups_def Let_def dest!: set_zip_leftD)
  then obtain groups where groups: "rmap (\<lambda>group. attach_scripts trig alphabetic (width page) (snd group)) ?groups = Inr groups"
      "\<forall>g\<in>set groups. \<forall>f\<in>set g. sound_fragment f"
    using rmap_total [of ?groups "\<lambda>group. attach_scripts trig alphabetic (width page) (snd group)" "\<lambda>g. \<forall>f\<in>set g. sound_fragment f"]
      attach_scripts_total by fastforce
  obtain slanted where "fragments trig alphabetic config ?slanted = Inr slanted" "\<forall>f\<in>set slanted. sound_fragment f"
    using fragments_total [of ?slanted trig alphabetic config] assms by auto
  with singles(1) groups show ?thesis by (auto simp: assignment_fragments_def)
qed

section \<open>The seeds\<close>

lemma seed_try_from_fields:
  assumes "seed_try_from geo n page d = Inr sd"
  shows "sd_fragments sd = []" "assignment_evidence sd = []" "sd_index sd = dt_index d" "bbox_ok (sd_bbox sd)"
  using assms by (auto simp: seed_try_from_def result_simps valid_bbox_def bbox_ok_def)

definition fresh_seed :: "block_seed \<Rightarrow> bool" where
  "fresh_seed sd \<longleftrightarrow> sd_fragments sd = [] \<and> assignment_evidence sd = [] \<and> bbox_ok (sd_bbox sd)"

lemma sort_detection_fresh:
  "\<forall>sd\<in>set (model_seeds st) \<union> set (reference_seeds st). fresh_seed sd \<Longrightarrow>
   \<forall>sd\<in>set (model_seeds (sort_detection geo n page d st)) \<union> set (reference_seeds (sort_detection geo n page d st)). fresh_seed sd"
  using seed_try_from_fields [of geo n page d] by (auto simp: sort_detection_def fresh_seed_def split: sum.split)

lemma sort_detections_fresh:
  "\<forall>sd\<in>set (model_seeds (sort_detections geo n page ds)) \<union> set (reference_seeds (sort_detections geo n page ds)). fresh_seed sd"
proof -
  have "\<forall>sd\<in>set (model_seeds st') \<union> set (reference_seeds st'). fresh_seed sd"
    if "st' = fold (sort_detection geo n page) ds st" "\<forall>sd\<in>set (model_seeds st) \<union> set (reference_seeds st). fresh_seed sd" for st st'
    using that
  proof (induction ds arbitrary: st)
    case (Cons d ds)
    from Cons.prems(1) have "st' = fold (sort_detection geo n page) ds (sort_detection geo n page d st)" by simp
    from Cons.IH [OF this sort_detection_fresh [OF Cons.prems(2)]] show ?case .
  qed simp
  from this [OF refl, of "\<lparr>model_seeds = [], reference_seeds = [], inline_formulas = [], assign_diagnostics = []\<rparr>"]
  show ?thesis by (simp add: sort_detections_def Let_def)
qed

lemma sort_detection_indices:
  "mset (map sd_index (model_seeds (sort_detection geo n page d st))) \<subseteq># add_mset (dt_index d) (mset (map sd_index (model_seeds st)))"
  using seed_try_from_fields(3) [of geo n page d] by (auto simp: sort_detection_def split: sum.split)

lemma sort_detections_indices: "mset (map sd_index (model_seeds (sort_detections geo n page ds))) \<subseteq># mset (map dt_index ds)"
proof -
  have "mset (map sd_index (model_seeds (fold (sort_detection geo n page) ds st))) \<subseteq># mset (map sd_index (model_seeds st)) + mset (map dt_index ds)" for st
  proof (induction ds arbitrary: st)
    case (Cons d ds)
    have "mset (map sd_index (model_seeds (fold (sort_detection geo n page) (d # ds) st))) \<subseteq>#
        mset (map sd_index (model_seeds (sort_detection geo n page d st))) + mset (map dt_index ds)"
      using Cons.IH [of "sort_detection geo n page d st"] by simp
    also have "\<dots> \<subseteq># add_mset (dt_index d) (mset (map sd_index (model_seeds st))) + mset (map dt_index ds)"
      by (rule subset_mset.add_right_mono [OF sort_detection_indices])
    finally show ?case by simp
  qed simp
  from this [of "\<lparr>model_seeds = [], reference_seeds = [], inline_formulas = [], assign_diagnostics = []\<rparr>"] show ?thesis
    by (simp add: sort_detections_def Let_def)
qed

section \<open>The result\<close>

definition result_items :: "assignment_result \<Rightarrow> text_item list" where
  "result_items r = concat (map lf_items (concat (map sd_fragments (as_model_seeds r)) @ as_residual r))"

lemma assign_result:
  assumes "assign trig alphabetic geo config n page items ds = Inr r"
  obtains fs seeds where "assignment_fragments trig alphabetic geo config page items ds = Inr fs"
    "fold (assign_fragment (score trig geo config page)) fs (model_seeds (sort_detections geo n page ds), []) = (seeds, as_residual r)"
    "as_model_seeds r = map sort_fragments seeds" "as_reference_seeds r = reference_seeds (sort_detections geo n page ds)"
proof -
  from assms obtain fs where fs: "assignment_fragments trig alphabetic geo config page items ds = Inr fs"
    by (auto simp: assign_def result_simps Let_def)
  obtain seeds residual where st: "fold (assign_fragment (score trig geo config page)) fs (model_seeds (sort_detections geo n page ds), []) = (seeds, residual)"
    by fastforce
  from assms fs st have "as_residual r = residual" "as_model_seeds r = map sort_fragments seeds"
    "as_reference_seeds r = reference_seeds (sort_detections geo n page ds)"
    by (auto simp: assign_def Let_def)
  with fs st that show ?thesis by blast
qed

lemma owned_fresh: "\<forall>sd\<in>set seeds. fresh_seed sd \<Longrightarrow> owned_fragments seeds = []"
  by (auto simp: owned_fragments_def fresh_seed_def)

lemma mset_owned_sort: "mset (owned_fragments (map sort_fragments seeds)) = mset (owned_fragments seeds)"
  by (induction seeds) (simp_all add: owned_fragments_def sort_fragments_def)

lemma assign_items:
  assumes "assign trig alphabetic geo config n page items ds = Inr r"
  shows "mset (result_items r) = mset items"
proof -
  obtain fs seeds where r: "assignment_fragments trig alphabetic geo config page items ds = Inr fs"
    "fold (assign_fragment (score trig geo config page)) fs (model_seeds (sort_detections geo n page ds), []) = (seeds, as_residual r)"
    "as_model_seeds r = map sort_fragments seeds" by (rule assign_result [OF assms])
  have "mset (owned_fragments (as_model_seeds r) @ as_residual r) = mset fs"
    using assign_fold_spec [OF r(2)] owned_fresh [of "model_seeds (sort_detections geo n page ds)"] sort_detections_fresh [of geo n page ds]
    by (simp add: r(3) mset_owned_sort)
  then have "item_bag (owned_fragments (as_model_seeds r) @ as_residual r) = item_bag fs" by (simp add: item_bag_def)
  with assignment_fragments_bag [OF r(1)] show ?thesis by (simp add: result_items_def owned_fragments_def item_bag_all all_items_def)
qed

lemma assign_total:
  assumes "\<forall>it\<in>set items. sound_item it"
  shows "\<exists>r. assign trig alphabetic geo config n page items ds = Inr r"
proof -
  obtain fs where "assignment_fragments trig alphabetic geo config page items ds = Inr fs"
    using assignment_fragments_total [OF assms] by blast
  then show ?thesis by (simp add: assign_def Let_def split: prod.split)
qed

lemma assign_seed_fields:
  assumes "assign trig alphabetic geo config n page items ds = Inr r"
  shows "\<forall>sd\<in>set (as_model_seeds r). bbox_ok (sd_bbox sd)" "map sd_index (as_model_seeds r) = map sd_index (model_seeds (sort_detections geo n page ds))"
proof -
  let ?seeds = "model_seeds (sort_detections geo n page ds)"
  obtain fs seeds where r: "fold (assign_fragment (score trig geo config page)) fs (?seeds, []) = (seeds, as_residual r)"
    "as_model_seeds r = map sort_fragments seeds" by (rule assign_result [OF assms])
  have "map blank_seed (as_model_seeds r) = map blank_seed ?seeds" using assign_fold_spec [OF r(1)] by (simp add: r(2) comp_def)
  then have "map (g \<circ> blank_seed) (as_model_seeds r) = map (g \<circ> blank_seed) ?seeds" for g :: "block_seed \<Rightarrow> 'a" by (metis map_map)
  from this [of sd_index] this [of sd_bbox]
  have "map sd_index (as_model_seeds r) = map sd_index ?seeds" and boxes: "map sd_bbox (as_model_seeds r) = map sd_bbox ?seeds"
    by (simp_all add: comp_def blank_fields)
  moreover have "\<forall>b\<in>set (map sd_bbox ?seeds). bbox_ok b" using sort_detections_fresh [of geo n page ds] by (auto simp: fresh_seed_def)
  ultimately show "\<forall>sd\<in>set (as_model_seeds r). bbox_ok (sd_bbox sd)" "map sd_index (as_model_seeds r) = map sd_index ?seeds"
    unfolding boxes [symmetric] by auto
qed

section \<open>Properties\<close>

text \<open>
  Every text item has one owner. When the items of a page have been assigned, the fragments of
  all model seeds and the residual fragments together hold exactly the items of the page; the
  envelopes of references own no text; and a seed has one piece of evidence for each fragment.
\<close>

lemma assignment_gives_every_item_one_owner:
  assumes "assign trig alphabetic geo config n page items ds = Inr r"
  shows "mset (concat (map lf_items (concat (map sd_fragments (as_model_seeds r)) @ as_residual r))) = mset items \<and>
    (\<forall>sd\<in>set (as_reference_seeds r). sd_fragments sd = []) \<and>
    (\<forall>sd\<in>set (as_model_seeds r). length (assignment_evidence sd) = length (sd_fragments sd))"
proof -
  obtain fs seeds where r:
    "fold (assign_fragment (score trig geo config page)) fs (model_seeds (sort_detections geo n page ds), []) = (seeds, as_residual r)"
    "as_model_seeds r = map sort_fragments seeds" "as_reference_seeds r = reference_seeds (sort_detections geo n page ds)"
    by (rule assign_result [OF assms])
  note fresh = sort_detections_fresh [of geo n page ds]
  have "\<forall>sd\<in>set seeds. length (assignment_evidence sd) = length (sd_fragments sd)"
    by (rule fold_counts [OF _ r(1)]) (use fresh in \<open>auto simp: fresh_seed_def\<close>)
  with fresh r(2,3) assign_items [OF assms] show ?thesis
    by (auto simp: result_items_def fresh_seed_def sort_fragments_def)
qed

text \<open>
  C14: The owner is the best region. An upright fragment lies in a seed that scores it and whose
  candidate key (score, coverage, confidence, then smaller area, model order and index) no other
  seed that scores it exceeds; an upright fragment is residual only if no seed accepts it.
\<close>

theorem owners_are_the_best_candidates:
  assumes "assign trig alphabetic geo config n page items ds = Inr r" and "\<not> native_oblique trig f"
  shows "(sd \<in> set (as_model_seeds r) \<and> f \<in> set (sd_fragments sd) \<longrightarrow>
      (\<exists>v. score trig geo config page f sd = Some v \<and>
        (\<forall>other\<in>set (as_model_seeds r). \<forall>w. score trig geo config page f other = Some w \<longrightarrow> candidate_key other w \<le> candidate_key sd v))) \<and>
    (f \<in> set (as_residual r) \<longrightarrow> (\<forall>sd\<in>set (as_model_seeds r). score trig geo config page f sd = None))"
proof -
  let ?sc = "score trig geo config page" and ?seeds = "model_seeds (sort_detections geo n page ds)"
  obtain fs seeds where r: "fold (assign_fragment ?sc) fs (?seeds, []) = (seeds, as_residual r)" "as_model_seeds r = map sort_fragments seeds"
    by (rule assign_result [OF assms(1)])
  have "well_placed trig ?sc ?seeds []"
    using sort_detections_fresh [of geo n page ds] by (auto simp: well_placed_def fresh_seed_def)
  then have placed: "well_placed trig ?sc seeds (as_residual r)" by (rule assign_fold_placed [OF _ r(1)]) (rule score_blank)
  have blanks: "blank_seed ` set (as_model_seeds r) = blank_seed ` set seeds" by (simp add: r(2) image_image)
  have same: "?sc f (blank_seed sd) = ?sc f sd" for sd by (rule score_blank [OF assms(2)])
  have "\<exists>v. best_of (?sc f) (blank_seed ` set seeds) (blank_seed sd) v" if "sd \<in> set (as_model_seeds r)" "f \<in> set (sd_fragments sd)"
    using that placed assms(2) by (auto simp: well_placed_def r(2) sort_fragments_def blank_seed_def)
  then have owner: "\<exists>v. best_of (?sc f) (blank_seed ` set (as_model_seeds r)) (blank_seed sd) v"
    if "sd \<in> set (as_model_seeds r)" "f \<in> set (sd_fragments sd)" using that by (simp add: blanks)
  have residual: "?sc f sd = None" if "f \<in> set (as_residual r)" "sd \<in> set (as_model_seeds r)" for sd
  proof -
    from that(2) obtain x where "x \<in> set seeds" "blank_seed sd = blank_seed x" using blanks by blast
    with placed that(1) assms(2) same show ?thesis by (metis well_placed_def)
  qed
  from owner residual show ?thesis by (auto simp: best_of_def same)
qed

section \<open>A page with one region\<close>

definition one_region :: "detection list" where
  "one_region = [\<lparr>dt_index = 0, dt_raw_label = [], class_id = 22, dt_label = Text, dt_confidence = Fin (1 / 2),
     dt_bbox = box 0 90 100 120, dt_polygon = None, dt_geometry_source = DerivedFromBbox, dt_order = 0\<rparr>]"

lemma one_region_assigned:
  obtains r where "assign level_trig ascii_letter box_geo default_fusion_config 1 (box 0 0 200 200) formula_page one_region = Inr r"
  using assign_total [OF formula_page_sound] by blast

lemma assignment_gives_every_item_one_owner_example:
  "\<exists>r. assign level_trig ascii_letter box_geo default_fusion_config 1 (box 0 0 200 200) formula_page one_region = Inr r \<and>
     mset (concat (map lf_items (concat (map sd_fragments (as_model_seeds r)) @ as_residual r))) = mset formula_page"
  by (rule one_region_assigned) (use assignment_gives_every_item_one_owner in blast)

definition scanned_text :: "text_item list" where
  "scanned_text = map (\<lambda>it. it\<lparr>it_source := Ocr\<rparr>) formula_page"

lemma scanned_text_sound: "\<forall>it\<in>set scanned_text. sound_item it"
  using formula_page_sound by (simp add: scanned_text_def sound_item_def)

theorem owners_are_the_best_candidates_witness:
  "\<exists>r f. assign level_trig ascii_letter box_geo default_fusion_config 1 (box 0 0 200 200) scanned_text one_region = Inr r \<and>
     hd scanned_text \<in> set (lf_items f) \<and>
     (f \<in> set (as_residual r) \<and> (\<forall>sd\<in>set (as_model_seeds r). score level_trig box_geo default_fusion_config (box 0 0 200 200) f sd = None) \<or>
      (\<exists>sd\<in>set (as_model_seeds r). f \<in> set (sd_fragments sd) \<and> score level_trig box_geo default_fusion_config (box 0 0 200 200) f sd \<noteq> None))"
proof -
  obtain r where r: "assign level_trig ascii_letter box_geo default_fusion_config 1 (box 0 0 200 200) scanned_text one_region = Inr r"
    using assign_total [OF scanned_text_sound] by blast
  have "hd scanned_text \<in># mset (concat (map lf_items (concat (map sd_fragments (as_model_seeds r)) @ as_residual r)))"
    using assignment_gives_every_item_one_owner [OF r] by (simp add: scanned_text_def formula_page_def)
  then obtain f where f: "hd scanned_text \<in> set (lf_items f)" "f \<in> set (as_residual r) \<or> (\<exists>sd\<in>set (as_model_seeds r). f \<in> set (sd_fragments sd))"
    by auto
  have "it_source (hd scanned_text) \<noteq> Native" by (simp add: scanned_text_def formula_page_def)
  with f(1) have "\<not> native_oblique level_trig f" by (auto simp: native_oblique_def)
  note best = owners_are_the_best_candidates [OF r this]
  show ?thesis
  proof (cases "f \<in> set (as_residual r)")
    case True
    with best r f(1) show ?thesis by blast
  next
    case False
    with f(2) obtain sd where "sd \<in> set (as_model_seeds r)" "f \<in> set (sd_fragments sd)" by blast
    with best [of sd] r f(1) show ?thesis by fast
  qed
qed

end
