(* ===== verification/Semantic_Bags.thy ===== *)
theory Semantic_Bags
  imports Block_Merge Assign_Properties Xy_Cut_Properties
begin

text \<open>
  Text and shape through the semantic stage: what a block owns, up to the number that its place in
  a line gives an item; the form of every block that is built; and when no step fails.
\<close>

section \<open>Items up to their number\<close>

definition bare :: "text_item \<Rightarrow> text_item" where
  "bare it = it\<lparr>it_final_order := 0\<rparr>"

definition bare_bag :: "text_item list \<Rightarrow> text_item multiset" where
  "bare_bag items = mset (map bare items)"

definition blocks_items :: "block list \<Rightarrow> text_item list" where
  "blocks_items bs = concat (map block_items bs)"

lemma bare_id [simp]: "it_id (bare it) = it_id it"
  by (simp add: bare_def)

lemma sound_bare [simp]: "sound_item (bare it) = sound_item it"
  by (rule sound_item_cong) (simp_all add: bare_def)

lemma bare_bag_append [simp]: "bare_bag (xs @ ys) = bare_bag xs + bare_bag ys"
  by (simp add: bare_bag_def)

lemma bare_bag_mset: "mset xs = mset ys \<Longrightarrow> bare_bag xs = bare_bag ys"
  by (simp add: bare_bag_def)

lemma bare_bag_ids: "bare_bag xs = bare_bag ys \<Longrightarrow> mset (map it_id xs) = mset (map it_id ys)"
proof -
  assume "bare_bag xs = bare_bag ys"
  then have "mset (map it_id (map bare xs)) = mset (map it_id (map bare ys))" by (simp add: bare_bag_def del: map_map)
  then show ?thesis by (simp add: comp_def)
qed

lemma bare_bag_unique: "bare_bag xs = bare_bag ys \<Longrightarrow> unique_ids xs = unique_ids ys"
  using bare_bag_ids mset_eq_imp_distinct_iff by blast

lemma bare_bag_sound:
  assumes "bare_bag xs = bare_bag ys" "\<forall>it\<in>set ys. sound_item it"
  shows "\<forall>it\<in>set xs. sound_item it"
proof -
  have "bare ` set xs = bare ` set ys" using assms(1) by (metis bare_bag_def list.set_map mset_eq_setD)
  with assms(2) show ?thesis by (metis (no_types, lifting) imageE imageI sound_bare)
qed

lemma blocks_items_simps [simp]:
  "blocks_items [] = []" "blocks_items (b # bs) = block_items b @ blocks_items bs" "blocks_items (bs @ cs) = blocks_items bs @ blocks_items cs"
  by (simp_all add: blocks_items_def)

lemma blocks_items_mset: "mset bs = mset cs \<Longrightarrow> mset (blocks_items bs) = mset (blocks_items cs)"
proof -
  have "mset (blocks_items bs) = (\<Sum>b\<in>#mset bs. mset (block_items b))" for bs by (induction bs) simp_all
  then show "mset bs = mset cs \<Longrightarrow> ?thesis" by simp
qed

section \<open>Lines of a block\<close>

lemma number_items_bare: "map bare (number_items items) = map bare items"
proof -
  have "map bare (map (\<lambda>(i, it). it\<lparr>it_final_order := saturate_u32 i\<rparr>) (List.enumerate n items)) = map bare items" for n
    by (induction items arbitrary: n) (auto simp: bare_def)
  then show ?thesis by (simp add: number_items_def)
qed

lemma number_items_orders: "map it_final_order (number_items items) = map saturate_u32 [0..<length items]"
  by (auto simp: number_items_def intro!: nth_equalityI simp: nth_enumerate_eq)

lemma block_lines_bag: "bare_bag (concat (map text_items (block_lines owner fs))) = bare_bag (all_items fs)"
proof -
  have "map bare (concat (map text_items (map (fragment_line owner) (List.enumerate n fs)))) = map bare (concat (map lf_items fs))" for n
    by (induction fs arbitrary: n) (auto simp: fragment_line_def Let_def number_items_bare)
  then show ?thesis by (simp add: bare_bag_def block_lines_def all_items_def)
qed

lemma block_lines_boxes: "map ln_bbox (block_lines owner fs) = map lf_bbox fs"
proof -
  have "map ln_bbox (map (fragment_line owner) (List.enumerate n fs)) = map lf_bbox fs" for n
    by (induction fs arbitrary: n) (auto simp: fragment_line_def Let_def)
  then show ?thesis by (simp add: block_lines_def)
qed

lemma content_bbox_total:
  assumes "\<forall>f\<in>set fs. bbox_ok (lf_bbox f)"
  shows "\<exists>v. content_bbox (block_lines owner fs) = Inr v \<and> (\<forall>b. v = Some b \<longrightarrow> bbox_ok b)"
proof -
  have boxes: "\<forall>l\<in>set (block_lines owner fs). bbox_ok (ln_bbox l)"
    using assms block_lines_boxes [of owner fs] by (metis (no_types, lifting) imageE imageI list.set_map)
  show ?thesis
  proof (cases "block_lines owner fs")
    case (Cons l rest)
    have "\<exists>b. rfold (\<lambda>l b. union_bbox b (ln_bbox l)) rest (ln_bbox l) = Inr b \<and> bbox_ok b"
      by (rule rfold_total) (use boxes Cons union_total in auto)
    with Cons show ?thesis by (auto simp: content_bbox_def)
  qed (simp add: content_bbox_def)
qed

text \<open>The form of a block: its lines are named and numbered by place and its text is derived from them.\<close>

definition tidy_line :: "line \<Rightarrow> bool" where
  "tidy_line l \<longleftrightarrow> ln_text l = derive_line_text (text_items l) \<and>
     map it_final_order (text_items l) = map saturate_u32 [0..<length (text_items l)]"

definition tidy_block :: "(f64 \<Rightarrow> f64 \<times> f64) \<Rightarrow> (uchar \<Rightarrow> bool) \<Rightarrow> block \<Rightarrow> bool" where
  "tidy_block trig alphabetic b \<longleftrightarrow>
     list_all tidy_line (lines_of b) \<and>
     map ln_id (lines_of b) = map (\<lambda>k. line_id_of (bk_id b) (saturate_u32 k)) [0..<length (lines_of b)] \<and>
     bk_text b = derive_block_text trig alphabetic (label b) (lines_of b) \<and> table_of b = None \<and> list_items b = []"

lemma block_lines_tidy: "list_all tidy_line (block_lines owner fs)"
  by (auto simp: list_all_iff block_lines_def fragment_line_def tidy_line_def Let_def number_items_orders split: prod.splits)
    (simp_all add: number_items_def)

lemma block_lines_ids: "map ln_id (block_lines owner fs) = map (\<lambda>k. line_id_of owner (saturate_u32 k)) [0..<length (block_lines owner fs)]"
  by (auto simp: block_lines_def fragment_line_def Let_def nth_enumerate_eq intro!: nth_equalityI)

section \<open>Reassembly\<close>

lemma reassemble_bag:
  "reassemble trig alphabetic sa fs = Inr gs \<Longrightarrow> unique_ids (all_items fs) \<Longrightarrow> mset (all_items gs) = mset (all_items fs)"
  by (auto simp: reassemble_def intro: fragments_with_formulas_mset)

lemma reassemble_total:
  "\<forall>it\<in>set (all_items fs). sound_item it \<Longrightarrow> unique_ids (all_items fs) \<Longrightarrow>
   \<exists>gs. reassemble trig alphabetic sa fs = Inr gs \<and> (\<forall>g\<in>set gs. bbox_ok (lf_bbox g))"
  by (simp add: reassemble_def fragments_with_formulas_boxes)

section \<open>Model blocks\<close>

lemma model_blocks_result:
  assumes "model_blocks trig alphabetic geo sa sd = Inr out"
  obtains b fs where "so_blocks out = [b]" "reassemble trig alphabetic sa (sd_fragments sd) = Inr fs"
    "lines_of b = block_lines (bk_id b) fs" "bk_id b = model_block_id (sa_page sa) (sd_index sd) 0" "tidy_block trig alphabetic b"
  using assms
  by (auto simp: model_blocks_def model_block_def result_simps Let_def tidy_block_def block_lines_tidy block_lines_ids [symmetric])

lemma model_blocks_bag:
  assumes "model_blocks trig alphabetic geo sa sd = Inr out" "unique_ids (all_items (sd_fragments sd))"
  shows "bare_bag (blocks_items (so_blocks out)) = bare_bag (all_items (sd_fragments sd))"
proof -
  obtain b fs where b: "so_blocks out = [b]" "reassemble trig alphabetic sa (sd_fragments sd) = Inr fs" "lines_of b = block_lines (bk_id b) fs"
    by (rule model_blocks_result [OF assms(1)])
  have "bare_bag (blocks_items (so_blocks out)) = bare_bag (all_items fs)" by (simp add: b(1,3) block_items_def block_lines_bag)
  also have "\<dots> = bare_bag (all_items (sd_fragments sd))" by (rule bare_bag_mset [OF reassemble_bag [OF b(2) assms(2)]])
  finally show ?thesis .
qed

lemma model_blocks_total:
  assumes "\<forall>it\<in>set (all_items (sd_fragments sd)). sound_item it" "unique_ids (all_items (sd_fragments sd))" "bbox_ok (sd_bbox sd)"
  shows "\<exists>out. model_blocks trig alphabetic geo sa sd = Inr out \<and> (\<forall>b\<in>set (so_blocks out). bbox_ok (bk_bbox b))"
proof -
  obtain fs where fs: "reassemble trig alphabetic sa (sd_fragments sd) = Inr fs" "\<forall>f\<in>set fs. bbox_ok (lf_bbox f)"
    using reassemble_total [OF assms(1,2)] by blast
  obtain v where v: "content_bbox (block_lines (model_block_id (sa_page sa) (sd_index sd) 0) fs) = Inr v" "\<forall>b. v = Some b \<longrightarrow> bbox_ok b"
    using content_bbox_total [OF fs(2)] by blast
  have ok: "bbox_ok (unwrap_or v (sd_bbox sd))" using v(2) assms(3) by (cases v) (auto simp: unwrap_or_def)
  obtain u where "union_bbox (sd_bbox sd) (unwrap_or v (sd_bbox sd)) = Inr u" "bbox_ok u" using union_total [OF assms(3) ok] by blast
  with fs(1) v(1) ok show ?thesis by (auto simp: model_blocks_def model_block_def Let_def in_geometry_def)
qed

section \<open>Residual blocks\<close>

lemma mset_paragraph_groups: "mset (concat (fallback_paragraph_groups trig config fs)) = mset fs"
  by (simp add: fallback_paragraph_groups_def concat_fold_push_last)

lemma fallback_block_result:
  assumes "fallback_block trig alphabetic geo sa path (k, fs) = Inr b"
  shows "lines_of b = block_lines (bk_id b) fs" "bk_id b = fallback_block_id (sa_page sa) path (saturate_u32 k)" "tidy_block trig alphabetic b"
  using assms by (auto simp: fallback_block_def result_simps Let_def tidy_block_def block_lines_tidy block_lines_ids [symmetric])

text \<open>A leaf whose fragments are at hand.\<close>

definition leaf_blocks ::
  "(f64 \<Rightarrow> f64 \<times> f64) \<Rightarrow> (uchar \<Rightarrow> bool) \<Rightarrow> geo_ops \<Rightarrow> semantic_assembler \<Rightarrow> line_fragment list \<Rightarrow> rstr \<times> nat list \<Rightarrow> semantic_error + block list" where
  "leaf_blocks trig alphabetic geo sa fs entry =
     rbind (reassemble trig alphabetic sa (map ((!) fs) (snd entry))) (\<lambda>gs.
     rmap (fallback_block trig alphabetic geo sa (fst entry)) (List.enumerate 0 (fallback_paragraph_groups trig (sa_config sa) gs)))"

lemma visit_slots:
  assumes "distinct js" "\<forall>j\<in>set js. j < length places \<and> places ! j = Some (fs ! j)"
  shows "\<exists>places'. rfold take_slot js (places, acc) = Inr (places', acc @ map ((!) fs) js) \<and> length places' = length places \<and>
    (\<forall>i<length places. i \<notin> set js \<longrightarrow> places' ! i = places ! i)"
  using assms
proof (induction js arbitrary: places acc)
  case (Cons j js)
  have step: "take_slot j (places, acc) = Inr (places[j := None], acc @ [fs ! j])"
    using Cons.prems(2) by (simp add: take_slot_def get_at_def)
  have "\<forall>i\<in>set js. i < length (places[j := None]) \<and> places[j := None] ! i = Some (fs ! i)"
    using Cons.prems by (auto simp: nth_list_update)
  with Cons.prems(1) Cons.IH [of "places[j := None]" "acc @ [fs ! j]"] obtain places' where
    "rfold take_slot js (places[j := None], acc @ [fs ! j]) = Inr (places', (acc @ [fs ! j]) @ map ((!) fs) js)"
    "length places' = length places" "\<forall>i<length places. i \<notin> set js \<longrightarrow> places' ! i = places[j := None] ! i" by auto
  with step show ?case by auto
qed simp

text \<open>The slots never fail: the loop is the leaves one after another.\<close>

lemma fallback_leaves:
  assumes "distinct (concat (map snd leaves))" "\<forall>j\<in>set (concat (map snd leaves)). j < length places \<and> places ! j = Some (fs ! j)"
  shows "\<exists>places'. rfold (fallback_leaf trig alphabetic geo sa) leaves (places, bs) =
    rbind (rmap (leaf_blocks trig alphabetic geo sa fs) leaves) (\<lambda>bss. Inr (places', bs @ concat bss))"
  using assms
proof (induction leaves arbitrary: places bs)
  case (Cons leaf leaves)
  from Cons.prems have here: "distinct (snd leaf)" "\<forall>j\<in>set (snd leaf). j < length places \<and> places ! j = Some (fs ! j)"
    and rest: "distinct (concat (map snd leaves))" "set (snd leaf) \<inter> set (concat (map snd leaves)) = {}" by auto
  obtain places' where places': "rfold take_slot (snd leaf) (places, []) = Inr (places', map ((!) fs) (snd leaf))"
      "length places' = length places" "\<forall>i<length places. i \<notin> set (snd leaf) \<longrightarrow> places' ! i = places ! i"
    using visit_slots [OF here, of "[]"] by auto
  have step: "fallback_leaf trig alphabetic geo sa leaf (places, bs) =
      rbind (leaf_blocks trig alphabetic geo sa fs leaf) (\<lambda>cs. Inr (places', bs @ cs))"
    using places'(1) by (cases "reassemble trig alphabetic sa (map ((!) fs) (snd leaf))") (simp_all add: fallback_leaf_def leaf_blocks_def)
  have ready: "\<forall>j\<in>set (concat (map snd leaves)). j < length places' \<and> places' ! j = Some (fs ! j)"
  proof
    fix j assume j: "j \<in> set (concat (map snd leaves))"
    with Cons.prems(2) have "j < length places" "places ! j = Some (fs ! j)" by auto
    moreover have "j \<notin> set (snd leaf)" using j rest(2) by blast
    ultimately show "j < length places' \<and> places' ! j = Some (fs ! j)" using places'(2,3) by simp
  qed
  show ?case
  proof (cases "leaf_blocks trig alphabetic geo sa fs leaf")
    case (Inr cs)
    obtain s where "rfold (fallback_leaf trig alphabetic geo sa) leaves (places', bs @ cs) =
        rbind (rmap (leaf_blocks trig alphabetic geo sa fs) leaves) (\<lambda>bss. Inr (s, (bs @ cs) @ concat bss))"
      using Cons.IH [OF rest(1) ready, of "bs @ cs"] by blast
    then show ?thesis
      by (cases "rmap (leaf_blocks trig alphabetic geo sa fs) leaves") (auto simp: step Inr)
  qed (simp add: step)
qed simp

definition partitions :: "region_tree \<Rightarrow> line_fragment list \<Rightarrow> bool" where
  "partitions tree fs \<longleftrightarrow> mset (concat (map snd (visit_leaves tree))) = mset [0..<length fs]"

lemma partitions_indices:
  assumes "partitions tree fs"
  shows "distinct (concat (map snd (visit_leaves tree)))" "set (concat (map snd (visit_leaves tree))) = {..<length fs}"
proof -
  from assms have e: "mset (concat (map snd (visit_leaves tree))) = mset [0..<length fs]" by (simp add: partitions_def)
  show "distinct (concat (map snd (visit_leaves tree)))" using mset_eq_imp_distinct_iff [OF e] by simp
  show "set (concat (map snd (visit_leaves tree))) = {..<length fs}" using mset_eq_setD [OF e] by auto
qed

lemma fallback_blocks_leaves:
  assumes "partitions tree fs"
  shows "fallback_blocks trig alphabetic geo sa fs tree =
    rbind (rmap (leaf_blocks trig alphabetic geo sa fs) (visit_leaves tree)) (\<lambda>bss. Inr \<lparr>so_blocks = concat bss, so_warnings = []\<rparr>)"
proof -
  have "\<forall>j\<in>set (concat (map snd (visit_leaves tree))). j < length (map Some fs) \<and> map Some fs ! j = Some (fs ! j)"
    using partitions_indices(2) [OF assms] by auto
  from fallback_leaves [OF partitions_indices(1) [OF assms] this, of trig alphabetic geo sa "[]"] show ?thesis
    by (cases "rmap (leaf_blocks trig alphabetic geo sa fs) (visit_leaves tree)") (auto simp: fallback_blocks_def)
qed

lemma mset_partition_fragments:
  assumes "partitions tree fs"
  shows "mset (concat (map (\<lambda>leaf. map ((!) fs) (snd leaf)) (visit_leaves tree))) = mset fs"
proof -
  have "concat (map (\<lambda>leaf. map ((!) fs) (snd leaf)) leaves) = map ((!) fs) (concat (map snd leaves))" for leaves :: "(rstr \<times> nat list) list"
    by (induction leaves) simp_all
  then have "mset (concat (map (\<lambda>leaf. map ((!) fs) (snd leaf)) (visit_leaves tree))) = image_mset ((!) fs) (mset (concat (map snd (visit_leaves tree))))"
    by (metis mset_map)
  also have "\<dots> = mset (map ((!) fs) [0..<length fs])" using assms by (simp add: partitions_def)
  finally show ?thesis by (simp only: map_nth)
qed

lemma paragraph_blocks_bag:
  assumes "rmap (fallback_block trig alphabetic geo sa path) (List.enumerate n groups) = Inr bs"
  shows "bare_bag (blocks_items bs) = bare_bag (all_items (concat groups))"
  using assms
proof (induction groups arbitrary: n bs)
  case (Cons g groups)
  then obtain b cs where b: "fallback_block trig alphabetic geo sa path (n, g) = Inr b" "bs = b # cs"
    and cs: "rmap (fallback_block trig alphabetic geo sa path) (List.enumerate (Suc n) groups) = Inr cs"
    by (auto simp: result_simps)
  with Cons.IH [OF cs] fallback_block_result(1) [OF b(1)] show ?case
    by (simp add: block_items_def block_lines_bag) (simp add: all_items_def)
qed (simp add: all_items_def bare_bag_def)

lemma leaf_blocks_bag:
  assumes "leaf_blocks trig alphabetic geo sa fs leaf = Inr bs" "unique_ids (all_items (map ((!) fs) (snd leaf)))"
  shows "bare_bag (blocks_items bs) = bare_bag (all_items (map ((!) fs) (snd leaf)))"
proof -
  obtain gs where gs: "reassemble trig alphabetic sa (map ((!) fs) (snd leaf)) = Inr gs"
    and bs: "rmap (fallback_block trig alphabetic geo sa (fst leaf)) (List.enumerate 0 (fallback_paragraph_groups trig (sa_config sa) gs)) = Inr bs"
    using assms(1) by (auto simp: leaf_blocks_def result_simps)
  let ?groups = "fallback_paragraph_groups trig (sa_config sa) gs"
  have "bare_bag (blocks_items bs) = bare_bag (all_items (concat ?groups))" by (rule paragraph_blocks_bag [OF bs])
  also have "\<dots> = bare_bag (all_items gs)"
    using mset_paragraph_groups [of trig "sa_config sa" gs] by (intro bare_bag_mset) (simp only: mset_all_items item_bag_def)
  also have "\<dots> = bare_bag (all_items (map ((!) fs) (snd leaf)))" by (rule bare_bag_mset [OF reassemble_bag [OF gs assms(2)]])
  finally show ?thesis .
qed

lemma unique_ids_concat: "unique_ids (concat xss) \<Longrightarrow> xs \<in> set xss \<Longrightarrow> unique_ids xs"
  by (induction xss) auto

lemma rmap_bare_bag:
  assumes "rmap g xs = Inr ys" "\<And>x y. x \<in> set xs \<Longrightarrow> g x = Inr y \<Longrightarrow> bare_bag (blocks_items y) = bare_bag (h x)"
  shows "bare_bag (blocks_items (concat ys)) = bare_bag (concat (map h xs))"
  using assms by (induction xs arbitrary: ys) (auto simp: result_simps)

lemma fallback_blocks_bag:
  assumes "fallback_blocks trig alphabetic geo sa fs tree = Inr out" "partitions tree fs" "unique_ids (all_items fs)"
  shows "bare_bag (blocks_items (so_blocks out)) = bare_bag (all_items fs)"
proof -
  obtain bss where bss: "rmap (leaf_blocks trig alphabetic geo sa fs) (visit_leaves tree) = Inr bss" "so_blocks out = concat bss"
    using assms(1) by (auto simp: fallback_blocks_leaves [OF assms(2)] result_simps)
  let ?leaf = "\<lambda>leaf. all_items (map ((!) fs) (snd leaf))"
  have "mset (concat (map ?leaf (visit_leaves tree))) = mset (all_items (concat (map (\<lambda>leaf. map ((!) fs) (snd leaf)) (visit_leaves tree))))"
    by (simp add: all_items_def map_concat concat_concat_map comp_def)
  also have "\<dots> = mset (all_items fs)" using mset_partition_fragments [OF assms(2)] by (simp only: mset_all_items item_bag_def)
  finally have all: "mset (concat (map ?leaf (visit_leaves tree))) = mset (all_items fs)" .
  have u: "unique_ids (concat (map ?leaf (visit_leaves tree)))" using unique_ids_mset [OF all] assms(3) by simp
  have "unique_ids (?leaf leaf)" if "leaf \<in> set (visit_leaves tree)" for leaf
    by (rule unique_ids_concat [OF u]) (use that in simp)
  then have "bare_bag (blocks_items (concat bss)) = bare_bag (concat (map ?leaf (visit_leaves tree)))"
    using rmap_bare_bag [OF bss(1), of ?leaf] leaf_blocks_bag by blast
  with bare_bag_mset [OF all] bss(2) show ?thesis by simp
qed

end
