(* ===== verification/Merge_Bags.thy ===== *)
theory Merge_Bags
  imports Semantic_Bags
begin

text \<open>
  Normalization moves text and never fails on valid boxes: the groups partition the blocks, a
  merged owner holds the items of its group, and the form of blocks is kept.
\<close>

lemma rmap_maps: "rmap g xs = Inr ys \<Longrightarrow> (\<And>x y. g x = Inr y \<Longrightarrow> h y = k x) \<Longrightarrow> map h ys = map k xs"
  by (induction xs arbitrary: ys) (auto simp: result_simps)

lemma all_items_concat: "all_items (concat gs) = concat (map all_items gs)"
  by (induction gs) (simp_all add: all_items_def)

section \<open>Residual blocks are built\<close>

lemma enumerate_snd: "(k, x) \<in> set (List.enumerate n xs) \<Longrightarrow> x \<in> set xs"
  by (auto simp: in_set_conv_nth nth_enumerate_eq)

lemma fallback_block_total:
  assumes "\<forall>f\<in>set (snd entry). bbox_ok (lf_bbox f)" "bbox_ok (sa_page_bbox sa)"
  shows "\<exists>b. fallback_block trig alphabetic geo sa path entry = Inr b \<and> bbox_ok (bk_bbox b)"
proof -
  obtain v where "content_bbox (block_lines (fallback_block_id (sa_page sa) path (saturate_u32 (fst entry))) (snd entry)) = Inr v"
      "\<forall>b. v = Some b \<longrightarrow> bbox_ok b" using content_bbox_total [OF assms(1)] by blast
  with assms(2) show ?thesis by (cases v) (auto simp: fallback_block_def Let_def unwrap_or_def)
qed

lemma leaf_blocks_total:
  assumes "\<forall>it\<in>set (all_items (map ((!) fs) (snd leaf))). sound_item it" "unique_ids (all_items (map ((!) fs) (snd leaf)))"
    and "bbox_ok (sa_page_bbox sa)"
  shows "\<exists>bs. leaf_blocks trig alphabetic geo sa fs leaf = Inr bs \<and> (\<forall>b\<in>set bs. bbox_ok (bk_bbox b))"
proof -
  obtain gs where gs: "reassemble trig alphabetic sa (map ((!) fs) (snd leaf)) = Inr gs" "\<forall>g\<in>set gs. bbox_ok (lf_bbox g)"
    using reassemble_total [OF assms(1,2)] by blast
  let ?groups = "fallback_paragraph_groups trig (sa_config sa) gs"
  have "set (concat ?groups) = set gs" using mset_paragraph_groups by (metis set_mset_mset)
  with gs(2) have "\<forall>g\<in>set ?groups. \<forall>f\<in>set g. bbox_ok (lf_bbox f)" by auto
  then have "\<exists>b. fallback_block trig alphabetic geo sa (fst leaf) entry = Inr b \<and> bbox_ok (bk_bbox b)"
    if "entry \<in> set (List.enumerate 0 ?groups)" for entry
    using that by (intro fallback_block_total assms(3)) (cases entry, auto dest: enumerate_snd)
  then obtain bs where "rmap (fallback_block trig alphabetic geo sa (fst leaf)) (List.enumerate 0 ?groups) = Inr bs" "\<forall>b\<in>set bs. bbox_ok (bk_bbox b)"
    using rmap_total [of "List.enumerate 0 ?groups" _ "\<lambda>b. bbox_ok (bk_bbox b)"] by blast
  with gs(1) show ?thesis by (simp add: leaf_blocks_def)
qed

lemma fallback_blocks_total:
  assumes "partitions tree fs" "\<forall>it\<in>set (all_items fs). sound_item it" "unique_ids (all_items fs)" "bbox_ok (sa_page_bbox sa)"
  shows "\<exists>out. fallback_blocks trig alphabetic geo sa fs tree = Inr out \<and> (\<forall>b\<in>set (so_blocks out). bbox_ok (bk_bbox b))"
proof -
  let ?parts = "map (\<lambda>leaf. map ((!) fs) (snd leaf)) (visit_leaves tree)"
  have all: "mset (concat (map all_items ?parts)) = mset (all_items fs)"
    using mset_partition_fragments [OF assms(1)] by (simp only: all_items_concat [symmetric] mset_all_items item_bag_def)
  have u: "unique_ids (concat (map all_items ?parts))" using unique_ids_mset [OF all] assms(3) by simp
  have s: "\<forall>it\<in>set (concat (map all_items ?parts)). sound_item it" using mset_eq_setD [OF all] assms(2) by simp
  have "\<exists>bs. leaf_blocks trig alphabetic geo sa fs leaf = Inr bs \<and> (\<forall>b\<in>set bs. bbox_ok (bk_bbox b))"
    if "leaf \<in> set (visit_leaves tree)" for leaf
  proof (rule leaf_blocks_total)
    show "unique_ids (all_items (map ((!) fs) (snd leaf)))" by (rule unique_ids_concat [OF u]) (use that in auto)
    show "\<forall>it\<in>set (all_items (map ((!) fs) (snd leaf))). sound_item it" using s that by auto
  qed (rule assms(4))
  then obtain bss where "rmap (leaf_blocks trig alphabetic geo sa fs) (visit_leaves tree) = Inr bss" "\<forall>bs\<in>set bss. \<forall>b\<in>set bs. bbox_ok (bk_bbox b)"
    using rmap_total [of "visit_leaves tree" _ "\<lambda>bs. \<forall>b\<in>set bs. bbox_ok (bk_bbox b)"] by blast
  then show ?thesis by (auto simp: fallback_blocks_leaves [OF assms(1)])
qed

section \<open>Groups partition the blocks\<close>

definition group_blocks :: "layout_group list \<Rightarrow> block list" where
  "group_blocks gs = concat (map lg_blocks gs)"

definition good_group :: "layout_group \<Rightarrow> bool" where
  "good_group g \<longleftrightarrow> bbox_ok (lg_bbox g) \<and> (\<forall>b\<in>set (lg_blocks g). bbox_ok (bk_bbox b))"

lemma group_blocks_simps [simp]:
  "group_blocks [] = []" "group_blocks (g # gs) = lg_blocks g @ group_blocks gs" "group_blocks (gs @ hs) = group_blocks gs @ group_blocks hs"
  by (simp_all add: group_blocks_def)

lemma mset_group_blocks: "mset (group_blocks gs) = (\<Sum>g\<in>#mset gs. mset (lg_blocks g))"
  by (induction gs) simp_all

lemma fold_claim:
  fixes m :: "rstr \<Rightarrow> nat option"
  shows "fold (\<lambda>b m. m(bk_id b \<mapsto> n)) xs m i = Some k \<Longrightarrow> k = n \<or> m i = Some k"
proof (induction xs arbitrary: m)
  case (Cons x xs)
  from Cons.IH [OF Cons.prems [unfolded fold_simps]] show ?case by (auto split: if_splits)
qed simp

definition list_numbers :: "(rstr \<Rightarrow> nat option) \<times> nat \<Rightarrow> bool" where
  "list_numbers st \<longleftrightarrow> (\<forall>i k. fst st i = Some k \<longrightarrow> k < snd st)"

lemma claim_rows_bound:
  assumes "list_numbers st"
  shows "list_numbers (claim_rows bs cand st)"
proof -
  obtain m n where st: "st = (m, n)" by (cases st)
  let ?members = "filter (\<lambda>b. m (bk_id b) = None \<and> list_member cand b) bs"
  show ?thesis
  proof (cases "length ?members < fst cand * 2")
    case False
    then have step: "claim_rows bs cand st = (fold (\<lambda>b m. m(bk_id b \<mapsto> n)) ?members m, n + 1)" by (simp add: claim_rows_def st Let_def)
    have "k < n + 1" if "fold (\<lambda>b m. m(bk_id b \<mapsto> n)) ?members m i = Some k" for i k
      using fold_claim [OF that] assms by (auto simp: list_numbers_def st intro: less_SucI)
    then show ?thesis by (simp add: list_numbers_def step)
  qed (use assms in \<open>simp add: claim_rows_def st Let_def\<close>)
qed

lemma list_membership_bound:
  assumes "list_membership bs = (m, n)" "m i = Some k"
  shows "k < n"
proof -
  have "list_numbers (fold (claim_rows bs) cs st)" if "list_numbers st" for cs st
    using that
  proof (induction cs arbitrary: st)
    case (Cons c cs)
    from Cons.IH [OF claim_rows_bound [OF Cons.prems]] show ?case by simp
  qed simp
  moreover have "list_numbers (Map.empty, 0)" by (simp add: list_numbers_def)
  ultimately have "list_numbers (list_membership bs)" unfolding list_membership_def Let_def by blast
  with assms show ?thesis by (simp add: list_numbers_def)
qed

lemma mset_by_index:
  "(\<And>b k. b \<in> set bs \<Longrightarrow> g b = Some k \<Longrightarrow> k < n) \<Longrightarrow>
   mset (filter (\<lambda>b. g b = None) bs) + mset (concat (map (\<lambda>k. filter (\<lambda>b. g b = Some k) bs) [0..<n])) = mset bs"
proof (induction bs)
  case (Cons b bs)
  have split: "mset (concat (map (\<lambda>k. filter (\<lambda>x. g x = Some k) (b # bs)) ks)) =
      mset (concat (map (\<lambda>k. if g b = Some k then [b] else []) ks)) + mset (concat (map (\<lambda>k. filter (\<lambda>x. g x = Some k) bs) ks))" for ks
    by (induction ks) auto
  have one: "mset (concat (map (\<lambda>k. if j = k then [b] else []) [0..<m])) = (if j < m then {#b#} else {#})" for j m
    by (induction m) auto
  have "mset (concat (map (\<lambda>k. if g b = Some k then [b] else []) [0..<n])) = (if g b = None then {#} else {#b#})"
  proof (cases "g b")
    case (Some j)
    with Cons.prems [of b j] have "j < n" by simp
    with Some one [of j n] show ?thesis by simp
  qed (induction n, auto)
  with Cons.IH Cons.prems split [of "[0..<n]"] show ?case by (cases "g b") auto
qed simp

lemma extend_groups:
  "rfold extend_group bs g = Inr g' \<Longrightarrow> lg_blocks g' = lg_blocks g @ bs"
  by (induction bs arbitrary: g) (auto simp: extend_group_def result_simps)

lemma bundle_group_blocks: "bundle_group bs = Inr gs \<Longrightarrow> group_blocks gs = bs"
  by (auto simp: bundle_group_def result_simps single_group_def dest: extend_groups split: list.splits)

lemma aligned_row_groups_blocks:
  assumes "aligned_row_groups bs = Inr gs"
  shows "mset (group_blocks gs) = mset bs"
proof -
  obtain m n where mn: "list_membership bs = (m, n)" by fastforce
  let ?cluster = "\<lambda>k. filter (\<lambda>b. m (bk_id b) = Some k) bs" and ?singles = "filter (\<lambda>b. m (bk_id b) = None) bs"
  obtain bundles where bundles: "rmap (\<lambda>k. bundle_group (?cluster k)) [0..<n] = Inr bundles"
    and gs: "gs = sort_key (\<lambda>g. map_option bk_id (hd_opt (lg_blocks g))) (map single_group ?singles @ concat bundles)"
    using assms by (auto simp: aligned_row_groups_def mn result_simps)
  have "map group_blocks bundles = map ?cluster [0..<n]"
    using bundles by (rule rmap_maps) (rule bundle_group_blocks)
  moreover have same: "mset (group_blocks gs) = mset (group_blocks (map single_group ?singles @ concat bundles))"
    by (simp only: gs mset_group_blocks mset_sort)
  moreover have "group_blocks (concat bundles) = concat (map group_blocks bundles)" by (induction bundles) simp_all
  moreover have "group_blocks (map single_group xs) = xs" for xs by (induction xs) (simp_all add: single_group_def)
  ultimately have "mset (group_blocks gs) = mset ?singles + mset (concat (map ?cluster [0..<n]))"
    by (simp add: same)
  also have "\<dots> = mset bs" using list_membership_bound [OF mn] by (intro mset_by_index) blast
  finally show ?thesis .
qed

lemma take_group_blocks: "mset (lg_blocks (take_group g b other)) = mset (lg_blocks g) + mset (lg_blocks other)"
  by (simp add: take_group_def)

lemma absorb_joined_blocks:
  "absorb_joined g passed todo = Inr (g', rest) \<Longrightarrow>
   mset (lg_blocks g' @ group_blocks rest) = mset (lg_blocks g @ group_blocks passed @ group_blocks todo)"
  by (induction g passed todo arbitrary: g' rest rule: absorb_joined.induct)
    (fastforce simp: result_simps take_group_blocks split: if_splits)+

lemma merge_groups_blocks: "merge_groups gs = Inr hs \<Longrightarrow> mset (group_blocks hs) = mset (group_blocks gs)"
  by (induction gs arbitrary: hs rule: merge_groups.induct) (fastforce simp: result_simps dest: absorb_joined_blocks)+

section \<open>Groups have valid boxes\<close>

lemma extend_groups_total:
  assumes "\<forall>b\<in>set bs. bbox_ok (bk_bbox b)" "good_group g"
  shows "\<exists>g'. rfold extend_group bs g = Inr g' \<and> good_group g'"
proof (rule rfold_total)
  fix b and g :: layout_group
  assume b: "b \<in> set bs" and g: "good_group g"
  with assms(1) union_total [of "lg_bbox g" "bk_bbox b"] obtain c where "union_bbox (lg_bbox g) (bk_bbox b) = Inr c" "bbox_ok c"
    by (auto simp: good_group_def)
  with b g assms(1) show "\<exists>g'. extend_group b g = Inr g' \<and> good_group g'" by (auto simp: extend_group_def good_group_def in_geometry_def)
qed (rule assms(2))

lemma bundle_group_total:
  assumes "\<forall>b\<in>set bs. bbox_ok (bk_bbox b)"
  shows "\<exists>gs. bundle_group bs = Inr gs \<and> (\<forall>g\<in>set gs. good_group g)"
proof (cases bs)
  case (Cons b rest)
  with assms have "good_group ((single_group b)\<lparr>aligned_rows := True\<rparr>)" "\<forall>b\<in>set rest. bbox_ok (bk_bbox b)"
    by (simp_all add: good_group_def single_group_def)
  with extend_groups_total Cons show ?thesis by (fastforce simp: bundle_group_def)
qed (simp add: bundle_group_def)

lemma aligned_row_groups_total:
  assumes "\<forall>b\<in>set bs. bbox_ok (bk_bbox b)"
  shows "\<exists>gs. aligned_row_groups bs = Inr gs \<and> (\<forall>g\<in>set gs. good_group g)"
proof -
  obtain m n where mn: "list_membership bs = (m, n)" by fastforce
  have "\<exists>gs. bundle_group (filter (\<lambda>b. m (bk_id b) = Some k) bs) = Inr gs \<and> (\<forall>g\<in>set gs. good_group g)" for k
    using assms by (intro bundle_group_total) simp
  then obtain bundles where "rmap (\<lambda>k. bundle_group (filter (\<lambda>b. m (bk_id b) = Some k) bs)) [0..<n] = Inr bundles"
      "\<forall>gs\<in>set bundles. \<forall>g\<in>set gs. good_group g"
    using rmap_total [of "[0..<n]" "\<lambda>k. bundle_group (filter (\<lambda>b. m (bk_id b) = Some k) bs)" "\<lambda>gs. \<forall>g\<in>set gs. good_group g"] by auto
  moreover have "\<forall>g\<in>set (map single_group (filter (\<lambda>b. m (bk_id b) = None) bs)). good_group g"
    using assms by (simp add: single_group_def good_group_def)
  ultimately show ?thesis by (simp add: aligned_row_groups_def mn ball_Un)
qed

lemma absorb_joined_total:
  "good_group g \<Longrightarrow> \<forall>h\<in>set passed \<union> set todo. good_group h \<Longrightarrow>
   \<exists>g' rest. absorb_joined g passed todo = Inr (g', rest) \<and> good_group g' \<and> (\<forall>h\<in>set rest. good_group h)"
proof (induction g passed todo rule: absorb_joined.induct)
  case (2 g passed other todo)
  show ?case
  proof (cases "joins_group g other")
    case False
    with "2.IH"(1) "2.prems" show ?thesis by simp
  next
    case True
    note joins = True
    have other: "good_group other" using "2.prems"(2) by simp
    show ?thesis
    proof (cases "contains_bbox (lg_bbox g) (lg_bbox other)")
      case True
      have "good_group (take_group g (lg_bbox g) other)" using "2.prems"(1) other by (auto simp: good_group_def take_group_def)
      with "2.IH"(2) joins True "2.prems"(2) show ?thesis by simp
    next
      case False
      obtain b where b: "union_bbox (lg_bbox g) (lg_bbox other) = Inr b" "bbox_ok b"
        using union_total "2.prems"(1) other unfolding good_group_def by blast
      have "good_group (take_group g b other)" using "2.prems"(1) other b(2) by (auto simp: good_group_def take_group_def)
      with "2.IH"(3) [of b] joins False b(1) "2.prems"(2) show ?thesis by (simp add: ball_Un)
    qed
  qed
qed simp

lemma merge_groups_total: "\<forall>g\<in>set gs. good_group g \<Longrightarrow> \<exists>hs. merge_groups gs = Inr hs \<and> (\<forall>h\<in>set hs. good_group h)"
proof (induction gs rule: merge_groups.induct)
  case (2 g rest)
  obtain g' rest' where step: "absorb_joined g [] rest = Inr (g', rest')" "good_group g'" "\<forall>h\<in>set rest'. good_group h"
    using absorb_joined_total [of g "[]" rest] "2.prems" by auto
  from "2.IH" [OF step(1) refl step(3)] step show ?case by auto
qed simp

section \<open>The owner of a group\<close>

lemma mset_by_owner: "mset (by_owner bs) = mset bs"
  by (simp add: by_owner_def)

lemma set_by_owner: "set (by_owner bs) = set bs"
  by (simp add: by_owner_def)

lemma grow_content_total:
  assumes "\<forall>b\<in>set bs. bbox_ok (bk_bbox b)"
  shows "\<exists>v. rfold grow_content bs None = Inr v \<and> (\<forall>b. v = Some b \<longrightarrow> bbox_ok b)"
proof (rule rfold_total)
  fix b and acc :: "bbox option"
  assume b: "b \<in> set bs" and acc: "\<forall>c. acc = Some c \<longrightarrow> bbox_ok c"
  show "\<exists>v. grow_content b acc = Inr v \<and> (\<forall>c. v = Some c \<longrightarrow> bbox_ok c)"
  proof (cases acc)
    case (Some c)
    with acc b assms union_total [of c "bk_bbox b"] obtain d where "union_bbox c (bk_bbox b) = Inr d" "bbox_ok d" by auto
    with acc Some show ?thesis by (auto simp: grow_content_def in_geometry_def)
  qed (use b assms in \<open>auto simp: grow_content_def\<close>)
qed simp

lemma merge_group_cases:
  assumes "merge_group trig alphabetic geo sa g = Inr out"
  obtains (kept) b where "lg_blocks g = [b]" "out = [b]"
  | (empty) "lg_blocks g = []" "out = []"
  | (merged) b fs where "out = [b]" "bk_id b \<in> set (map bk_id (lg_blocks g))"
      "fragments_with_formulas trig alphabetic (sa_config sa) (blocks_items (by_owner (lg_blocks g))) (sa_rules sa) (sa_formulas sa) = Inr fs"
      "lines_of b = block_lines (bk_id b) fs" "bk_text b = derive_block_text trig alphabetic (label b) (lines_of b)"
      "\<exists>c\<in>set (lg_blocks g). table_of b = table_of c \<and> list_items b = list_items c \<and> bk_id b = bk_id c \<and> model_region_id b = model_region_id c"
proof (cases "length (lg_blocks g) = 1")
  case True
  then obtain b where b: "lg_blocks g = [b]" by (auto simp: length_Suc_conv)
  with assms have "out = [b]" by (simp add: merge_group_def)
  with b kept show ?thesis by blast
next
  case False
  show ?thesis
  proof (cases "by_owner (lg_blocks g)")
    case Nil
    then have none: "lg_blocks g = []" using set_by_owner [of "lg_blocks g"] by simp
    with assms Nil have "out = []" by (auto simp: merge_group_def by_owner_def)
    with none empty show ?thesis by blast
  next
    case (Cons b others)
    have b: "b \<in> set (lg_blocks g)" using set_by_owner [of "lg_blocks g"] Cons by auto
    obtain v fs where fs: "fragments_with_formulas trig alphabetic (sa_config sa) (concat (map block_items (by_owner (lg_blocks g)))) (sa_rules sa) (sa_formulas sa) = Inr fs"
      and out: "out = [merged_block trig alphabetic geo (relabel_owner g b) (by_owner (lg_blocks g)) (unwrap_or v (lg_bbox g))
        (merged_sources (by_owner (lg_blocks g))) (block_lines (bk_id b) fs)]"
      using assms False Cons by (auto simp: merge_group_def Let_def result_simps)
    show ?thesis
      by (rule merged [OF out]) (use fs b in \<open>auto simp: merged_block_def relabel_owner_def Let_def blocks_items_def\<close>)
  qed
qed

lemma merge_group_bag:
  assumes "merge_group trig alphabetic geo sa g = Inr out" "unique_ids (blocks_items (lg_blocks g))"
  shows "bare_bag (blocks_items out) = bare_bag (blocks_items (lg_blocks g))"
  using assms(1)
proof (cases rule: merge_group_cases)
  case (merged b fs)
  have items: "mset (blocks_items (by_owner (lg_blocks g))) = mset (blocks_items (lg_blocks g))"
    by (rule blocks_items_mset) (rule mset_by_owner)
  then have "unique_ids (blocks_items (by_owner (lg_blocks g)))" using unique_ids_mset [OF items] assms(2) by simp
  from fragments_with_formulas_mset [OF merged(3) this] items have same: "mset (all_items fs) = mset (blocks_items (lg_blocks g))" by simp
  have "bare_bag (blocks_items out) = bare_bag (all_items fs)" by (simp add: merged(1,4) block_items_def block_lines_bag)
  with bare_bag_mset [OF same] show ?thesis by simp
qed simp_all

lemma merge_group_total:
  assumes "good_group g" "\<forall>it\<in>set (blocks_items (lg_blocks g)). sound_item it" "unique_ids (blocks_items (lg_blocks g))"
  shows "\<exists>out. merge_group trig alphabetic geo sa g = Inr out \<and> (\<forall>b\<in>set out. bbox_ok (bk_bbox b))"
proof (cases "length (lg_blocks g) = 1")
  case True
  with assms(1) show ?thesis by (simp add: merge_group_def good_group_def)
next
  case False
  have boxes: "\<forall>b\<in>set (by_owner (lg_blocks g)). bbox_ok (bk_bbox b)" using assms(1) by (simp add: good_group_def set_by_owner)
  obtain v where v: "rfold grow_content (by_owner (lg_blocks g)) None = Inr v" "\<forall>b. v = Some b \<longrightarrow> bbox_ok b"
    using grow_content_total [OF boxes] by blast
  have items: "mset (blocks_items (by_owner (lg_blocks g))) = mset (blocks_items (lg_blocks g))"
    by (rule blocks_items_mset) (rule mset_by_owner)
  have "unique_ids (blocks_items (by_owner (lg_blocks g)))" using unique_ids_mset [OF items] assms(3) by simp
  moreover have "\<forall>it\<in>set (blocks_items (by_owner (lg_blocks g))). sound_item it" using mset_eq_setD [OF items] assms(2) by simp
  ultimately obtain fs where fs: "fragments_with_formulas trig alphabetic (sa_config sa) (concat (map block_items (by_owner (lg_blocks g)))) (sa_rules sa) (sa_formulas sa) = Inr fs"
    using fragments_with_formulas_total unfolding blocks_items_def by blast
  show ?thesis
  proof (cases "by_owner (lg_blocks g)")
    case Nil
    with False v show ?thesis by (simp add: merge_group_def)
  next
    case (Cons b others)
    have "bbox_ok (unwrap_or v (lg_bbox g))" using v(2) assms(1) by (cases v) (auto simp: unwrap_or_def good_group_def)
    with False v(1) fs Cons show ?thesis by (auto simp: merge_group_def Let_def merged_block_def)
  qed
qed

section \<open>Normalization\<close>

lemma normalize_result:
  assumes "normalize_blocks trig alphabetic geo sa bs = Inr out"
  obtains hs outs where "mset (group_blocks hs) = mset bs" "rmap (merge_group trig alphabetic geo sa) hs = Inr outs" "out = concat outs"
proof -
  obtain gs hs outs where "aligned_row_groups (sort_key bk_id bs) = Inr gs" "merge_groups gs = Inr hs"
      "rmap (merge_group trig alphabetic geo sa) hs = Inr outs" "out = concat outs"
    using assms by (auto simp: normalize_blocks_def result_simps)
  with aligned_row_groups_blocks [of "sort_key bk_id bs" gs] merge_groups_blocks [of gs hs] that show ?thesis by simp
qed

lemma blocks_items_groups: "blocks_items (group_blocks gs) = concat (map (\<lambda>g. blocks_items (lg_blocks g)) gs)"
  by (induction gs) simp_all

lemma normalize_bag:
  assumes "normalize_blocks trig alphabetic geo sa bs = Inr out" "unique_ids (blocks_items bs)"
  shows "bare_bag (blocks_items out) = bare_bag (blocks_items bs)"
proof -
  obtain hs outs where h: "mset (group_blocks hs) = mset bs" "rmap (merge_group trig alphabetic geo sa) hs = Inr outs" "out = concat outs"
    by (rule normalize_result [OF assms(1)])
  have items: "mset (concat (map (\<lambda>g. blocks_items (lg_blocks g)) hs)) = mset (blocks_items bs)"
    using blocks_items_mset [OF h(1)] by (simp add: blocks_items_groups)
  have u: "unique_ids (concat (map (\<lambda>g. blocks_items (lg_blocks g)) hs))" using unique_ids_mset [OF items] assms(2) by simp
  have "unique_ids (blocks_items (lg_blocks g))" if "g \<in> set hs" for g
    by (rule unique_ids_concat [OF u]) (use that in simp)
  then have "bare_bag (blocks_items (concat outs)) = bare_bag (concat (map (\<lambda>g. blocks_items (lg_blocks g)) hs))"
    using rmap_bare_bag [OF h(2), of "\<lambda>g. blocks_items (lg_blocks g)"] merge_group_bag by blast
  with h(3) bare_bag_mset [OF items] show ?thesis by simp
qed

lemma normalize_total:
  assumes "\<forall>b\<in>set bs. bbox_ok (bk_bbox b)" "\<forall>it\<in>set (blocks_items bs). sound_item it" "unique_ids (blocks_items bs)"
  shows "\<exists>out. normalize_blocks trig alphabetic geo sa bs = Inr out \<and> (\<forall>b\<in>set out. bbox_ok (bk_bbox b))"
proof -
  obtain gs where gs: "aligned_row_groups (sort_key bk_id bs) = Inr gs" "\<forall>g\<in>set gs. good_group g"
    using aligned_row_groups_total [of "sort_key bk_id bs"] assms(1) by auto
  obtain hs where hs: "merge_groups gs = Inr hs" "\<forall>h\<in>set hs. good_group h" using merge_groups_total [OF gs(2)] by blast
  have "mset (group_blocks hs) = mset bs"
    using aligned_row_groups_blocks [OF gs(1)] merge_groups_blocks [OF hs(1)] by simp
  from blocks_items_mset [OF this] have items: "mset (concat (map (\<lambda>g. blocks_items (lg_blocks g)) hs)) = mset (blocks_items bs)"
    by (simp add: blocks_items_groups)
  have u: "unique_ids (concat (map (\<lambda>g. blocks_items (lg_blocks g)) hs))" using unique_ids_mset [OF items] assms(3) by simp
  have s: "\<forall>it\<in>set (concat (map (\<lambda>g. blocks_items (lg_blocks g)) hs)). sound_item it" using mset_eq_setD [OF items] assms(2) by simp
  have "\<exists>out. merge_group trig alphabetic geo sa g = Inr out \<and> (\<forall>b\<in>set out. bbox_ok (bk_bbox b))" if g: "g \<in> set hs" for g
  proof (rule merge_group_total)
    show "good_group g" using hs(2) g by blast
    show "unique_ids (blocks_items (lg_blocks g))" by (rule unique_ids_concat [OF u]) (use g in simp)
    show "\<forall>it\<in>set (blocks_items (lg_blocks g)). sound_item it" using s g by auto
  qed
  then obtain outs where "rmap (merge_group trig alphabetic geo sa) hs = Inr outs" "\<forall>out\<in>set outs. \<forall>b\<in>set out. bbox_ok (bk_bbox b)"
    using rmap_total [of hs "merge_group trig alphabetic geo sa" "\<lambda>out. \<forall>b\<in>set out. bbox_ok (bk_bbox b)"] by blast
  with gs(1) hs(1) show ?thesis by (auto simp: normalize_blocks_def)
qed

text \<open>The identifier of a block with its model region.\<close>

definition block_origin :: "block \<Rightarrow> rstr \<times> rstr option" where
  "block_origin b = (bk_id b, model_region_id b)"

lemma merge_group_origin:
  assumes "merge_group trig alphabetic geo sa g = Inr out"
  shows "mset (map block_origin out) \<subseteq># mset (map block_origin (lg_blocks g))"
  using assms
proof (cases rule: merge_group_cases)
  case (merged b fs)
  then have "block_origin b \<in># mset (map block_origin (lg_blocks g))" by (auto simp: block_origin_def)
  with merged(1) show ?thesis by (simp add: mset_subset_eq_single)
qed simp_all

lemma normalize_origin:
  assumes "normalize_blocks trig alphabetic geo sa bs = Inr out"
  shows "mset (map block_origin out) \<subseteq># mset (map block_origin bs)"
proof -
  obtain hs outs where h: "mset (group_blocks hs) = mset bs" "rmap (merge_group trig alphabetic geo sa) hs = Inr outs" "out = concat outs"
    by (rule normalize_result [OF assms])
  have "mset (map block_origin (concat outs)) \<subseteq># mset (map block_origin (group_blocks hs))"
    using h(2)
  proof (induction hs arbitrary: outs)
    case (Cons g hs)
    then obtain o1 os where step: "merge_group trig alphabetic geo sa g = Inr o1" "rmap (merge_group trig alphabetic geo sa) hs = Inr os" "outs = o1 # os"
      by (auto simp: result_simps)
    from merge_group_origin [OF step(1)] Cons.IH [OF step(2)] show ?case
      by (auto simp: step(3) intro: subset_mset.add_mono)
  qed simp
  also have "mset (map block_origin (group_blocks hs)) = mset (map block_origin bs)" using h(1) by simp
  finally show ?thesis using h(3) by simp
qed

lemma merge_group_tidy:
  assumes "merge_group trig alphabetic geo sa g = Inr out" "\<forall>b\<in>set (lg_blocks g). tidy_block trig alphabetic b"
  shows "(\<forall>b\<in>set out. tidy_block trig alphabetic b) \<and> mset (map bk_id out) \<subseteq># mset (map bk_id (lg_blocks g))"
  using assms(1)
proof (cases rule: merge_group_cases)
  case (merged b fs)
  with assms(2) have "tidy_block trig alphabetic b"
    by (auto simp: tidy_block_def block_lines_tidy block_lines_ids [symmetric])
  moreover have "mset [bk_id b] \<subseteq># mset (map bk_id (lg_blocks g))" using merged(2) by (simp add: mset_subset_eq_single)
  ultimately show ?thesis using merged(1) by simp
qed (use assms(2) in simp_all)

lemma normalize_tidy:
  assumes "normalize_blocks trig alphabetic geo sa bs = Inr out" "\<forall>b\<in>set bs. tidy_block trig alphabetic b"
  shows "(\<forall>b\<in>set out. tidy_block trig alphabetic b) \<and> mset (map bk_id out) \<subseteq># mset (map bk_id bs)"
proof -
  obtain hs outs where h: "mset (group_blocks hs) = mset bs" "rmap (merge_group trig alphabetic geo sa) hs = Inr outs" "out = concat outs"
    by (rule normalize_result [OF assms(1)])
  have tidy: "\<forall>b\<in>set (group_blocks hs). tidy_block trig alphabetic b" using mset_eq_setD [OF h(1)] assms(2) by simp
  have "(\<forall>b\<in>set (concat outs). tidy_block trig alphabetic b) \<and> mset (map bk_id (concat outs)) \<subseteq># mset (map bk_id (group_blocks hs))"
    using h(2) tidy
  proof (induction hs arbitrary: outs)
    case (Cons g hs)
    then obtain o1 os where step: "merge_group trig alphabetic geo sa g = Inr o1" "rmap (merge_group trig alphabetic geo sa) hs = Inr os" "outs = o1 # os"
      by (auto simp: result_simps)
    from merge_group_tidy [OF step(1)] Cons.prems(2) Cons.IH [OF step(2)] show ?case
      by (auto simp: step(3) intro: subset_mset.add_mono)
  qed simp
  moreover have "mset (map bk_id (group_blocks hs)) = mset (map bk_id bs)" using h(1) by simp
  ultimately show ?thesis using h(3) by simp
qed

end
