(* ===== verification/Page_Body.thy ===== *)
theory Page_Body
  imports Merge_Bags
begin

text \<open>
  The body of a page, from text items and detections to normalized blocks: the middle of
  \<open>PageAnalyzer::compose\<close> in \<open>crates/core/src/page.rs\<close>. Assignment, semantic blocks, the whitespace cut and
  normalization are composed as there. The images that figures were matched with, found earlier on the page,
  are an argument.
\<close>

datatype page_error = PageLine line_error | PageSemantic semantic_error

definition page_line :: "line_error + 'a \<Rightarrow> page_error + 'a" where
  "page_line m = (case m of Inl e \<Rightarrow> Inl (PageLine e) | Inr x \<Rightarrow> Inr x)"

definition page_semantic :: "semantic_error + 'a \<Rightarrow> page_error + 'a" where
  "page_semantic m = (case m of Inl e \<Rightarrow> Inl (PageSemantic e) | Inr x \<Rightarrow> Inr x)"

lemma page_lifts [simp]: "page_line (Inr x) = Inr x" "page_semantic (Inr x) = Inr x"
  by (simp_all add: page_line_def page_semantic_def)

lemma page_line_Inr [simp, result_simps]: "page_line m = Inr x \<longleftrightarrow> m = Inr x"
  by (cases m) (auto simp: page_line_def)

lemma page_semantic_Inr [simp, result_simps]: "page_semantic m = Inr x \<longleftrightarrow> m = Inr x"
  by (cases m) (auto simp: page_semantic_def)

definition match_figure :: "(nat \<Rightarrow> nat option) \<Rightarrow> block_seed \<Rightarrow> block_seed" where
  "match_figure matches sd = (case matches (sd_index sd) of None \<Rightarrow> sd | Some i \<Rightarrow> sd\<lparr>sd_image_index := Some i\<rparr>)"

record page_body =
  pb_blocks :: "block list"
  pb_references :: "block list"
  pb_warnings :: "page_warning list"
  pb_inline_formulas :: "detection list"
  pb_diagnostics :: "rstr list"

text \<open>The candidate blocks, before normalization.\<close>

definition candidate_blocks ::
  "(f64 \<Rightarrow> f64 \<times> f64) \<Rightarrow> (uchar \<Rightarrow> bool) \<Rightarrow> geo_ops \<Rightarrow> semantic_assembler \<Rightarrow> (nat \<Rightarrow> nat option) \<Rightarrow> text_item list \<Rightarrow> detection list \<Rightarrow>
   page_error + page_body" where
  "candidate_blocks trig alphabetic geo sa matches items ds =
     rbind (page_line (assign trig alphabetic geo (sa_config sa) (sa_page sa) (sa_page_bbox sa) items ds)) (\<lambda>r.
     let seeds = map (match_figure matches) (as_model_seeds r);
         tree = xy_cut (as_residual r) (map sd_bbox seeds) (sa_page_bbox sa)
     in rbind (page_semantic (rmap (model_blocks trig alphabetic geo sa) seeds)) (\<lambda>outs.
        rbind (page_semantic (fallback_blocks trig alphabetic geo sa (as_residual r) tree)) (\<lambda>fb.
        Inr \<lparr>pb_blocks = concat (map so_blocks outs) @ so_blocks fb,
             pb_references = map (reference_block sa) (as_reference_seeds r),
             pb_warnings = filter (\<lambda>w. wn_code w \<noteq> lit ''EmptyModelRegion'') (concat (map so_warnings outs)) @ so_warnings fb,
             pb_inline_formulas = as_inline_formulas r, pb_diagnostics = as_diagnostics r\<rparr>)))"

definition body_blocks ::
  "(f64 \<Rightarrow> f64 \<times> f64) \<Rightarrow> (uchar \<Rightarrow> bool) \<Rightarrow> geo_ops \<Rightarrow> semantic_assembler \<Rightarrow> (nat \<Rightarrow> nat option) \<Rightarrow> text_item list \<Rightarrow> detection list \<Rightarrow>
   page_error + page_body" where
  "body_blocks trig alphabetic geo sa matches items ds =
     rbind (candidate_blocks trig alphabetic geo sa matches items ds) (\<lambda>body.
     rbind (page_semantic (normalize_blocks trig alphabetic geo sa (pb_blocks body))) (\<lambda>bs. Inr (body\<lparr>pb_blocks := bs\<rparr>)))"

section \<open>Text\<close>

lemma match_figure_fields [simp]:
  "sd_fragments (match_figure matches sd) = sd_fragments sd" "sd_index (match_figure matches sd) = sd_index sd"
  "sd_bbox (match_figure matches sd) = sd_bbox sd"
  by (simp_all add: match_figure_def split: option.split)

definition body_items :: "block_seed list \<Rightarrow> line_fragment list \<Rightarrow> text_item list" where
  "body_items seeds residual = concat (map (\<lambda>sd. all_items (sd_fragments sd)) seeds) @ all_items residual"

lemma result_items_body: "result_items r = body_items (map (match_figure matches) (as_model_seeds r)) (as_residual r)"
  by (simp add: result_items_def body_items_def all_items_def map_concat comp_def concat_concat_map)

lemma outputs_bag:
  assumes "rmap (model_blocks trig alphabetic geo sa) seeds = Inr outs" "unique_ids (concat (map (\<lambda>sd. all_items (sd_fragments sd)) seeds))"
  shows "bare_bag (blocks_items (concat (map so_blocks outs))) = bare_bag (concat (map (\<lambda>sd. all_items (sd_fragments sd)) seeds))"
  using assms
proof (induction seeds arbitrary: outs)
  case (Cons sd seeds)
  then obtain out rest where step: "model_blocks trig alphabetic geo sa sd = Inr out" "rmap (model_blocks trig alphabetic geo sa) seeds = Inr rest" "outs = out # rest"
    by (auto simp: result_simps)
  with model_blocks_bag [OF step(1)] Cons.IH [OF step(2)] Cons.prems(2) show ?case by simp
qed simp

lemma outputs_total:
  assumes "\<forall>sd\<in>set seeds. bbox_ok (sd_bbox sd)"
    and "\<forall>it\<in>set (concat (map (\<lambda>sd. all_items (sd_fragments sd)) seeds)). sound_item it"
    and "unique_ids (concat (map (\<lambda>sd. all_items (sd_fragments sd)) seeds))"
  shows "\<exists>outs. rmap (model_blocks trig alphabetic geo sa) seeds = Inr outs \<and> (\<forall>out\<in>set outs. \<forall>b\<in>set (so_blocks out). bbox_ok (bk_bbox b))"
proof (rule rmap_total)
  fix sd assume sd: "sd \<in> set seeds"
  show "\<exists>out. model_blocks trig alphabetic geo sa sd = Inr out \<and> (\<forall>b\<in>set (so_blocks out). bbox_ok (bk_bbox b))"
  proof (rule model_blocks_total)
    show "unique_ids (all_items (sd_fragments sd))" by (rule unique_ids_concat [OF assms(3)]) (use sd in simp)
    show "\<forall>it\<in>set (all_items (sd_fragments sd)). sound_item it" using assms(2) sd by auto
    show "bbox_ok (sd_bbox sd)" using assms(1) sd by blast
  qed
qed

lemma xy_cut_covers: "partitions (xy_cut fs obstacles page) fs"
  by (simp add: partitions_def xy_cut_partition)

lemma candidate_result:
  assumes "candidate_blocks trig alphabetic geo sa matches items ds = Inr body"
  obtains r seeds outs fb where "assign trig alphabetic geo (sa_config sa) (sa_page sa) (sa_page_bbox sa) items ds = Inr r"
    "seeds = map (match_figure matches) (as_model_seeds r)" "rmap (model_blocks trig alphabetic geo sa) seeds = Inr outs"
    "fallback_blocks trig alphabetic geo sa (as_residual r) (xy_cut (as_residual r) (map sd_bbox seeds) (sa_page_bbox sa)) = Inr fb"
    "pb_blocks body = concat (map so_blocks outs) @ so_blocks fb" "pb_references body = map (reference_block sa) (as_reference_seeds r)"
  using assms by (auto simp: candidate_blocks_def result_simps Let_def)

lemma candidate_bag:
  assumes "candidate_blocks trig alphabetic geo sa matches items ds = Inr body" "unique_ids items"
  shows "bare_bag (blocks_items (pb_blocks body)) = bare_bag items"
proof -
  obtain r seeds outs fb where r: "assign trig alphabetic geo (sa_config sa) (sa_page sa) (sa_page_bbox sa) items ds = Inr r"
    "seeds = map (match_figure matches) (as_model_seeds r)" "rmap (model_blocks trig alphabetic geo sa) seeds = Inr outs"
    "fallback_blocks trig alphabetic geo sa (as_residual r) (xy_cut (as_residual r) (map sd_bbox seeds) (sa_page_bbox sa)) = Inr fb"
    "pb_blocks body = concat (map so_blocks outs) @ so_blocks fb" by (rule candidate_result [OF assms(1)])
  have all: "mset (body_items seeds (as_residual r)) = mset items"
    using assign_items [OF r(1)] by (simp only: r(2) result_items_body [symmetric])
  have u: "unique_ids (body_items seeds (as_residual r))" using unique_ids_mset [OF all] assms(2) by simp
  have "bare_bag (blocks_items (concat (map so_blocks outs))) = bare_bag (concat (map (\<lambda>sd. all_items (sd_fragments sd)) seeds))"
    by (rule outputs_bag [OF r(3)]) (use u in \<open>simp add: body_items_def\<close>)
  moreover have "bare_bag (blocks_items (so_blocks fb)) = bare_bag (all_items (as_residual r))"
    by (rule fallback_blocks_bag [OF r(4) xy_cut_covers]) (use u in \<open>simp add: body_items_def\<close>)
  ultimately have "bare_bag (blocks_items (pb_blocks body)) = bare_bag (body_items seeds (as_residual r))"
    by (simp add: r(5) body_items_def)
  with bare_bag_mset [OF all] show ?thesis by simp
qed

lemma candidate_total:
  assumes "\<forall>it\<in>set items. sound_item it" "unique_ids items" "bbox_ok (sa_page_bbox sa)"
  shows "\<exists>body. candidate_blocks trig alphabetic geo sa matches items ds = Inr body \<and> (\<forall>b\<in>set (pb_blocks body). bbox_ok (bk_bbox b))"
proof -
  obtain r where r: "assign trig alphabetic geo (sa_config sa) (sa_page sa) (sa_page_bbox sa) items ds = Inr r"
    using assign_total [OF assms(1)] by blast
  define seeds where "seeds = map (match_figure matches) (as_model_seeds r)"
  have all: "mset (body_items seeds (as_residual r)) = mset items"
    using assign_items [OF r] by (simp only: seeds_def result_items_body [symmetric])
  have u: "unique_ids (body_items seeds (as_residual r))" using unique_ids_mset [OF all] assms(2) by simp
  have s: "\<forall>it\<in>set (body_items seeds (as_residual r)). sound_item it" using mset_eq_setD [OF all] assms(1) by simp
  have boxes: "\<forall>sd\<in>set seeds. bbox_ok (sd_bbox sd)" using assign_seed_fields(1) [OF r] by (auto simp: seeds_def)
  obtain outs where outs: "rmap (model_blocks trig alphabetic geo sa) seeds = Inr outs" "\<forall>out\<in>set outs. \<forall>b\<in>set (so_blocks out). bbox_ok (bk_bbox b)"
    using outputs_total [OF boxes, of trig alphabetic geo sa] s u unfolding body_items_def by auto
  have "\<exists>out. fallback_blocks trig alphabetic geo sa (as_residual r) (xy_cut (as_residual r) (map sd_bbox seeds) (sa_page_bbox sa)) = Inr out \<and>
      (\<forall>b\<in>set (so_blocks out). bbox_ok (bk_bbox b))"
    by (rule fallback_blocks_total [OF xy_cut_covers]) (use s u assms(3) in \<open>simp_all add: body_items_def\<close>)
  then obtain fb where fb: "fallback_blocks trig alphabetic geo sa (as_residual r) (xy_cut (as_residual r) (map sd_bbox seeds) (sa_page_bbox sa)) = Inr fb"
    "\<forall>b\<in>set (so_blocks fb). bbox_ok (bk_bbox b)" by blast
  show ?thesis
    using r outs fb unfolding seeds_def by (auto simp: candidate_blocks_def Let_def)
qed

lemma body_total:
  assumes "\<forall>it\<in>set items. sound_item it" "unique_ids items" "bbox_ok (sa_page_bbox sa)"
  shows "\<exists>body. body_blocks trig alphabetic geo sa matches items ds = Inr body \<and> (\<forall>b\<in>set (pb_blocks body). bbox_ok (bk_bbox b))"
proof -
  obtain raw where raw: "candidate_blocks trig alphabetic geo sa matches items ds = Inr raw" "\<forall>b\<in>set (pb_blocks raw). bbox_ok (bk_bbox b)"
    using candidate_total [OF assms] by blast
  note bag = candidate_bag [OF raw(1) assms(2)]
  have "unique_ids (blocks_items (pb_blocks raw))" using bare_bag_unique [OF bag] assms(2) by simp
  with normalize_total [OF raw(2) bare_bag_sound [OF bag assms(1)]] obtain bs where
    "normalize_blocks trig alphabetic geo sa (pb_blocks raw) = Inr bs" "\<forall>b\<in>set bs. bbox_ok (bk_bbox b)" by blast
  with raw(1) show ?thesis by (auto simp: body_blocks_def)
qed

section \<open>Form and identity\<close>

lemma distinct_sub:
  assumes "mset xs \<subseteq># mset ys" "distinct ys"
  shows "distinct xs"
  unfolding distinct_count_atmost_1
proof
  fix x
  have "count (mset ys) x \<le> 1" using assms(2) by (simp add: distinct_count_atmost_1)
  with mset_subset_eq_count [OF assms(1), of x] have "count (mset xs) x \<le> 1" by simp
  moreover have "count (mset xs) x \<noteq> 0 \<longleftrightarrow> x \<in> set xs" by simp
  ultimately show "count (mset xs) x = (if x \<in> set xs then 1 else 0)" by (metis le_eq_less_or_eq less_one)
qed

lemma paragraph_blocks_tidy:
  assumes "rmap (fallback_block trig alphabetic geo sa path) (List.enumerate n groups) = Inr bs"
  shows "(\<forall>b\<in>set bs. tidy_block trig alphabetic b) \<and>
    map bk_id bs = map (\<lambda>k. fallback_block_id (sa_page sa) path (saturate_u32 k)) [n..<n + length bs]"
  using assms
proof (induction groups arbitrary: n bs)
  case (Cons g groups)
  then obtain b cs where b: "fallback_block trig alphabetic geo sa path (n, g) = Inr b" "bs = b # cs"
    and cs: "rmap (fallback_block trig alphabetic geo sa path) (List.enumerate (Suc n) groups) = Inr cs"
    by (auto simp: result_simps)
  have "[n..<n + length bs] = n # [Suc n..<Suc n + length cs]" using b(2) by (simp add: upt_conv_Cons del: upt_Suc)
  with Cons.IH [OF cs] fallback_block_result(2,3) [OF b(1)] b(2) show ?case by (simp del: upt_Suc)
qed simp

lemma leaf_blocks_tidy:
  assumes "leaf_blocks trig alphabetic geo sa fs leaf = Inr bs" "length bs \<le> 4294967296"
  shows "(\<forall>b\<in>set bs. tidy_block trig alphabetic b) \<and> map bk_id bs = map (fallback_block_id (sa_page sa) (fst leaf)) [0..<length bs]"
proof -
  obtain gs where "rmap (fallback_block trig alphabetic geo sa (fst leaf)) (List.enumerate 0 (fallback_paragraph_groups trig (sa_config sa) gs)) = Inr bs"
    using assms(1) by (auto simp: leaf_blocks_def result_simps)
  from paragraph_blocks_tidy [OF this] assms(2) show ?thesis by (auto simp: saturate_u32_def intro!: map_cong)
qed

definition leaf_ids :: "nat \<Rightarrow> rstr \<times> nat \<Rightarrow> rstr list" where
  "leaf_ids n entry = map (fallback_block_id n (fst entry)) [0..<snd entry]"

lemma fallback_id_inject:
  "region_path p \<Longrightarrow> region_path q \<Longrightarrow> fallback_block_id n p i = fallback_block_id n q j \<longleftrightarrow> p = q \<and> i = j"
  using block_id_inject [of "FallbackOrigin n p i" "FallbackOrigin n q j"] by simp

lemma leaf_ids_distinct:
  assumes "distinct (map fst entries)" "\<forall>e\<in>set entries. region_path (fst e)"
  shows "distinct (concat (map (leaf_ids n) entries))"
  using assms
proof (induction entries)
  case (Cons e entries)
  have "distinct (leaf_ids n e)"
    using Cons.prems(2) by (auto simp: leaf_ids_def distinct_map inj_on_def fallback_id_inject)
  moreover have "set (leaf_ids n e) \<inter> set (leaf_ids n e') = {}" if e': "e' \<in> set entries" for e'
  proof -
    have "fst e \<noteq> fst e'" using Cons.prems(1) e' by auto
    moreover have "region_path (fst e)" "region_path (fst e')" using Cons.prems(2) e' by auto
    ultimately show ?thesis by (auto simp: leaf_ids_def fallback_id_inject)
  qed
  ultimately show ?case using Cons by auto
qed simp

lemma leaves_tidy:
  assumes "rmap (leaf_blocks trig alphabetic geo sa fs) leaves = Inr bss" "length (concat bss) \<le> 4294967296"
  shows "(\<forall>b\<in>set (concat bss). tidy_block trig alphabetic b) \<and>
    (\<exists>entries. map fst entries = map fst leaves \<and> map bk_id (concat bss) = concat (map (leaf_ids (sa_page sa)) entries))"
  using assms
proof (induction leaves arbitrary: bss)
  case (Cons leaf leaves)
  then obtain bs rest where step: "leaf_blocks trig alphabetic geo sa fs leaf = Inr bs" "rmap (leaf_blocks trig alphabetic geo sa fs) leaves = Inr rest" "bss = bs # rest"
    by (auto simp: result_simps)
  from Cons.prems(2) step(3) have small: "length bs \<le> 4294967296" "length (concat rest) \<le> 4294967296" by simp_all
  from Cons.IH [OF step(2) small(2)] obtain entries where rest: "\<forall>b\<in>set (concat rest). tidy_block trig alphabetic b"
    "map fst entries = map fst leaves" "map bk_id (concat rest) = concat (map (leaf_ids (sa_page sa)) entries)" by blast
  note leaf = leaf_blocks_tidy [OF step(1) small(1)]
  have "map bk_id (concat bss) = concat (map (leaf_ids (sa_page sa)) ((fst leaf, length bs) # entries))"
    using leaf rest(3) by (simp add: step(3) leaf_ids_def)
  with leaf rest(1,2) step(3) show ?case by (auto intro!: exI [of _ "(fst leaf, length bs) # entries"])
qed auto

lemma model_ids:
  assumes "rmap (model_blocks trig alphabetic geo sa) seeds = Inr outs"
  shows "(\<forall>b\<in>set (concat (map so_blocks outs)). tidy_block trig alphabetic b) \<and>
    map bk_id (concat (map so_blocks outs)) = map (\<lambda>sd. model_block_id (sa_page sa) (sd_index sd) 0) seeds"
  using assms
proof (induction seeds arbitrary: outs)
  case (Cons sd seeds)
  then obtain out rest where step: "model_blocks trig alphabetic geo sa sd = Inr out" "rmap (model_blocks trig alphabetic geo sa) seeds = Inr rest" "outs = out # rest"
    by (auto simp: result_simps)
  obtain b where "so_blocks out = [b]" "bk_id b = model_block_id (sa_page sa) (sd_index sd) 0" "tidy_block trig alphabetic b"
    by (rule model_blocks_result [OF step(1)])
  with Cons.IH [OF step(2)] step(3) show ?case by simp
qed simp

lemma leaf_paths_distinct: "distinct (map fst (visit_leaves (xy_cut fs obstacles page))) \<and> (\<forall>leaf\<in>set (visit_leaves (xy_cut fs obstacles page)). region_path (fst leaf))"
proof -
  have "sorted_wrt (<) (leaf_paths (xy_cut fs obstacles page)) \<and> list_all region_path (leaf_paths (xy_cut fs obstacles page))"
    using build_region_paths [OF region_path.root, of 8 0] by (auto simp: xy_cut_def max_depth_def list_all_iff)
  then show ?thesis by (auto simp: leaf_paths_def list_all_iff strict_sorted_iff)
qed

lemma candidate_tidy:
  assumes "candidate_blocks trig alphabetic geo sa matches items ds = Inr body" "distinct (map dt_index ds)" "length (pb_blocks body) \<le> 4294967296"
  shows "(\<forall>b\<in>set (pb_blocks body). tidy_block trig alphabetic b) \<and> distinct (map bk_id (pb_blocks body))"
proof -
  obtain r seeds outs fb where r: "assign trig alphabetic geo (sa_config sa) (sa_page sa) (sa_page_bbox sa) items ds = Inr r"
    "seeds = map (match_figure matches) (as_model_seeds r)" "rmap (model_blocks trig alphabetic geo sa) seeds = Inr outs"
    "fallback_blocks trig alphabetic geo sa (as_residual r) (xy_cut (as_residual r) (map sd_bbox seeds) (sa_page_bbox sa)) = Inr fb"
    "pb_blocks body = concat (map so_blocks outs) @ so_blocks fb" by (rule candidate_result [OF assms(1)])
  let ?leaves = "visit_leaves (xy_cut (as_residual r) (map sd_bbox seeds) (sa_page_bbox sa))"
  obtain bss where bss: "rmap (leaf_blocks trig alphabetic geo sa (as_residual r)) ?leaves = Inr bss" "so_blocks fb = concat bss"
    using r(4) by (auto simp: fallback_blocks_leaves [OF xy_cut_covers] result_simps)
  have small: "length (concat bss) \<le> 4294967296" using assms(3) r(5) bss(2) by simp
  obtain entries where entries: "map fst entries = map fst ?leaves" "map bk_id (so_blocks fb) = concat (map (leaf_ids (sa_page sa)) entries)"
    and tidy: "\<forall>b\<in>set (so_blocks fb). tidy_block trig alphabetic b"
    using leaves_tidy [OF bss(1) small] bss(2) by auto
  have "\<forall>e\<in>set entries. region_path (fst e)"
    using leaf_paths_distinct [of "as_residual r" "map sd_bbox seeds" "sa_page_bbox sa"] entries(1) by (metis (no_types, lifting) imageE imageI list.set_map)
  with leaf_ids_distinct [of entries "sa_page sa"] entries leaf_paths_distinct
  have residual: "distinct (map bk_id (so_blocks fb))" and paths: "\<forall>e\<in>set entries. region_path (fst e)" by metis+
  have "mset (map sd_index seeds) \<subseteq># mset (map dt_index ds)"
    using sort_detections_indices assign_seed_fields(2) [OF r(1)] by (simp add: r(2) comp_def)
  then have index: "distinct (map sd_index seeds)" using assms(2) by (rule distinct_sub)
  have model: "distinct (map (\<lambda>sd. model_block_id (sa_page sa) (sd_index sd) 0) seeds)"
  proof -
    have "inj (\<lambda>i. model_block_id (sa_page sa) i 0)"
      using block_id_inject [of "ModelOrigin (sa_page sa) i 0" "ModelOrigin (sa_page sa) j 0" for i j] by (auto simp: inj_def)
    with index show ?thesis by (auto simp: distinct_map inj_on_def inj_def)
  qed
  have apart: "model_block_id (sa_page sa) i 0 \<notin> set (map bk_id (so_blocks fb))" for i
    using paths block_id_inject [of "ModelOrigin (sa_page sa) i 0" "FallbackOrigin (sa_page sa) p k" for p k]
    by (auto simp: entries(2) leaf_ids_def)
  from model_ids [OF r(3)] tidy residual model apart show ?thesis by (auto simp: r(5))
qed

section \<open>Properties\<close>

text \<open>
  C2: The body of a page holds its text exactly once. From the items and detections of a page, when
  the items have distinct identifiers, assignment, the whitespace cut, the reassembly of lines and
  the merging of blocks leave every item in exactly one place: the text items of all final
  blocks are those of the page, up to the number that an item gets from its place in a line.
\<close>

theorem page_body_owns_every_item_once:
  assumes "body_blocks trig alphabetic geo sa matches items ds = Inr body" and "distinct (map it_id items)"
  shows "image_mset (\<lambda>it. it\<lparr>it_final_order := 0\<rparr>) (mset (concat (map text_items (concat (map lines_of (pb_blocks body)))))) =
    image_mset (\<lambda>it. it\<lparr>it_final_order := 0\<rparr>) (mset items)"
proof -
  obtain raw bs where raw: "candidate_blocks trig alphabetic geo sa matches items ds = Inr raw"
    "normalize_blocks trig alphabetic geo sa (pb_blocks raw) = Inr bs" "pb_blocks body = bs"
    using assms(1) by (auto simp: body_blocks_def result_simps)
  note bag = candidate_bag [OF raw(1) assms(2)]
  have "unique_ids (blocks_items (pb_blocks raw))" using bare_bag_unique [OF bag] assms(2) by simp
  from normalize_bag [OF raw(2) this] bag raw(3) have "bare_bag (blocks_items (pb_blocks body)) = bare_bag items" by simp
  moreover have "blocks_items cs = concat (map text_items (concat (map lines_of cs)))" for cs by (induction cs) (simp_all add: block_items_def)
  ultimately show ?thesis by (simp add: bare_bag_def bare_def [abs_def])
qed

text \<open>
  C3: The body of an upright page is always built. When the boxes of the items are valid, none is
  slanted and identifiers are distinct, no error of assignment, line assembly, fallback slots or
  geometry can occur, whatever the layout model detected; and every block has a valid box.
\<close>

theorem upright_page_bodies_are_built:
  assumes "\<forall>it\<in>set items. bbox_ok (it_bbox it) \<and> \<not> is_oblique (axes_of trig (it_rotation it))"
    and "distinct (map it_id items)" and "bbox_ok (sa_page_bbox sa)"
  shows "\<exists>body. body_blocks trig alphabetic geo sa matches items ds = Inr body \<and> (\<forall>b\<in>set (pb_blocks body). bbox_ok (bk_bbox b))"
  using assms by (intro body_total) (simp_all add: sound_item_def oblique_any [of trig])

text \<open>
  C13: The blocks of a body have the form that the final validation asks for. Their identifiers are
  distinct when those of the detections are; the lines of a block are named by the block and their
  place; the items of a line are numbered by place and its text is theirs; and the streamed
  check of the validator accepts the text of every block.
\<close>

theorem page_bodies_have_valid_form:
  assumes "candidate_blocks trig alphabetic geo sa matches items ds = Inr raw" and "length (pb_blocks raw) \<le> 4294967296"
    and "distinct (map dt_index ds)" and "normalize_blocks trig alphabetic geo sa (pb_blocks raw) = Inr bs"
  shows "distinct (map bk_id bs) \<and>
    (\<forall>b\<in>set bs. map ln_id (lines_of b) = map (\<lambda>k. line_id_of (bk_id b) (saturate_u32 k)) [0..<length (lines_of b)] \<and>
      (\<forall>l\<in>set (lines_of b). ln_text l = concat (map raw_text (text_items l)) \<and>
        map it_final_order (text_items l) = map saturate_u32 [0..<length (text_items l)]) \<and>
      (int (str_len (bk_text b)) < usize_limit \<longrightarrow> text_matches_lines trig alphabetic b))"
proof -
  note raw = candidate_tidy [OF assms(1,3,2)]
  note out = normalize_tidy [OF assms(4) conjunct1 [OF raw]]
  have "distinct (map bk_id bs)" using out raw distinct_sub by blast
  moreover have "text_matches_lines trig alphabetic b" if "b \<in> set bs" "int (str_len (bk_text b)) < usize_limit" for b
    using out that by (intro derived_text_matches) (auto simp: tidy_block_def)
  ultimately show ?thesis using out by (auto simp: tidy_block_def tidy_line_def list_all_iff derive_line_text_def)
qed

section \<open>Two pages\<close>

text \<open>A page with a formula inside a text region, and a scanned page: one picture and no text.\<close>

definition page_assembler :: semantic_assembler where
  "page_assembler = \<lparr>sa_page = 1, sa_page_bbox = box 0 0 200 200, sa_config = default_fusion_config, sa_rules = [], sa_formulas = []\<rparr>"

definition plain_detection :: "nat \<Rightarrow> layout_label \<Rightarrow> bbox \<Rightarrow> detection" where
  "plain_detection i lab b = \<lparr>dt_index = i, dt_raw_label = [], class_id = 22, dt_label = lab, dt_confidence = Fin (1 / 2),
     dt_bbox = b, dt_polygon = None, dt_geometry_source = DerivedFromBbox, dt_order = int i\<rparr>"

lemma page_assembler_ok: "bbox_ok (sa_page_bbox page_assembler)"
  by code_simp

theorem upright_page_bodies_are_built_witness:
  "\<exists>body. body_blocks level_trig ascii_letter box_geo page_assembler (\<lambda>_. None) formula_page [plain_detection 0 Text (box 0 90 100 120)] = Inr body"
  using upright_page_bodies_are_built [OF formula_page_upright formula_page_ids page_assembler_ok] by blast

theorem page_body_owns_every_item_once_witness:
  "\<exists>body. body_blocks level_trig ascii_letter box_geo page_assembler (\<lambda>_. None) formula_page [plain_detection 0 Text (box 0 90 100 120)] = Inr body \<and>
     size (mset (concat (map text_items (concat (map lines_of (pb_blocks body)))))) = 4"
proof -
  obtain body where body: "body_blocks level_trig ascii_letter box_geo page_assembler (\<lambda>_. None) formula_page [plain_detection 0 Text (box 0 90 100 120)] = Inr body"
    using body_total [OF formula_page_sound formula_page_ids page_assembler_ok] by blast
  have "size (mset (concat (map text_items (concat (map lines_of (pb_blocks body)))))) = size (mset formula_page)"
    using arg_cong [OF page_body_owns_every_item_once [OF body formula_page_ids], of size] by (simp only: size_image_mset)
  with body show ?thesis by (simp add: formula_page_def)
qed

lemma no_items: "\<forall>f\<in>set fs. sound_fragment f \<Longrightarrow> all_items fs = [] \<Longrightarrow> fs = []"
  by (cases fs) (auto simp: sound_fragment_def all_items_def)

lemma fragments_nil: "fragments trig alphabetic config [] = Inr []"
proof -
  obtain fs where fs: "fragments trig alphabetic config [] = Inr fs" "\<forall>f\<in>set fs. sound_fragment f"
    using fragments_total [of "[]" trig alphabetic config] by auto
  have "all_items fs = []" using fragments_mset [OF fs(1)] by simp
  with fs show ?thesis using no_items by blast
qed

lemma reassemble_nil: "reassemble trig alphabetic page_assembler [] = Inr []"
proof -
  have "bars ([] :: table_rule list) = []" by (simp add: bars_def)
  then have "prepare trig alphabetic [] [] False = Inr ([], Map.empty)"
    by (simp add: prepare_def align_hanging_def group_operator_limits_def)
  then show ?thesis
    by (simp add: reassemble_def page_assembler_def all_items_def fragments_with_formulas_def fragments_with_rules_def fragments_nil)
qed

lemma scanned_page:
  obtains raw where "candidate_blocks trig alphabetic geo page_assembler matches [] ds = Inr raw" "length (pb_blocks raw) \<le> length ds"
proof -
  obtain raw where raw: "candidate_blocks trig alphabetic geo page_assembler matches [] ds = Inr raw"
    using candidate_total [of "[]" page_assembler trig alphabetic geo matches ds] page_assembler_ok by auto
  obtain r seeds outs fb where r: "assign trig alphabetic geo (sa_config page_assembler) (sa_page page_assembler) (sa_page_bbox page_assembler) [] ds = Inr r"
    "seeds = map (match_figure matches) (as_model_seeds r)" "rmap (model_blocks trig alphabetic geo page_assembler) seeds = Inr outs"
    "fallback_blocks trig alphabetic geo page_assembler (as_residual r) (xy_cut (as_residual r) (map sd_bbox seeds) (sa_page_bbox page_assembler)) = Inr fb"
    "pb_blocks raw = concat (map so_blocks outs) @ so_blocks fb" by (rule candidate_result [OF raw])
  obtain fs ss where fs: "assignment_fragments trig alphabetic geo (sa_config page_assembler) (sa_page_bbox page_assembler) [] ds = Inr fs"
      "fold (assign_fragment (score trig geo (sa_config page_assembler) (sa_page_bbox page_assembler))) fs
        (model_seeds (sort_detections geo (sa_page page_assembler) (sa_page_bbox page_assembler) ds), []) = (ss, as_residual r)"
    by (rule assign_result [OF r(1)])
  have "\<forall>f\<in>set fs. sound_fragment f" using assignment_fragments_total [of "[]" trig alphabetic geo "sa_config page_assembler" "sa_page_bbox page_assembler" ds] fs(1) by auto
  then have "fs = []" using assignment_fragments_bag [OF fs(1)] no_items by (simp add: item_bag_all)
  with fs(2) have none: "as_residual r = []" by simp
  have "visit_leaves (xy_cut [] obs page) = [(path_root, [])]" for obs page
    by (simp add: xy_cut_def build_region.simps [of _ _ "[]"] sort_indices_def)
  with r(4) none have "so_blocks fb = []"
    by (auto simp: fallback_blocks_leaves [OF xy_cut_covers] leaf_blocks_def reassemble_nil fallback_paragraph_groups_def)
  moreover have "length (concat (map so_blocks outs)) = length seeds" using model_ids [OF r(3)] by (metis length_map)
  moreover have "length seeds \<le> length ds"
  proof -
    have "mset (map sd_index seeds) \<subseteq># mset (map dt_index ds)"
      using sort_detections_indices assign_seed_fields(2) [OF r(1)] by (simp add: r(2) comp_def)
    from size_mset_mono [OF this] show ?thesis by simp
  qed
  ultimately show ?thesis using raw r(5) that by simp
qed

theorem page_bodies_have_valid_form_witness:
  "\<exists>raw bs. candidate_blocks level_trig ascii_letter box_geo page_assembler (\<lambda>_. None) [] [plain_detection 0 Image (box 10 10 90 90), plain_detection 1 Text (box 10 100 90 120)] = Inr raw \<and>
     normalize_blocks level_trig ascii_letter box_geo page_assembler (pb_blocks raw) = Inr bs \<and> distinct (map bk_id bs)"
proof -
  let ?ds = "[plain_detection 0 Image (box 10 10 90 90), plain_detection 1 Text (box 10 100 90 120)]"
  obtain raw where raw: "candidate_blocks level_trig ascii_letter box_geo page_assembler (\<lambda>_. None) [] ?ds = Inr raw" "length (pb_blocks raw) \<le> length ?ds"
    by (rule scanned_page)
  obtain body where "body_blocks level_trig ascii_letter box_geo page_assembler (\<lambda>_. None) [] ?ds = Inr body"
    using body_total [of "[]" page_assembler level_trig ascii_letter box_geo "\<lambda>_. None" ?ds] page_assembler_ok by auto
  with raw(1) obtain bs where bs: "normalize_blocks level_trig ascii_letter box_geo page_assembler (pb_blocks raw) = Inr bs"
    by (auto simp: body_blocks_def result_simps)
  have "distinct (map bk_id bs)"
    using page_bodies_have_valid_form [OF raw(1) _ _ bs] raw(2) by (simp add: plain_detection_def)
  with raw(1) bs show ?thesis by blast
qed

end
