(* ===== verification/Merge_Gap.thy ===== *)
theory Merge_Gap
  imports Page_Body Validator_Spec
begin

text \<open>
  Pages on which normalization leaves one block inside another. A group that was skipped is looked at
  again only when the bounds of the owner grow. When two regions that share a smaller one have been
  merged, their bounds may already reach as far as a region that encloses both; that region is taken
  without a second look, although it may contain a block that was skipped before. The final
  validation refuses every document with such a page.
\<close>

section \<open>Containment and unions\<close>






section \<open>Pages without aligned lists\<close>





section \<open>The gap\<close>





section \<open>Property\<close>


section \<open>An example\<close>








end
