(* ===== verification/Page_Order.thy ===== *)
theory Page_Order
  imports Page_Body Order_Properties
begin

text \<open>
  From the body of a page to its reading order, the composition that \<open>crates/core/src/page.rs\<close> makes of
  normalization and \<open>order_blocks\<close>. Every model region has one block after normalization, so the strong
  constraints of the order cannot contradict each other.
\<close>

definition block_regions :: "block list \<Rightarrow> rstr list" where
  "block_regions bs = List.map_filter model_region_id bs"

lemma block_regions_simps [simp]:
  "block_regions [] = []" "block_regions (bs @ cs) = block_regions bs @ block_regions cs"
  "block_regions (b # bs) = (case model_region_id b of None \<Rightarrow> [] | Some r \<Rightarrow> [r]) @ block_regions bs"
  by (simp_all add: block_regions_def map_filter_def split: option.split)

lemma block_regions_origin: "block_regions bs = List.map_filter snd (map block_origin bs)"
  by (induction bs) (simp_all add: block_origin_def map_filter_simps split: option.split)

lemma mset_map_filter: "mset (List.map_filter f xs) = image_mset (\<lambda>x. the (f x)) (filter_mset (\<lambda>x. f x \<noteq> None) (mset xs))"
  by (induction xs) (simp_all add: map_filter_simps split: option.split)

lemma block_regions_sub:
  "mset (map block_origin out) \<subseteq># mset (map block_origin bs) \<Longrightarrow> mset (block_regions out) \<subseteq># mset (block_regions bs)"
  unfolding block_regions_origin mset_map_filter by (intro image_mset_subseteq_mono multiset_filter_mono)

text \<open>A region with one block cannot mix.\<close>

lemma one_block_uniform: "distinct (block_regions bs) \<Longrightarrow> uniform_regions bs"
proof -
  have owner: "r \<in> set (block_regions bs)" if "a \<in> set bs" "model_region_id a = Some r" for a r and bs :: "block list"
    using that by (induction bs) (auto split: option.splits)
  have "a = b" if "distinct (block_regions bs)" "a \<in> set bs" "b \<in> set bs" "model_region_id a = Some r" "model_region_id b = Some r" for a b r
    using that
  proof (induction bs)
    case (Cons c bs)
    with owner show ?case by (auto split: option.splits)
  qed simp
  then show "distinct (block_regions bs) \<Longrightarrow> uniform_regions bs" unfolding uniform_regions_def by blast
qed

section \<open>Regions of a body\<close>

lemma seed_region_ids:
  "\<forall>sd\<in>set (model_seeds (sort_detections geo n page ds)). region_id sd = detected_id n (sd_index sd)"
proof -
  have step: "\<forall>sd\<in>set (model_seeds (sort_detection geo n page d st)). region_id sd = detected_id n (sd_index sd)"
    if "\<forall>sd\<in>set (model_seeds st). region_id sd = detected_id n (sd_index sd)" for d st
    using that by (auto simp: sort_detection_def seed_try_from_def result_simps split: sum.splits)
  have "\<forall>sd\<in>set (model_seeds (fold (sort_detection geo n page) ds st)). region_id sd = detected_id n (sd_index sd)"
    if "\<forall>sd\<in>set (model_seeds st). region_id sd = detected_id n (sd_index sd)" for st
    using that
  proof (induction ds arbitrary: st)
    case (Cons d ds)
    from Cons.IH [OF step [OF Cons.prems]] show ?case by simp
  qed simp
  from this [of "\<lparr>model_seeds = [], reference_seeds = [], inline_formulas = [], assign_diagnostics = []\<rparr>"]
  show ?thesis by (simp add: sort_detections_def Let_def)
qed

lemma assign_region_ids:
  assumes "assign trig alphabetic geo config n page items ds = Inr r"
  shows "map region_id (as_model_seeds r) = map (detected_id n) (map sd_index (as_model_seeds r))"
proof -
  let ?seeds = "model_seeds (sort_detections geo n page ds)"
  obtain fs seeds where r: "fold (assign_fragment (score trig geo config page)) fs (?seeds, []) = (seeds, as_residual r)"
    "as_model_seeds r = map sort_fragments seeds" by (rule assign_result [OF assms])
  have "map blank_seed (as_model_seeds r) = map blank_seed ?seeds" using assign_fold_spec [OF r(1)] by (simp add: r(2) comp_def)
  then have "map (region_id \<circ> blank_seed) (as_model_seeds r) = map (region_id \<circ> blank_seed) ?seeds" by (metis map_map)
  then have "map region_id (as_model_seeds r) = map region_id ?seeds" by (simp add: comp_def blank_seed_def)
  also have "\<dots> = map (detected_id n) (map sd_index ?seeds)" using seed_region_ids [of geo n page ds] by simp
  finally show ?thesis by (simp only: assign_seed_fields(2) [OF assms])
qed

lemma model_regions:
  assumes "rmap (model_blocks trig alphabetic geo sa) seeds = Inr outs"
  shows "block_regions (concat (map so_blocks outs)) = map region_id seeds"
  using assms
proof (induction seeds arbitrary: outs)
  case (Cons sd seeds)
  then obtain out rest where step: "model_blocks trig alphabetic geo sa sd = Inr out" "rmap (model_blocks trig alphabetic geo sa) seeds = Inr rest" "outs = out # rest"
    by (auto simp: result_simps)
  have "block_regions (so_blocks out) = [region_id sd]"
    using step(1) by (auto simp: model_blocks_def model_block_def result_simps Let_def)
  with Cons.IH [OF step(2)] step(3) show ?case by simp
qed simp

lemma fallback_regions:
  assumes "fallback_blocks trig alphabetic geo sa fs tree = Inr out" "partitions tree fs"
  shows "block_regions (so_blocks out) = []"
proof -
  have groups: "block_regions bs = []" if "rmap (fallback_block trig alphabetic geo sa path) entries = Inr bs" for path entries bs
    using that by (induction entries arbitrary: bs) (auto simp: result_simps fallback_block_def Let_def)
  obtain bss where bss: "rmap (leaf_blocks trig alphabetic geo sa fs) (visit_leaves tree) = Inr bss" "so_blocks out = concat bss"
    using assms(1) by (auto simp: fallback_blocks_leaves [OF assms(2)] result_simps)
  have "block_regions (concat bss) = []" if "rmap (leaf_blocks trig alphabetic geo sa fs) leaves = Inr bss" for leaves bss
    using that by (induction leaves arbitrary: bss) (auto simp: result_simps leaf_blocks_def dest: groups)
  with bss show ?thesis by simp
qed

lemma candidate_regions:
  assumes "candidate_blocks trig alphabetic geo sa matches items ds = Inr body" "distinct (map dt_index ds)"
  shows "distinct (block_regions (pb_blocks body))"
proof -
  obtain r seeds outs fb where r: "assign trig alphabetic geo (sa_config sa) (sa_page sa) (sa_page_bbox sa) items ds = Inr r"
    "seeds = map (match_figure matches) (as_model_seeds r)" "rmap (model_blocks trig alphabetic geo sa) seeds = Inr outs"
    "fallback_blocks trig alphabetic geo sa (as_residual r) (xy_cut (as_residual r) (map sd_bbox seeds) (sa_page_bbox sa)) = Inr fb"
    "pb_blocks body = concat (map so_blocks outs) @ so_blocks fb" by (rule candidate_result [OF assms(1)])
  have "map region_id seeds = map region_id (as_model_seeds r)"
    by (simp add: r(2) match_figure_def split: option.split)
  then have regions: "block_regions (pb_blocks body) = map (detected_id (sa_page sa)) (map sd_index (as_model_seeds r))"
    by (simp only: r(5) block_regions_simps model_regions [OF r(3)] fallback_regions [OF r(4) xy_cut_covers] assign_region_ids [OF r(1)] append_Nil2)
  have "mset (map sd_index (as_model_seeds r)) \<subseteq># mset (map dt_index ds)"
    using sort_detections_indices assign_seed_fields(2) [OF r(1)] by simp
  then have "distinct (map sd_index (as_model_seeds r))" using assms(2) by (rule distinct_sub)
  moreover have "inj (detected_id (sa_page sa))" by (auto simp: inj_def detected_id_def page_id_def)
  ultimately show ?thesis unfolding regions by (subst distinct_map) (auto intro: inj_on_subset)
qed

section \<open>Property\<close>

text \<open>
  C5: Upright pages get a reading order. When the boxes of the items are valid, none is slanted and
  identifiers are distinct, the body is built, and \<open>order_blocks\<close> succeeds on it and on whatever the
  figure, table and formula stages make of it, as long as they keep identifiers, regions and valid
  boxes; the order holds each of these blocks once and respects every strong constraint. The page must
  not have more than 2^32 candidate blocks, whose ordinals are 32-bit numbers.
\<close>

theorem upright_pages_get_a_reading_order:
  assumes "\<forall>it\<in>set items. bbox_ok (it_bbox it) \<and> \<not> is_oblique (axes_of trig (it_rotation it))"
    and "distinct (map it_id items)" and "bbox_ok (sa_page_bbox sa)" and "distinct (map dt_index ds)"
    and "candidate_blocks trig alphabetic geo sa matches items ds = Inr raw" and "length (pb_blocks raw) \<le> 4294967296"
  shows "\<exists>body. body_blocks trig alphabetic geo sa matches items ds = Inr body \<and>
    (\<forall>bs. map block_origin bs = map block_origin (pb_blocks body) \<and> (\<forall>b\<in>set bs. bbox_ok (bk_bbox b)) \<longrightarrow>
      (\<exists>out removed. order_blocks bs = Some (Inr (out, removed)) \<and> mset (map unplaced out) = mset (map unplaced bs) \<and>
        (\<forall>e\<in>set (norm_edges (from_blocks bs)). is_strong (e_source e) \<longrightarrow> before (map bk_id out) (e_from e) (e_to e)))) \<and>
    (\<exists>out removed. order_blocks (pb_blocks body) = Some (Inr (out, removed)))"
proof -
  obtain body where body: "body_blocks trig alphabetic geo sa matches items ds = Inr body" "\<forall>b\<in>set (pb_blocks body). bbox_ok (bk_bbox b)"
    using body_total [of items sa trig alphabetic geo matches ds] assms(1-3) by (auto simp: sound_item_def oblique_any [of trig])
  then have norm: "normalize_blocks trig alphabetic geo sa (pb_blocks raw) = Inr (pb_blocks body)"
    using assms(5) by (auto simp: body_blocks_def result_simps)
  note raw = candidate_tidy [OF assms(5,4,6)]
  have ids: "distinct (map bk_id (pb_blocks body))" using normalize_tidy [OF norm] raw distinct_sub by blast
  have regions: "distinct (block_regions (pb_blocks body))"
    using block_regions_sub [OF normalize_origin [OF norm]] candidate_regions [OF assms(5,4)] by (rule distinct_sub)
  have ordered: "\<exists>out removed. order_blocks bs = Some (Inr (out, removed)) \<and> mset (map unplaced out) = mset (map unplaced bs) \<and>
      (\<forall>e\<in>set (norm_edges (from_blocks bs)). is_strong (e_source e) \<longrightarrow> before (map bk_id out) (e_from e) (e_to e))"
    if bs: "map block_origin bs = map block_origin (pb_blocks body)" "\<forall>b\<in>set bs. bbox_ok (bk_bbox b)" for bs
  proof -
    have "map fst (map block_origin bs) = map fst (map block_origin (pb_blocks body))" using bs(1) by (rule arg_cong)
    then have "distinct (map bk_id bs)" using ids by (simp add: block_origin_def comp_def)
    moreover have "uniform_regions bs" using regions bs(1) by (intro one_block_uniform) (simp only: block_regions_origin)
    ultimately show ?thesis using page_is_ordered [OF _ bs(2)] by blast
  qed
  from body(1) ordered ordered [OF refl body(2)] show ?thesis by blast
qed

theorem upright_pages_get_a_reading_order_witness:
  "\<exists>body out removed. body_blocks level_trig ascii_letter box_geo page_assembler (\<lambda>_. None) [] [plain_detection 0 Image (box 10 10 90 90), plain_detection 1 Text (box 10 100 90 120)] = Inr body \<and>
     order_blocks (pb_blocks body) = Some (Inr (out, removed))"
proof -
  let ?ds = "[plain_detection 0 Image (box 10 10 90 90), plain_detection 1 Text (box 10 100 90 120)]"
  obtain raw where raw: "candidate_blocks level_trig ascii_letter box_geo page_assembler (\<lambda>_. None) [] ?ds = Inr raw" "length (pb_blocks raw) \<le> length ?ds"
    by (rule scanned_page)
  have "distinct (map dt_index ?ds)" by (simp add: plain_detection_def)
  from upright_pages_get_a_reading_order [OF _ _ page_assembler_ok this raw(1)] raw(2) show ?thesis by auto
qed

end
