(* ===== verification/Residual_Text.thy ===== *)
theory Residual_Text
  imports Page_Body
begin

text \<open>
  Text outside the model regions: the paragraphs of a residual leaf, characterized without the loop
  that forms them, and the detached watermarks of a page, which keep their text and never fail.
\<close>

section \<open>Paragraphs\<close>

text \<open>
  Grouping with \<open>push_last\<close>, for a test that only looks at the last member: neighbours in a group
  satisfy it, neighbouring groups do not. One direction follows the loop; the other replays
  the loop on any such grouping.
\<close>

locale last_test =
  fixes test :: "'a list \<Rightarrow> 'a \<Rightarrow> bool" and joins :: "'a \<Rightarrow> 'a \<Rightarrow> bool"
  assumes test_last: "g \<noteq> [] \<Longrightarrow> test g x = joins (last g) x"
begin

definition maximal_groups :: "'a list list \<Rightarrow> bool" where
  "maximal_groups gs \<longleftrightarrow>
     [] \<notin> set gs \<and> list_all (successively joins) gs \<and> successively (\<lambda>g h. \<not> joins (last g) (hd h)) gs"

lemma push_snoc:
  "g \<noteq> [] \<Longrightarrow> push_last test x (gs @ [g]) = (if joins (last g) x then gs @ [g @ [x]] else gs @ [g, [x]])"
  by (simp add: push_last_def test_last)

lemma maximal_snoc:
  "maximal_groups (gs @ [g]) \<longleftrightarrow>
     g \<noteq> [] \<and> successively joins g \<and> maximal_groups gs \<and> (gs = [] \<or> \<not> joins (last (last gs)) (hd g))"
  by (auto simp: maximal_groups_def successively_append_iff)

lemma push_maximal:
  assumes "maximal_groups gs"
  shows "maximal_groups (push_last test x gs)"
proof (cases gs rule: rev_cases)
  case Nil
  then show ?thesis by (simp add: push_last_def maximal_groups_def)
next
  case (snoc hs g)
  with assms have g: "g \<noteq> []" "maximal_groups (hs @ [g])" "successively joins g" "maximal_groups hs" "hs = [] \<or> \<not> joins (last (last hs)) (hd g)"
    by (simp_all add: maximal_snoc)
  have "maximal_groups (hs @ [g @ [x]])" if "joins (last g) x"
    using g that by (simp add: maximal_snoc successively_append_iff)
  moreover have "maximal_groups ((hs @ [g]) @ [[x]])" if "\<not> joins (last g) x"
    using g(2) that by (subst maximal_snoc) simp
  ultimately show ?thesis using g(1) by (simp add: snoc push_snoc)
qed

lemma fold_maximal: "maximal_groups gs \<Longrightarrow> maximal_groups (fold (push_last test) xs gs)"
  by (induction xs arbitrary: gs) (simp_all add: push_maximal)

lemma fold_group:
  "g \<noteq> [] \<Longrightarrow> successively joins g \<Longrightarrow> [] \<notin> set gs \<Longrightarrow> gs = [] \<or> \<not> joins (last (last gs)) (hd g) \<Longrightarrow>
    fold (push_last test) g gs = gs @ [g]"
proof (induction g rule: rev_induct)
  case (snoc x g)
  show ?case
  proof (cases "g = []")
    case True
    with snoc.prems show ?thesis by (cases gs rule: rev_cases) (auto simp: push_last_def test_last)
  next
    case False
    with snoc.prems have "successively joins g" "joins (last g) x" "gs = [] \<or> \<not> joins (last (last gs)) (hd g)"
      by (auto simp: successively_append_iff)
    with snoc.IH [OF False] snoc.prems(3) False show ?thesis by (simp add: push_snoc)
  qed
qed simp

lemma replay: "maximal_groups gs \<Longrightarrow> fold (push_last test) (concat gs) [] = gs"
proof (induction gs rule: rev_induct)
  case (snoc g gs)
  then have g: "maximal_groups gs" "g \<noteq> []" "successively joins g" "gs = [] \<or> \<not> joins (last (last gs)) (hd g)"
    by (simp_all add: maximal_snoc)
  moreover from g(1) have "[] \<notin> set gs" by (simp add: maximal_groups_def)
  ultimately show ?case using snoc.IH fold_group by simp
qed simp

lemma groups_unique: "gs = fold (push_last test) xs [] \<longleftrightarrow> concat gs = xs \<and> maximal_groups gs"
proof
  assume "gs = fold (push_last test) xs []"
  moreover have "maximal_groups []" by (simp add: maximal_groups_def)
  ultimately show "concat gs = xs \<and> maximal_groups gs"
    using fold_maximal by (simp add: concat_fold_push_last)
qed (use replay in auto)

end

definition flows_on :: "fusion_config \<Rightarrow> line_fragment \<Rightarrow> line_fragment \<Rightarrow> bool" where
  "flows_on config f g \<longleftrightarrow> (case between config f g of SplitAt _ \<Rightarrow> False | _ \<Rightarrow> True)"

interpretation paragraphs: last_test "same_paragraph config" "flows_on config" for config
  by unfold_locales (simp add: same_paragraph_def flows_on_def last_opt_def)

text \<open>
  C33: The paragraphs of a residual leaf are determined by the boundaries between lines. The groups
  the loop returns are the only ones that, one after another, are the lines in reading order, of
  which none is empty, in which no two neighbours are parted by a boundary rule, and between which
  every boundary is a split by one of the rules.
\<close>

theorem paragraphs_are_the_maximal_runs:
  "gs = fallback_paragraph_groups trig config fs \<longleftrightarrow>
     concat gs = sort_key (\<lambda>f. (reading_order_y trig f, left (lf_bbox f), first_id f)) fs \<and>
     [] \<notin> set gs \<and> list_all (successively (flows_on config)) gs \<and>
     successively (\<lambda>g h. \<not> flows_on config (last g) (hd h)) gs"
  unfolding fallback_paragraph_groups_def paragraphs.groups_unique paragraphs.maximal_groups_def by blast

section \<open>Watermarks\<close>

lemma fold_min_member: "fold min ns (n :: nat) \<in> insert n (set ns)"
  by (induction ns arbitrary: n) (auto simp: min_def split: if_splits)

lemma first_extraction_member:
  "lf_items f \<noteq> [] \<Longrightarrow> \<exists>it\<in>set (lf_items f). first_extraction f = Some (extraction_order it)"
  using fold_min_member by (cases "lf_items f") (fastforce simp: first_extraction_def)+

text \<open>Numbers taken from disjoint groups of distinct numbers are distinct.\<close>

lemma distinct_members:
  assumes "distinct (concat (map h xs))" "\<forall>x\<in>set xs. k x \<in> set (h x)"
  shows "distinct (map k xs)"
  using assms
proof (induction xs)
  case (Cons x xs)
  then have "k x \<notin> set (concat (map h xs))" by auto
  moreover have "set (map k xs) \<subseteq> set (concat (map h xs))" using Cons.prems(2) by auto
  ultimately show ?case using Cons by auto
qed simp

definition text_watermark_number :: "line_fragment \<Rightarrow> nat" where
  "text_watermark_number f = unwrap_or (first_extraction f) 0"

lemma watermark_numbers_distinct:
  assumes "distinct (map extraction_order (all_items fs))" "\<forall>f\<in>set fs. lf_items f \<noteq> []"
  shows "distinct (map text_watermark_number fs)"
proof (rule distinct_members)
  show "distinct (concat (map (\<lambda>f. map extraction_order (lf_items f)) fs))"
    using assms(1) by (simp add: all_items_def map_concat comp_def)
  show "\<forall>f\<in>set fs. text_watermark_number f \<in> set (map extraction_order (lf_items f))"
    using assms(2) first_extraction_member by (fastforce simp: text_watermark_number_def unwrap_or_def)
qed

lemma watermark_block_ok:
  assumes "sound_fragment f"
  shows "\<exists>b. watermark_block trig alphabetic geo sa decisions f = Inr b \<and> label b = Watermark \<and> bbox_ok (bk_bbox b) \<and>
    tidy_block trig alphabetic b \<and> bk_id b = watermark_id (sa_page sa) (text_watermark_number f) False \<and>
    bare_bag (block_items b) = bare_bag (lf_items f)"
proof -
  let ?owner = "watermark_id (sa_page sa) (text_watermark_number f) False"
  have "\<forall>g\<in>set [f]. bbox_ok (lf_bbox g)" using assms by (simp add: sound_fragment_def)
  from content_bbox_total [OF this] obtain v
    where v: "content_bbox (block_lines ?owner [f]) = Inr v" "\<forall>b. v = Some b \<longrightarrow> bbox_ok b" by blast
  moreover have "v \<noteq> None" using v(1)
    by (auto simp: content_bbox_def block_lines_def in_geometry_def split: list.splits)
  moreover have "bare_bag (concat (map text_items (block_lines ?owner [f]))) = bare_bag (lf_items f)"
    by (simp add: block_lines_bag all_items_def)
  ultimately show ?thesis
    by (auto simp: watermark_block_def Let_def text_watermark_number_def tidy_block_def block_lines_tidy block_lines_ids [symmetric]
        block_items_def unwrap_or_def)
qed

lemma watermark_id_inject: "watermark_id p i a = watermark_id q j b \<longleftrightarrow> p = q \<and> i = j \<and> a = b"
  using block_id_inject [of "WatermarkOrigin p i a" "WatermarkOrigin q j b"] by simp

definition watermark_of :: "(f64 \<Rightarrow> f64 \<times> f64) \<Rightarrow> (uchar \<Rightarrow> bool) \<Rightarrow> semantic_assembler \<Rightarrow> line_fragment \<Rightarrow> block \<Rightarrow> bool" where
  "watermark_of trig alphabetic sa f b \<longleftrightarrow> label b = Watermark \<and> bbox_ok (bk_bbox b) \<and> tidy_block trig alphabetic b \<and>
     bk_id b = watermark_id (sa_page sa) (text_watermark_number f) False \<and> bare_bag (block_items b) = bare_bag (lf_items f)"

lemma rmap_related:
  "\<forall>x\<in>set xs. \<exists>y. g x = Inr y \<and> R x y \<Longrightarrow> \<exists>ys. rmap g xs = Inr ys \<and> list_all2 R xs ys"
proof (induction xs)
  case (Cons x xs)
  then obtain y ys where "g x = Inr y" "R x y" "rmap g xs = Inr ys" "list_all2 R xs ys" by auto
  then show ?case by (auto simp: result_simps)
qed simp

lemma watermark_texts:
  assumes "list_all2 (watermark_of trig alphabetic sa) fs bs"
  shows "bare_bag (blocks_items bs) = bare_bag (all_items fs)"
    "map bk_id bs = map (\<lambda>f. watermark_id (sa_page sa) (text_watermark_number f) False) fs"
    "list_all (\<lambda>b. label b = Watermark \<and> bbox_ok (bk_bbox b) \<and> tidy_block trig alphabetic b) bs"
  using assms by (induction rule: list_all2_induct) (simp_all add: watermark_of_def all_items_def)

text \<open>
  C34: Watermarks are detached without loss. On valid boxes and text that is not slanted, building
  them cannot fail. Text watermarks hold exactly the items set aside, each once and unchanged up to its
  place in its line; annotations follow as blocks that claim no text. Every block has the label, a
  text block has a valid box, lines named and numbered by place and the text the validator
  derives from them, and if the items have distinct extraction orders, no two blocks share an identifier.
\<close>

theorem watermarks_keep_their_text:
  assumes "list_all sound_item items" "distinct (map extraction_order items)" "length annotations \<le> 2 ^ 32"
  shows "\<exists>texts marks. watermark_blocks trig alphabetic geo sa items annotations decisions = Inr (texts @ marks) \<and>
    bare_bag (blocks_items texts) = bare_bag items \<and> map bk_bbox marks = annotations \<and> blocks_items marks = [] \<and>
    list_all (\<lambda>b. label b = Watermark \<and> bbox_ok (bk_bbox b) \<and> tidy_block trig alphabetic b) texts \<and>
    list_all (\<lambda>b. label b = Watermark \<and> bk_text b = [] \<and> lines_of b = []) marks \<and>
    distinct (map bk_id (texts @ marks))"
proof -
  obtain fs where fs: "fragments trig alphabetic (sa_config sa) items = Inr fs" "\<forall>f\<in>set fs. sound_fragment f"
    using fragments_total assms(1) unfolding list_all_iff by blast
  let ?fs = "sort_key first_extraction fs" and ?marks = "map (annotation_block sa) (List.enumerate 0 annotations)"
  have "\<forall>f\<in>set ?fs. \<exists>b. watermark_block trig alphabetic geo sa decisions f = Inr b \<and> watermark_of trig alphabetic sa f b"
    using fs(2) watermark_block_ok unfolding watermark_of_def set_sort by blast
  from rmap_related [OF this] obtain texts where texts: "rmap (watermark_block trig alphabetic geo sa decisions) ?fs = Inr texts"
    "list_all2 (watermark_of trig alphabetic sa) ?fs texts" by blast
  have items: "mset (all_items ?fs) = mset items"
    using fragments_mset [OF fs(1)] by (simp add: mset_all_items item_bag_def)
  then have "mset (map extraction_order (all_items ?fs)) = mset (map extraction_order items)" by simp
  with assms(2) have "distinct (map extraction_order (all_items ?fs))" using mset_eq_imp_distinct_iff by blast
  then have "distinct (map text_watermark_number ?fs)"
    by (rule watermark_numbers_distinct) (use fs(2) in \<open>auto simp: sound_fragment_def\<close>)
  then have "distinct (map bk_id texts)"
    by (simp add: watermark_texts(2) [OF texts(2)] distinct_map inj_on_def watermark_id_inject)
  moreover have ids: "map bk_id ?marks = map (\<lambda>i. watermark_id (sa_page sa) i True) [0..<length annotations]"
    using assms(3) by (intro nth_equalityI) (simp_all add: annotation_block_def nth_enumerate_eq)
  then have "distinct (map bk_id ?marks)" by (simp add: distinct_map inj_on_def watermark_id_inject)
  moreover have "set (map bk_id texts) \<inter> set (map bk_id ?marks) = {}"
    unfolding ids watermark_texts(2) [OF texts(2)] by (auto simp: watermark_id_inject)
  ultimately have "distinct (map bk_id (texts @ ?marks))" by (simp del: set_map)
  moreover have "map bk_bbox ?marks = annotations" by (rule nth_equalityI) (simp_all add: annotation_block_def nth_enumerate_eq)
  moreover have "blocks_items (map (annotation_block sa) es) = []" for es
    by (induction es) (simp_all add: annotation_block_def block_items_def)
  moreover have "bare_bag (blocks_items texts) = bare_bag items"
    using watermark_texts(1) [OF texts(2)] bare_bag_mset [OF items] by simp
  ultimately show ?thesis using watermark_texts(3) [OF texts(2)] fs(1) texts(1)
    by (intro exI [of _ texts] exI [of _ ?marks]) (simp add: watermark_blocks_def in_line_def annotation_block_def list_all_iff)
qed

text \<open>Two watermark lines and an annotation.\<close>

definition watermark_items :: "text_item list" where
  "watermark_items =
     [(plain_item (lit ''p1:t0'') (lit ''DRAFT'') (box 10 10 60 20))\<lparr>it_watermark := Some PdfMarkedContent\<rparr>,
      (plain_item (lit ''p1:t1'') (lit ''copy'') (box 10 80 60 90))\<lparr>it_watermark := Some TextPattern, extraction_order := 1\<rparr>]"

theorem watermarks_keep_their_text_witness:
  "\<exists>texts marks. watermark_blocks level_trig ascii_letter box_geo page_assembler watermark_items [box 0 0 100 100] (\<lambda>_. None) = Inr (texts @ marks) \<and>
    bare_bag (blocks_items texts) = bare_bag watermark_items \<and> map bk_bbox marks = [box 0 0 100 100] \<and> distinct (map bk_id (texts @ marks))"
proof -
  have "list_all sound_item watermark_items" "distinct (map extraction_order watermark_items)" by code_simp+
  moreover have "length [box 0 0 100 100] \<le> 2 ^ 32" by simp
  ultimately show ?thesis
    using watermarks_keep_their_text [of watermark_items "[box 0 0 100 100]" level_trig ascii_letter box_geo page_assembler "\<lambda>_. None"]
    by (elim meta_impE exE conjE) (assumption | intro exI conjI)+
qed

end
