(* ===== verification/Spec2Isabelle.thy ===== *)
theory Spec2Isabelle
  imports Job_Queries Grid_Properties Table_Properties Order_Properties Stable_Ids Block_Text List_Properties Validator_Properties Xy_Cut_Properties Line_Properties Merge_Gap Page_Order Residual_Text
begin

text \<open>
  A verification library for DocParse, the document parser in \<open>src/crates\<close>. The program takes a
  PDF, detects layout regions on every page, extracts text, fuses both into blocks, orders the
  blocks, recovers lists and tables, and validates the result; a server runs such parses as
  durable jobs. This development models the parts of it that decide something on pure data, from
  the source, and proves what makes each of them correct. Everything is executable.

  How the parts fit together in the program: \<open>crates/core/src/page.rs\<close> runs the stages of a page.
  The blocks of a page get their reading order from \<open>fusion/order.rs\<close>; \<open>semantic/list.rs\<close> then merges
  the blocks that one list spans and attaches list items; tables are edited as grids by
  \<open>table/grid/cells.rs\<close> and checked by \<open>table/validate.rs\<close>; the text of a block is derived from its
  lines by \<open>types.rs\<close>; finally \<open>validate.rs\<close> checks the whole document, calling the table check, the
  list check and the text check on every block. Independently of that, \<open>crates/database\<close> keeps the
  job table from which workers lease parses, and \<open>crates/server\<close> pages through it.

  Shared foundations.
  \<open>Docparse_Prelude\<close>: \<open>Result\<close> as a sum, loops that stop at the first error, iterator functions, and the
  locale of systems with an invariant.
  \<open>Rust_Text\<close>: strings as lists of code points with byte offsets, trimming, decimal parsing and
  printing, and SQL \<open>LIKE\<close>.
  \<open>F64\<close>: IEEE 754 binary64 with exact rationals and rounding to nearest, ties to even; infinities, NaN and
  negative zero included. No rounding is abstracted away.
  \<open>Document\<close>, \<open>Page_Result\<close>: the records and labels of \<open>crates/core/src/types.rs\<close>,
  \<open>table/mod.rs\<close>, \<open>label_policy.rs\<close> and \<open>crates/layout\<close>, under the names of the source (a prefix where two
  structs share a field name).
  \<open>BTree_Map\<close>: the ordered map of the standard library behind a locale with its laws, interpreted on sorted
  association lists.

  Durable jobs (\<open>crates/database/src/query/parse_job.rs\<close>, \<open>job.rs\<close>, \<open>crates/server/src/routers/jobs/list.rs\<close>).
  \<open>Parse_Jobs\<close> has one function per query on an explicit table of rows and a clock; \<open>Job_Lifecycle\<close> is the
  step relation of a cluster in which any lease ever handed out may still act, with its invariant as an
  interpretation of the prelude's locale; \<open>Job_Properties\<close> has fencing, exclusive completion, bounded
  attempts, permanence of results and deletions, and idempotent submission; \<open>Job_Queries\<close> has complete
  paging, fair claims, literal search and the backlog gauges. The client loop over pages has fuel, and
  as many requests as there are rows and one more are proved enough.

  Table grids (\<open>crates/core/src/table/grid/cells.rs\<close>). \<open>Cell_Grid\<close> models every operation; \<open>Grid_Tiling\<close> shows
  that a grid is accepted exactly when its cells tile it and that every edit keeps this; \<open>Grid_Properties\<close>
  states it for any sequence of edits, with the exact effect of each edit.

  Table check (\<open>crates/core/src/table/validate.rs\<close>). \<open>Table_Check\<close> models it; \<open>Table_Properties\<close> shows that
  an accepted table tiles and conserves its text.

  Reading order (\<open>crates/core/src/fusion/order.rs\<close>), the whole file. \<open>Order_Graph\<close> models it; \<open>Order_Scc\<close> and
  \<open>Order_Cycles\<close> prove the two-pass search for cyclic components; \<open>Order_Removal\<close> and \<open>Order_Resolve\<close> the rounds
  that give up weak edges; \<open>Order_Kahn\<close> the sort over a ready set, with a priority queue locale;
  \<open>Order_Edges\<close> the edges that the rules make; \<open>Order_Properties\<close> has soundness, the exact errors, the
  greedy order that the output is, as the only list with its defining property, and the pages on which ordering must succeed. The depth-first passes, the rounds
  and the sort are functions with fuel equal to a bound of their work (stack pushes, edges, nodes), and the fuel
  is proved never to run out.

  Text no region owns (\<open>crates/core/src/fusion/fallback.rs\<close>). \<open>Line_Fragment\<close> has the fragments of a line;
  \<open>Xy_Cut\<close> models the recursive whitespace cut, whose depth is bounded by the source itself;
  \<open>Xy_Cut_Properties\<close> shows that its leaves partition the fragments and that no cut runs through text or a region.

  Lines (\<open>crates/core/src/line\<close>, the whole directory). \<open>Line_Metrics\<close>: direction,
  order and metrics of a fragment; \<open>Line_Scripts\<close>: subscripts and superscripts; \<open>Line_Assembly\<close>: bands, runs
  and gap closing; \<open>Line_Inline\<close>: fractions, limits and hanging glyphs as temporary atoms; \<open>Line_Formula\<close>: rows
  of detected formulas. \<open>Line_Bags\<close> follows the bag of items through assembly, with one locale for the two
  merging loops; \<open>Inline_Bags\<close> through atoms and their restoration; \<open>Line_Totality\<close> shows that upright text meets
  no error; \<open>Line_Properties\<close> states the results. The merging loops are total functions: each merge shortens the list.

  Regions and blocks. \<open>Polygon_Geometry\<close>: polygons and the measures taken of them (\<open>crates/layout/src/geometry.rs\<close>);
  \<open>Region_Assign\<close>: detections, seeds, scores and the choice of an owner (\<open>fusion/assign.rs\<close>, the whole file);
  \<open>Paragraphs\<close>, \<open>Semantic_Blocks\<close>: the blocks of regions, residual leaves, references and watermarks
  (\<open>semantic/mod.rs\<close>, \<open>semantic/paragraph.rs\<close>), with the printed form of a float in \<open>Float_Display\<close>;
  \<open>Block_Merge\<close>: merging contained blocks, gutters and aligned lists (\<open>semantic/normalize.rs\<close>, the whole file).
  \<open>Assign_Properties\<close> shows that every item gets one owner, the best there is; \<open>Semantic_Bags\<close> and \<open>Merge_Bags\<close>
  follow text, identifiers and totality through blocks and merges; \<open>Page_Body\<close> composes the stages as \<open>page.rs\<close> does
  and shows that a body holds the text of its page once, that upright pages meet no error, and that blocks have
  the form validation asks for; \<open>Page_Order\<close> joins the body to the reading order: after normalization a region has one
  block, so its strong constraints cannot contradict each other and every upright page is ordered. \<open>Residual_Text\<close>
  characterizes paragraphs by their boundaries and shows that detached watermarks keep their text. \<open>Merge_Gap\<close>
  describes the family of pages whose merged layout nests, which validation must refuse.

  Identifiers and text. \<open>Stable_Ids\<close>: every constructor and reader of identifiers, and the schema version.
  \<open>Block_Text\<close>: text axes (\<open>line/axes.rs\<close>), whitespace projection (\<open>line/projection.rs\<close>), the builder of block
  text and its streamed checker, which are proved to agree.

  Lists (\<open>crates/core/src/semantic/list.rs\<close>, the list check of \<open>validate.rs\<close>). \<open>List_Marker\<close>: markers and roman numerals;
  \<open>List_Recovery\<close>: confirmation of markers and the pass that builds items; \<open>List_Check\<close>: the final check;
  \<open>List_Layout\<close>: merging the blocks of a list. \<open>List_Nesting\<close>, \<open>List_Pass\<close>, \<open>List_Ranges\<close>, \<open>List_Slice\<close> and
  \<open>List_Emission\<close> prove, step by step, that what is recovered nests, that it passes the check, and that a merge
  keeps every line; \<open>List_Properties\<close> composes them and describes the lists that are lost.

  Validation (\<open>crates/core/src/validate.rs\<close>), the whole file. \<open>Validator\<close> models every check with its path and
  message; \<open>Validator_Spec\<close> proves that it decides a declarative specification, each loop over new identifiers
  being an instance of one locale; \<open>Validator_Properties\<close> draws the consequences for readers of a result, among
  them the composition with the table check.

  Parameters. What comes from outside the repository is an argument: the sine and cosine of an angle
  (\<open>trig\<close>), the Unicode letter test (\<open>alphabetic\<close>), the geometry crate (the record \<open>geo_ops\<close>; in the list merge and
  the validation, the one function they call), the matches of figures with seeds, SQL \<open>lower\<close>. No property assumes anything of them unless it says so.
  A \<open>usize\<close> has 64 bits; indices and counts are natural numbers, and every checked operation keeps its limit.

  Not modelled, and why. PDFium and its bindings, neural inference (layout, text, tables, formulas), async
  runtimes, process pools, HTTP, storage, logging and the browser front end are effects outside pure data.
  The heuristics that propose table grids, match formulas and repair extracted glyphs are pure and could be modelled
  next; so far only what is decided from their results is. In the records,
  fields that no modelled code reads are left out, as each theory says.
\<close>

end
